(* ===== verification/Prelude.thy ===== *)
theory Prelude
  imports
    Main
    "HOL-Library.Word"
    "HOL-Library.AList"
begin

text \<open>
  Shared vocabulary of the development: machine integers, byte strings, the string
  operations of Rust's standard library that the sources use, hash maps as association
  lists with distinct keys, fallible computations as sums, and stateful fallible
  computations as state-passing functions.  The generic facts the component theories
  share are proved here and collected in the named theorem lists below.
\<close>

named_theorems hmap_simps \<open>lookups and keys of the hash-map operations\<close>
named_theorems result_simps \<open>when a fallible computation succeeds\<close>
named_theorems io_rel_intros \<open>computations that respect a relation on states\<close>
named_theorems str_simps \<open>string slicing\<close>

section \<open>Machine integers and bytes\<close>

type_synonym u8 = "8 word"
type_synonym u32 = "32 word"
type_synonym u64 = "64 word"
type_synonym bytes = "u8 list"

definition sat_sub_u32 :: "u32 \<Rightarrow> u32 \<Rightarrow> u32" where
  "sat_sub_u32 a b = (if a \<le> b then 0 else a - b)"

definition sat_sub_u64 :: "u64 \<Rightarrow> u64 \<Rightarrow> u64" where
  "sat_sub_u64 a b = (if a \<le> b then 0 else a - b)"

definition sat_add_u64 :: "u64 \<Rightarrow> u64 \<Rightarrow> u64" where
  "sat_add_u64 a b = (if unat a + unat b < 2 ^ 64 then a + b else - 1)"

definition checked_add_u64 :: "u64 \<Rightarrow> u64 \<Rightarrow> u64 option" where
  "checked_add_u64 a b = (if unat a + unat b < 2 ^ 64 then Some (a + b) else None)"

definition checked_sub_u64 :: "u64 \<Rightarrow> u64 \<Rightarrow> u64 option" where
  "checked_sub_u64 a b = (if b \<le> a then Some (a - b) else None)"

text \<open>\<open>to_le_bytes\<close> and \<open>from_le_bytes\<close>: \<open>k\<close> bytes, least significant first.\<close>

fun le_bytes :: "nat \<Rightarrow> nat \<Rightarrow> bytes" where
  "le_bytes 0 n = []"
| "le_bytes (Suc k) n = of_nat (n mod 256) # le_bytes k (n div 256)"

fun le_value :: "bytes \<Rightarrow> nat" where
  "le_value [] = 0"
| "le_value (b # bs) = unat b + 256 * le_value bs"

definition u32_to_le_bytes :: "u32 \<Rightarrow> bytes" where
  "u32_to_le_bytes w = le_bytes 4 (unat w)"

definition u32_from_le_bytes :: "bytes \<Rightarrow> u32" where
  "u32_from_le_bytes bs = of_nat (le_value bs)"

definition u64_to_le_bytes :: "u64 \<Rightarrow> bytes" where
  "u64_to_le_bytes w = le_bytes 8 (unat w)"

definition u64_from_le_bytes :: "bytes \<Rightarrow> u64" where
  "u64_from_le_bytes bs = of_nat (le_value bs)"

section \<open>Strings\<close>

definition starts_with :: "string \<Rightarrow> string \<Rightarrow> bool" where
  "starts_with s p \<longleftrightarrow> take (length p) s = p"

definition ends_with :: "string \<Rightarrow> string \<Rightarrow> bool" where
  "ends_with s p \<longleftrightarrow> length p \<le> length s \<and> drop (length s - length p) s = p"

definition strip_prefix_str :: "string \<Rightarrow> string \<Rightarrow> string option" where
  "strip_prefix_str s p = (if starts_with s p then Some (drop (length p) s) else None)"

definition strip_suffix_str :: "string \<Rightarrow> string \<Rightarrow> string option" where
  "strip_suffix_str s p = (if ends_with s p then Some (take (length s - length p) s) else None)"

text \<open>\<open>str::split(c)\<close>: always at least one piece.\<close>

fun split_on :: "char \<Rightarrow> string \<Rightarrow> string list" where
  "split_on c [] = [[]]"
| "split_on c (x # xs) =
     (if x = c then [] # split_on c xs
      else (case split_on c xs of [] \<Rightarrow> [[x]] | p # ps \<Rightarrow> (x # p) # ps))"

definition trim_start_char :: "char \<Rightarrow> string \<Rightarrow> string" where
  "trim_start_char c s = dropWhile (\<lambda>x. x = c) s"

definition trim_end_char :: "char \<Rightarrow> string \<Rightarrow> string" where
  "trim_end_char c s = rev (dropWhile (\<lambda>x. x = c) (rev s))"

definition trim_matches_char :: "char \<Rightarrow> string \<Rightarrow> string" where
  "trim_matches_char c s = trim_end_char c (trim_start_char c s)"

definition is_ascii_digit :: "char \<Rightarrow> bool" where
  "is_ascii_digit c \<longleftrightarrow> 48 \<le> (of_char c :: nat) \<and> (of_char c :: nat) \<le> 57"

definition is_ascii_hexdigit :: "char \<Rightarrow> bool" where
  "is_ascii_hexdigit c \<longleftrightarrow> is_ascii_digit c
     \<or> (65 \<le> (of_char c :: nat) \<and> (of_char c :: nat) \<le> 70)
     \<or> (97 \<le> (of_char c :: nat) \<and> (of_char c :: nat) \<le> 102)"

definition to_ascii_lowercase :: "char \<Rightarrow> char" where
  "to_ascii_lowercase c =
     (if 65 \<le> (of_char c :: nat) \<and> (of_char c :: nat) \<le> 90
      then char_of ((of_char c :: nat) + 32) else c)"

definition eq_ignore_ascii_case :: "string \<Rightarrow> string \<Rightarrow> bool" where
  "eq_ignore_ascii_case a b \<longleftrightarrow> map to_ascii_lowercase a = map to_ascii_lowercase b"

text \<open>Decimal formatting, as \<open>{}\<close> prints an unsigned integer.\<close>

fun show_nat :: "nat \<Rightarrow> string" where
  "show_nat n = (if n < 10 then [char_of (48 + n)]
                 else show_nat (n div 10) @ [char_of (48 + n mod 10)])"

declare show_nat.simps [simp del]

definition show_int :: "int \<Rightarrow> string" where
  "show_int i = (if i < 0 then ''-'' @ show_nat (nat (- i)) else show_nat (nat i))"

text \<open>Zero padding, as \<open>{:020}\<close>.\<close>

definition pad_zeros :: "nat \<Rightarrow> string \<Rightarrow> string" where
  "pad_zeros w s = replicate (w - length s) (CHR ''0'') @ s"

section \<open>Hash maps\<close>

text \<open>
  A \<open>HashMap\<close> is an association list with distinct keys.  The order of the list is the
  (unspecified) iteration order of the map, so a statement about a loop over a map that
  holds for every such list holds for every iteration order.
\<close>

type_synonym ('k, 'v) hmap = "('k \<times> 'v) list"

definition hm_wf :: "('k, 'v) hmap \<Rightarrow> bool" where
  "hm_wf m \<longleftrightarrow> distinct (map fst m)"

definition hm_insert :: "'k \<Rightarrow> 'v \<Rightarrow> ('k, 'v) hmap \<Rightarrow> ('k, 'v) hmap" where
  "hm_insert k v m = AList.update k v m"

definition hm_remove :: "'k \<Rightarrow> ('k, 'v) hmap \<Rightarrow> ('k, 'v) hmap" where
  "hm_remove k m = filter (\<lambda>p. fst p \<noteq> k) m"

definition hm_retain :: "('k \<Rightarrow> 'v \<Rightarrow> bool) \<Rightarrow> ('k, 'v) hmap \<Rightarrow> ('k, 'v) hmap" where
  "hm_retain P m = filter (\<lambda>p. P (fst p) (snd p)) m"

definition hm_contains :: "('k, 'v) hmap \<Rightarrow> 'k \<Rightarrow> bool" where
  "hm_contains m k \<longleftrightarrow> map_of m k \<noteq> None"

text \<open>\<open>collect()\<close> into a map: a later pair with the same key replaces the earlier one.\<close>

definition hm_collect :: "('k \<times> 'v) list \<Rightarrow> ('k, 'v) hmap" where
  "hm_collect ps = fold (\<lambda>(k, v) m. hm_insert k v m) ps []"

section \<open>Fallible and stateful computations\<close>

text \<open>The \<open>?\<close> operator on a \<open>Result\<close>.\<close>

definition rbind :: "'e + 'a \<Rightarrow> ('a \<Rightarrow> 'e + 'b) \<Rightarrow> 'e + 'b" where
  "rbind r f = (case r of Inl e \<Rightarrow> Inl e | Inr a \<Rightarrow> f a)"

definition ok_or :: "'a option \<Rightarrow> 'e \<Rightarrow> 'e + 'a" where
  "ok_or x e = (case x of None \<Rightarrow> Inl e | Some a \<Rightarrow> Inr a)"

text \<open>
  A call on external state of type \<open>'s\<close>: it returns its result and the state after it,
  also when it fails.
\<close>

type_synonym ('s, 'e, 'a) io = "'s \<Rightarrow> ('e + 'a) \<times> 's"

definition io_return :: "'a \<Rightarrow> ('s, 'e, 'a) io" where
  "io_return a s = (Inr a, s)"

definition io_fail :: "'e \<Rightarrow> ('s, 'e, 'a) io" where
  "io_fail e s = (Inl e, s)"

definition io_bind :: "('s, 'e, 'a) io \<Rightarrow> ('a \<Rightarrow> ('s, 'e, 'b) io) \<Rightarrow> ('s, 'e, 'b) io" where
  "io_bind m f s = (case m s of (Inl e, s') \<Rightarrow> (Inl e, s') | (Inr a, s') \<Rightarrow> f a s')"

text \<open>\<open>let _ = m;\<close> and \<open>if let Ok(..) = m\<close>: the error is a value.\<close>

definition io_try :: "('s, 'e, 'a) io \<Rightarrow> ('s, 'f, 'e + 'a) io" where
  "io_try m s = (case m s of (r, s') \<Rightarrow> (Inr r, s'))"

fun io_for :: "'a list \<Rightarrow> ('a \<Rightarrow> ('s, 'e, unit) io) \<Rightarrow> ('s, 'e, unit) io" where
  "io_for [] f = io_return ()"
| "io_for (x # xs) f = io_bind (f x) (\<lambda>_. io_for xs f)"

section \<open>Generic lemmas\<close>

lemma length_le_bytes [simp]: "length (le_bytes k n) = k"
  by (induction k arbitrary: n) auto

lemma le_value_le_bytes: "le_value (le_bytes k n) = n mod 256 ^ k"
proof (induction k arbitrary: n)
  case 0
  then show ?case by simp
next
  case (Suc k)
  have "unat (of_nat (n mod 256) :: u8) = n mod 256"
    by (simp add: unat_of_nat)
  then have "le_value (le_bytes (Suc k) n) = n mod 256 + 256 * (n div 256 mod 256 ^ k)"
    by (simp add: Suc.IH)
  also have "\<dots> = n mod (256 * 256 ^ k)"
    by (simp add: mod_mult2_eq)
  finally show ?case by simp
qed

lemma le_value_bound: "le_value bs < 256 ^ length bs"
proof (induction bs)
  case Nil
  then show ?case by simp
next
  case (Cons b bs)
  have "unat b < 256" using unsigned_less [of b] by simp
  moreover have "256 * le_value bs + 256 \<le> 256 * 256 ^ length bs"
    using Cons.IH by simp
  ultimately show ?case by simp
qed

lemma le_bytes_le_value: "le_bytes (length bs) (le_value bs) = bs"
proof (induction bs)
  case Nil
  then show ?case by simp
next
  case (Cons b bs)
  have b: "unat b < 256" using unsigned_less [of b] by simp
  then have "(unat b + 256 * le_value bs) mod 256 = unat b"
    by (simp add: mod_add_eq)
  moreover have "(unat b + 256 * le_value bs) div 256 = le_value bs"
    using b by simp
  ultimately show ?case using Cons.IH by simp
qed

lemma unat_of_nat_u32 [simp]: "n < 2 ^ 32 \<Longrightarrow> unat (of_nat n :: u32) = n"
  by (simp add: unat_of_nat take_bit_eq_mod)

lemma unat_of_nat_u64 [simp]: "n < 2 ^ 64 \<Longrightarrow> unat (of_nat n :: u64) = n"
  by (simp add: unat_of_nat take_bit_eq_mod)

lemma length_u32_to_le_bytes [simp]: "length (u32_to_le_bytes w) = 4"
  by (simp add: u32_to_le_bytes_def)

lemma u32_le_bytes_roundtrip [simp]: "u32_from_le_bytes (u32_to_le_bytes w) = w"
proof -
  have "unat w < 256 ^ 4" using unsigned_less [of w] by simp
  then show ?thesis
    by (simp add: u32_from_le_bytes_def u32_to_le_bytes_def le_value_le_bytes)
qed

lemma u32_to_le_bytes_inverse:
  assumes "length bs = 4"
  shows "u32_to_le_bytes (u32_from_le_bytes bs) = bs"
proof -
  have "le_value bs < 2 ^ 32" using le_value_bound [of bs] assms by simp
  then have "unat (of_nat (le_value bs) :: u32) = le_value bs"
    by (simp add: unat_of_nat)
  then show ?thesis
    using le_bytes_le_value [of bs] assms
    by (simp add: u32_from_le_bytes_def u32_to_le_bytes_def)
qed

lemma length_u64_to_le_bytes [simp]: "length (u64_to_le_bytes w) = 8"
  by (simp add: u64_to_le_bytes_def)

lemma u64_le_bytes_roundtrip [simp]: "u64_from_le_bytes (u64_to_le_bytes w) = w"
proof -
  have "unat w < 256 ^ 8" using unsigned_less [of w] by simp
  then show ?thesis
    by (simp add: u64_from_le_bytes_def u64_to_le_bytes_def le_value_le_bytes)
qed

lemma starts_with_append [simp, str_simps]: "starts_with (p @ s) p"
  by (simp add: starts_with_def)

lemma starts_with_iff: "starts_with s p \<longleftrightarrow> (\<exists>t. s = p @ t)"
  unfolding starts_with_def by (metis append_take_drop_id append_eq_conv_conj)

lemma ends_with_append [simp, str_simps]: "ends_with (s @ p) p"
  by (simp add: ends_with_def)

lemma ends_with_iff: "ends_with s p \<longleftrightarrow> (\<exists>t. s = t @ p)"
proof
  assume "ends_with s p"
  then have "s = take (length s - length p) s @ p"
    by (metis append_take_drop_id ends_with_def)
  then show "\<exists>t. s = t @ p" by blast
qed auto

lemma strip_prefix_append [simp, str_simps]: "strip_prefix_str (p @ s) p = Some s"
  by (simp add: strip_prefix_str_def)

lemma strip_prefix_Some_iff: "strip_prefix_str s p = Some t \<longleftrightarrow> s = p @ t"
  by (auto simp: strip_prefix_str_def starts_with_iff)

lemma strip_suffix_append [simp, str_simps]: "strip_suffix_str (s @ p) p = Some s"
  by (simp add: strip_suffix_str_def)

lemma strip_suffix_Some_iff: "strip_suffix_str s p = Some t \<longleftrightarrow> s = t @ p"
  by (auto simp: strip_suffix_str_def ends_with_iff)

lemma split_on_not_Nil [simp]: "split_on c s \<noteq> []"
  by (induction s) (auto split: list.splits)

lemma split_on_append_sep:
  "c \<notin> set a \<Longrightarrow> split_on c (a @ c # b) = a # split_on c b"
  by (induction a) (auto split: list.splits)

lemma split_on_no_sep: "c \<notin> set a \<Longrightarrow> split_on c a = [a]"
  by (induction a) auto

lemma list_all2_in_set: "list_all2 P xs ys \<Longrightarrow> x \<in> set xs \<Longrightarrow> \<exists>y \<in> set ys. P x y"
  by (metis in_set_conv_nth list_all2_conv_all_nth)

lemma hm_wf_Nil [simp]: "hm_wf []"
  by (simp add: hm_wf_def)

lemma hm_get_insert [simp, hmap_simps]: "map_of (hm_insert k v m) = (map_of m)(k \<mapsto> v)"
  by (simp add: hm_insert_def update_conv')

lemma hm_get_remove [simp, hmap_simps]: "map_of (hm_remove k m) = (map_of m)(k := None)"
  by (induction m) (auto simp: hm_remove_def)

lemma hm_wf_insert [simp, intro]: "hm_wf m \<Longrightarrow> hm_wf (hm_insert k v m)"
  by (simp add: hm_wf_def hm_insert_def distinct_update)

lemma hm_wf_remove [simp, intro]: "hm_wf m \<Longrightarrow> hm_wf (hm_remove k m)"
  by (simp add: hm_wf_def hm_remove_def distinct_map_filter)

lemma hm_wf_retain [simp, intro]: "hm_wf m \<Longrightarrow> hm_wf (hm_retain P m)"
  by (simp add: hm_wf_def hm_retain_def distinct_map_filter)

lemma hm_get_retain [hmap_simps]:
  "hm_wf m \<Longrightarrow> map_of (hm_retain P m) k =
     (case map_of m k of None \<Rightarrow> None | Some v \<Rightarrow> if P k v then Some v else None)"
proof (induction m)
  case Nil
  then show ?case by (simp add: hm_retain_def)
next
  case (Cons p m)
  then have "hm_wf m" and "fst p \<notin> set (map fst m)" by (auto simp: hm_wf_def)
  then have "map_of m (fst p) = None" by (simp add: map_of_eq_None_iff)
  with Cons.IH [OF \<open>hm_wf m\<close>] show ?case
    by (cases p) (auto simp: hm_retain_def)
qed

lemma hm_contains_iff [hmap_simps]: "hm_contains m k \<longleftrightarrow> k \<in> fst ` set m"
  by (auto simp: hm_contains_def map_of_eq_None_iff dom_map_of_conv_image_fst)

lemma hm_wf_collect_aux: "hm_wf m \<Longrightarrow> hm_wf (fold (\<lambda>(k, v) m. hm_insert k v m) ps m)"
  by (induction ps arbitrary: m) auto

lemma hm_wf_collect [simp, intro]: "hm_wf (hm_collect ps)"
  by (simp add: hm_collect_def hm_wf_collect_aux)

lemma hm_get_collect_aux:
  "map_of (fold (\<lambda>(k, v) m. hm_insert k v m) ps m) = map_of m ++ map_of (rev ps)"
proof (induction ps arbitrary: m)
  case Nil
  then show ?case by simp
next
  case (Cons p ps)
  then show ?case
    by (cases p) (auto simp: fun_eq_iff map_add_def split: option.splits)
qed

lemma hm_get_collect [hmap_simps]: "map_of (hm_collect ps) = map_of (rev ps)"
  by (simp add: hm_collect_def hm_get_collect_aux)

lemma map_of_rev_distinct: "distinct (map fst ps) \<Longrightarrow> map_of (rev ps) = map_of ps"
  by (metis distinct_rev map_of_inject_set rev_map set_rev)

lemma rbind_simps [simp]:
  "rbind (Inl e) f = Inl e"
  "rbind (Inr a) f = f a"
  by (simp_all add: rbind_def)

lemma rbind_Inr_iff [result_simps]: "rbind r f = Inr b \<longleftrightarrow> (\<exists>a. r = Inr a \<and> f a = Inr b)"
  by (cases r) auto

lemma case_sum_Inr_iff [result_simps]:
  "(case x of Inl e \<Rightarrow> Inl (f e) | Inr v \<Rightarrow> g v) = Inr y \<longleftrightarrow> (\<exists>v. x = Inr v \<and> g v = Inr y)"
  by (cases x) auto

lemma case_option_Inr_iff [result_simps]:
  "(case x of None \<Rightarrow> Inl e | Some v \<Rightarrow> g v) = Inr y \<longleftrightarrow> (\<exists>v. x = Some v \<and> g v = Inr y)"
  "(case x of None \<Rightarrow> g' | Some v \<Rightarrow> Inl (f v)) = Inr y \<longleftrightarrow> x = None \<and> g' = Inr y"
  by (cases x; auto)+

lemma if_Inr_iff [result_simps]:
  "(if P then Inl e else r) = Inr y \<longleftrightarrow> \<not> P \<and> r = Inr y"
  "(if P then r else Inl e) = Inr y \<longleftrightarrow> P \<and> r = Inr y"
  by auto

lemma ok_or_simps [simp]:
  "ok_or None e = Inl e"
  "ok_or (Some a) e = Inr a"
  by (simp_all add: ok_or_def)

lemma io_bind_return [simp]: "io_bind (io_return a) f = f a"
  by (simp add: io_bind_def io_return_def fun_eq_iff)

lemma io_bind_fail [simp]: "io_bind (io_fail e) f = io_fail e"
  by (simp add: io_bind_def io_fail_def fun_eq_iff)

lemma io_bind_Inr_iff:
  "io_bind m f s = (Inr b, s'') \<longleftrightarrow> (\<exists>a s'. m s = (Inr a, s') \<and> f a s' = (Inr b, s''))"
  by (auto simp: io_bind_def split: prod.splits sum.splits)

lemma io_bind_Inl_iff:
  "io_bind m f s = (Inl e, s'') \<longleftrightarrow>
     m s = (Inl e, s'') \<or> (\<exists>a s'. m s = (Inr a, s') \<and> f a s' = (Inl e, s''))"
  by (auto simp: io_bind_def split: prod.splits sum.splits)

lemma io_bind_cases:
  assumes "io_bind m f s = (r, s'')"
  obtains (fail) e where "m s = (Inl e, s'')" and "r = Inl e"
  | (ok) a s' where "m s = (Inr a, s')" and "f a s' = (r, s'')"
  using assms by (auto simp: io_bind_def split: prod.splits sum.splits)

lemma io_try_iff: "io_try m s = (r, s') \<longleftrightarrow> (\<exists>q. r = Inr q \<and> m s = (q, s'))"
  by (auto simp: io_try_def split: prod.splits)

lemma io_discard_iff:
  "io_bind (io_try m) (\<lambda>_. f) s = (r, s'') \<longleftrightarrow> (\<exists>q s'. m s = (q, s') \<and> f s' = (r, s''))"
  by (auto simp: io_bind_def io_try_def split: prod.splits)

text \<open>A loop stays within a reflexive and transitive relation that every pass respects.\<close>

lemma io_for_rel:
  assumes "\<And>s. R s s" and "\<And>s t u. R s t \<Longrightarrow> R t u \<Longrightarrow> R s u"
    and "\<And>x s r s'. x \<in> set xs \<Longrightarrow> f x s = (r, s') \<Longrightarrow> R s s'"
    and "io_for xs f s = (r, s')"
  shows "R s s'"
  using assms(3,4)
proof (induction xs arbitrary: s)
  case Nil
  then show ?case using assms(1) by (simp add: io_return_def)
next
  case (Cons x xs)
  from Cons.prems(2) have "io_bind (f x) (\<lambda>_. io_for xs f) s = (r, s')" by simp
  then show ?case
  proof (cases rule: io_bind_cases)
    case (fail e)
    then show ?thesis using Cons.prems(1) [OF list.set_intros(1)] by blast
  next
    case (ok a s1)
    have "R s s1" using ok(1) Cons.prems(1) [OF list.set_intros(1)] by blast
    moreover have "R s1 s'"
      using Cons.IH [OF _ ok(2)] Cons.prems(1) [OF list.set_intros(2)] by blast
    ultimately show ?thesis by (rule assms(2))
  qed
qed

text \<open>Computations that move the state only along a relation, on every outcome.\<close>

definition io_rel :: "('s \<Rightarrow> 's \<Rightarrow> bool) \<Rightarrow> ('s, 'e, 'a) io \<Rightarrow> bool" where
  "io_rel R m \<longleftrightarrow> (\<forall>s r s'. m s = (r, s') \<longrightarrow> R s s')"

lemma io_relI: "(\<And>s r s'. m s = (r, s') \<Longrightarrow> R s s') \<Longrightarrow> io_rel R m"
  by (simp add: io_rel_def)

lemma io_relD: "io_rel R m \<Longrightarrow> m s = (r, s') \<Longrightarrow> R s s'"
  by (simp add: io_rel_def)

lemma io_rel_return [io_rel_intros]: "reflp R \<Longrightarrow> io_rel R (io_return a)"
  by (auto simp: io_rel_def io_return_def reflpD)

lemma io_rel_fail [io_rel_intros]: "reflp R \<Longrightarrow> io_rel R (io_fail e)"
  by (auto simp: io_rel_def io_fail_def reflpD)

lemma io_rel_bind [io_rel_intros]:
  "transp R \<Longrightarrow> io_rel R m \<Longrightarrow> (\<And>a. io_rel R (f a)) \<Longrightarrow> io_rel R (io_bind m f)"
  unfolding io_rel_def by (blast elim!: io_bind_cases dest: transpD)

lemma io_rel_try [io_rel_intros]: "io_rel R m \<Longrightarrow> io_rel R (io_try m)"
  by (auto simp: io_rel_def io_try_iff)

lemma io_rel_if [io_rel_intros]:
  "(P \<Longrightarrow> io_rel R m) \<Longrightarrow> (\<not> P \<Longrightarrow> io_rel R m') \<Longrightarrow> io_rel R (if P then m else m')"
  by simp

lemma io_rel_for [io_rel_intros]:
  "reflp R \<Longrightarrow> transp R \<Longrightarrow> (\<And>x. x \<in> set xs \<Longrightarrow> io_rel R (f x)) \<Longrightarrow> io_rel R (io_for xs f)"
  by (induction xs) (auto intro: io_rel_intros)

lemma io_rel_option [io_rel_intros]:
  "(x = None \<Longrightarrow> io_rel R m) \<Longrightarrow> (\<And>a. x = Some a \<Longrightarrow> io_rel R (f a)) \<Longrightarrow>
   io_rel R (case x of None \<Rightarrow> m | Some a \<Rightarrow> f a)"
  by (cases x) auto

lemma io_rel_sum [io_rel_intros]:
  "(\<And>e. x = Inl e \<Longrightarrow> io_rel R (g e)) \<Longrightarrow> (\<And>a. x = Inr a \<Longrightarrow> io_rel R (f a)) \<Longrightarrow>
   io_rel R (case x of Inl e \<Rightarrow> g e | Inr a \<Rightarrow> f a)"
  by (cases x) auto

end
