(* ===== verification/Types.thy ===== *)
theory Types
  imports Prelude
begin

text \<open>
  The crate \<open>vykar-types\<close>: the error type every fallible operation returns and the
  32-byte identifiers of chunks, packs and snapshots with their textual forms.

  The \<open>hex\<close> and \<open>blake2\<close> crates are parameters (\<open>hex_lib\<close>, \<open>blake2_lib\<close>).  The locale
  \<open>hex_codec\<close> states what the code relies on: encoding yields two hex digits per byte and
  decoding inverts it.  \<open>lower_hex\<close> is the documented lower-case encoding and satisfies
  the locale.
\<close>

section \<open>Errors (error.rs)\<close>

datatype io_error_kind =
    PermissionDenied | NotFound | ConnectionReset | ConnectionAborted | BrokenPipe
  | UnexpectedEof | TimedOut | Interrupted | OtherIoKind nat

datatype io_error = IoError (io_kind: io_error_kind) (raw_os_error: "int option")

datatype chunk_id = ChunkId (chunk_bytes: bytes)
datatype pack_id = PackId (pack_bytes: bytes)
datatype snapshot_id = SnapshotId (snapshot_bytes: bytes)

text \<open>
  The variants of \<open>VykarError\<close>, and \<open>Panicked\<close> for a Rust panic (\<open>expect\<close>, an index out of
  range): it is no variant of the source, and no operation of the source handles it.
\<close>

datatype vykar_error =
    Storage string
  | RepoNotFound string
  | RepoAlreadyExists string
  | DecryptionFailed
  | KeyDerivation string
  | SnapshotNotFound string
  | SnapshotAlreadyExists string
  | InvalidFormat string
  | UnknownObjectType u8
  | UnknownCompressionTag u8
  | UnsupportedVersion u32
  | Serialization string
  | Deserialization string
  | Config string
  | UnsupportedBackend string
  | Io io_error
  | Locked string
  | ChunkNotInIndex chunk_id
  | Decompression string
  | Hook string
  | Interrupted
  | ActiveSessions "string list"
  | StaleChunksDuringCommit
  | LockExpired string
  | RepositoryMismatch string
  | Other string
  | Panicked string

type_synonym 'a result = "vykar_error + 'a"

definition is_eio :: "io_error \<Rightarrow> bool" where
  "is_eio e \<longleftrightarrow> raw_os_error e = Some 5"

definition is_soft_file_error :: "vykar_error \<Rightarrow> bool" where
  "is_soft_file_error err =
     (case err of
        Io e \<Rightarrow> io_kind e = PermissionDenied \<or> io_kind e = NotFound \<or> is_eio e
      | _ \<Rightarrow> False)"

section \<open>External libraries\<close>

record hex_lib =
  hex_encode :: "bytes \<Rightarrow> string"
  hex_decode :: "string \<Rightarrow> string + bytes"

record blake2_lib =
  blake2b_256 :: "bytes \<Rightarrow> bytes"
  blake2b_mac_256 :: "bytes \<Rightarrow> bytes \<Rightarrow> bytes"

locale hex_codec =
  fixes hx :: hex_lib
  assumes hex_roundtrip: "hex_decode hx (hex_encode hx bs) = Inr bs"
    and hex_length: "length (hex_encode hx bs) = 2 * length bs"
    and hex_digits: "c \<in> set (hex_encode hx bs) \<Longrightarrow> is_ascii_hexdigit c"
begin

lemma slash_not_in_hex: "CHR ''/'' \<notin> set (hex_encode hx bs)"
proof
  assume "CHR ''/'' \<in> set (hex_encode hx bs)"
  then have "is_ascii_hexdigit (CHR ''/'')" by (rule hex_digits)
  then show False by (simp add: is_ascii_hexdigit_def is_ascii_digit_def)
qed

lemma hex_inject: "hex_encode hx a = hex_encode hx b \<longleftrightarrow> a = b"
  by (metis hex_roundtrip sum.inject(2))

end

definition hex_digit :: "nat \<Rightarrow> char" where
  "hex_digit n = char_of (if n < 10 then 48 + n else 87 + n)"

definition hex_value :: "char \<Rightarrow> nat option" where
  "hex_value c =
     (let n = (of_char c :: nat) in
      if 48 \<le> n \<and> n \<le> 57 then Some (n - 48)
      else if 97 \<le> n \<and> n \<le> 102 then Some (n - 87)
      else if 65 \<le> n \<and> n \<le> 70 then Some (n - 55) else None)"

fun lower_hex_encode :: "bytes \<Rightarrow> string" where
  "lower_hex_encode [] = []"
| "lower_hex_encode (b # bs) =
     hex_digit (unat b div 16) # hex_digit (unat b mod 16) # lower_hex_encode bs"

fun lower_hex_decode :: "string \<Rightarrow> string + bytes" where
  "lower_hex_decode [] = Inr []"
| "lower_hex_decode [c] = Inl ''Odd number of digits''"
| "lower_hex_decode (c # d # cs) =
     (case (hex_value c, hex_value d) of
        (Some h, Some l) \<Rightarrow> rbind (lower_hex_decode cs) (\<lambda>bs. Inr (of_nat (16 * h + l) # bs))
      | _ \<Rightarrow> Inl ''Invalid character'')"

definition lower_hex :: hex_lib where
  "lower_hex = \<lparr>hex_encode = lower_hex_encode, hex_decode = lower_hex_decode\<rparr>"

section \<open>Chunk identifiers (chunk\_id.rs)\<close>

definition chunk_id_compute :: "blake2_lib \<Rightarrow> bytes \<Rightarrow> bytes \<Rightarrow> chunk_id" where
  "chunk_id_compute b2 key data = ChunkId (blake2b_mac_256 b2 key data)"

definition chunk_id_to_hex :: "hex_lib \<Rightarrow> chunk_id \<Rightarrow> string" where
  "chunk_id_to_hex hx c = hex_encode hx (chunk_bytes c)"

definition chunk_id_shard_prefix :: "hex_lib \<Rightarrow> chunk_id \<Rightarrow> string" where
  "chunk_id_shard_prefix hx c = hex_encode hx (take 1 (chunk_bytes c))"

definition chunk_id_display :: "hex_lib \<Rightarrow> chunk_id \<Rightarrow> string" where
  "chunk_id_display hx c = take 16 (chunk_id_to_hex hx c)"

section \<open>Pack identifiers (pack\_id.rs)\<close>

definition pack_id_compute :: "blake2_lib \<Rightarrow> bytes \<Rightarrow> pack_id" where
  "pack_id_compute b2 data = PackId (blake2b_256 b2 data)"

definition pack_id_to_hex :: "hex_lib \<Rightarrow> pack_id \<Rightarrow> string" where
  "pack_id_to_hex hx p = hex_encode hx (pack_bytes p)"

definition pack_id_shard_prefix :: "hex_lib \<Rightarrow> pack_id \<Rightarrow> string" where
  "pack_id_shard_prefix hx p = hex_encode hx (take 1 (pack_bytes p))"

definition pack_storage_key :: "hex_lib \<Rightarrow> pack_id \<Rightarrow> string" where
  "pack_storage_key hx p =
     ''packs/'' @ pack_id_shard_prefix hx p @ ''/'' @ pack_id_to_hex hx p"

definition pack_id_from_hex :: "hex_lib \<Rightarrow> string \<Rightarrow> string + pack_id" where
  "pack_id_from_hex hx s =
     (case hex_decode hx s of
        Inl e \<Rightarrow> Inl (''invalid hex: '' @ e)
      | Inr bs \<Rightarrow>
          if length bs \<noteq> 32
          then Inl (''expected 32 bytes, got '' @ show_nat (length bs))
          else Inr (PackId bs))"

definition pack_id_from_storage_key :: "hex_lib \<Rightarrow> string \<Rightarrow> string + pack_id" where
  "pack_id_from_storage_key hx key =
     rbind (ok_or (case rev (split_on (CHR ''/'') key) of [] \<Rightarrow> None | p # _ \<Rightarrow> Some p)
              ''empty storage key'')
       (pack_id_from_hex hx)"

definition pack_id_display :: "hex_lib \<Rightarrow> pack_id \<Rightarrow> string" where
  "pack_id_display hx p = take 16 (pack_id_to_hex hx p)"

section \<open>Snapshot identifiers (snapshot\_id.rs)\<close>

text \<open>\<open>generate\<close> fills the 32 bytes from the random generator; they are an argument.\<close>

definition snapshot_id_generate :: "bytes \<Rightarrow> snapshot_id" where
  "snapshot_id_generate rnd = SnapshotId rnd"

definition snapshot_id_to_hex :: "hex_lib \<Rightarrow> snapshot_id \<Rightarrow> string" where
  "snapshot_id_to_hex hx i = hex_encode hx (snapshot_bytes i)"

definition snapshot_storage_key :: "hex_lib \<Rightarrow> snapshot_id \<Rightarrow> string" where
  "snapshot_storage_key hx i = ''snapshots/'' @ snapshot_id_to_hex hx i"

definition snapshot_id_from_hex :: "hex_lib \<Rightarrow> string \<Rightarrow> string + snapshot_id" where
  "snapshot_id_from_hex hx s =
     (case hex_decode hx s of
        Inl e \<Rightarrow> Inl (''invalid hex: '' @ e)
      | Inr bs \<Rightarrow>
          if length bs \<noteq> 32
          then Inl (''expected 32 bytes, got '' @ show_nat (length bs))
          else Inr (SnapshotId bs))"

text \<open>The Rust arrays \<open>[u8; 32]\<close>: every identifier the code builds has 32 bytes.\<close>

definition wf_pack_id :: "pack_id \<Rightarrow> bool" where
  "wf_pack_id p \<longleftrightarrow> length (pack_bytes p) = 32"

definition wf_chunk_id :: "chunk_id \<Rightarrow> bool" where
  "wf_chunk_id c \<longleftrightarrow> length (chunk_bytes c) = 32"

definition wf_snapshot_id :: "snapshot_id \<Rightarrow> bool" where
  "wf_snapshot_id i \<longleftrightarrow> length (snapshot_bytes i) = 32"

section \<open>Lemmas\<close>

lemma hex_digit_code:
  "n < 16 \<Longrightarrow> (of_char (hex_digit n) :: nat) = (if n < 10 then 48 + n else 87 + n)"
  by (simp add: hex_digit_def)

lemma hex_value_digit: "n < 16 \<Longrightarrow> hex_value (hex_digit n) = Some n"
  by (auto simp: hex_value_def hex_digit_code Let_def)

lemma hex_digit_is_hexdigit: "n < 16 \<Longrightarrow> is_ascii_hexdigit (hex_digit n)"
  by (auto simp: is_ascii_hexdigit_def is_ascii_digit_def hex_digit_code)

lemma nibble_bounds: "unat (b :: u8) div 16 < 16" "unat b mod 16 < 16"
  using unsigned_less [of b, where ?'a = nat] by simp_all

interpretation lower_hex: hex_codec lower_hex
proof
  fix bs :: bytes
  show "hex_decode lower_hex (hex_encode lower_hex bs) = Inr bs"
    by (induction bs) (simp_all add: lower_hex_def hex_value_digit nibble_bounds)
  show "length (hex_encode lower_hex bs) = 2 * length bs"
    by (induction bs) (simp_all add: lower_hex_def)
  show "is_ascii_hexdigit c" if "c \<in> set (hex_encode lower_hex bs)" for c
    using that
    by (induction bs) (auto simp: lower_hex_def hex_digit_is_hexdigit nibble_bounds)
qed

lemma packs_prefix_no_slash: "CHR ''/'' \<notin> set ''packs''"
  by simp

context hex_codec
begin

lemma split_pack_storage_key:
  "split_on (CHR ''/'') (pack_storage_key hx p) =
     [''packs'', pack_id_shard_prefix hx p, pack_id_to_hex hx p]"
proof -
  have k: "pack_storage_key hx p = ''packs'' @ CHR ''/'' #
      (pack_id_shard_prefix hx p @ CHR ''/'' # pack_id_to_hex hx p)"
    by (simp add: pack_storage_key_def)
  show ?thesis
    unfolding k
    by (subst split_on_append_sep [OF packs_prefix_no_slash],
        subst split_on_append_sep)
       (simp_all add: pack_id_shard_prefix_def pack_id_to_hex_def slash_not_in_hex
          split_on_no_sep)
qed

lemma pack_from_storage_key:
  "wf_pack_id p \<Longrightarrow> pack_id_from_storage_key hx (pack_storage_key hx p) = Inr p"
  by (cases p)
     (simp add: pack_id_from_storage_key_def split_pack_storage_key pack_id_to_hex_def
        pack_id_from_hex_def hex_roundtrip wf_pack_id_def)

lemma pack_storage_key_inject: "pack_storage_key hx p = pack_storage_key hx q \<longleftrightarrow> p = q"
proof
  assume "pack_storage_key hx p = pack_storage_key hx q"
  then have "pack_id_to_hex hx p = pack_id_to_hex hx q"
    by (metis list.inject split_pack_storage_key)
  then show "p = q"
    by (metis hex_inject pack_id.expand pack_id_to_hex_def)
qed simp

end

lemma pack_id_from_hex_wf: "pack_id_from_hex hx s = Inr p \<Longrightarrow> wf_pack_id p"
  by (auto simp: pack_id_from_hex_def wf_pack_id_def split: sum.splits if_splits)

end
