(* ===== verification/Crypto.thy ===== *)
theory Crypto
  imports Types
begin

text \<open>
  The crate \<open>vykar-crypto\<close>: the trait \<open>CryptoEngine\<close> as a record of operations with the
  plaintext engine (\<open>lib.rs\<close>) and the two authenticated ciphers (\<open>aes_gcm.rs\<close>,
  \<open>chacha20_poly1305.rs\<close>), and the passphrase-protected master key (\<open>key.rs\<close>).

  The AEAD, Argon2 and MessagePack crates are parameters.  \<open>aead_ok\<close> states what their
  documentation promises of an AEAD; the random nonce is an argument of the operations that
  draw one.  The contract of the trait is the locale \<open>crypto_contract\<close>.
\<close>

section \<open>External libraries\<close>

record aead_lib =
  aead_encrypt :: "bytes \<Rightarrow> bytes \<Rightarrow> bytes \<Rightarrow> bytes \<Rightarrow> string + bytes"
  aead_decrypt :: "bytes \<Rightarrow> bytes \<Rightarrow> bytes \<Rightarrow> bytes \<Rightarrow> bytes option"
  aead_encrypt_detached :: "bytes \<Rightarrow> bytes \<Rightarrow> bytes \<Rightarrow> bytes \<Rightarrow> string + bytes \<times> bytes"
  aead_decrypt_detached :: "bytes \<Rightarrow> bytes \<Rightarrow> bytes \<Rightarrow> bytes \<Rightarrow> bytes \<Rightarrow> bytes option"

definition aead_ok :: "aead_lib \<Rightarrow> bool" where
  "aead_ok lib \<longleftrightarrow>
     (\<forall>k n m a c. aead_encrypt lib k n m a = Inr c \<longrightarrow>
        length c = length m + 16 \<and> aead_decrypt lib k n c a = Some m) \<and>
     (\<forall>k n a m ct t. aead_encrypt_detached lib k n a m = Inr (ct, t) \<longrightarrow>
        length ct = length m \<and> length t = 16 \<and> aead_decrypt lib k n (ct @ t) a = Some m) \<and>
     (\<forall>k n a ct t. length t = 16 \<longrightarrow>
        aead_decrypt_detached lib k n a ct t = aead_decrypt lib k n (ct @ t) a)"

record argon2_lib =
  argon2_params :: "u32 \<Rightarrow> u32 \<Rightarrow> u32 \<Rightarrow> string option"
  argon2_hash :: "u32 \<Rightarrow> u32 \<Rightarrow> u32 \<Rightarrow> bytes \<Rightarrow> bytes \<Rightarrow> string + bytes"

section \<open>Engines\<close>

record crypto_engine =
  en_encrypt :: "bytes \<Rightarrow> bytes \<Rightarrow> bytes \<Rightarrow> bytes result"
  en_decrypt :: "bytes \<Rightarrow> bytes \<Rightarrow> bytes result"
  en_encrypt_in_place_detached :: "bytes \<Rightarrow> bytes \<Rightarrow> bytes \<Rightarrow> (bytes \<times> bytes \<times> bytes) result"
  en_decrypt_into :: "bytes \<Rightarrow> bytes \<Rightarrow> bytes result"
  en_is_encrypting :: bool
  en_chunk_id_key :: bytes

text \<open>
  \<open>en_encrypt n p a\<close> encrypts \<open>p\<close> under the drawn nonce \<open>n\<close>.  The in-place variant returns the
  new buffer, the nonce and the tag.  \<open>en_decrypt_into\<close> returns the contents of the output
  buffer after a success.
\<close>

definition default_decrypt_into :: "(bytes \<Rightarrow> bytes \<Rightarrow> bytes result) \<Rightarrow> bytes \<Rightarrow> bytes \<Rightarrow> bytes result"
  where "default_decrypt_into dec data aad = dec data aad"

definition plaintext_engine :: "bytes \<Rightarrow> crypto_engine" where
  "plaintext_engine chunk_id_key =
     \<lparr>en_encrypt = (\<lambda>n p a. Inr p),
      en_decrypt = (\<lambda>d a. Inr d),
      en_encrypt_in_place_detached = (\<lambda>n buf a. Inr (buf, replicate 12 0, replicate 16 0)),
      en_decrypt_into = (\<lambda>d a. Inr d),
      en_is_encrypting = False,
      en_chunk_id_key = chunk_id_key\<rparr>"

definition aes_encrypt :: "aead_lib \<Rightarrow> bytes \<Rightarrow> bytes \<Rightarrow> bytes \<Rightarrow> bytes \<Rightarrow> bytes result" where
  "aes_encrypt lib key nonce p aad =
     (case aead_encrypt lib key nonce p aad of
        Inl e \<Rightarrow> Inl (Other (''AES-GCM encrypt: '' @ e))
      | Inr c \<Rightarrow> Inr (nonce @ c))"

definition aes_decrypt :: "aead_lib \<Rightarrow> bytes \<Rightarrow> bytes \<Rightarrow> bytes \<Rightarrow> bytes result" where
  "aes_decrypt lib key data aad =
     (if length data < 12 + 16 then Inl DecryptionFailed
      else ok_or (aead_decrypt lib key (take 12 data) (drop 12 data) aad) DecryptionFailed)"

definition aes_decrypt_into :: "aead_lib \<Rightarrow> bytes \<Rightarrow> bytes \<Rightarrow> bytes \<Rightarrow> bytes result" where
  "aes_decrypt_into lib key data aad =
     (if length data < 12 + 16 then Inl DecryptionFailed
      else let ct_and_tag = drop 12 data;
               ciphertext = take (length ct_and_tag - 16) ct_and_tag;
               tag = drop (length ct_and_tag - 16) ct_and_tag
           in ok_or (aead_decrypt_detached lib key (take 12 data) aad ciphertext tag)
                DecryptionFailed)"

definition aes_encrypt_in_place_detached ::
  "aead_lib \<Rightarrow> bytes \<Rightarrow> bytes \<Rightarrow> bytes \<Rightarrow> bytes \<Rightarrow> (bytes \<times> bytes \<times> bytes) result" where
  "aes_encrypt_in_place_detached lib key nonce buffer aad =
     (case aead_encrypt_detached lib key nonce aad buffer of
        Inl e \<Rightarrow> Inl (Other (''AES-GCM encrypt_in_place: '' @ e))
      | Inr (buffer', tag) \<Rightarrow> Inr (buffer', nonce, tag))"

definition aes256_gcm_engine :: "aead_lib \<Rightarrow> bytes \<Rightarrow> bytes \<Rightarrow> crypto_engine" where
  "aes256_gcm_engine lib encryption_key chunk_id_key =
     \<lparr>en_encrypt = aes_encrypt lib encryption_key,
      en_decrypt = aes_decrypt lib encryption_key,
      en_encrypt_in_place_detached = aes_encrypt_in_place_detached lib encryption_key,
      en_decrypt_into = aes_decrypt_into lib encryption_key,
      en_is_encrypting = True,
      en_chunk_id_key = chunk_id_key\<rparr>"

definition chacha_encrypt :: "aead_lib \<Rightarrow> bytes \<Rightarrow> bytes \<Rightarrow> bytes \<Rightarrow> bytes \<Rightarrow> bytes result" where
  "chacha_encrypt lib key nonce p aad =
     (case aead_encrypt lib key nonce p aad of
        Inl e \<Rightarrow> Inl (Other (''ChaCha20-Poly1305 encrypt: '' @ e))
      | Inr c \<Rightarrow> Inr (nonce @ c))"

definition chacha_decrypt :: "aead_lib \<Rightarrow> bytes \<Rightarrow> bytes \<Rightarrow> bytes \<Rightarrow> bytes result" where
  "chacha_decrypt lib key data aad =
     (if length data < 12 + 16 then Inl DecryptionFailed
      else ok_or (aead_decrypt lib key (take 12 data) (drop 12 data) aad) DecryptionFailed)"

definition chacha_decrypt_into :: "aead_lib \<Rightarrow> bytes \<Rightarrow> bytes \<Rightarrow> bytes \<Rightarrow> bytes result" where
  "chacha_decrypt_into lib key data aad =
     (if length data < 12 + 16 then Inl DecryptionFailed
      else let ct_and_tag = drop 12 data;
               ciphertext = take (length ct_and_tag - 16) ct_and_tag;
               tag = drop (length ct_and_tag - 16) ct_and_tag
           in ok_or (aead_decrypt_detached lib key (take 12 data) aad ciphertext tag)
                DecryptionFailed)"

definition chacha_encrypt_in_place_detached ::
  "aead_lib \<Rightarrow> bytes \<Rightarrow> bytes \<Rightarrow> bytes \<Rightarrow> bytes \<Rightarrow> (bytes \<times> bytes \<times> bytes) result" where
  "chacha_encrypt_in_place_detached lib key nonce buffer aad =
     (case aead_encrypt_detached lib key nonce aad buffer of
        Inl e \<Rightarrow> Inl (Other (''ChaCha20-Poly1305 encrypt_in_place: '' @ e))
      | Inr (buffer', tag) \<Rightarrow> Inr (buffer', nonce, tag))"

definition chacha20_poly1305_engine :: "aead_lib \<Rightarrow> bytes \<Rightarrow> bytes \<Rightarrow> crypto_engine" where
  "chacha20_poly1305_engine lib encryption_key chunk_id_key =
     \<lparr>en_encrypt = chacha_encrypt lib encryption_key,
      en_decrypt = chacha_decrypt lib encryption_key,
      en_encrypt_in_place_detached = chacha_encrypt_in_place_detached lib encryption_key,
      en_decrypt_into = chacha_decrypt_into lib encryption_key,
      en_is_encrypting = True,
      en_chunk_id_key = chunk_id_key\<rparr>"

section \<open>The master key\<close>

record master_key =
  mk_encryption_key :: bytes
  mk_chunk_id_key :: bytes

record master_key_payload =
  mp_encryption_key :: bytes
  mp_chunk_id_key :: bytes

record kdf_params =
  kdf_algorithm :: string
  kdf_time_cost :: u32
  kdf_memory_cost :: u32
  kdf_parallelism :: u32
  kdf_salt :: bytes

record encrypted_key =
  ek_kdf :: kdf_params
  ek_nonce :: bytes
  ek_encrypted_payload :: bytes

text \<open>MessagePack of the two serialized types.\<close>

record key_serde =
  payload_to_vec :: "master_key_payload \<Rightarrow> string + bytes"
  payload_from_slice :: "bytes \<Rightarrow> master_key_payload option"
  kdf_to_vec :: "kdf_params \<Rightarrow> string + bytes"

definition MAX_TIME_COST :: u32 where "MAX_TIME_COST = 10"
definition MAX_PARALLELISM :: u32 where "MAX_PARALLELISM = 16"
definition MAX_MEMORY_KIB :: u32 where "MAX_MEMORY_KIB = 524288"
definition MIN_SALT_LEN :: nat where "MIN_SALT_LEN = 16"
definition MAX_SALT_LEN :: nat where "MAX_SALT_LEN = 64"

definition validate_kdf_params :: "kdf_params \<Rightarrow> unit result" where
  "validate_kdf_params kdf =
     (if kdf_algorithm kdf \<noteq> ''argon2id'' then Inl DecryptionFailed
      else if kdf_time_cost kdf = 0 \<or> kdf_time_cost kdf > MAX_TIME_COST then Inl DecryptionFailed
      else if kdf_parallelism kdf = 0 \<or> kdf_parallelism kdf > MAX_PARALLELISM
        then Inl DecryptionFailed
      else if kdf_memory_cost kdf = 0 \<or> kdf_memory_cost kdf > MAX_MEMORY_KIB
        then Inl DecryptionFailed
      else if length (kdf_salt kdf) < MIN_SALT_LEN \<or> length (kdf_salt kdf) > MAX_SALT_LEN
        then Inl DecryptionFailed
      else Inr ())"

definition str_bytes :: "string \<Rightarrow> bytes" where
  "str_bytes s = map (\<lambda>c. of_nat (of_char c)) s"

definition KDF_AAD_PREFIX :: bytes where
  "KDF_AAD_PREFIX = str_bytes ''vger:kdf-aad:v1'' @ [0]"

definition kdf_params_aad_v1 :: "kdf_params \<Rightarrow> bytes" where
  "kdf_params_aad_v1 kdf =
     (let algo = str_bytes (kdf_algorithm kdf) in
      KDF_AAD_PREFIX
      @ u32_to_le_bytes (of_nat (length algo)) @ algo
      @ u32_to_le_bytes (kdf_time_cost kdf)
      @ u32_to_le_bytes (kdf_memory_cost kdf)
      @ u32_to_le_bytes (kdf_parallelism kdf)
      @ u32_to_le_bytes (of_nat (length (kdf_salt kdf))) @ kdf_salt kdf)"

definition kdf_params_aad_legacy :: "key_serde \<Rightarrow> kdf_params \<Rightarrow> bytes result" where
  "kdf_params_aad_legacy sd kdf =
     (case kdf_to_vec sd kdf of
        Inl e \<Rightarrow> Inl (KeyDerivation (''serialize kdf aad: '' @ e))
      | Inr b \<Rightarrow> Inr b)"

definition derive_key_from_passphrase :: "argon2_lib \<Rightarrow> bytes \<Rightarrow> kdf_params \<Rightarrow> bytes result" where
  "derive_key_from_passphrase a2 passphrase kdf =
     (case argon2_params a2 (kdf_memory_cost kdf) (kdf_time_cost kdf) (kdf_parallelism kdf) of
        Some e \<Rightarrow> Inl (KeyDerivation (''argon2 params: '' @ e))
      | None \<Rightarrow>
          (case argon2_hash a2 (kdf_memory_cost kdf) (kdf_time_cost kdf) (kdf_parallelism kdf)
                  passphrase (kdf_salt kdf) of
             Inl e \<Rightarrow> Inl (KeyDerivation (''argon2 hash: '' @ e))
           | Inr k \<Rightarrow> Inr k))"

definition try_decrypt_with_v1_aad :: "aead_lib \<Rightarrow> bytes \<Rightarrow> encrypted_key \<Rightarrow> bytes option" where
  "try_decrypt_with_v1_aad lib key ek =
     aead_decrypt lib key (ek_nonce ek) (ek_encrypted_payload ek) (kdf_params_aad_v1 (ek_kdf ek))"

definition try_decrypt_with_legacy_aad ::
  "key_serde \<Rightarrow> aead_lib \<Rightarrow> bytes \<Rightarrow> encrypted_key \<Rightarrow> bytes option" where
  "try_decrypt_with_legacy_aad sd lib key ek =
     (case kdf_params_aad_legacy sd (ek_kdf ek) of
        Inl _ \<Rightarrow> None
      | Inr aad \<Rightarrow> aead_decrypt lib key (ek_nonce ek) (ek_encrypted_payload ek) aad)"

definition try_decrypt_no_aad :: "aead_lib \<Rightarrow> bytes \<Rightarrow> encrypted_key \<Rightarrow> bytes option" where
  "try_decrypt_no_aad lib key ek =
     aead_decrypt lib key (ek_nonce ek) (ek_encrypted_payload ek) []"

definition master_key_generate :: "bytes \<Rightarrow> bytes \<Rightarrow> master_key" where
  "master_key_generate rnd1 rnd2 = \<lparr>mk_encryption_key = rnd1, mk_chunk_id_key = rnd2\<rparr>"

text \<open>\<open>salt\<close> and \<open>nonce\<close> are the bytes drawn from the operating system.\<close>

definition master_key_to_encrypted ::
  "key_serde \<Rightarrow> argon2_lib \<Rightarrow> aead_lib \<Rightarrow> bytes \<Rightarrow> bytes \<Rightarrow> master_key \<Rightarrow> bytes \<Rightarrow> encrypted_key result"
  where
  "master_key_to_encrypted sd a2 lib salt nonce mk passphrase =
     (let kdf = \<lparr>kdf_algorithm = ''argon2id'', kdf_time_cost = 3, kdf_memory_cost = 65536,
                 kdf_parallelism = 4, kdf_salt = salt\<rparr> in
      rbind (derive_key_from_passphrase a2 passphrase kdf) (\<lambda>wrapping_key.
        case payload_to_vec sd \<lparr>mp_encryption_key = mk_encryption_key mk,
                                mp_chunk_id_key = mk_chunk_id_key mk\<rparr> of
          Inl e \<Rightarrow> Inl (Serialization e)
        | Inr plaintext \<Rightarrow>
            (case aead_encrypt lib wrapping_key nonce plaintext (kdf_params_aad_v1 kdf) of
               Inl e \<Rightarrow> Inl (KeyDerivation (''encrypt: '' @ e))
             | Inr c \<Rightarrow> Inr \<lparr>ek_kdf = kdf, ek_nonce = nonce, ek_encrypted_payload = c\<rparr>)))"

definition master_key_from_encrypted ::
  "key_serde \<Rightarrow> argon2_lib \<Rightarrow> aead_lib \<Rightarrow> encrypted_key \<Rightarrow> bytes \<Rightarrow> master_key result" where
  "master_key_from_encrypted sd a2 lib ek passphrase =
     (if length (ek_nonce ek) \<noteq> 12 then Inl DecryptionFailed
      else rbind (validate_kdf_params (ek_kdf ek)) (\<lambda>_.
        rbind (derive_key_from_passphrase a2 passphrase (ek_kdf ek)) (\<lambda>wrapping_key.
          let attempt = (case try_decrypt_with_v1_aad lib wrapping_key ek of
                           Some p \<Rightarrow> Some p
                         | None \<Rightarrow>
                             (case try_decrypt_with_legacy_aad sd lib wrapping_key ek of
                                Some p \<Rightarrow> Some p
                              | None \<Rightarrow> try_decrypt_no_aad lib wrapping_key ek))
          in case attempt of
               None \<Rightarrow> Inl DecryptionFailed
             | Some plaintext \<Rightarrow>
                 (case payload_from_slice sd plaintext of
                    None \<Rightarrow> Inl DecryptionFailed
                  | Some payload \<Rightarrow>
                      if length (mp_encryption_key payload) \<noteq> 32
                         \<or> length (mp_chunk_id_key payload) \<noteq> 32
                      then Inl DecryptionFailed
                      else Inr \<lparr>mk_encryption_key = mp_encryption_key payload,
                                mk_chunk_id_key = mp_chunk_id_key payload\<rparr>))))"

section \<open>The contract of an engine\<close>

locale crypto_contract =
  fixes e :: crypto_engine
  assumes encrypt_decrypt:
      "length n = 12 \<Longrightarrow> en_encrypt e n p a = Inr c \<Longrightarrow> en_decrypt e c a = Inr p"
    and decrypt_into_eq: "en_decrypt_into e d a = en_decrypt e d a"
    and in_place: "en_is_encrypting e \<Longrightarrow> length n = 12 \<Longrightarrow>
      en_encrypt_in_place_detached e n p a = Inr (ct, n', t) \<Longrightarrow>
      n' = n \<and> en_decrypt e (n @ ct @ t) a = Inr p"
    and not_encrypting: "\<not> en_is_encrypting e \<Longrightarrow> en_decrypt e p a = Inr p"

interpretation plaintext: crypto_contract "plaintext_engine k" for k
  by unfold_locales (simp_all add: plaintext_engine_def)

lemma aes_decrypt_into_eq:
  assumes "aead_ok lib"
  shows "aes_decrypt_into lib key d a = aes_decrypt lib key d a"
proof (cases "length d < 28")
  case False
  let ?c = "drop 12 d"
  have "length (drop (length ?c - 16) ?c) = 16" using False by simp
  then have "aead_decrypt_detached lib key (take 12 d) a (take (length ?c - 16) ?c)
      (drop (length ?c - 16) ?c) = aead_decrypt lib key (take 12 d) ?c a"
    using assms append_take_drop_id [of "length ?c - 16" ?c] unfolding aead_ok_def by metis
  with False show ?thesis by (simp only: aes_decrypt_into_def aes_decrypt_def Let_def)
qed (simp add: aes_decrypt_into_def aes_decrypt_def)

lemma chacha_eq_aes:
  "chacha_decrypt lib = aes_decrypt lib" "chacha_decrypt_into lib = aes_decrypt_into lib"
  by (simp_all add: fun_eq_iff chacha_decrypt_def aes_decrypt_def chacha_decrypt_into_def
      aes_decrypt_into_def)

lemma aead_ok_encrypt:
  "aead_ok lib \<Longrightarrow> aead_encrypt lib k n m a = Inr c \<Longrightarrow>
   length c = length m + 16 \<and> aead_decrypt lib k n c a = Some m"
  by (simp add: aead_ok_def)

lemma aead_ok_detached:
  "aead_ok lib \<Longrightarrow> aead_encrypt_detached lib k n a m = Inr (ct, t) \<Longrightarrow>
   length ct = length m \<and> length t = 16 \<and> aead_decrypt lib k n (ct @ t) a = Some m"
  by (simp add: aead_ok_def)

lemma aes_contract: "aead_ok lib \<Longrightarrow> crypto_contract (aes256_gcm_engine lib k ck)"
  by unfold_locales
     (auto simp: aes256_gcm_engine_def aes_encrypt_def aes_decrypt_def aes_decrypt_into_eq
        aes_encrypt_in_place_detached_def split: sum.splits
        dest: aead_ok_encrypt aead_ok_detached)

lemma chacha_contract: "aead_ok lib \<Longrightarrow> crypto_contract (chacha20_poly1305_engine lib k ck)"
  by unfold_locales
     (auto simp: chacha20_poly1305_engine_def chacha_encrypt_def chacha_eq_aes aes_decrypt_def
        aes_decrypt_into_eq chacha_encrypt_in_place_detached_def split: sum.splits
        dest: aead_ok_encrypt aead_ok_detached)

section \<open>Lemmas\<close>

lemma length_str_bytes [simp]: "length (str_bytes s) = length s"
  by (simp add: str_bytes_def)

lemma str_bytes_inject [simp]: "str_bytes s = str_bytes t \<longleftrightarrow> s = t"
proof -
  have "inj (\<lambda>c. of_nat (of_char c) :: u8)"
  proof (rule injI)
    fix c d :: char assume eq: "(of_nat (of_char c) :: u8) = of_nat (of_char d)"
    have "unat (of_nat (of_char x) :: u8) = of_char x" for x :: char
      by (simp add: unat_of_nat take_bit_eq_mod)
    with eq have "(of_char c :: nat) = of_char d" by metis
    then show "c = d" by simp
  qed
  then show ?thesis by (simp add: str_bytes_def inj_map_eq_map)
qed

lemma u32_to_le_bytes_inject [simp]: "u32_to_le_bytes a = u32_to_le_bytes b \<longleftrightarrow> a = b"
  by (metis u32_le_bytes_roundtrip)

lemma sized_field_inject:
  assumes "u32_to_le_bytes (of_nat (length a)) @ a @ r = u32_to_le_bytes (of_nat (length b)) @ b @ s"
    and "length a < 2 ^ 32" and "length b < 2 ^ 32"
  shows "a = b \<and> r = s"
proof -
  from assms(1) have "(of_nat (length a) :: u32) = of_nat (length b)" and r: "a @ r = b @ s"
    by simp_all
  then have "length a = length b" using assms(2,3) by (metis unat_of_nat_u32)
  with r show ?thesis by simp
qed

text \<open>A cipher for the concrete instances: it appends a tag and checks it.\<close>

definition wit_aead :: aead_lib where
  "wit_aead =
     \<lparr>aead_encrypt = (\<lambda>k n m a. Inr (m @ replicate 16 7)),
      aead_decrypt = (\<lambda>k n c a. if 16 \<le> length c \<and> drop (length c - 16) c = replicate 16 7
                                then Some (take (length c - 16) c) else None),
      aead_encrypt_detached = (\<lambda>k n a m. Inr (m, replicate 16 7)),
      aead_decrypt_detached = (\<lambda>k n a ct t. if t = replicate 16 7 then Some ct else None)\<rparr>"

lemma wit_aead_ok: "aead_ok wit_aead"
  by (auto simp: aead_ok_def wit_aead_def)

section \<open>Properties\<close>

text \<open>The KDF parameters of a key file are bound unambiguously: two parameter sets whose
  strings are shorter than 4 GiB give the same associated data only when they are equal, so no
  parameter can be exchanged without changing what the key blob authenticates.\<close>

theorem kdf_aad_injective:
  assumes "length (kdf_algorithm a) < 2 ^ 32" and "length (kdf_algorithm b) < 2 ^ 32"
    and "length (kdf_salt a) < 2 ^ 32" and "length (kdf_salt b) < 2 ^ 32"
    and "kdf_params_aad_v1 a = kdf_params_aad_v1 b"
  shows "a = b"
proof -
  have alg: "str_bytes (kdf_algorithm a) = str_bytes (kdf_algorithm b)"
    and r: "u32_to_le_bytes (kdf_time_cost a) @ u32_to_le_bytes (kdf_memory_cost a)
      @ u32_to_le_bytes (kdf_parallelism a)
      @ u32_to_le_bytes (of_nat (length (kdf_salt a))) @ kdf_salt a =
     u32_to_le_bytes (kdf_time_cost b) @ u32_to_le_bytes (kdf_memory_cost b)
      @ u32_to_le_bytes (kdf_parallelism b)
      @ u32_to_le_bytes (of_nat (length (kdf_salt b))) @ kdf_salt b"
    using sized_field_inject [of "str_bytes (kdf_algorithm a)" _ "str_bytes (kdf_algorithm b)"]
      assms(1,2,5) by (auto simp: kdf_params_aad_v1_def Let_def)
  from r have "kdf_salt a = kdf_salt b"
    using sized_field_inject [of "kdf_salt a" "[]" "kdf_salt b" "[]"] assms(3,4) by simp
  with alg r show ?thesis by (cases a; cases b) simp
qed

lemma kdf_aad_injective_witness:
  "\<exists>a b. kdf_params_aad_v1 a = kdf_params_aad_v1 b \<and> length (kdf_algorithm a) < 2 ^ 32
     \<and> kdf_salt a = replicate 16 5 \<and> a = b"
  using kdf_aad_injective [of "\<lparr>kdf_algorithm = ''argon2id'', kdf_time_cost = 3,
      kdf_memory_cost = 65536, kdf_parallelism = 4, kdf_salt = replicate 16 5\<rparr>"
      "\<lparr>kdf_algorithm = ''argon2id'', kdf_time_cost = 3,
      kdf_memory_cost = 65536, kdf_parallelism = 4, kdf_salt = replicate 16 5\<rparr>"]
  by (intro exI [of _ "\<lparr>kdf_algorithm = ''argon2id'', kdf_time_cost = 3,
      kdf_memory_cost = 65536, kdf_parallelism = 4, kdf_salt = replicate 16 5\<rparr>"]) auto

text \<open>C24: Storing a master key under a passphrase and opening it with the same passphrase gives
  the key back: for every cipher with the AEAD laws, a MessagePack codec that inverts, and the
  sizes the code draws, whatever the passphrase.\<close>

theorem master_key_roundtrip:
  assumes "aead_ok lib"
    and "\<And>p b. payload_to_vec sd p = Inr b \<Longrightarrow> payload_from_slice sd b = Some p"
    and "length salt = 32" and "length nonce = 12"
    and "length (mk_encryption_key mk) = 32" and "length (mk_chunk_id_key mk) = 32"
    and "master_key_to_encrypted sd a2 lib salt nonce mk passphrase = Inr ek"
  shows "master_key_from_encrypted sd a2 lib ek passphrase = Inr mk"
proof -
  let ?kdf = "\<lparr>kdf_algorithm = ''argon2id'', kdf_time_cost = 3, kdf_memory_cost = 65536,
              kdf_parallelism = 4, kdf_salt = salt\<rparr>"
  from assms(7) obtain w p c where w: "derive_key_from_passphrase a2 passphrase ?kdf = Inr w"
    and p: "payload_to_vec sd \<lparr>mp_encryption_key = mk_encryption_key mk,
                               mp_chunk_id_key = mk_chunk_id_key mk\<rparr> = Inr p"
    and c: "aead_encrypt lib w nonce p (kdf_params_aad_v1 ?kdf) = Inr c"
    and ek: "ek = \<lparr>ek_kdf = ?kdf, ek_nonce = nonce, ek_encrypted_payload = c\<rparr>"
    by (auto simp: master_key_to_encrypted_def Let_def result_simps)
  have "try_decrypt_with_v1_aad lib w ek = Some p"
    using aead_ok_encrypt [OF assms(1) c] by (simp add: try_decrypt_with_v1_aad_def ek)
  moreover have "validate_kdf_params ?kdf = Inr ()"
    using assms(3)
    by (simp add: validate_kdf_params_def MAX_TIME_COST_def MAX_PARALLELISM_def
        MAX_MEMORY_KIB_def MIN_SALT_LEN_def MAX_SALT_LEN_def)
  ultimately show ?thesis
    using assms(4,5,6) w assms(2) [OF p] by (simp add: master_key_from_encrypted_def ek)
qed

definition wit_key_serde :: key_serde where
  "wit_key_serde =
     \<lparr>payload_to_vec = (\<lambda>p. if length (mp_encryption_key p) = 32
                          then Inr (mp_encryption_key p @ mp_chunk_id_key p) else Inl ''size''),
      payload_from_slice = (\<lambda>b. Some \<lparr>mp_encryption_key = take 32 b, mp_chunk_id_key = drop 32 b\<rparr>),
      kdf_to_vec = (\<lambda>k. Inl ''unsupported'')\<rparr>"

definition wit_argon2 :: argon2_lib where
  "wit_argon2 = \<lparr>argon2_params = (\<lambda>m t p. None), argon2_hash = (\<lambda>m t p pw s. Inr (take 32 (pw @ s)))\<rparr>"

lemma master_key_roundtrip_witness:
  "\<exists>ek. master_key_to_encrypted wit_key_serde wit_argon2 wit_aead (replicate 32 1)
          (replicate 12 2) \<lparr>mk_encryption_key = replicate 32 3, mk_chunk_id_key = replicate 32 4\<rparr>
          [9, 9, 9] = Inr ek
     \<and> master_key_from_encrypted wit_key_serde wit_argon2 wit_aead ek [9, 9, 9] =
         Inr \<lparr>mk_encryption_key = replicate 32 3, mk_chunk_id_key = replicate 32 4\<rparr>"
proof -
  let ?mk = "\<lparr>mk_encryption_key = replicate 32 3, mk_chunk_id_key = replicate 32 4\<rparr> :: master_key"
  let ?r = "master_key_to_encrypted wit_key_serde wit_argon2 wit_aead (replicate 32 1)
          (replicate 12 2) ?mk [9, 9, 9]"
  obtain ek where ek: "?r = Inr ek"
    by (simp add: master_key_to_encrypted_def wit_key_serde_def wit_argon2_def wit_aead_def
        derive_key_from_passphrase_def Let_def)
  have "master_key_from_encrypted wit_key_serde wit_argon2 wit_aead ek [9, 9, 9] = Inr ?mk"
    by (rule master_key_roundtrip [OF wit_aead_ok _ _ _ _ _ ek])
       (auto simp: wit_key_serde_def split: if_splits)
  with ek show ?thesis by blast
qed

end
