(* ===== verification/Object_Format.thy ===== *)
theory Object_Format
  imports Crypto
begin

text \<open>
  \<open>vykar-core/src/repo/format.rs\<close>: the typed, encrypted envelope of every repository object,
  \<open>[type tag][nonce][ciphertext][tag]\<close> with an encrypting engine and \<open>[type tag][plaintext]\<close>
  without one.  The type tag and, in the contextual variants, the object's identity are bound
  as associated data.
\<close>

section \<open>Definitions\<close>

definition OBJECT_CONTEXT_AAD_PREFIX :: bytes where
  "OBJECT_CONTEXT_AAD_PREFIX = str_bytes ''vger:object-context:v1'' @ [0]"

datatype object_type =
    ConfigObj | ManifestObj | SnapshotMeta | ChunkData | ChunkIndexObj | PackHeader
  | FileCacheObj | PendingIndex | SnapshotCache

fun object_tag :: "object_type \<Rightarrow> u8" where
  "object_tag ConfigObj = 0"
| "object_tag ManifestObj = 1"
| "object_tag SnapshotMeta = 2"
| "object_tag ChunkData = 3"
| "object_tag ChunkIndexObj = 4"
| "object_tag PackHeader = 5"
| "object_tag FileCacheObj = 6"
| "object_tag PendingIndex = 7"
| "object_tag SnapshotCache = 8"

fun object_debug :: "object_type \<Rightarrow> string" where
  "object_debug ConfigObj = ''Config''"
| "object_debug ManifestObj = ''Manifest''"
| "object_debug SnapshotMeta = ''SnapshotMeta''"
| "object_debug ChunkData = ''ChunkData''"
| "object_debug ChunkIndexObj = ''ChunkIndex''"
| "object_debug PackHeader = ''PackHeader''"
| "object_debug FileCacheObj = ''FileCache''"
| "object_debug PendingIndex = ''PendingIndex''"
| "object_debug SnapshotCache = ''SnapshotCache''"

definition object_type_from_u8 :: "u8 \<Rightarrow> object_type result" where
  "object_type_from_u8 v =
     (if v = 0 then Inr ConfigObj
      else if v = 1 then Inr ManifestObj
      else if v = 2 then Inr SnapshotMeta
      else if v = 3 then Inr ChunkData
      else if v = 4 then Inr ChunkIndexObj
      else if v = 5 then Inr PackHeader
      else if v = 6 then Inr FileCacheObj
      else if v = 7 then Inr PendingIndex
      else if v = 8 then Inr SnapshotCache
      else Inl (UnknownObjectType v))"

definition legacy_aad :: "u8 \<Rightarrow> bytes" where "legacy_aad tag = [tag]"

definition contextual_aad :: "u8 \<Rightarrow> bytes \<Rightarrow> bytes" where
  "contextual_aad tag ctxt = tag # OBJECT_CONTEXT_AAD_PREFIX @ ctxt"

fun parse_object_envelope :: "bytes \<Rightarrow> (u8 \<times> object_type \<times> bytes) result" where
  "parse_object_envelope [] = Inl (InvalidFormat ''empty object'')"
| "parse_object_envelope (tag # rest) =
     rbind (object_type_from_u8 tag) (\<lambda>ty. Inr (tag, ty, rest))"

text \<open>The first argument of the packing operations is the nonce the engine draws.\<close>

definition pack_object :: "bytes \<Rightarrow> object_type \<Rightarrow> bytes \<Rightarrow> crypto_engine \<Rightarrow> bytes result" where
  "pack_object nonce ty plaintext crypto =
     rbind (en_encrypt crypto nonce plaintext (legacy_aad (object_tag ty)))
       (\<lambda>encrypted. Inr (object_tag ty # encrypted))"

definition pack_object_with_context ::
  "bytes \<Rightarrow> object_type \<Rightarrow> bytes \<Rightarrow> bytes \<Rightarrow> crypto_engine \<Rightarrow> bytes result" where
  "pack_object_with_context nonce ty ctxt plaintext crypto =
     rbind (en_encrypt crypto nonce plaintext (contextual_aad (object_tag ty) ctxt))
       (\<lambda>encrypted. Inr (object_tag ty # encrypted))"

text \<open>
  The streaming variants.  The caller's closure maps the buffer it is given to the buffer it
  leaves; slicing a buffer it made too short panics.
\<close>

definition stream_object ::
  "bytes \<Rightarrow> u8 \<Rightarrow> bytes \<Rightarrow> crypto_engine \<Rightarrow> (bytes \<Rightarrow> bytes result) \<Rightarrow> bytes result" where
  "stream_object nonce tag aad crypto write_plaintext =
     (if en_is_encrypting crypto then
        rbind (write_plaintext (tag # replicate 12 0)) (\<lambda>buf.
          if length buf < 13 then Inl (Panicked ''range start index out of range'')
          else rbind (en_encrypt_in_place_detached crypto nonce (drop 13 buf) aad)
            (\<lambda>(ct, nonce', gcm_tag). Inr (take 1 buf @ nonce' @ ct @ gcm_tag)))
      else write_plaintext [tag])"

definition pack_object_streaming ::
  "bytes \<Rightarrow> object_type \<Rightarrow> crypto_engine \<Rightarrow> (bytes \<Rightarrow> bytes result) \<Rightarrow> bytes result" where
  "pack_object_streaming nonce ty crypto write_plaintext =
     stream_object nonce (object_tag ty) (legacy_aad (object_tag ty)) crypto write_plaintext"

definition pack_object_streaming_with_context ::
  "bytes \<Rightarrow> object_type \<Rightarrow> bytes \<Rightarrow> crypto_engine \<Rightarrow> (bytes \<Rightarrow> bytes result) \<Rightarrow> bytes result" where
  "pack_object_streaming_with_context nonce ty ctxt crypto write_plaintext =
     stream_object nonce (object_tag ty) (contextual_aad (object_tag ty) ctxt) crypto write_plaintext"

definition unpack_object :: "bytes \<Rightarrow> crypto_engine \<Rightarrow> (object_type \<times> bytes) result" where
  "unpack_object data crypto =
     rbind (parse_object_envelope data) (\<lambda>(tag, ty, encrypted).
       rbind (en_decrypt crypto encrypted (legacy_aad tag)) (\<lambda>plaintext. Inr (ty, plaintext)))"

definition unpack_object_with_context ::
  "bytes \<Rightarrow> bytes \<Rightarrow> crypto_engine \<Rightarrow> (object_type \<times> bytes) result" where
  "unpack_object_with_context data ctxt crypto =
     rbind (parse_object_envelope data) (\<lambda>(tag, ty, encrypted).
       rbind (en_decrypt crypto encrypted (contextual_aad tag ctxt)) (\<lambda>plaintext. Inr (ty, plaintext)))"

definition unexpected_type :: "object_type \<Rightarrow> object_type \<Rightarrow> vykar_error" where
  "unexpected_type expected got =
     InvalidFormat (''unexpected object type: expected '' @ object_debug expected
       @ '', got '' @ object_debug got)"

definition unpack_object_expect :: "bytes \<Rightarrow> object_type \<Rightarrow> crypto_engine \<Rightarrow> bytes result" where
  "unpack_object_expect data expected crypto =
     rbind (unpack_object data crypto) (\<lambda>(ty, plaintext).
       if ty \<noteq> expected then Inl (unexpected_type expected ty) else Inr plaintext)"

definition unpack_object_expect_with_context ::
  "bytes \<Rightarrow> object_type \<Rightarrow> bytes \<Rightarrow> crypto_engine \<Rightarrow> bytes result" where
  "unpack_object_expect_with_context data expected ctxt crypto =
     rbind (unpack_object_with_context data ctxt crypto) (\<lambda>(ty, plaintext).
       if ty \<noteq> expected then Inl (unexpected_type expected ty) else Inr plaintext)"

definition unpack_object_expect_with_context_into ::
  "bytes \<Rightarrow> object_type \<Rightarrow> bytes \<Rightarrow> crypto_engine \<Rightarrow> bytes result" where
  "unpack_object_expect_with_context_into data expected ctxt crypto =
     rbind (parse_object_envelope data) (\<lambda>(tag, ty, encrypted).
       rbind (en_decrypt_into crypto encrypted (contextual_aad tag ctxt)) (\<lambda>output.
         if ty \<noteq> expected then Inl (unexpected_type expected ty) else Inr output))"

section \<open>Lemmas\<close>

lemma object_type_from_tag [simp]: "object_type_from_u8 (object_tag ty) = Inr ty"
  by (cases ty) (simp_all add: object_type_from_u8_def)

lemma object_tag_inject [simp]: "object_tag a = object_tag b \<longleftrightarrow> a = b"
  by (metis object_type_from_tag sum.inject(2))

lemma object_type_from_u8_Inr: "object_type_from_u8 v = Inr ty \<longleftrightarrow> v = object_tag ty"
proof
  show "v = object_tag ty" if "object_type_from_u8 v = Inr ty"
    using that unfolding object_type_from_u8_def by (auto split: if_splits)
qed simp

context crypto_contract
begin

lemma unpack_packed:
  assumes "length nonce = 12" and "pack_object nonce ty p e = Inr obj"
  shows "unpack_object obj e = Inr (ty, p)"
  using assms encrypt_decrypt
  by (auto simp: pack_object_def unpack_object_def result_simps)

lemma unpack_packed_context:
  assumes "length nonce = 12" and "pack_object_with_context nonce ty c p e = Inr obj"
  shows "unpack_object_with_context obj c e = Inr (ty, p)"
  using assms encrypt_decrypt
  by (auto simp: pack_object_with_context_def unpack_object_with_context_def result_simps)

lemma stream_object_decrypts:
  assumes "length nonce = 12" and "\<And>buf. wp buf = Inr (buf @ p)"
    and "stream_object nonce tag aad e wp = Inr obj"
  shows "\<exists>enc. obj = tag # enc \<and> en_decrypt e enc aad = Inr p"
proof (cases "en_is_encrypting e")
  case True
  with assms(2,3) obtain ct nonce' t where
    ip: "en_encrypt_in_place_detached e nonce p aad = Inr (ct, nonce', t)"
    and obj: "obj = tag # nonce' @ ct @ t"
    by (auto simp: stream_object_def result_simps)
  then show ?thesis using in_place [OF True assms(1) ip] by simp
next
  case False
  then show ?thesis using assms(2,3) not_encrypting by (auto simp: stream_object_def)
qed

lemma unpack_streamed_context:
  assumes "length nonce = 12" and "\<And>buf. wp buf = Inr (buf @ p)"
    and "pack_object_streaming_with_context nonce ty c e wp = Inr obj"
  shows "unpack_object_with_context obj c e = Inr (ty, p)"
  using stream_object_decrypts [OF assms(1,2)] assms(3)
  by (force simp: pack_object_streaming_with_context_def unpack_object_with_context_def)

lemma unpack_into_eq:
  "unpack_object_expect_with_context_into d ty c e = unpack_object_expect_with_context d ty c e"
  by (cases d)
     (auto simp: unpack_object_expect_with_context_into_def unpack_object_expect_with_context_def
        unpack_object_with_context_def decrypt_into_eq rbind_def split: sum.splits)

end

section \<open>Properties\<close>

text \<open>C22: An object packed under a type and an identity context is read back intact under that
  type and context by every reading routine, and asking for another type is refused with
  \<open>InvalidFormat\<close>; the same holds for the streaming writer with a closure that appends the
  plaintext.  This holds of every engine that meets the engine contract.\<close>

theorem object_roundtrip:
  assumes "crypto_contract e" and "length nonce = 12" and "\<And>buf. wp buf = Inr (buf @ p)"
    and "pack_object_with_context nonce ty c p e = Inr obj
       \<or> pack_object_streaming_with_context nonce ty c e wp = Inr obj"
  shows "unpack_object_expect_with_context obj ty' c e =
           (if ty' = ty then Inr p else Inl (unexpected_type ty' ty))
       \<and> unpack_object_expect_with_context_into obj ty' c e =
           (if ty' = ty then Inr p else Inl (unexpected_type ty' ty))"
proof -
  have "unpack_object_with_context obj c e = Inr (ty, p)"
    using assms(4) crypto_contract.unpack_packed_context [OF assms(1,2)]
      crypto_contract.unpack_streamed_context [OF assms(1,2,3)] by blast
  then show ?thesis
    by (simp add: crypto_contract.unpack_into_eq [OF assms(1)] unpack_object_expect_with_context_def)
qed

lemma object_roundtrip_witness:
  "\<exists>obj. pack_object_with_context (replicate 12 1) ChunkData [1, 2] [10, 20, 30]
           (aes256_gcm_engine wit_aead (replicate 32 5) (replicate 32 6)) = Inr obj
     \<and> unpack_object_expect_with_context obj ChunkData [1, 2]
         (aes256_gcm_engine wit_aead (replicate 32 5) (replicate 32 6)) = Inr [10, 20, 30]"
proof -
  let ?e = "aes256_gcm_engine wit_aead (replicate 32 5) (replicate 32 6)"
  obtain obj where o: "pack_object_with_context (replicate 12 1) ChunkData [1, 2] [10, 20, 30] ?e = Inr obj"
    by (simp add: pack_object_with_context_def aes256_gcm_engine_def aes_encrypt_def wit_aead_def)
  have "unpack_object_expect_with_context obj ChunkData [1, 2] ?e = Inr [10, 20, 30]"
    using object_roundtrip [OF aes_contract [OF wit_aead_ok], of "replicate 12 1"
        "\<lambda>buf. Inr (buf @ [10, 20, 30])" "[10, 20, 30]" ChunkData "[1, 2]" "replicate 32 5" "replicate 32 6"
        obj ChunkData] o by simp
  with o show ?thesis by blast
qed

text \<open>C23: The associated data of an object separates its kind from every other: contextual data
  determines both the type tag and the context, and never coincides with the associated data of
  an object packed without a context.\<close>

theorem contextual_aad_separates:
  "(contextual_aad t c = contextual_aad t' c' \<longleftrightarrow> t = t' \<and> c = c')
   \<and> contextual_aad t c \<noteq> legacy_aad t'"
  by (simp add: contextual_aad_def legacy_aad_def OBJECT_CONTEXT_AAD_PREFIX_def)

end
