(* ===== verification/Compress.thy ===== *)
theory Compress
  imports Types
begin

text \<open>
  \<open>vykar-core/src/compress/mod.rs\<close>: the one-byte codec tag in front of a payload, compression
  with LZ4, Zstandard or none, and decompression with a bound on the output.

  The codec crates are a parameter; \<open>codec_ok\<close> states what their documentation promises:
  decoding inverts encoding when the output buffer is large enough, a streaming decoder read
  through \<open>take n\<close> yields the first \<open>n\<close> bytes, and LZ4 never produces more than the size it was
  told.
\<close>

record codec_lib =
  lz4_max_output :: "nat \<Rightarrow> nat"
  lz4_compress :: "bytes \<Rightarrow> string + bytes"
  lz4_decompress_size_prepended :: "bytes \<Rightarrow> string + bytes"
  lz4_decompress_into :: "bytes \<Rightarrow> nat \<Rightarrow> string + bytes"
  zstd_bound :: "nat \<Rightarrow> nat"
  zstd_compressor_new :: "int \<Rightarrow> string option"
  zstd_compress :: "int \<Rightarrow> bytes \<Rightarrow> string + bytes"
  zstd_decompressor_new :: "string option"
  zstd_bulk_decompress :: "bytes \<Rightarrow> nat \<Rightarrow> string + bytes"
  zstd_decoder_new :: "bytes \<Rightarrow> string option"
  zstd_decoder_take :: "bytes \<Rightarrow> nat \<Rightarrow> string + bytes"

definition codec_ok :: "codec_lib \<Rightarrow> bool" where
  "codec_ok lib \<longleftrightarrow>
     (\<forall>d c. lz4_compress lib d = Inr c \<and> length d < 2 ^ 32 \<longrightarrow>
        lz4_decompress_size_prepended lib (u32_to_le_bytes (of_nat (length d)) @ c) = Inr d \<and>
        lz4_decompress_into lib c (length d) = Inr d) \<and>
     (\<forall>p d. lz4_decompress_size_prepended lib p = Inr d \<longrightarrow>
        length d \<le> unat (u32_from_le_bytes (take 4 p))) \<and>
     (\<forall>p n d. lz4_decompress_into lib p n = Inr d \<longrightarrow> length d \<le> n) \<and>
     (\<forall>l d c. zstd_compress lib l d = Inr c \<longrightarrow>
        zstd_decoder_new lib c = None \<and>
        (\<forall>n. zstd_decoder_take lib c n = Inr (take n d)) \<and>
        (\<forall>n \<ge> length d. zstd_bulk_decompress lib c n = Inr d))"

section \<open>Definitions\<close>

definition TAG_NONE :: u8 where "TAG_NONE = 0x00"
definition TAG_LZ4 :: u8 where "TAG_LZ4 = 0x01"
definition TAG_ZSTD :: u8 where "TAG_ZSTD = 0x02"
definition MAX_DECOMPRESS_SIZE :: nat where "MAX_DECOMPRESS_SIZE = 32 * 1024 * 1024"
definition MAX_METADATA_DECOMPRESS_SIZE :: nat where
  "MAX_METADATA_DECOMPRESS_SIZE = 4 * 1024 * 1024 * 1024"

datatype compression = CompNone | Lz4 | Zstd int

definition compression_from_config :: "string \<Rightarrow> int \<Rightarrow> compression result" where
  "compression_from_config algorithm zstd_level =
     (if algorithm = ''none'' then Inr CompNone
      else if algorithm = ''lz4'' then Inr Lz4
      else if algorithm = ''zstd'' then Inr (Zstd zstd_level)
      else Inl (Config (''unknown compression algorithm: '' @ algorithm)))"

fun compressed_size_bound :: "codec_lib \<Rightarrow> compression \<Rightarrow> nat \<Rightarrow> nat" where
  "compressed_size_bound lib CompNone data_len = 1 + data_len"
| "compressed_size_bound lib Lz4 data_len = 1 + 4 + lz4_max_output lib data_len"
| "compressed_size_bound lib (Zstd level) data_len = 1 + zstd_bound lib data_len"

fun compress_append :: "codec_lib \<Rightarrow> compression \<Rightarrow> bytes \<Rightarrow> bytes \<Rightarrow> bytes result" where
  "compress_append lib CompNone data buf = Inr (buf @ [TAG_NONE] @ data)"
| "compress_append lib Lz4 data buf =
     (case lz4_compress lib data of
        Inl e \<Rightarrow> Inl (Other (''lz4: '' @ e))
      | Inr c \<Rightarrow> Inr (buf @ [TAG_LZ4] @ u32_to_le_bytes (of_nat (length data)) @ c))"
| "compress_append lib (Zstd level) data buf =
     (case zstd_compressor_new lib level of
        Some e \<Rightarrow> Inl (Other (''zstd init: '' @ e))
      | None \<Rightarrow>
          (case zstd_compress lib level data of
             Inl e \<Rightarrow> Inl (Other (''zstd compress: '' @ e))
           | Inr c \<Rightarrow> Inr (buf @ [TAG_ZSTD] @ c)))"

definition compress :: "codec_lib \<Rightarrow> compression \<Rightarrow> bytes \<Rightarrow> bytes result" where
  "compress lib compression data = compress_append lib compression data []"

text \<open>The cold Zstandard path, shared by the three readers: stream at most \<open>limit + 1\<close> bytes.\<close>

definition zstd_stream_limited :: "codec_lib \<Rightarrow> nat \<Rightarrow> string \<Rightarrow> bytes \<Rightarrow> bytes result" where
  "zstd_stream_limited lib limit what payload =
     (case zstd_decoder_new lib payload of
        Some e \<Rightarrow> Inl (Decompression (''zstd init: '' @ e))
      | None \<Rightarrow>
          (case zstd_decoder_take lib payload (limit + 1) of
             Inl e \<Rightarrow> Inl (Decompression (''zstd: '' @ e))
           | Inr output \<Rightarrow>
               if length output > limit
               then Inl (Decompression (''zstd: decompressed size exceeds '' @ what @ ''limit of ''
                           @ show_nat limit @ '' bytes''))
               else Inr output))"

definition zstd_bulk_limited :: "codec_lib \<Rightarrow> nat \<Rightarrow> bytes \<Rightarrow> bytes result" where
  "zstd_bulk_limited lib hint payload =
     (case zstd_decompressor_new lib of
        Some e \<Rightarrow> Inl (Decompression (''zstd init: '' @ e))
      | None \<Rightarrow>
          (case zstd_bulk_decompress lib payload (min (max hint 1) MAX_DECOMPRESS_SIZE) of
             Inl e \<Rightarrow> Inl (Decompression (''zstd: '' @ e))
           | Inr output \<Rightarrow>
               if length output > MAX_DECOMPRESS_SIZE
               then Inl (Decompression (''zstd: decompressed size exceeds limit of ''
                           @ show_nat MAX_DECOMPRESS_SIZE @ '' bytes''))
               else Inr output))"

definition lz4_size_error :: "nat \<Rightarrow> string \<Rightarrow> nat \<Rightarrow> vykar_error" where
  "lz4_size_error sz what limit =
     Decompression (''lz4: decompressed size ('' @ show_nat sz @ '') exceeds '' @ what @ ''limit of ''
       @ show_nat limit @ '' bytes'')"

fun decompress_with_hint :: "codec_lib \<Rightarrow> bytes \<Rightarrow> nat option \<Rightarrow> bytes result" where
  "decompress_with_hint lib [] expected_size = Inl (Decompression ''empty data'')"
| "decompress_with_hint lib (tag # payload) expected_size =
     (if tag = TAG_NONE then Inr payload
      else if tag = TAG_LZ4 then
        (if length payload < 4 then Inl (Decompression ''lz4: payload too short'')
         else
           let uncompressed_size = unat (u32_from_le_bytes (take 4 payload)) in
           if uncompressed_size > MAX_DECOMPRESS_SIZE
           then Inl (lz4_size_error uncompressed_size [] MAX_DECOMPRESS_SIZE)
           else (case lz4_decompress_size_prepended lib payload of
                   Inl e \<Rightarrow> Inl (Decompression (''lz4: '' @ e))
                 | Inr d \<Rightarrow> Inr d))
      else if tag = TAG_ZSTD then
        (case expected_size of
           Some hint \<Rightarrow> zstd_bulk_limited lib hint payload
         | None \<Rightarrow> zstd_stream_limited lib MAX_DECOMPRESS_SIZE [] payload)
      else Inl (UnknownCompressionTag tag))"

definition decompress :: "codec_lib \<Rightarrow> bytes \<Rightarrow> bytes result" where
  "decompress lib data = decompress_with_hint lib data None"

fun decompress_metadata :: "codec_lib \<Rightarrow> bytes \<Rightarrow> bytes result" where
  "decompress_metadata lib [] = Inl (Decompression ''empty data'')"
| "decompress_metadata lib (tag # payload) =
     (if tag = TAG_NONE then Inr payload
      else if tag = TAG_LZ4 then
        (if length payload < 4 then Inl (Decompression ''lz4: payload too short'')
         else
           let uncompressed_size = unat (u32_from_le_bytes (take 4 payload)) in
           if uncompressed_size > MAX_METADATA_DECOMPRESS_SIZE
           then Inl (lz4_size_error uncompressed_size ''metadata '' MAX_METADATA_DECOMPRESS_SIZE)
           else (case lz4_decompress_size_prepended lib payload of
                   Inl e \<Rightarrow> Inl (Decompression (''lz4: '' @ e))
                 | Inr d \<Rightarrow> Inr d))
      else if tag = TAG_ZSTD
        then zstd_stream_limited lib MAX_METADATA_DECOMPRESS_SIZE ''metadata '' payload
      else Inl (UnknownCompressionTag tag))"

text \<open>The buffer-reusing reader; the value is the output buffer after a success.\<close>

fun decompress_into_with_hint :: "codec_lib \<Rightarrow> bytes \<Rightarrow> nat option \<Rightarrow> bytes result" where
  "decompress_into_with_hint lib [] expected_size = Inl (Decompression ''empty data'')"
| "decompress_into_with_hint lib (tag # payload) expected_size =
     (if tag = TAG_NONE then Inr payload
      else if tag = TAG_LZ4 then
        (if length payload < 4 then Inl (Decompression ''lz4: payload too short'')
         else
           let uncompressed_size = unat (u32_from_le_bytes (take 4 payload)) in
           if uncompressed_size > MAX_DECOMPRESS_SIZE
           then Inl (lz4_size_error uncompressed_size [] MAX_DECOMPRESS_SIZE)
           else (case lz4_decompress_into lib (drop 4 payload) uncompressed_size of
                   Inl e \<Rightarrow> Inl (Decompression (''lz4: '' @ e))
                 | Inr output \<Rightarrow>
                     if length output \<noteq> uncompressed_size
                     then Inl (Decompression (''lz4: declared size '' @ show_nat uncompressed_size
                                 @ '' but decompressed '' @ show_nat (length output) @ '' bytes''))
                     else Inr output))
      else if tag = TAG_ZSTD then
        (case expected_size of
           Some hint \<Rightarrow> zstd_bulk_limited lib hint payload
         | None \<Rightarrow> zstd_stream_limited lib MAX_DECOMPRESS_SIZE [] payload)
      else Inl (UnknownCompressionTag tag))"

section \<open>Lemmas\<close>

lemmas tag_defs = TAG_NONE_def TAG_LZ4_def TAG_ZSTD_def

lemma compress_cases:
  assumes "compress lib alg d = Inr out"
  obtains (none) "alg = CompNone" "out = TAG_NONE # d"
  | (lz4) c where "alg = Lz4" "lz4_compress lib d = Inr c"
      "out = TAG_LZ4 # u32_to_le_bytes (of_nat (length d)) @ c"
  | (zstd) l c where "alg = Zstd l" "zstd_compress lib l d = Inr c" "out = TAG_ZSTD # c"
  using assms by (cases alg) (auto simp: compress_def result_simps)

lemma zstd_stream_ok:
  assumes "codec_ok lib" and "zstd_compress lib l d = Inr c" and "length d \<le> limit"
  shows "zstd_stream_limited lib limit what c = Inr d"
  using assms by (auto simp: codec_ok_def zstd_stream_limited_def)

lemma zstd_bulk_ok:
  assumes "codec_ok lib" and "zstd_compress lib l d = Inr c" and "length d \<le> hint"
    and "length d \<le> MAX_DECOMPRESS_SIZE" and "zstd_decompressor_new lib = None"
  shows "zstd_bulk_limited lib hint c = Inr d"
  using assms by (auto simp: codec_ok_def zstd_bulk_limited_def)

lemma zstd_stream_bound: "zstd_stream_limited lib limit what p = Inr d \<Longrightarrow> length d \<le> limit"
  by (auto simp: zstd_stream_limited_def result_simps)

lemma zstd_bulk_bound: "zstd_bulk_limited lib hint p = Inr d \<Longrightarrow> length d \<le> MAX_DECOMPRESS_SIZE"
  by (auto simp: zstd_bulk_limited_def result_simps)

text \<open>The length that an LZ4 payload declares, and what may come out of stored bytes.\<close>

definition lz4_declared :: "bytes \<Rightarrow> nat" where
  "lz4_declared payload = unat (u32_from_le_bytes (take 4 payload))"

definition expansion_ok :: "nat \<Rightarrow> bytes \<Rightarrow> bytes \<Rightarrow> bool" where
  "expansion_ok limit data d \<longleftrightarrow>
     (data = TAG_NONE # d
      \<or> hd data = TAG_LZ4 \<and> length d \<le> lz4_declared (tl data) \<and> lz4_declared (tl data) \<le> limit
      \<or> hd data = TAG_ZSTD \<and> length d \<le> limit) \<and> data \<noteq> []"

lemma lz4_sizes:
  assumes "codec_ok lib"
  shows "lz4_decompress_size_prepended lib p = Inr d \<Longrightarrow> length d \<le> lz4_declared p"
  using assms unfolding codec_ok_def lz4_declared_def by blast

lemma with_hint_bound:
  assumes "codec_ok lib" and "decompress_with_hint lib data hint = Inr d"
  shows "expansion_ok MAX_DECOMPRESS_SIZE data d"
proof (cases data)
  case (Cons tag payload)
  show ?thesis
    using assms(2) lz4_sizes [OF assms(1), of payload d] zstd_stream_bound zstd_bulk_bound
    by (simp add: Cons expansion_ok_def lz4_declared_def [symmetric] Let_def result_simps split: if_splits option.splits) blast+
qed (use assms in simp)

lemma into_with_hint_bound:
  assumes "decompress_into_with_hint lib data hint = Inr d"
  shows "expansion_ok MAX_DECOMPRESS_SIZE data d" and "hd data = TAG_LZ4 \<Longrightarrow> length d = lz4_declared (tl data)"
proof (atomize (full), cases data)
  case (Cons tag payload)
  have "TAG_LZ4 \<noteq> TAG_NONE" "TAG_ZSTD \<noteq> TAG_LZ4" by (simp_all add: tag_defs)
  then show "expansion_ok MAX_DECOMPRESS_SIZE data d \<and> (hd data = TAG_LZ4 \<longrightarrow> length d = lz4_declared (tl data))"
    using assms zstd_stream_bound zstd_bulk_bound
    by (simp add: Cons expansion_ok_def lz4_declared_def [symmetric] Let_def result_simps split: if_splits option.splits) blast+
qed (use assms in simp)

lemma metadata_bound:
  assumes "codec_ok lib" and "decompress_metadata lib data = Inr d"
  shows "expansion_ok MAX_METADATA_DECOMPRESS_SIZE data d"
proof (cases data)
  case (Cons tag payload)
  show ?thesis
    using assms(2) lz4_sizes [OF assms(1), of payload d] zstd_stream_bound
    by (simp add: Cons expansion_ok_def lz4_declared_def [symmetric] Let_def result_simps split: if_splits) blast+
qed (use assms in simp)

section \<open>Properties\<close>

text \<open>C25: Whatever the codec, data of up to 32 MiB that was compressed is restored exactly by
  both decompression routines, without a size hint or with any hint that is not too small, and by
  the metadata reader.\<close>

theorem compress_roundtrip:
  assumes "codec_ok lib" and "zstd_decompressor_new lib = None"
    and "compress lib alg d = Inr out" and "length d \<le> MAX_DECOMPRESS_SIZE"
    and "case hint of None \<Rightarrow> True | Some h \<Rightarrow> length d \<le> h"
  shows "decompress_with_hint lib out hint = Inr d
       \<and> decompress_into_with_hint lib out hint = Inr d
       \<and> decompress_metadata lib out = Inr d"
  using assms(3)
proof (cases rule: compress_cases)
  case none
  then show ?thesis by simp
next
  case (lz4 c)
  have "length d < 2 ^ 32" using assms(4) by (simp add: MAX_DECOMPRESS_SIZE_def)
  moreover from this have "lz4_decompress_size_prepended lib
      (u32_to_le_bytes (of_nat (length d)) @ c) = Inr d" "lz4_decompress_into lib c (length d) = Inr d"
    using assms(1) lz4(2) by (auto simp: codec_ok_def)
  ultimately show ?thesis
    using lz4(3) assms(4)
    by (simp add: tag_defs Let_def MAX_METADATA_DECOMPRESS_SIZE_def MAX_DECOMPRESS_SIZE_def)
next
  case (zstd l c)
  have "length d \<le> MAX_METADATA_DECOMPRESS_SIZE"
    using assms(4) by (simp add: MAX_METADATA_DECOMPRESS_SIZE_def MAX_DECOMPRESS_SIZE_def)
  then show ?thesis
    using zstd(3) assms(4,5) zstd_stream_ok [OF assms(1) zstd(2)]
      zstd_bulk_ok [OF assms(1) zstd(2) _ assms(4,2)]
    by (cases hint) (simp_all add: tag_defs)
qed

definition wit_codec :: codec_lib where
  "wit_codec =
     \<lparr>lz4_max_output = (\<lambda>n. n), lz4_compress = (\<lambda>d. Inr d),
      lz4_decompress_size_prepended = (\<lambda>p. Inr (take (unat (u32_from_le_bytes (take 4 p))) (drop 4 p))),
      lz4_decompress_into = (\<lambda>p n. Inr (take n p)),
      zstd_bound = (\<lambda>n. n), zstd_compressor_new = (\<lambda>l. None), zstd_compress = (\<lambda>l d. Inr d),
      zstd_decompressor_new = None,
      zstd_bulk_decompress = (\<lambda>p n. if n < length p then Inl ''buffer too small'' else Inr p),
      zstd_decoder_new = (\<lambda>p. None), zstd_decoder_take = (\<lambda>p n. Inr (take n p))\<rparr>"

lemma wit_codec_ok: "codec_ok wit_codec"
  by (auto simp: codec_ok_def wit_codec_def)

lemma compress_roundtrip_witness:
  "\<exists>out. compress wit_codec (Zstd 3) [1, 2, 3] = Inr out
     \<and> decompress_with_hint wit_codec out (Some 3) = Inr [1, 2, 3]
     \<and> decompress_metadata wit_codec out = Inr [1, 2, 3]"
proof -
  obtain out where c: "compress wit_codec (Zstd 3) [1, 2, 3] = Inr out"
    by (simp add: compress_def wit_codec_def)
  have "zstd_decompressor_new wit_codec = None" by (simp add: wit_codec_def)
  from compress_roundtrip [OF wit_codec_ok this c, of "Some 3"] c show ?thesis
    by (auto simp: MAX_DECOMPRESS_SIZE_def)
qed

text \<open>C26: No stored payload can expand without bound.  Whatever bytes are presented, a successful
  decompression returns an uncompressed payload as it is stored, and of a compressed one at most
  32 MiB, or 4 GiB through the metadata reader; LZ4 output is no longer than the size that the payload
  declares, and exactly that long when it is written into a buffer.\<close>

theorem decompress_bounded:
  assumes "codec_ok lib"
  shows "(decompress_with_hint lib data hint = Inr d \<longrightarrow> expansion_ok MAX_DECOMPRESS_SIZE data d)
    \<and> (decompress_into_with_hint lib data hint = Inr d \<longrightarrow> expansion_ok MAX_DECOMPRESS_SIZE data d
        \<and> (hd data = TAG_LZ4 \<longrightarrow> length d = lz4_declared (tl data)))
    \<and> (decompress_metadata lib data = Inr d \<longrightarrow> expansion_ok MAX_METADATA_DECOMPRESS_SIZE data d)"
  using with_hint_bound [OF assms] into_with_hint_bound metadata_bound [OF assms] by blast

lemma decompress_bounded_witness:
  "decompress_with_hint wit_codec [2, 7, 7] None = Inr [7, 7] \<and> expansion_ok MAX_DECOMPRESS_SIZE [2, 7, 7] [7, 7]
   \<and> decompress_into_with_hint wit_codec [1, 2, 0, 0, 0, 7, 7] None = Inr [7, 7]
   \<and> length [7, 7 :: u8] = lz4_declared [2, 0, 0, 0, 7, 7]"
proof -
  have z: "decompress_with_hint wit_codec [2, 7, 7] None = Inr [7, 7]"
    by (simp add: tag_defs zstd_stream_limited_def wit_codec_def MAX_DECOMPRESS_SIZE_def)
  have "unat (u32_from_le_bytes [2, 0, 0, 0]) = 2" by code_simp
  then have l: "decompress_into_with_hint wit_codec [1, 2, 0, 0, 0, 7, 7] None = Inr [7, 7]"
    by (simp add: tag_defs wit_codec_def MAX_DECOMPRESS_SIZE_def Let_def)
  show ?thesis
    using z l decompress_bounded [OF wit_codec_ok, of "[2, 7, 7]" None "[7, 7]"]
      decompress_bounded [OF wit_codec_ok, of "[1, 2, 0, 0, 0, 7, 7]" None "[7, 7]"]
    by (simp add: tag_defs)
qed

end
