(* ===== verification/Chunk_Index.thy ===== *)
theory Chunk_Index
  imports Types
begin

text \<open>
  \<open>vykar-core/src/index/mod.rs\<close>: the chunk index with its reference counts, the dedup-only
  index, the journal of packs written by an unfinished session, and the delta a backup
  session records and merges into a freshly loaded index when it commits.

  Reference counts are 32-bit words with wrapping addition, as in a release build.
\<close>

section \<open>The chunk index\<close>

record chunk_index_entry =
  ce_refcount :: u32
  ce_stored_size :: u32
  ce_pack_id :: pack_id
  ce_pack_offset :: u64

type_synonym chunk_index = "(chunk_id, chunk_index_entry) hmap"

record index_blob =
  ib_generation :: u64
  ib_chunks :: chunk_index

definition ci_new :: chunk_index where "ci_new = []"

definition ci_contains :: "chunk_index \<Rightarrow> chunk_id \<Rightarrow> bool" where
  "ci_contains idx i = hm_contains idx i"

text \<open>\<open>get_mut\<close> followed by an update in place.\<close>

definition hm_modify :: "'k \<Rightarrow> ('v \<Rightarrow> 'v) \<Rightarrow> ('k, 'v) hmap \<Rightarrow> ('k, 'v) hmap" where
  "hm_modify k f m = (case map_of m k of None \<Rightarrow> m | Some v \<Rightarrow> hm_insert k (f v) m)"

definition ci_add :: "chunk_index \<Rightarrow> chunk_id \<Rightarrow> u32 \<Rightarrow> pack_id \<Rightarrow> u64 \<Rightarrow> chunk_index" where
  "ci_add idx i stored_size pid off =
     (case map_of idx i of
        Some e \<Rightarrow> hm_insert i (e\<lparr>ce_refcount := ce_refcount e + 1\<rparr>) idx
      | None \<Rightarrow> hm_insert i \<lparr>ce_refcount = 1, ce_stored_size = stored_size,
                            ce_pack_id = pid, ce_pack_offset = off\<rparr> idx)"

definition ci_increment_refcount :: "chunk_index \<Rightarrow> chunk_id \<Rightarrow> chunk_index" where
  "ci_increment_refcount idx i = hm_modify i (\<lambda>e. e\<lparr>ce_refcount := ce_refcount e + 1\<rparr>) idx"

definition ci_increment_refcount_by :: "chunk_index \<Rightarrow> chunk_id \<Rightarrow> u32 \<Rightarrow> chunk_index" where
  "ci_increment_refcount_by idx i amount =
     hm_modify i (\<lambda>e. e\<lparr>ce_refcount := ce_refcount e + amount\<rparr>) idx"

definition ci_get :: "chunk_index \<Rightarrow> chunk_id \<Rightarrow> chunk_index_entry option" where
  "ci_get idx i = map_of idx i"

definition ci_len :: "chunk_index \<Rightarrow> nat" where "ci_len idx = length idx"

definition ci_is_empty :: "chunk_index \<Rightarrow> bool" where "ci_is_empty idx \<longleftrightarrow> idx = []"

definition ci_decrement :: "chunk_index \<Rightarrow> chunk_id \<Rightarrow> (u32 \<times> u32) option \<times> chunk_index" where
  "ci_decrement idx i =
     (case map_of idx i of
        Some e \<Rightarrow>
          (let rc = sat_sub_u32 (ce_refcount e) 1; sz = ce_stored_size e in
           (Some (rc, sz),
            if rc = 0 then hm_remove i idx
            else hm_insert i (e\<lparr>ce_refcount := rc\<rparr>) idx))
      | None \<Rightarrow> (None, idx))"

definition ci_update_location ::
  "chunk_index \<Rightarrow> chunk_id \<Rightarrow> pack_id \<Rightarrow> u64 \<Rightarrow> u32 \<Rightarrow> bool \<times> chunk_index" where
  "ci_update_location idx i pid off stored_size =
     (case map_of idx i of
        Some e \<Rightarrow>
          (True, hm_insert i (e\<lparr>ce_pack_id := pid, ce_pack_offset := off,
                               ce_stored_size := stored_size\<rparr>) idx)
      | None \<Rightarrow> (False, idx))"

definition ci_retain_chunks :: "chunk_index \<Rightarrow> chunk_id list \<Rightarrow> chunk_index" where
  "ci_retain_chunks idx needed = hm_retain (\<lambda>i _. i \<in> set needed) idx"

definition ci_count_distinct_packs :: "chunk_index \<Rightarrow> nat" where
  "ci_count_distinct_packs idx = length (remdups (map (ce_pack_id \<circ> snd) idx))"

definition ci_remove :: "chunk_index \<Rightarrow> chunk_id \<Rightarrow> chunk_index_entry option \<times> chunk_index" where
  "ci_remove idx i = (map_of idx i, hm_remove i idx)"

definition ci_remove_by_pack :: "chunk_index \<Rightarrow> pack_id \<Rightarrow> nat \<times> chunk_index" where
  "ci_remove_by_pack idx pid =
     (let idx' = hm_retain (\<lambda>_ e. ce_pack_id e \<noteq> pid) idx
      in (length idx - length idx', idx'))"

text \<open>\<open>retain\<close> with a closure that also overwrites the kept entries.\<close>

fun ci_rebuild_refcounts :: "chunk_index \<Rightarrow> (chunk_id, u32) hmap \<Rightarrow> chunk_index" where
  "ci_rebuild_refcounts [] new_rc = []"
| "ci_rebuild_refcounts ((i, e) # idx) new_rc =
     (case map_of new_rc i of
        Some rc \<Rightarrow> (i, e\<lparr>ce_refcount := rc\<rparr>) # ci_rebuild_refcounts idx new_rc
      | None \<Rightarrow> ci_rebuild_refcounts idx new_rc)"

section \<open>The pending-index journal\<close>

record pending_chunk_entry =
  pc_chunk_id :: chunk_id
  pc_stored_size :: u32
  pc_pack_offset :: u64

record pending_pack_entry =
  pp_pack_id :: pack_id
  pp_chunks :: "pending_chunk_entry list"

type_synonym pending_index_journal = "(pack_id, pending_pack_entry) hmap"

definition pj_is_empty :: "pending_index_journal \<Rightarrow> bool" where "pj_is_empty j \<longleftrightarrow> j = []"

definition pj_len :: "pending_index_journal \<Rightarrow> nat" where "pj_len j = length j"

definition pj_remove_pack :: "pending_index_journal \<Rightarrow> pack_id \<Rightarrow> pending_index_journal" where
  "pj_remove_pack j pid = hm_remove pid j"

definition pj_record_pack ::
  "pending_index_journal \<Rightarrow> pack_id \<Rightarrow> pending_chunk_entry list \<Rightarrow> pending_index_journal" where
  "pj_record_pack j pid chunks = hm_insert pid \<lparr>pp_pack_id = pid, pp_chunks = chunks\<rparr> j"

definition pj_to_wire :: "pending_index_journal \<Rightarrow> pending_pack_entry list" where
  "pj_to_wire j = map snd j"

definition pj_from_wire :: "pending_pack_entry list \<Rightarrow> pending_index_journal" where
  "pj_from_wire es = hm_collect (map (\<lambda>e. (pp_pack_id e, e)) es)"

record recovered_chunk_entry =
  rc_stored_size :: u32
  rc_pack_id :: pack_id
  rc_pack_offset :: u64

section \<open>The index delta\<close>

record new_chunk_entry =
  ne_chunk_id :: chunk_id
  ne_stored_size :: u32
  ne_pack_id :: pack_id
  ne_pack_offset :: u64
  ne_refcount :: u32

record index_delta =
  dl_new_entries :: "new_chunk_entry list"
  dl_refcount_bumps :: "(chunk_id, u32) hmap"

record index_delta_checkpoint =
  cp_new_entries_len :: nat
  cp_refcount_bumps :: "(chunk_id, u32) hmap"

definition delta_checkpoint_empty :: index_delta_checkpoint where
  "delta_checkpoint_empty = \<lparr>cp_new_entries_len = 0, cp_refcount_bumps = []\<rparr>"

definition delta_new :: index_delta where
  "delta_new = \<lparr>dl_new_entries = [], dl_refcount_bumps = []\<rparr>"

definition delta_is_empty :: "index_delta \<Rightarrow> bool" where
  "delta_is_empty d \<longleftrightarrow> dl_new_entries d = [] \<and> dl_refcount_bumps d = []"

definition delta_checkpoint :: "index_delta \<Rightarrow> index_delta_checkpoint" where
  "delta_checkpoint d =
     \<lparr>cp_new_entries_len = length (dl_new_entries d), cp_refcount_bumps = dl_refcount_bumps d\<rparr>"

definition delta_rollback :: "index_delta \<Rightarrow> index_delta_checkpoint \<Rightarrow> index_delta" where
  "delta_rollback d cp =
     \<lparr>dl_new_entries = take (cp_new_entries_len cp) (dl_new_entries d),
      dl_refcount_bumps = cp_refcount_bumps cp\<rparr>"

text \<open>\<open>*map.entry(k).or_insert(0) += n\<close>.\<close>

definition hm_add_u32 :: "'k \<Rightarrow> u32 \<Rightarrow> ('k, u32) hmap \<Rightarrow> ('k, u32) hmap" where
  "hm_add_u32 k n m = hm_insert k ((case map_of m k of None \<Rightarrow> 0 | Some v \<Rightarrow> v) + n) m"

definition delta_bump_refcount :: "index_delta \<Rightarrow> chunk_id \<Rightarrow> index_delta" where
  "delta_bump_refcount d i =
     d\<lparr>dl_refcount_bumps := hm_add_u32 i 1 (dl_refcount_bumps d)\<rparr>"

definition delta_add_new_entry ::
  "index_delta \<Rightarrow> chunk_id \<Rightarrow> u32 \<Rightarrow> pack_id \<Rightarrow> u64 \<Rightarrow> u32 \<Rightarrow> index_delta" where
  "delta_add_new_entry d i sz pid off rc =
     d\<lparr>dl_new_entries := dl_new_entries d @
        [\<lparr>ne_chunk_id = i, ne_stored_size = sz, ne_pack_id = pid,
          ne_pack_offset = off, ne_refcount = rc\<rparr>]\<rparr>"

fun reconcile_partition ::
  "chunk_index \<Rightarrow> new_chunk_entry list \<Rightarrow> (chunk_id, u32) hmap \<Rightarrow>
   new_chunk_entry list \<times> (chunk_id, u32) hmap" where
  "reconcile_partition fresh [] bumps = ([], bumps)"
| "reconcile_partition fresh (e # es) bumps =
     (if ci_contains fresh (ne_chunk_id e)
      then reconcile_partition fresh es (hm_add_u32 (ne_chunk_id e) (ne_refcount e) bumps)
      else (let (still, bumps') = reconcile_partition fresh es bumps in (e # still, bumps')))"

definition delta_reconcile :: "index_delta \<Rightarrow> chunk_index \<Rightarrow> index_delta result" where
  "delta_reconcile d fresh =
     (let (still_new, bumps) =
            reconcile_partition fresh (dl_new_entries d) (dl_refcount_bumps d);
          new_entry_ids = map ne_chunk_id still_new
      in if list_ex (\<lambda>i. \<not> ci_contains fresh i \<and> i \<notin> set new_entry_ids) (map fst bumps)
         then Inl StaleChunksDuringCommit
         else Inr \<lparr>dl_new_entries = still_new, dl_refcount_bumps = bumps\<rparr>)"

fun apply_new_entries :: "new_chunk_entry list \<Rightarrow> chunk_index \<Rightarrow> chunk_index" where
  "apply_new_entries [] idx = idx"
| "apply_new_entries (e # es) idx =
     (let idx1 = ci_add idx (ne_chunk_id e) (ne_stored_size e) (ne_pack_id e) (ne_pack_offset e);
          idx2 = (if ne_refcount e > 1
                  then ci_increment_refcount_by idx1 (ne_chunk_id e) (ne_refcount e - 1)
                  else idx1)
      in apply_new_entries es idx2)"

fun apply_bumps :: "(chunk_id \<times> u32) list \<Rightarrow> chunk_index \<Rightarrow> chunk_index" where
  "apply_bumps [] idx = idx"
| "apply_bumps ((i, n) # bs) idx = apply_bumps bs (ci_increment_refcount_by idx i n)"

definition delta_apply_to :: "index_delta \<Rightarrow> chunk_index \<Rightarrow> chunk_index" where
  "delta_apply_to d idx = apply_bumps (dl_refcount_bumps d) (apply_new_entries (dl_new_entries d) idx)"

section \<open>Specification vocabulary\<close>

text \<open>
  The abstract view of an index: the reference count of every chunk (0 when absent) and
  the location of every present chunk.
\<close>

definition rc_of :: "chunk_index \<Rightarrow> chunk_id \<Rightarrow> u32" where
  "rc_of idx c = (case map_of idx c of None \<Rightarrow> 0 | Some e \<Rightarrow> ce_refcount e)"

definition loc_of :: "chunk_index \<Rightarrow> chunk_id \<Rightarrow> (u32 \<times> pack_id \<times> u64) option" where
  "loc_of idx c =
     map_option (\<lambda>e. (ce_stored_size e, ce_pack_id e, ce_pack_offset e)) (map_of idx c)"

definition ne_loc :: "new_chunk_entry \<Rightarrow> u32 \<times> pack_id \<times> u64" where
  "ne_loc e = (ne_stored_size e, ne_pack_id e, ne_pack_offset e)"

definition new_refs :: "new_chunk_entry list \<Rightarrow> chunk_id \<Rightarrow> u32" where
  "new_refs es c = sum_list (map ne_refcount (filter (\<lambda>e. ne_chunk_id e = c) es))"

definition new_loc :: "new_chunk_entry list \<Rightarrow> chunk_id \<Rightarrow> (u32 \<times> pack_id \<times> u64) option" where
  "new_loc es c = map_option ne_loc (find (\<lambda>e. ne_chunk_id e = c) es)"

definition bump_of :: "(chunk_id, u32) hmap \<Rightarrow> chunk_id \<Rightarrow> u32" where
  "bump_of m c = (case map_of m c of None \<Rightarrow> 0 | Some n \<Rightarrow> n)"

text \<open>The references a delta adds to a chunk.\<close>

definition delta_refs :: "index_delta \<Rightarrow> chunk_id \<Rightarrow> u32" where
  "delta_refs d c = new_refs (dl_new_entries d) c + bump_of (dl_refcount_bumps d) c"

definition delta_wf :: "index_delta \<Rightarrow> bool" where
  "delta_wf d \<longleftrightarrow> hm_wf (dl_refcount_bumps d) \<and> (\<forall>e \<in> set (dl_new_entries d). ne_refcount e \<noteq> 0)"

section \<open>Lemmas\<close>

lemma hm_get_modify [simp, hmap_simps]:
  "map_of (hm_modify k f m) = (map_of m)(k := map_option f (map_of m k))"
  by (auto simp: hm_modify_def fun_eq_iff split: option.splits)

lemma hm_wf_modify [simp, intro]: "hm_wf m \<Longrightarrow> hm_wf (hm_modify k f m)"
  by (auto simp: hm_modify_def split: option.splits)

lemma hm_get_add_u32 [simp, hmap_simps]:
  "map_of (hm_add_u32 k n m) =
     (map_of m)(k \<mapsto> (case map_of m k of None \<Rightarrow> 0 | Some v \<Rightarrow> v) + n)"
  by (simp add: hm_add_u32_def)

lemma hm_wf_add_u32 [simp, intro]: "hm_wf m \<Longrightarrow> hm_wf (hm_add_u32 k n m)"
  by (simp add: hm_add_u32_def)

lemma ci_get_add:
  "map_of (ci_add idx i sz pid off) =
     (map_of idx)(i \<mapsto> (case map_of idx i of
        Some e \<Rightarrow> e\<lparr>ce_refcount := ce_refcount e + 1\<rparr>
      | None \<Rightarrow> \<lparr>ce_refcount = 1, ce_stored_size = sz, ce_pack_id = pid, ce_pack_offset = off\<rparr>))"
  by (simp add: ci_add_def split: option.splits)

lemma ci_get_incr_by:
  "map_of (ci_increment_refcount_by idx i n) =
     (map_of idx)(i := map_option (\<lambda>e. e\<lparr>ce_refcount := ce_refcount e + n\<rparr>) (map_of idx i))"
  by (simp add: ci_increment_refcount_by_def)

lemma ci_wf_add [simp, intro]: "hm_wf idx \<Longrightarrow> hm_wf (ci_add idx i sz pid off)"
  by (auto simp: ci_add_def split: option.splits)

lemma ci_wf_incr_by [simp, intro]: "hm_wf idx \<Longrightarrow> hm_wf (ci_increment_refcount_by idx i n)"
  by (simp add: ci_increment_refcount_by_def)

lemma ci_contains_iff: "ci_contains idx i \<longleftrightarrow> map_of idx i \<noteq> None"
  by (simp add: ci_contains_def hm_contains_def)

text \<open>One new entry: \<open>add\<close> and the bulk increment together add its reference count.\<close>

definition apply_one :: "new_chunk_entry \<Rightarrow> chunk_index \<Rightarrow> chunk_index" where
  "apply_one e idx =
     (let idx1 = ci_add idx (ne_chunk_id e) (ne_stored_size e) (ne_pack_id e) (ne_pack_offset e)
      in if ne_refcount e > 1
         then ci_increment_refcount_by idx1 (ne_chunk_id e) (ne_refcount e - 1) else idx1)"

lemma apply_new_entries_Cons [simp]:
  "apply_new_entries (e # es) idx = apply_new_entries es (apply_one e idx)"
  by (simp add: apply_one_def Let_def)

declare apply_new_entries.simps(2) [simp del]

lemma apply_one_get_other:
  "c \<noteq> ne_chunk_id e \<Longrightarrow> map_of (apply_one e idx) c = map_of idx c"
  by (simp add: apply_one_def ci_get_add ci_get_incr_by Let_def)

lemma apply_one_present: "map_of (apply_one e idx) (ne_chunk_id e) \<noteq> None"
  by (simp add: apply_one_def ci_get_add ci_get_incr_by Let_def)

lemma rc_of_apply_one:
  assumes "ne_refcount e \<noteq> 0"
  shows "rc_of (apply_one e idx) c = rc_of idx c + (if c = ne_chunk_id e then ne_refcount e else 0)"
proof (cases "c = ne_chunk_id e")
  case True
  have "ne_refcount e = 1" if "\<not> ne_refcount e > 1"
    using that assms by unat_arith
  then show ?thesis
    using True by (auto simp: rc_of_def apply_one_def ci_get_add ci_get_incr_by Let_def
        split: option.splits)
next
  case False
  then show ?thesis by (simp add: rc_of_def apply_one_get_other)
qed

lemma loc_of_apply_one:
  "loc_of (apply_one e idx) c =
     (case loc_of idx c of
        Some l \<Rightarrow> Some l
      | None \<Rightarrow> if c = ne_chunk_id e then Some (ne_loc e) else None)"
  by (auto simp: loc_of_def apply_one_def ci_get_add ci_get_incr_by ne_loc_def Let_def
      split: option.splits)

lemma hm_wf_apply_one [simp, intro]: "hm_wf idx \<Longrightarrow> hm_wf (apply_one e idx)"
  by (simp add: apply_one_def Let_def)

lemma rc_of_apply_new:
  "\<forall>e \<in> set es. ne_refcount e \<noteq> 0 \<Longrightarrow>
   rc_of (apply_new_entries es idx) c = rc_of idx c + new_refs es c"
  by (induction es arbitrary: idx)
     (auto simp: new_refs_def rc_of_apply_one add.assoc)

lemma loc_of_apply_new:
  "loc_of (apply_new_entries es idx) c =
     (case loc_of idx c of Some l \<Rightarrow> Some l | None \<Rightarrow> new_loc es c)"
  by (induction es arbitrary: idx)
     (auto simp: new_loc_def loc_of_apply_one split: option.splits)

lemma hm_wf_apply_new [simp, intro]: "hm_wf idx \<Longrightarrow> hm_wf (apply_new_entries es idx)"
  by (induction es arbitrary: idx) auto

lemma loc_of_None_iff: "loc_of idx c = None \<longleftrightarrow> map_of idx c = None"
  by (simp add: loc_of_def)

lemma loc_of_incr_by [simp]: "loc_of (ci_increment_refcount_by idx i n) = loc_of idx"
  by (auto simp: loc_of_def ci_get_incr_by fun_eq_iff option.map_comp comp_def)

lemma rc_of_incr_by:
  "rc_of (ci_increment_refcount_by idx i n) c =
     rc_of idx c + (if c = i \<and> ci_contains idx i then n else 0)"
  by (auto simp: rc_of_def ci_get_incr_by ci_contains_iff split: option.splits)

lemma ci_contains_incr_by [simp]:
  "ci_contains (ci_increment_refcount_by idx i n) c = ci_contains idx c"
  by (auto simp: ci_contains_iff ci_get_incr_by)

lemma loc_of_apply_bumps [simp]: "loc_of (apply_bumps bs idx) = loc_of idx"
  by (induction bs idx rule: apply_bumps.induct) auto

lemma hm_wf_apply_bumps [simp, intro]: "hm_wf idx \<Longrightarrow> hm_wf (apply_bumps bs idx)"
  by (induction bs idx rule: apply_bumps.induct) auto

lemma bump_of_notin: "c \<notin> fst ` set m \<Longrightarrow> bump_of m c = 0"
  by (simp add: bump_of_def map_of_eq_None_iff [THEN iffD2])

lemma rc_of_apply_bumps:
  assumes "hm_wf bs"
  shows "rc_of (apply_bumps bs idx) c =
           rc_of idx c + (if ci_contains idx c then bump_of bs c else 0)"
  using assms
proof (induction bs idx rule: apply_bumps.induct)
  case (1 idx)
  then show ?case by (simp add: bump_of_def)
next
  case (2 i n bs idx)
  then have wf: "hm_wf bs" and i: "i \<notin> fst ` set bs" by (auto simp: hm_wf_def)
  show ?case
    using "2.IH" [OF wf] bump_of_notin [OF i]
    by (auto simp: rc_of_incr_by bump_of_def)
qed

lemma new_refs_notin: "c \<notin> ne_chunk_id ` set es \<Longrightarrow> new_refs es c = 0"
  by (induction es) (auto simp: new_refs_def)

lemma new_refs_simps [simp]:
  "new_refs [] c = 0"
  "new_refs (e # es) c = (if ne_chunk_id e = c then ne_refcount e else 0) + new_refs es c"
  by (simp_all add: new_refs_def)

lemma new_loc_None_iff: "new_loc es c = None \<longleftrightarrow> c \<notin> ne_chunk_id ` set es"
  by (auto simp: new_loc_def find_None_iff)

lemma bump_of_add_u32:
  "bump_of (hm_add_u32 k n m) c = bump_of m c + (if c = k then n else 0)"
  by (simp add: bump_of_def split: option.splits)

lemma reconcile_partition_spec:
  assumes "reconcile_partition fresh es bumps = (still, bumps')"
  shows "still = filter (\<lambda>e. \<not> ci_contains fresh (ne_chunk_id e)) es"
    and "bump_of bumps' c = bump_of bumps c + (if ci_contains fresh c then new_refs es c else 0)"
    and "hm_wf bumps \<Longrightarrow> hm_wf bumps'"
    and "fst ` set bumps' = fst ` set bumps \<union> {i \<in> ne_chunk_id ` set es. ci_contains fresh i}"
  using assms
proof (induction fresh es bumps arbitrary: still bumps' rule: reconcile_partition.induct)
  case (1 fresh bumps)
  { case 1 then show ?case by simp }
  { case 2 then show ?case by simp }
  { case 3 then show ?case by simp }
  { case 4 then show ?case by simp }
next
  case (2 fresh e es bumps)
  obtain s1 b1 where r1: "reconcile_partition fresh es
      (hm_add_u32 (ne_chunk_id e) (ne_refcount e) bumps) = (s1, b1)" by fastforce
  obtain s2 b2 where r2: "reconcile_partition fresh es bumps = (s2, b2)" by fastforce
  have keys: "fst ` set (hm_add_u32 k n m) = insert k (fst ` set m)" for k n and m :: "(chunk_id, u32) hmap"
    by (simp flip: dom_map_of_conv_image_fst)
  { case 1 then show ?case using "2.IH"(1,5) r1 r2 by (auto split: if_splits) }
  { case 2 then show ?case
      using "2.IH"(2) [OF _ r1] "2.IH"(6) [OF _ r2] r1 r2
      by (auto simp: bump_of_add_u32 split: if_splits) }
  { case 3 then show ?case using "2.IH"(3,7) r1 r2 by (auto split: if_splits) }
  { case 4 then show ?case
      using "2.IH"(4) [OF _ r1] "2.IH"(8) [OF _ r2] r1 r2
      by (auto simp: keys split: if_splits) }
qed

text \<open>What \<open>reconcile\<close> returns, in terms of the two inputs.\<close>

lemma delta_reconcile_cases:
  assumes "delta_reconcile d fresh = Inr d'" and "delta_wf d"
  shows "dl_new_entries d' = filter (\<lambda>e. \<not> ci_contains fresh (ne_chunk_id e)) (dl_new_entries d)"
    and "bump_of (dl_refcount_bumps d') c =
           bump_of (dl_refcount_bumps d) c +
           (if ci_contains fresh c then new_refs (dl_new_entries d) c else 0)"
    and "delta_wf d'"
    and "i \<in> fst ` set (dl_refcount_bumps d) \<Longrightarrow>
           ci_contains fresh i \<or> i \<in> ne_chunk_id ` set (dl_new_entries d)"
proof -
  obtain still b where r:
    "reconcile_partition fresh (dl_new_entries d) (dl_refcount_bumps d) = (still, b)" by fastforce
  note spec = reconcile_partition_spec [OF r]
  from assms(1) r have d': "d' = \<lparr>dl_new_entries = still, dl_refcount_bumps = b\<rparr>"
    and ok: "\<forall>i \<in> fst ` set b. ci_contains fresh i \<or> i \<in> ne_chunk_id ` set still"
    by (auto simp: delta_reconcile_def list_ex_iff Let_def split: if_splits)
  show "dl_new_entries d' = filter (\<lambda>e. \<not> ci_contains fresh (ne_chunk_id e)) (dl_new_entries d)"
    using d' spec(1) by simp
  show "bump_of (dl_refcount_bumps d') c =
           bump_of (dl_refcount_bumps d) c +
           (if ci_contains fresh c then new_refs (dl_new_entries d) c else 0)"
    using d' spec(2) by simp
  show "delta_wf d'" using assms(2) d' spec(1,3) by (auto simp: delta_wf_def)
  show "ci_contains fresh i \<or> i \<in> ne_chunk_id ` set (dl_new_entries d)"
    if "i \<in> fst ` set (dl_refcount_bumps d)"
    using that ok spec(1,4) by auto
qed

lemma new_refs_filter:
  "new_refs (filter (\<lambda>e. P (ne_chunk_id e)) es) c = (if P c then new_refs es c else 0)"
  by (induction es) auto

lemma new_loc_filter:
  "new_loc (filter (\<lambda>e. P (ne_chunk_id e)) es) c = (if P c then new_loc es c else None)"
  by (induction es) (auto simp: new_loc_def)

lemma ci_contains_loc: "ci_contains idx c \<longleftrightarrow> loc_of idx c \<noteq> None"
  by (simp add: ci_contains_iff loc_of_None_iff)

lemma ci_contains_apply_new:
  "ci_contains (apply_new_entries es idx) c \<longleftrightarrow> ci_contains idx c \<or> c \<in> ne_chunk_id ` set es"
  using new_loc_None_iff [of es c]
  by (cases "loc_of idx c") (auto simp: ci_contains_loc loc_of_apply_new)

lemma rc_of_apply_to:
  assumes "delta_wf d"
  shows "rc_of (delta_apply_to d idx) c =
    rc_of idx c + new_refs (dl_new_entries d) c +
    (if ci_contains idx c \<or> c \<in> ne_chunk_id ` set (dl_new_entries d)
     then bump_of (dl_refcount_bumps d) c else 0)"
  using assms
  by (simp add: delta_apply_to_def delta_wf_def rc_of_apply_bumps rc_of_apply_new
      ci_contains_apply_new)

lemma loc_of_apply_to:
  "loc_of (delta_apply_to d idx) c =
     (case loc_of idx c of Some l \<Rightarrow> Some l | None \<Rightarrow> new_loc (dl_new_entries d) c)"
  by (simp add: delta_apply_to_def loc_of_apply_new)

lemma hm_wf_apply_to [simp, intro]: "hm_wf idx \<Longrightarrow> hm_wf (delta_apply_to d idx)"
  by (simp add: delta_apply_to_def)

text \<open>A sequence of mutations a session makes to its delta.\<close>

datatype delta_op = Op_bump chunk_id | Op_new chunk_id u32 pack_id u64 u32

fun delta_step :: "delta_op \<Rightarrow> index_delta \<Rightarrow> index_delta" where
  "delta_step (Op_bump i) d = delta_bump_refcount d i"
| "delta_step (Op_new i sz pid off rc) d = delta_add_new_entry d i sz pid off rc"

lemma delta_ops_prefix:
  "\<exists>es. dl_new_entries (fold delta_step ops d) = dl_new_entries d @ es"
proof (induction ops arbitrary: d)
  case (Cons a ops)
  have "\<exists>es. dl_new_entries (delta_step a d) = dl_new_entries d @ es"
    by (cases a) (auto simp: delta_bump_refcount_def delta_add_new_entry_def)
  then show ?case using Cons [of "delta_step a d"] by auto
qed simp

fun delta_op_refs :: "chunk_id \<Rightarrow> delta_op \<Rightarrow> u32" where
  "delta_op_refs c (Op_bump i) = (if i = c then 1 else 0)"
| "delta_op_refs c (Op_new i sz pid off rc) = (if i = c then rc else 0)"

lemma new_refs_append: "new_refs (es @ es') c = new_refs es c + new_refs es' c"
  by (simp add: new_refs_def)

lemma delta_refs_step: "delta_refs (delta_step a d) c = delta_refs d c + delta_op_refs c a"
  by (cases a)
     (auto simp: delta_refs_def delta_bump_refcount_def delta_add_new_entry_def
        bump_of_add_u32 new_refs_append)

lemma delta_refs_ops:
  "delta_refs (fold delta_step ops d) c = delta_refs d c + sum_list (map (delta_op_refs c) ops)"
  by (induction ops arbitrary: d) (simp_all add: delta_refs_step add.assoc)

text \<open>The journal is keyed by the pack each entry names.\<close>

definition pj_wf :: "pending_index_journal \<Rightarrow> bool" where
  "pj_wf j \<longleftrightarrow> hm_wf j \<and> (\<forall>(p, e) \<in> set j. pp_pack_id e = p)"

lemma pj_wf_iff: "pj_wf j \<longleftrightarrow> hm_wf j \<and> (\<forall>p e. map_of j p = Some e \<longrightarrow> pp_pack_id e = p)"
  by (auto simp: pj_wf_def hm_wf_def dest: map_of_SomeD)

lemma pj_wf_record [simp, intro]: "pj_wf j \<Longrightarrow> pj_wf (pj_record_pack j pid cs)"
  by (simp add: pj_wf_iff pj_record_pack_def)

lemma pj_wf_remove [simp, intro]: "pj_wf j \<Longrightarrow> pj_wf (pj_remove_pack j pid)"
  by (simp add: pj_wf_iff pj_remove_pack_def)

lemma pj_wf_from_wire [simp, intro]: "pj_wf (pj_from_wire es)"
  by (auto simp: pj_wf_iff pj_from_wire_def hm_get_collect dest!: map_of_SomeD)

lemma pj_from_wire_to_wire:
  assumes "pj_wf j"
  shows "map_of (pj_from_wire (pj_to_wire j)) = map_of j"
proof -
  from assms have "map (\<lambda>e. (pp_pack_id e, e)) (map snd j) = j"
    by (auto simp: pj_wf_def intro!: map_idI)
  then show ?thesis
    using assms by (simp add: pj_from_wire_def pj_to_wire_def hm_get_collect map_of_rev_distinct
        pj_wf_def hm_wf_def)
qed

lemma ci_get_rebuild_refcounts:
  assumes "hm_wf idx"
  shows "map_of (ci_rebuild_refcounts idx new_rc) c =
    (case map_of new_rc c of
       None \<Rightarrow> None
     | Some rc \<Rightarrow> map_option (\<lambda>e. e\<lparr>ce_refcount := rc\<rparr>) (map_of idx c))"
  using assms
proof (induction idx new_rc rule: ci_rebuild_refcounts.induct)
  case (2 i e idx new_rc)
  then have "map_of idx i = None" and "hm_wf idx"
    by (auto simp: hm_wf_def map_of_eq_None_iff)
  with "2.IH" show ?case by (auto split: option.splits)
qed (auto split: option.splits)

lemma ci_get_decrement:
  "map_of (snd (ci_decrement idx i)) =
     (map_of idx)(i :=
       (case map_of idx i of
          None \<Rightarrow> None
        | Some e \<Rightarrow> if sat_sub_u32 (ce_refcount e) 1 = 0 then None
                    else Some (e\<lparr>ce_refcount := sat_sub_u32 (ce_refcount e) 1\<rparr>)))"
  by (auto simp: ci_decrement_def Let_def fun_eq_iff split: option.splits)

lemma sat_sub_add_1: "(w :: u32) \<noteq> - 1 \<Longrightarrow> sat_sub_u32 (w + 1) 1 = w"
  by (auto simp: sat_sub_u32_def eq_neg_iff_add_eq_0) unat_arith

lemma reconcile_apply:
  assumes "delta_wf d" and "delta_reconcile d fresh = Inr d'"
  shows "rc_of (delta_apply_to d' fresh) c = rc_of fresh c + delta_refs d c
       \<and> loc_of (delta_apply_to d' fresh) c =
           (case loc_of fresh c of Some l \<Rightarrow> Some l | None \<Rightarrow> new_loc (dl_new_entries d) c)"
proof (cases "ci_contains fresh c")
  case True
  note rec = delta_reconcile_cases [OF assms(2,1)]
  obtain l where "loc_of fresh c = Some l" using True by (auto simp: ci_contains_loc)
  with True show ?thesis
    by (simp add: rc_of_apply_to [OF rec(3)] rec(1,2) loc_of_apply_to delta_refs_def
        new_refs_filter [of "\<lambda>i. \<not> ci_contains fresh i"] add.commute)
next
  case False
  note rec = delta_reconcile_cases [OF assms(2,1)]
  have "bump_of (dl_refcount_bumps d) c = 0" if "c \<notin> ne_chunk_id ` set (dl_new_entries d)"
    using that False rec(4) [of c] bump_of_notin by blast
  with False show ?thesis
    by (auto simp: rc_of_apply_to [OF rec(3)] rec(1,2) loc_of_apply_to delta_refs_def
        new_refs_filter [of "\<lambda>i. \<not> ci_contains fresh i"] new_loc_filter [of "\<lambda>i. \<not> ci_contains fresh i"] split: option.splits)
qed

section \<open>Properties\<close>

text \<open>C9: Committing a session loses and invents no reference. When the session's delta
  reconciles against the index freshly loaded at commit time, applying the result gives every
  chunk exactly its fresh reference count plus the references the session recorded (as new
  entries or bumps), keeps the location of every chunk the index already had, and gives every
  other chunk the location of the session's first new entry for it.\<close>

theorem commit_accounting:
  assumes "delta_wf d" and "delta_reconcile d fresh = Inr d'"
  shows "rc_of (delta_apply_to d' fresh) c = rc_of fresh c + delta_refs d c
       \<and> loc_of (delta_apply_to d' fresh) c =
           (case loc_of fresh c of Some l \<Rightarrow> Some l | None \<Rightarrow> new_loc (dl_new_entries d) c)"
  by (rule reconcile_apply [OF assms])

definition wit_cid :: "nat \<Rightarrow> chunk_id" where
  "wit_cid n = ChunkId (replicate 32 (of_nat n))"

definition wit_pid :: "nat \<Rightarrow> pack_id" where
  "wit_pid n = PackId (replicate 32 (of_nat n))"

lemma wit_id_eq [simp]:
  "wit_cid m = wit_cid n \<longleftrightarrow> (of_nat m :: u8) = of_nat n"
  "wit_pid m = wit_pid n \<longleftrightarrow> (of_nat m :: u8) = of_nat n"
  by (simp_all add: wit_cid_def wit_pid_def)

definition wit_fresh :: chunk_index where
  "wit_fresh = [(wit_cid 1, \<lparr>ce_refcount = 3, ce_stored_size = 100, ce_pack_id = wit_pid 9, ce_pack_offset = 9\<rparr>)]"

definition wit_delta :: index_delta where
  "wit_delta =
     \<lparr>dl_new_entries =
        [\<lparr>ne_chunk_id = wit_cid 1, ne_stored_size = 100, ne_pack_id = wit_pid 7,
          ne_pack_offset = 9, ne_refcount = 2\<rparr>,
         \<lparr>ne_chunk_id = wit_cid 2, ne_stored_size = 50, ne_pack_id = wit_pid 7,
          ne_pack_offset = 113, ne_refcount = 1\<rparr>],
      dl_refcount_bumps = [(wit_cid 2, 4)]\<rparr>"

lemma commit_accounting_witness:
  "\<exists>d'. delta_wf wit_delta \<and> delta_reconcile wit_delta wit_fresh = Inr d'
      \<and> rc_of (delta_apply_to d' wit_fresh) (wit_cid 1) = 5
      \<and> loc_of (delta_apply_to d' wit_fresh) (wit_cid 1) = Some (100, wit_pid 9, 9)"
proof -
  have wf: "delta_wf wit_delta" by code_simp
  obtain d' where d': "delta_reconcile wit_delta wit_fresh = Inr d'"
    by (cases "delta_reconcile wit_delta wit_fresh") (auto, code_simp)
  have "rc_of wit_fresh (wit_cid 1) + delta_refs wit_delta (wit_cid 1) = 5"
    "loc_of wit_fresh (wit_cid 1) = Some (100, wit_pid 9, 9)" by code_simp+
  with commit_accounting [OF wf d', of "wit_cid 1"] wf d' show ?thesis by auto
qed

text \<open>C14: Reconciliation fails exactly when a chunk the session only re-referenced has left the
  index since the session started and the session did not upload it itself, and then with
  \<open>StaleChunksDuringCommit\<close>; it never fails in any other way.\<close>

theorem reconcile_stale_iff:
  "delta_reconcile d fresh = Inl e \<longleftrightarrow>
     e = StaleChunksDuringCommit \<and>
     (\<exists>i. i \<in> fst ` set (dl_refcount_bumps d) \<and> \<not> ci_contains fresh i
        \<and> i \<notin> ne_chunk_id ` set (dl_new_entries d))"
proof -
  obtain still b where r:
    "reconcile_partition fresh (dl_new_entries d) (dl_refcount_bumps d) = (still, b)" by fastforce
  note spec = reconcile_partition_spec [OF r]
  have "list_ex (\<lambda>i. \<not> ci_contains fresh i \<and> i \<notin> set (map ne_chunk_id still)) (map fst b) \<longleftrightarrow>
    (\<exists>i. i \<in> fst ` set (dl_refcount_bumps d) \<and> \<not> ci_contains fresh i
        \<and> i \<notin> ne_chunk_id ` set (dl_new_entries d))"
    unfolding list_ex_iff set_map spec(1,4) by auto
  then show ?thesis using r by (auto simp: delta_reconcile_def Let_def)
qed

text \<open>C17: Rolling a delta back to a checkpoint undoes every sequence of bumps and new entries
  made after the checkpoint was taken.\<close>

theorem delta_rollback_undoes:
  "delta_rollback (fold delta_step ops d) (delta_checkpoint d) = d"
proof -
  obtain es where "dl_new_entries (fold delta_step ops d) = dl_new_entries d @ es"
    using delta_ops_prefix by blast
  then show ?thesis by (simp add: delta_rollback_def delta_checkpoint_def)
qed

text \<open>Removing a reference that was just added restores the index, for a chunk that is new
  (its entry disappears again) as for one that was present, as long as the 32-bit count is
  positive and not at its maximum.\<close>

theorem decrement_undoes_add:
  assumes "\<And>e. map_of idx i = Some e \<Longrightarrow> ce_refcount e \<noteq> 0 \<and> ce_refcount e \<noteq> - 1"
  shows "map_of (snd (ci_decrement (ci_add idx i sz pid off) i)) = map_of idx"
  using assms
  by (cases "map_of idx i")
     (auto simp: ci_get_decrement ci_get_add fun_eq_iff sat_sub_add_1, simp add: sat_sub_u32_def)

lemma decrement_undoes_add_witness:
  "map_of wit_fresh (wit_cid 1) \<noteq> None \<and>
   map_of (snd (ci_decrement (ci_add wit_fresh (wit_cid 1) 5 (wit_pid 2) 0) (wit_cid 1)))
     = map_of wit_fresh"
  using decrement_undoes_add [where idx = wit_fresh and i = "wit_cid 1" and sz = 5
      and pid = "wit_pid 2" and off = 0]
  by (auto simp: wit_fresh_def)

end
