(* ===== verification/Dedup_Cache.thy ===== *)
theory Dedup_Cache
  imports Chunk_Index Crypto "HOL-Library.List_Lexorder"
begin

text \<open>
  \<open>vykar-core/src/index/dedup_cache.rs\<close> and \<open>DedupIndex\<close> of \<open>index/mod.rs\<close>: the sorted binary
  cache files derived from the chunk index (dedup, restore and full), their readers by binary
  search, the three-tier dedup index, and the merge of a session's delta into the full cache.

  A cache file is the byte string that a completed write renames into place, and \<open>None\<close> when it
  cannot be opened or mapped.  The xor filter crate is a parameter: a filter is its membership
  test, and a construction that panics is \<open>None\<close>.  Readers byte_slice only inside the size that
  \<open>open_path\<close> has checked.  Where ids may repeat, \<open>sort_unstable_by\<close> is modelled by the stable
  sort, one of the orders it may produce.
\<close>

section \<open>Cache files\<close>

definition cache_header :: "bytes \<Rightarrow> u32 \<Rightarrow> u64 \<Rightarrow> u32 \<Rightarrow> bytes" where
  "cache_header magic version generation entry_count =
     magic @ u32_to_le_bytes version @ u64_to_le_bytes generation
     @ u32_to_le_bytes entry_count @ u32_to_le_bytes 0"

definition byte_slice :: "bytes \<Rightarrow> nat \<Rightarrow> nat \<Rightarrow> bytes" where
  "byte_slice d a b = take (b - a) (drop a d)"

text \<open>The validation all three readers make, returning the generation and the entry count.\<close>

definition open_cache_file ::
  "bytes \<Rightarrow> u32 \<Rightarrow> nat \<Rightarrow> nat \<Rightarrow> bytes option \<Rightarrow> u64 \<Rightarrow> (bytes \<times> u32 \<times> u64) option" where
  "open_cache_file magic version header_size entry_size file expected_generation =
     (if expected_generation = 0 then None
      else case file of
        None \<Rightarrow> None
      | Some mmap \<Rightarrow>
          if length mmap < header_size then None
          else if byte_slice mmap 0 8 \<noteq> magic then None
          else if u32_from_le_bytes (byte_slice mmap 8 12) \<noteq> version then None
          else if u64_from_le_bytes (byte_slice mmap 12 20) \<noteq> expected_generation then None
          else let entry_count = u32_from_le_bytes (byte_slice mmap 20 24) in
               if length mmap \<noteq> header_size + unat entry_count * entry_size then None
               else Some (mmap, entry_count, u64_from_le_bytes (byte_slice mmap 12 20)))"

text \<open>The binary search of the readers over the ids of the entries: the index it stops at.\<close>

function bsearch :: "(nat \<Rightarrow> bytes) \<Rightarrow> bytes \<Rightarrow> nat \<Rightarrow> nat \<Rightarrow> nat option" where
  "bsearch entry_id target lo hi =
     (if lo < hi then
        let mid = lo + (hi - lo) div 2 in
        if entry_id mid = target then Some mid
        else if entry_id mid < target then bsearch entry_id target (mid + 1) hi
        else bsearch entry_id target lo mid
      else None)"
  by pat_completeness auto
termination
  by (relation "measure (\<lambda>(f, t, lo, hi). hi - lo)") auto

declare bsearch.simps [simp del]

subsection \<open>The dedup cache\<close>

definition MAGIC :: bytes where "MAGIC = str_bytes ''VGDEDUP'' @ [0]"
definition VERSION :: u32 where "VERSION = 1"
definition HEADER_SIZE :: nat where "HEADER_SIZE = 28"
definition ENTRY_SIZE :: nat where "ENTRY_SIZE = 36"

definition dedup_entry_bytes :: "chunk_id \<times> u32 \<Rightarrow> bytes" where
  "dedup_entry_bytes e = chunk_bytes (fst e) @ u32_to_le_bytes (snd e)"

definition build_dedup_cache_to_path :: "chunk_index \<Rightarrow> u64 \<Rightarrow> bytes" where
  "build_dedup_cache_to_path index generation =
     (let entries = sort_key (\<lambda>e. chunk_bytes (fst e))
                      (map (\<lambda>(i, e). (i, ce_stored_size e)) index)
      in cache_header MAGIC VERSION generation (of_nat (length entries))
         @ concat (map dedup_entry_bytes entries))"

record mmap_dedup_cache =
  md_mmap :: bytes
  md_entry_count :: u32
  md_index_generation :: u64

definition mmap_dedup_open_path :: "bytes option \<Rightarrow> u64 \<Rightarrow> mmap_dedup_cache option" where
  "mmap_dedup_open_path file expected_generation =
     map_option (\<lambda>(m, n, g). \<lparr>md_mmap = m, md_entry_count = n, md_index_generation = g\<rparr>)
       (open_cache_file MAGIC VERSION HEADER_SIZE ENTRY_SIZE file expected_generation)"

definition mmap_dedup_get_stored_size :: "mmap_dedup_cache \<Rightarrow> chunk_id \<Rightarrow> u32 option" where
  "mmap_dedup_get_stored_size c chunk_id =
     (if md_entry_count c = 0 then None
      else let data = drop HEADER_SIZE (md_mmap c) in
        map_option
          (\<lambda>mid. u32_from_le_bytes (byte_slice data (mid * ENTRY_SIZE + 32) (mid * ENTRY_SIZE + 32 + 4)))
          (bsearch (\<lambda>mid. byte_slice data (mid * ENTRY_SIZE) (mid * ENTRY_SIZE + 32))
             (chunk_bytes chunk_id) 0 (unat (md_entry_count c))))"

definition mmap_dedup_iter_u64_keys :: "mmap_dedup_cache \<Rightarrow> u64 list" where
  "mmap_dedup_iter_u64_keys c =
     map (\<lambda>i. u64_from_le_bytes (byte_slice (drop HEADER_SIZE (md_mmap c)) (i * ENTRY_SIZE) (i * ENTRY_SIZE + 8)))
       [0..<unat (md_entry_count c)]"

subsection \<open>The xor filter\<close>

type_synonym xor8 = "u64 \<Rightarrow> bool"

definition chunk_id_to_u64 :: "chunk_id \<Rightarrow> u64" where
  "chunk_id_to_u64 i = u64_from_le_bytes (take 8 (chunk_bytes i))"

definition build_xor_filter_from_keys :: "(u64 list \<Rightarrow> xor8 option) \<Rightarrow> u64 list \<Rightarrow> xor8 option" where
  "build_xor_filter_from_keys xor_from keys = (if keys = [] then None else xor_from keys)"

definition build_xor_filter :: "(u64 list \<Rightarrow> xor8 option) \<Rightarrow> mmap_dedup_cache \<Rightarrow> xor8 option" where
  "build_xor_filter xor_from cache =
     build_xor_filter_from_keys xor_from (mmap_dedup_iter_u64_keys cache)"

text \<open>What the filter crate documents: no false negatives.\<close>

definition xor_ok :: "(u64 list \<Rightarrow> xor8 option) \<Rightarrow> bool" where
  "xor_ok xor_from \<longleftrightarrow> (\<forall>ks f k. xor_from ks = Some f \<and> k \<in> set ks \<longrightarrow> f k)"

subsection \<open>The dedup-only index (index/mod.rs)\<close>

record dedup_index =
  di_entries :: "(chunk_id, u32) hmap"
  di_xor_filter :: "xor8 option"

definition di_from_chunk_index :: "(u64 list \<Rightarrow> xor8 option) \<Rightarrow> chunk_index \<Rightarrow> dedup_index" where
  "di_from_chunk_index xor_from full =
     (let entries = hm_collect (map (\<lambda>(i, e). (i, ce_stored_size e)) full);
          keys = map (chunk_id_to_u64 \<circ> fst) entries
      in \<lparr>di_entries = entries, di_xor_filter = build_xor_filter_from_keys xor_from keys\<rparr>)"

definition di_contains :: "dedup_index \<Rightarrow> chunk_id \<Rightarrow> bool" where
  "di_contains d i = hm_contains (di_entries d) i"

definition di_get_stored_size :: "dedup_index \<Rightarrow> chunk_id \<Rightarrow> u32 option" where
  "di_get_stored_size d i = map_of (di_entries d) i"

definition di_insert :: "dedup_index \<Rightarrow> chunk_id \<Rightarrow> u32 \<Rightarrow> dedup_index" where
  "di_insert d i stored_size = d\<lparr>di_entries := hm_insert i stored_size (di_entries d)\<rparr>"

definition di_remove :: "dedup_index \<Rightarrow> chunk_id \<Rightarrow> dedup_index" where
  "di_remove d i = d\<lparr>di_entries := hm_remove i (di_entries d)\<rparr>"

subsection \<open>The tiered dedup index\<close>

record tiered_dedup_index =
  td_xor_filter :: "xor8 option"
  td_mmap_cache :: mmap_dedup_cache
  td_session_new :: "(chunk_id, u32) hmap"

definition td_new :: "(u64 list \<Rightarrow> xor8 option) \<Rightarrow> mmap_dedup_cache \<Rightarrow> tiered_dedup_index" where
  "td_new xor_from cache =
     \<lparr>td_xor_filter = build_xor_filter xor_from cache, td_mmap_cache = cache, td_session_new = []\<rparr>"

definition td_get_stored_size :: "tiered_dedup_index \<Rightarrow> chunk_id \<Rightarrow> u32 option" where
  "td_get_stored_size t i =
     (case map_of (td_session_new t) i of
        Some sz \<Rightarrow> Some sz
      | None \<Rightarrow>
          (case td_xor_filter t of
             Some f \<Rightarrow> if \<not> f (chunk_id_to_u64 i) then None
                       else mmap_dedup_get_stored_size (td_mmap_cache t) i
           | None \<Rightarrow> mmap_dedup_get_stored_size (td_mmap_cache t) i))"

definition td_contains :: "tiered_dedup_index \<Rightarrow> chunk_id \<Rightarrow> bool" where
  "td_contains t i \<longleftrightarrow> td_get_stored_size t i \<noteq> None"

definition td_get_stored_size_skip_filter :: "tiered_dedup_index \<Rightarrow> chunk_id \<Rightarrow> u32 option" where
  "td_get_stored_size_skip_filter t i =
     (case map_of (td_session_new t) i of
        Some sz \<Rightarrow> Some sz
      | None \<Rightarrow> mmap_dedup_get_stored_size (td_mmap_cache t) i)"

definition td_session_new_stored_size :: "tiered_dedup_index \<Rightarrow> chunk_id \<Rightarrow> u32 option" where
  "td_session_new_stored_size t i = map_of (td_session_new t) i"

definition td_insert :: "tiered_dedup_index \<Rightarrow> chunk_id \<Rightarrow> u32 \<Rightarrow> tiered_dedup_index" where
  "td_insert t i stored_size = t\<lparr>td_session_new := hm_insert i stored_size (td_session_new t)\<rparr>"

definition td_remove :: "tiered_dedup_index \<Rightarrow> chunk_id \<Rightarrow> tiered_dedup_index" where
  "td_remove t i = t\<lparr>td_session_new := hm_remove i (td_session_new t)\<rparr>"

subsection \<open>The restore cache\<close>

definition RESTORE_MAGIC :: bytes where "RESTORE_MAGIC = str_bytes ''VGIDX'' @ [0, 0, 0]"
definition RESTORE_VERSION :: u32 where "RESTORE_VERSION = 1"
definition RESTORE_HEADER_SIZE :: nat where "RESTORE_HEADER_SIZE = 28"
definition RESTORE_ENTRY_SIZE :: nat where "RESTORE_ENTRY_SIZE = 76"

definition restore_entry_bytes :: "chunk_id \<times> u32 \<times> pack_id \<times> u64 \<Rightarrow> bytes" where
  "restore_entry_bytes = (\<lambda>(i, sz, pid, off).
     chunk_bytes i @ u32_to_le_bytes sz @ pack_bytes pid @ u64_to_le_bytes off)"

definition build_restore_cache_to_path :: "chunk_index \<Rightarrow> u64 \<Rightarrow> bytes" where
  "build_restore_cache_to_path index generation =
     (let entries = sort_key (\<lambda>e. chunk_bytes (fst e))
            (map (\<lambda>(i, e). (i, ce_stored_size e, ce_pack_id e, ce_pack_offset e)) index)
      in cache_header RESTORE_MAGIC RESTORE_VERSION generation (of_nat (length entries))
         @ concat (map restore_entry_bytes entries))"

record mmap_restore_cache =
  mr_mmap :: bytes
  mr_entry_count :: u32

definition mmap_restore_open_path :: "bytes option \<Rightarrow> u64 \<Rightarrow> mmap_restore_cache option" where
  "mmap_restore_open_path file expected_generation =
     map_option (\<lambda>(m, n, g). \<lparr>mr_mmap = m, mr_entry_count = n\<rparr>)
       (open_cache_file RESTORE_MAGIC RESTORE_VERSION RESTORE_HEADER_SIZE RESTORE_ENTRY_SIZE
          file expected_generation)"

definition mmap_restore_lookup :: "mmap_restore_cache \<Rightarrow> chunk_id \<Rightarrow> (pack_id \<times> u64 \<times> u32) option" where
  "mmap_restore_lookup c chunk_id =
     (if mr_entry_count c = 0 then None
      else let data = drop RESTORE_HEADER_SIZE (mr_mmap c) in
        map_option
          (\<lambda>mid. let off = mid * RESTORE_ENTRY_SIZE in
             (PackId (byte_slice data (off + 36) (off + 68)),
              u64_from_le_bytes (byte_slice data (off + 68) (off + 76)),
              u32_from_le_bytes (byte_slice data (off + 32) (off + 36))))
          (bsearch (\<lambda>mid. byte_slice data (mid * RESTORE_ENTRY_SIZE) (mid * RESTORE_ENTRY_SIZE + 32))
             (chunk_bytes chunk_id) 0 (unat (mr_entry_count c))))"

subsection \<open>The full index cache\<close>

definition FULL_MAGIC :: bytes where "FULL_MAGIC = str_bytes ''VGFULL'' @ [0, 0]"
definition FULL_VERSION :: u32 where "FULL_VERSION = 1"
definition FULL_HEADER_SIZE :: nat where "FULL_HEADER_SIZE = 28"
definition FULL_ENTRY_SIZE :: nat where "FULL_ENTRY_SIZE = 80"

record full_cache_entry =
  fc_chunk_id :: chunk_id
  fc_refcount :: u32
  fc_stored_size :: u32
  fc_pack_id :: pack_id
  fc_pack_offset :: u64

record mmap_full_index_cache =
  mf_mmap :: bytes
  mf_entry_count :: u32

definition mmap_full_open_path :: "bytes option \<Rightarrow> u64 \<Rightarrow> mmap_full_index_cache option" where
  "mmap_full_open_path file expected_generation =
     map_option (\<lambda>(m, n, g). \<lparr>mf_mmap = m, mf_entry_count = n\<rparr>)
       (open_cache_file FULL_MAGIC FULL_VERSION FULL_HEADER_SIZE FULL_ENTRY_SIZE
          file expected_generation)"

definition mmap_full_entry_at :: "mmap_full_index_cache \<Rightarrow> nat \<Rightarrow> full_cache_entry" where
  "mmap_full_entry_at c i =
     (let data = drop FULL_HEADER_SIZE (mf_mmap c); off = i * FULL_ENTRY_SIZE in
      \<lparr>fc_chunk_id = ChunkId (byte_slice data off (off + 32)),
       fc_refcount = u32_from_le_bytes (byte_slice data (off + 32) (off + 36)),
       fc_stored_size = u32_from_le_bytes (byte_slice data (off + 36) (off + 40)),
       fc_pack_id = PackId (byte_slice data (off + 40) (off + 72)),
       fc_pack_offset = u64_from_le_bytes (byte_slice data (off + 72) (off + 80))\<rparr>)"

definition mmap_full_iter :: "mmap_full_index_cache \<Rightarrow> full_cache_entry list" where
  "mmap_full_iter c = map (mmap_full_entry_at c) [0..<unat (mf_entry_count c)]"

definition write_full_entry :: "full_cache_entry \<Rightarrow> bytes" where
  "write_full_entry e =
     chunk_bytes (fc_chunk_id e) @ u32_to_le_bytes (fc_refcount e)
     @ u32_to_le_bytes (fc_stored_size e) @ pack_bytes (fc_pack_id e)
     @ u64_to_le_bytes (fc_pack_offset e)"

definition write_full_header :: "u64 \<Rightarrow> u32 \<Rightarrow> bytes" where
  "write_full_header generation entry_count =
     cache_header FULL_MAGIC FULL_VERSION generation entry_count"

definition build_full_index_cache_to_path :: "chunk_index \<Rightarrow> u64 \<Rightarrow> bytes" where
  "build_full_index_cache_to_path index generation =
     (let entries = sort_key (\<lambda>e. chunk_bytes (fc_chunk_id e))
            (map (\<lambda>(i, e). \<lparr>fc_chunk_id = i, fc_refcount = ce_refcount e,
                            fc_stored_size = ce_stored_size e, fc_pack_id = ce_pack_id e,
                            fc_pack_offset = ce_pack_offset e\<rparr>) index)
      in write_full_header generation (of_nat (length entries))
         @ concat (map write_full_entry entries))"

text \<open>The two-pointer loop, on what is left of the old entries and of the sorted new ones.\<close>

fun merge_loop ::
  "(chunk_id, u32) hmap \<Rightarrow> full_cache_entry list \<Rightarrow> new_chunk_entry list \<Rightarrow> full_cache_entry list"
  where
  "merge_loop bumps [] [] = []"
| "merge_loop bumps (e # es) [] =
     (case map_of bumps (fc_chunk_id e) of
        Some bump \<Rightarrow> e\<lparr>fc_refcount := fc_refcount e + bump\<rparr>
      | None \<Rightarrow> e) # merge_loop bumps es []"
| "merge_loop bumps [] (n # ns) =
     \<lparr>fc_chunk_id = ne_chunk_id n,
      fc_refcount = ne_refcount n + (case map_of bumps (ne_chunk_id n) of Some b \<Rightarrow> b | None \<Rightarrow> 0),
      fc_stored_size = ne_stored_size n, fc_pack_id = ne_pack_id n,
      fc_pack_offset = ne_pack_offset n\<rparr> # merge_loop bumps [] ns"
| "merge_loop bumps (e # es) (n # ns) =
     (if chunk_bytes (fc_chunk_id e) \<le> chunk_bytes (ne_chunk_id n)
      then (case map_of bumps (fc_chunk_id e) of
              Some bump \<Rightarrow> e\<lparr>fc_refcount := fc_refcount e + bump\<rparr>
            | None \<Rightarrow> e) # merge_loop bumps es (n # ns)
      else \<lparr>fc_chunk_id = ne_chunk_id n,
            fc_refcount = ne_refcount n + (case map_of bumps (ne_chunk_id n) of Some b \<Rightarrow> b | None \<Rightarrow> 0),
            fc_stored_size = ne_stored_size n, fc_pack_id = ne_pack_id n,
            fc_pack_offset = ne_pack_offset n\<rparr> # merge_loop bumps (e # es) ns)"

definition merge_full_index_cache :: "mmap_full_index_cache \<Rightarrow> index_delta \<Rightarrow> u64 \<Rightarrow> bytes" where
  "merge_full_index_cache old_cache delta new_generation =
     (let sorted_new = sort_key (\<lambda>e. chunk_bytes (ne_chunk_id e)) (dl_new_entries delta);
          total_count = mf_entry_count old_cache + of_nat (length sorted_new)
      in write_full_header new_generation total_count
         @ concat (map write_full_entry
             (merge_loop (dl_refcount_bumps delta) (mmap_full_iter old_cache) sorted_new)))"

fun load_entries :: "full_cache_entry list \<Rightarrow> chunk_index \<Rightarrow> chunk_index" where
  "load_entries [] index = index"
| "load_entries (e # es) index =
     (let index1 = ci_add index (fc_chunk_id e) (fc_stored_size e) (fc_pack_id e) (fc_pack_offset e);
          index2 = (if fc_refcount e > 1
                    then ci_increment_refcount_by index1 (fc_chunk_id e) (fc_refcount e - 1)
                    else index1)
      in load_entries es index2)"

definition load_chunk_index_from_full_cache_path :: "bytes option \<Rightarrow> u64 \<Rightarrow> chunk_index result" where
  "load_chunk_index_from_full_cache_path file generation =
     (case mmap_full_open_path file generation of
        None \<Rightarrow> Inl (Other ''full index cache not found or stale'')
      | Some cache \<Rightarrow> Inr (load_entries (mmap_full_iter cache) ci_new))"

subsection \<open>Caches derived from the full cache\<close>

definition build_dedup_cache_from_full_cache :: "bytes option \<Rightarrow> u64 \<Rightarrow> bytes result" where
  "build_dedup_cache_from_full_cache file generation =
     (case mmap_full_open_path file generation of
        None \<Rightarrow> Inl (Other ''full index cache not found or stale'')
      | Some cache \<Rightarrow> Inr (cache_header MAGIC VERSION generation (mf_entry_count cache)
          @ concat (map (\<lambda>e. dedup_entry_bytes (fc_chunk_id e, fc_stored_size e)) (mmap_full_iter cache))))"

definition build_restore_cache_from_full_cache :: "bytes option \<Rightarrow> u64 \<Rightarrow> bytes result" where
  "build_restore_cache_from_full_cache file generation =
     (case mmap_full_open_path file generation of
        None \<Rightarrow> Inl (Other ''full index cache not found or stale'')
      | Some cache \<Rightarrow> Inr (cache_header RESTORE_MAGIC RESTORE_VERSION generation (mf_entry_count cache)
          @ concat (map (\<lambda>e. restore_entry_bytes (fc_chunk_id e, fc_stored_size e, fc_pack_id e, fc_pack_offset e))
              (mmap_full_iter cache))))"

text \<open>The index the serialiser of the full cache writes: its entries in their order.\<close>

definition full_cache_index :: "mmap_full_index_cache \<Rightarrow> chunk_index" where
  "full_cache_index cache =
     map (\<lambda>e. (fc_chunk_id e, \<lparr>ce_refcount = fc_refcount e, ce_stored_size = fc_stored_size e,
        ce_pack_id = fc_pack_id e, ce_pack_offset = fc_pack_offset e\<rparr>)) (mmap_full_iter cache)"

subsection \<open>The cached index blob\<close>

definition INDEX_BLOB_MAGIC :: bytes where "INDEX_BLOB_MAGIC = str_bytes ''VGIDXB'' @ [0, 0]"
definition INDEX_BLOB_VERSION :: u32 where "INDEX_BLOB_VERSION = 1"
definition INDEX_BLOB_HEADER_SIZE :: nat where "INDEX_BLOB_HEADER_SIZE = 24"

definition index_blob_file :: "bytes \<Rightarrow> u64 \<Rightarrow> bytes" where
  "index_blob_file blob generation =
     INDEX_BLOB_MAGIC @ u32_to_le_bytes INDEX_BLOB_VERSION @ u64_to_le_bytes generation
     @ u32_to_le_bytes 0 @ blob"

definition read_index_blob_cache :: "bytes option \<Rightarrow> u64 \<Rightarrow> bytes option" where
  "read_index_blob_cache file expected_generation =
     (if expected_generation = 0 then None
      else case file of
        None \<Rightarrow> None
      | Some data \<Rightarrow>
          if length data < INDEX_BLOB_HEADER_SIZE then None
          else if byte_slice data 0 8 \<noteq> INDEX_BLOB_MAGIC then None
          else if u32_from_le_bytes (byte_slice data 8 12) \<noteq> INDEX_BLOB_VERSION then None
          else if u64_from_le_bytes (byte_slice data 12 20) \<noteq> expected_generation then None
          else Some (drop INDEX_BLOB_HEADER_SIZE data))"

section \<open>Lemmas on tables of fixed-size entries\<close>

lemma length_concat_fixed:
  "\<forall>x \<in> set xs. length (f x) = n \<Longrightarrow> length (concat (map f xs)) = length xs * n"
  by (induction xs) auto

lemma drop_concat_fixed:
  "\<forall>x \<in> set xs. length (f x) = n \<Longrightarrow> i < length xs \<Longrightarrow>
   drop (i * n) (concat (map f xs)) = f (xs ! i) @ concat (map f (drop (Suc i) xs))"
proof (induction xs arbitrary: i)
  case (Cons x xs)
  then show ?case by (cases i) auto
qed simp

lemma slice_concat_fixed:
  assumes "\<forall>x \<in> set xs. length (f x) = n" and "i < length xs" and "b \<le> n"
  shows "byte_slice (concat (map f xs)) (i * n + a) (i * n + b) = byte_slice (f (xs ! i)) a b"
proof -
  have "length (f (xs ! i)) = n" using assms(1,2) by simp
  then have "take (b - a) (drop a (f (xs ! i) @ r)) = take (b - a) (drop a (f (xs ! i)))" for r
    using assms(3) by (cases "a \<le> n") auto
  moreover have "byte_slice d (i * n + a) (i * n + b) = take (b - a) (drop a (drop (i * n) d))" for d
    by (simp add: byte_slice_def add.commute)
  ultimately show ?thesis
    by (simp only: drop_concat_fixed [OF assms(1,2)] byte_slice_def)
qed

lemma bsearch_sound: "bsearch f t lo hi = Some m \<Longrightarrow> lo \<le> m \<and> m < hi \<and> f m = t"
proof (induction f t lo hi rule: bsearch.induct)
  case (1 f t lo hi)
  show ?case
  proof (cases "lo < hi")
    case True
    define mid where "mid = lo + (hi - lo) div 2"
    have mid: "lo \<le> mid" "mid < hi" using True by (auto simp: mid_def)
    have "bsearch f t lo hi = (if f mid = t then Some mid
        else if f mid < t then bsearch f t (mid + 1) hi else bsearch f t lo mid)"
      using True by (subst bsearch.simps) (simp add: Let_def mid_def)
    then show ?thesis
      using "1.prems" "1.IH"(1) [OF True mid_def] "1.IH"(2) [OF True mid_def] mid
      by (fastforce split: if_splits)
  next
    case False
    then show ?thesis using "1.prems" by (simp add: bsearch.simps)
  qed
qed

lemma bsearch_complete:
  assumes "\<forall>i j. i < j \<and> j < N \<longrightarrow> f i < f j" and "hi \<le> N" and "bsearch f t lo hi = None"
  shows "\<forall>m. lo \<le> m \<and> m < hi \<longrightarrow> f m \<noteq> t"
  using assms
proof (induction f t lo hi rule: bsearch.induct)
  case (1 f t lo hi)
  show ?case
  proof (cases "lo < hi")
    case True
    define mid where "mid = lo + (hi - lo) div 2"
    have mid: "lo \<le> mid" "mid < hi" "mid < N" using True "1.prems"(2) by (auto simp: mid_def)
    have step: "bsearch f t lo hi = (if f mid = t then Some mid
        else if f mid < t then bsearch f t (mid + 1) hi else bsearch f t lo mid)"
      using True by (subst bsearch.simps) (simp add: Let_def mid_def)
    with "1.prems"(3) have ne: "f mid \<noteq> t" by (auto split: if_splits)
    have mono: "m < mid \<Longrightarrow> f m < f mid" "mid < m \<Longrightarrow> m < hi \<Longrightarrow> f mid < f m" for m
      using "1.prems"(1,2) mid by auto
    show ?thesis
    proof (cases "f mid < t")
      case less: True
      have "\<forall>m. mid + 1 \<le> m \<and> m < hi \<longrightarrow> f m \<noteq> t"
        using "1.IH"(1) [OF True mid_def ne less] "1.prems" step ne less by simp
      moreover have "f m \<noteq> t" if "m < mid" for m using mono(1) [OF that] less by auto
      ultimately show ?thesis using ne by (metis Suc_eq_plus1 Suc_leI linorder_neqE_nat)
    next
      case greater: False
      have "\<forall>m. lo \<le> m \<and> m < mid \<longrightarrow> f m \<noteq> t"
        using "1.IH"(2) [OF True mid_def ne greater] "1.prems" step ne greater mid by simp
      moreover have "f m \<noteq> t" if "mid < m" "m < hi" for m using mono(2) [OF that] greater by auto
      ultimately show ?thesis using ne by (metis linorder_neqE_nat)
    qed
  qed auto
qed

text \<open>Searching a table whose keys are its first 32 bytes and strictly increase.\<close>

lemma table_search:
  assumes "\<forall>x \<in> set es. length (f x) = n \<and> byte_slice (f x) 0 32 = key x" and "32 \<le> n"
    and "sorted_wrt (<) (map key es)"
  shows "case bsearch (\<lambda>mid. byte_slice (concat (map f es)) (mid * n) (mid * n + 32)) t 0 (length es) of
           Some m \<Rightarrow> m < length es \<and> key (es ! m) = t
         | None \<Rightarrow> t \<notin> key ` set es"
proof -
  let ?f = "\<lambda>mid. byte_slice (concat (map f es)) (mid * n) (mid * n + 32)"
  have key: "?f m = key (es ! m)" if "m < length es" for m
    using slice_concat_fixed [of es f n m 32 0] assms(1,2) that by simp
  have mono: "\<forall>i j. i < j \<and> j < length es \<longrightarrow> ?f i < ?f j"
    using assms(3) key by (auto simp: sorted_wrt_iff_nth_less)
  show ?thesis
  proof (cases "bsearch ?f t 0 (length es)")
    case None
    then show ?thesis
      using bsearch_complete [OF mono order.refl None] key by (auto simp: in_set_conv_nth)
  next
    case (Some m)
    then show ?thesis using bsearch_sound [OF Some] key [of m] by auto
  qed
qed

lemma length_cache_header: "length magic = 8 \<Longrightarrow> length (cache_header magic v g n) = 28"
  by (simp add: cache_header_def)

lemma drop_cache_header [simp]: "length magic = 8 \<Longrightarrow> drop 28 (cache_header magic v g n @ b) = b"
  by (simp add: length_cache_header)

lemma open_cache_file_header:
  assumes "length magic = 8" and "g \<noteq> 0"
  shows "open_cache_file magic v 28 esz (Some (cache_header magic v gen n @ body)) g =
     (if gen = g \<and> length body = unat n * esz
      then Some (cache_header magic v gen n @ body, n, g) else None)"
  using assms
  by (auto simp: open_cache_file_def byte_slice_def cache_header_def Let_def)

lemma strictly_sorted_entries:
  assumes "distinct (map key xs)"
  shows "sorted_wrt (<) (map key (sort_key key xs))"
  using assms unfolding strict_sorted_iff by (simp add: distinct_map)

lemma slice_append_fields [simp]:
  "length a = n \<Longrightarrow> byte_slice (a @ b) 0 n = a"
  "length a = m \<Longrightarrow> n \<le> k \<Longrightarrow> byte_slice (a @ b) (m + n) (m + k) = byte_slice b n k"
  by (simp_all add: byte_slice_def)

text \<open>An index whose ids have the width of their types and that a cache can count.\<close>

definition ci_ok :: "chunk_index \<Rightarrow> bool" where
  "ci_ok idx \<longleftrightarrow> hm_wf idx \<and> length idx < 2 ^ 32 \<and>
     (\<forall>(i, e) \<in> set idx. wf_chunk_id i \<and> wf_pack_id (ce_pack_id e))"

lemma inj_chunk_bytes [simp]: "inj chunk_bytes"
  by (rule injI) (simp add: chunk_id.expand)

lemma ci_ok_distinct: "ci_ok idx \<Longrightarrow> distinct (map (chunk_bytes \<circ> fst) idx)"
  unfolding ci_ok_def hm_wf_def
  by (simp add: distinct_map comp_inj_on inj_on_subset [OF inj_chunk_bytes] flip: map_map)

lemma cache_sizes [simp]:
  "length MAGIC = 8" "length RESTORE_MAGIC = 8" "length FULL_MAGIC = 8"
  "HEADER_SIZE = 28" "RESTORE_HEADER_SIZE = 28" "FULL_HEADER_SIZE = 28"
  "ENTRY_SIZE = 36" "RESTORE_ENTRY_SIZE = 76" "FULL_ENTRY_SIZE = 80"
  by (simp_all add: MAGIC_def RESTORE_MAGIC_def FULL_MAGIC_def HEADER_SIZE_def
      RESTORE_HEADER_SIZE_def FULL_HEADER_SIZE_def ENTRY_SIZE_def RESTORE_ENTRY_SIZE_def
      FULL_ENTRY_SIZE_def)

text \<open>The entries in file order, and what a lookup in a sorted copy of the index finds.\<close>

definition sorted_index :: "chunk_index \<Rightarrow> (chunk_id \<times> chunk_index_entry) list" where
  "sorted_index idx = sort_key (\<lambda>p. chunk_bytes (fst p)) idx"

lemma sorted_index_props:
  assumes "ci_ok idx"
  shows "set (sorted_index idx) = set idx" "length (sorted_index idx) = length idx"
    and "sorted_wrt (<) (map (\<lambda>p. chunk_bytes (fst p)) (sorted_index idx))"
    and "map_of (sorted_index idx) = map_of idx"
    and "distinct (map fst (sorted_index idx))"
proof -
  show "set (sorted_index idx) = set idx" "length (sorted_index idx) = length idx"
    by (simp_all add: sorted_index_def)
  show "sorted_wrt (<) (map (\<lambda>p. chunk_bytes (fst p)) (sorted_index idx))"
    using strictly_sorted_entries [of "\<lambda>p. chunk_bytes (fst p)" idx] ci_ok_distinct [OF assms]
    by (simp add: sorted_index_def comp_def)
  have d: "distinct (map fst idx)" using assms by (simp add: ci_ok_def hm_wf_def)
  then show "distinct (map fst (sorted_index idx))"
    by (simp add: sorted_index_def distinct_map)
  with d show "map_of (sorted_index idx) = map_of idx"
    by (metis (no_types) \<open>set (sorted_index idx) = set idx\<close> map_of_inject_set)
qed

lemma sort_key_map: "sort_key (\<lambda>e. k (fst e)) (map (\<lambda>(i, e). (i, g e)) xs) =
    map (\<lambda>(i, e). (i, g e)) (sort_key (\<lambda>p. k (fst p)) xs)"
proof -
  have ins: "insort_key (\<lambda>e. k (fst e)) (i, g e) (map (\<lambda>(i, e). (i, g e)) ys) =
      map (\<lambda>(i, e). (i, g e)) (insort_key (\<lambda>p. k (fst p)) (i, e) ys)" for i e ys
    by (induction ys) auto
  show ?thesis by (induction xs) (auto simp: ins)
qed

lemma sorted_table_lookup:
  assumes "ci_ok idx"
    and "\<forall>p \<in> set idx. length (f p) = n \<and> byte_slice (f p) 0 32 = chunk_bytes (fst p)" and "32 \<le> n"
    and "\<And>m. m < length idx \<Longrightarrow> dec m = g (snd (sorted_index idx ! m))"
  shows "map_option dec (bsearch (\<lambda>mid. byte_slice (concat (map f (sorted_index idx))) (mid * n) (mid * n + 32))
           (chunk_bytes i) 0 (length idx)) = map_option g (map_of idx i)" (is "map_option dec ?r = _")
proof -
  let ?es = "sorted_index idx"
  note es = sorted_index_props [OF assms(1)]
  have search: "case ?r of Some m \<Rightarrow> m < length ?es \<and> chunk_bytes (fst (?es ! m)) = chunk_bytes i
       | None \<Rightarrow> chunk_bytes i \<notin> (\<lambda>p. chunk_bytes (fst p)) ` set ?es"
    using table_search [OF _ assms(3) es(3), of f "chunk_bytes i"] assms(2) es(1,2) by simp
  show ?thesis
  proof (cases ?r)
    case None
    then have "i \<notin> fst ` set idx" using search es(1) by auto
    then show ?thesis using None by (simp add: map_of_eq_None_iff [THEN iffD2])
  next
    case (Some m)
    then have m: "m < length ?es" and "fst (?es ! m) = i"
      using search by (auto simp: chunk_id.expand)
    then have "(i, snd (?es ! m)) = ?es ! m" by (simp add: prod_eq_iff)
    then have "(i, snd (?es ! m)) \<in> set idx" using es(1) nth_mem [OF m] by simp
    then have "map_of idx i = Some (snd (?es ! m))" using assms(1) by (simp add: ci_ok_def hm_wf_def)
    then show ?thesis using Some assms(4) [of m] m es(2) by simp
  qed
qed

lemma ci_ok_count:
  assumes "ci_ok idx"
  shows "unat (of_nat (length idx) :: u32) = length idx"
    and "(of_nat (length idx) :: u32) = 0 \<longleftrightarrow> idx = []"
proof -
  show u: "unat (of_nat (length idx) :: u32) = length idx" using assms by (simp add: ci_ok_def)
  show "(of_nat (length idx) :: u32) = 0 \<longleftrightarrow> idx = []" 
  proof
    assume "(of_nat (length idx) :: u32) = 0"
    then have "unat (of_nat (length idx) :: u32) = 0" by (simp only: unsigned_0)
    with u show "idx = []" by simp
  qed simp
qed

lemma ci_ok_nth:
  assumes "ci_ok idx" and "m < length idx"
  shows "length (chunk_bytes (fst (sorted_index idx ! m))) = 32"
    and "length (pack_bytes (ce_pack_id (snd (sorted_index idx ! m)))) = 32"
proof -
  have "sorted_index idx ! m \<in> set idx"
    using assms(2) sorted_index_props(1,2) [OF assms(1)] nth_mem [of m "sorted_index idx"] by simp
  then show "length (chunk_bytes (fst (sorted_index idx ! m))) = 32"
    "length (pack_bytes (ce_pack_id (snd (sorted_index idx ! m)))) = 32"
    using assms(1) by (auto simp: ci_ok_def wf_chunk_id_def wf_pack_id_def)
qed

lemma dedup_cache_bytes:
  "build_dedup_cache_to_path idx g =
     cache_header MAGIC VERSION g (of_nat (length idx))
     @ concat (map (\<lambda>p. dedup_entry_bytes (fst p, ce_stored_size (snd p))) (sorted_index idx))"
  unfolding build_dedup_cache_to_path_def Let_def sorted_index_def
    sort_key_map [of chunk_bytes ce_stored_size]
  by (simp add: comp_def case_prod_beta)

lemma dedup_cache_open:
  assumes "ci_ok idx" and "g \<noteq> 0"
  shows "mmap_dedup_open_path (Some (build_dedup_cache_to_path idx gen)) g =
    (if gen = g then Some \<lparr>md_mmap = build_dedup_cache_to_path idx gen,
        md_entry_count = of_nat (length idx), md_index_generation = g\<rparr> else None)"
proof -
  have "length (concat (map (\<lambda>p. dedup_entry_bytes (fst p, ce_stored_size (snd p))) (sorted_index idx))) =
      length (sorted_index idx) * 36"
    using assms(1) sorted_index_props(1) [OF assms(1)]
    by (intro length_concat_fixed) (auto simp: dedup_entry_bytes_def ci_ok_def wf_chunk_id_def)
  then show ?thesis
    using assms sorted_index_props(2) [OF assms(1)]
    by (simp add: mmap_dedup_open_path_def dedup_cache_bytes open_cache_file_header ci_ok_def)
qed

lemma dedup_cache_lookup:
  assumes "ci_ok idx"
  shows "mmap_dedup_get_stored_size \<lparr>md_mmap = build_dedup_cache_to_path idx gen,
           md_entry_count = of_nat (length idx), md_index_generation = g\<rparr> i =
         map_option ce_stored_size (map_of idx i)"
proof -
  let ?f = "\<lambda>p. dedup_entry_bytes (fst p, ce_stored_size (snd p))"
  let ?d = "concat (map ?f (sorted_index idx))"
  have len: "\<forall>p \<in> set idx. length (?f p) = 36 \<and> byte_slice (?f p) 0 32 = chunk_bytes (fst p)"
    using assms by (auto simp: dedup_entry_bytes_def ci_ok_def wf_chunk_id_def)
  have sl: "byte_slice ?d (m * 36 + a) (m * 36 + b) = byte_slice (?f (sorted_index idx ! m)) a b"
    if "m < length idx" "b \<le> 36" for m a b
    using slice_concat_fixed [of "sorted_index idx" ?f 36 m b a] len that sorted_index_props(1,2) [OF assms]
    by simp
  have dec: "u32_from_le_bytes (byte_slice ?d (m * 36 + 32) (m * 36 + 32 + 4)) =
      ce_stored_size (snd (sorted_index idx ! m))" if "m < length idx" for m
  proof -
    have e: "m * 36 + 32 + 4 = m * 36 + (36 :: nat)" by simp
    show ?thesis
      unfolding e sl [OF that order.refl]
      using ci_ok_nth(1) [OF assms that] by (simp add: dedup_entry_bytes_def byte_slice_def)
  qed
  show ?thesis
  proof (cases "idx = []")
    case False
    have "mmap_dedup_get_stored_size \<lparr>md_mmap = build_dedup_cache_to_path idx gen,
             md_entry_count = of_nat (length idx), md_index_generation = g\<rparr> i =
       map_option (\<lambda>m. u32_from_le_bytes (byte_slice ?d (m * 36 + 32) (m * 36 + 32 + 4)))
         (bsearch (\<lambda>mid. byte_slice ?d (mid * 36) (mid * 36 + 32)) (chunk_bytes i) 0 (length idx))"
      using ci_ok_count [OF assms] False
      by (simp only: mmap_dedup_get_stored_size_def dedup_cache_bytes Let_def drop_cache_header
          cache_sizes mmap_dedup_cache.simps if_False)
    also have "\<dots> = map_option ce_stored_size (map_of idx i)"
      by (rule sorted_table_lookup [OF assms len]) (simp, rule dec)
    finally show ?thesis .
  qed (simp add: mmap_dedup_get_stored_size_def)
qed

lemma restore_cache_bytes:
  "build_restore_cache_to_path idx g =
     cache_header RESTORE_MAGIC RESTORE_VERSION g (of_nat (length idx))
     @ concat (map (\<lambda>p. restore_entry_bytes (fst p, ce_stored_size (snd p), ce_pack_id (snd p),
                          ce_pack_offset (snd p))) (sorted_index idx))"
  unfolding build_restore_cache_to_path_def Let_def sorted_index_def
    sort_key_map [of chunk_bytes "\<lambda>e. (ce_stored_size e, ce_pack_id e, ce_pack_offset e)"]
  by (simp add: comp_def case_prod_beta)

lemma restore_entry_len:
  assumes "ci_ok idx" and "p \<in> set idx"
  shows "length (restore_entry_bytes (fst p, ce_stored_size (snd p), ce_pack_id (snd p),
           ce_pack_offset (snd p))) = 76"
  using assms by (auto simp: restore_entry_bytes_def ci_ok_def wf_chunk_id_def wf_pack_id_def)

lemma restore_cache_open:
  assumes "ci_ok idx" and "g \<noteq> 0"
  shows "mmap_restore_open_path (Some (build_restore_cache_to_path idx gen)) g =
    (if gen = g then Some \<lparr>mr_mmap = build_restore_cache_to_path idx gen,
        mr_entry_count = of_nat (length idx)\<rparr> else None)"
proof -
  have "length (concat (map (\<lambda>p. restore_entry_bytes (fst p, ce_stored_size (snd p),
      ce_pack_id (snd p), ce_pack_offset (snd p))) (sorted_index idx))) = length (sorted_index idx) * 76"
    using restore_entry_len [OF assms(1)] sorted_index_props(1) [OF assms(1)]
    by (intro length_concat_fixed) auto
  then show ?thesis
    using assms sorted_index_props(2) [OF assms(1)]
    by (simp add: mmap_restore_open_path_def restore_cache_bytes open_cache_file_header ci_ok_def)
qed

lemma restore_cache_lookup:
  assumes "ci_ok idx"
  shows "mmap_restore_lookup \<lparr>mr_mmap = build_restore_cache_to_path idx gen,
           mr_entry_count = of_nat (length idx)\<rparr> i =
         map_option (\<lambda>e. (ce_pack_id e, ce_pack_offset e, ce_stored_size e)) (map_of idx i)"
proof -
  let ?f = "\<lambda>p. restore_entry_bytes (fst p, ce_stored_size (snd p), ce_pack_id (snd p),
                          ce_pack_offset (snd p))"
  let ?d = "concat (map ?f (sorted_index idx))"
  have len: "\<forall>p \<in> set idx. length (?f p) = 76 \<and> byte_slice (?f p) 0 32 = chunk_bytes (fst p)"
    using assms restore_entry_len [OF assms]
    by (auto simp: restore_entry_bytes_def ci_ok_def wf_chunk_id_def)
  have sl: "byte_slice ?d (m * 76 + a) (m * 76 + b) = byte_slice (?f (sorted_index idx ! m)) a b"
    if "m < length idx" "b \<le> 76" for m a b
    using slice_concat_fixed [of "sorted_index idx" ?f 76 m b a] len that sorted_index_props(1,2) [OF assms]
    by simp
  have dec: "(let off = m * 76 in
         (PackId (byte_slice ?d (off + 36) (off + 68)),
          u64_from_le_bytes (byte_slice ?d (off + 68) (off + 76)),
          u32_from_le_bytes (byte_slice ?d (off + 32) (off + 36)))) =
      (\<lambda>e. (ce_pack_id e, ce_pack_offset e, ce_stored_size e)) (snd (sorted_index idx ! m))"
    if "m < length idx" for m
    using ci_ok_nth [OF assms that]
    by (simp only: Let_def sl [OF that, of 68 36] sl [OF that, of 76 68] sl [OF that, of 36 32])
       (simp add: restore_entry_bytes_def byte_slice_def)
  show ?thesis
  proof (cases "idx = []")
    case False
    have "mmap_restore_lookup \<lparr>mr_mmap = build_restore_cache_to_path idx gen,
             mr_entry_count = of_nat (length idx)\<rparr> i =
       map_option (\<lambda>m. let off = m * 76 in
           (PackId (byte_slice ?d (off + 36) (off + 68)),
            u64_from_le_bytes (byte_slice ?d (off + 68) (off + 76)),
            u32_from_le_bytes (byte_slice ?d (off + 32) (off + 36))))
         (bsearch (\<lambda>mid. byte_slice ?d (mid * 76) (mid * 76 + 32)) (chunk_bytes i) 0 (length idx))"
      using ci_ok_count [OF assms] False
      by (simp only: mmap_restore_lookup_def restore_cache_bytes Let_def drop_cache_header
          cache_sizes mmap_restore_cache.simps if_False)
    also have "\<dots> = map_option (\<lambda>e. (ce_pack_id e, ce_pack_offset e, ce_stored_size e)) (map_of idx i)"
      by (rule sorted_table_lookup [OF assms len]) (simp, rule dec)
    finally show ?thesis .
  qed (simp add: mmap_restore_lookup_def)
qed

section \<open>Dedup structures\<close>

text \<open>
  What a backup relies on in the structure it deduplicates against.  \<open>base\<close> is what remains
  visible of a chunk once its session-local entry is removed.
\<close>

locale dedup_structure =
  fixes lookup :: "'s \<Rightarrow> chunk_id \<Rightarrow> u32 option"
    and ins :: "'s \<Rightarrow> chunk_id \<Rightarrow> u32 \<Rightarrow> 's"
    and rem :: "'s \<Rightarrow> chunk_id \<Rightarrow> 's"
    and base :: "'s \<Rightarrow> chunk_id \<Rightarrow> u32 option"
  assumes lookup_ins: "lookup (ins s i n) j = (if j = i then Some n else lookup s j)"
    and lookup_rem: "lookup (rem s i) j = (if j = i then base s i else lookup s j)"
    and base_ins: "base (ins s i n) = base s"
    and base_rem: "base (rem s i) = base s"
    and base_lookup: "lookup s i = None \<Longrightarrow> base s i = None"
begin

lemma base_inserts: "base (fold (\<lambda>(i, n) s. ins s i n) xs s) = base s"
  by (induction xs arbitrary: s) (auto simp: base_ins)

lemma lookup_inserts:
  "lookup (fold (\<lambda>(i, n) s. ins s i n) xs s) j =
     (case map_of (rev xs) j of Some n \<Rightarrow> Some n | None \<Rightarrow> lookup s j)"
  by (induction xs arbitrary: s) (auto simp: lookup_ins map_add_def split: option.splits)

lemma lookup_removes:
  "lookup (fold (\<lambda>i s. rem s i) is s) j = (if j \<in> set is then base s j else lookup s j)"
  by (induction "is" arbitrary: s) (auto simp: lookup_rem base_rem)

lemma rollback_inserts:
  assumes "\<forall>i \<in> fst ` set xs. lookup s i = None"
  shows "lookup (fold (\<lambda>i s. rem s i) (map fst xs) (fold (\<lambda>(i, n) s. ins s i n) xs s)) = lookup s"
proof
  fix j
  have "map_of (rev xs) j = None" if "j \<notin> fst ` set xs"
    using that by (simp add: map_of_eq_None_iff)
  then show "lookup (fold (\<lambda>i s. rem s i) (map fst xs) (fold (\<lambda>(i, n) s. ins s i n) xs s)) j = lookup s j"
    using assms base_lookup [of s j] by (auto simp: lookup_removes lookup_inserts base_inserts)
qed

end

interpretation di: dedup_structure di_get_stored_size di_insert di_remove "\<lambda>s i. None"
  by unfold_locales (auto simp: di_get_stored_size_def di_insert_def di_remove_def)

interpretation td: dedup_structure td_get_stored_size td_insert td_remove
  "\<lambda>t. td_get_stored_size (t\<lparr>td_session_new := []\<rparr>)"
  by unfold_locales
     (auto simp: td_get_stored_size_def td_insert_def td_remove_def fun_eq_iff
        split: option.splits if_splits)

lemma dedup_iter_keys:
  assumes "ci_ok idx"
  shows "mmap_dedup_iter_u64_keys \<lparr>md_mmap = build_dedup_cache_to_path idx gen,
           md_entry_count = of_nat (length idx), md_index_generation = g\<rparr> =
         map (\<lambda>p. chunk_id_to_u64 (fst p)) (sorted_index idx)"
proof -
  let ?f = "\<lambda>p. dedup_entry_bytes (fst p, ce_stored_size (snd p))"
  let ?d = "concat (map ?f (sorted_index idx))"
  have "byte_slice ?d (m * 36) (m * 36 + 8) = take 8 (chunk_bytes (fst (sorted_index idx ! m)))"
    if "m < length idx" for m
  proof -
    have "\<forall>p \<in> set (sorted_index idx). length (?f p) = 36"
      using assms sorted_index_props(1) [OF assms]
      by (auto simp: dedup_entry_bytes_def ci_ok_def wf_chunk_id_def)
    from slice_concat_fixed [OF this, of m 8 0] show ?thesis
      using that sorted_index_props(2) [OF assms] ci_ok_nth(1) [OF assms that]
      by (simp add: dedup_entry_bytes_def byte_slice_def [of "_ @ _"])
  qed
  then show ?thesis
    using sorted_index_props(2) [OF assms] ci_ok_count(1) [OF assms]
    by (intro nth_equalityI)
       (simp_all add: mmap_dedup_iter_u64_keys_def dedup_cache_bytes chunk_id_to_u64_def
          length_cache_header)
qed

lemma td_new_lookup:
  assumes "ci_ok idx" and "xor_ok xf"
  shows "td_get_stored_size (td_new xf \<lparr>md_mmap = build_dedup_cache_to_path idx gen,
           md_entry_count = of_nat (length idx), md_index_generation = g\<rparr>) i =
         map_option ce_stored_size (map_of idx i)"
proof -
  let ?c = "\<lparr>md_mmap = build_dedup_cache_to_path idx gen,
           md_entry_count = of_nat (length idx), md_index_generation = g\<rparr>"
  have fil: "f (chunk_id_to_u64 i)" if "build_xor_filter xf ?c = Some f" and "map_of idx i \<noteq> None" for f
  proof -
    have "i \<in> fst ` set (sorted_index idx)"
      using that(2) sorted_index_props(1) [OF assms(1)] by (simp add: map_of_eq_None_iff)
    then have "chunk_id_to_u64 i \<in> set (mmap_dedup_iter_u64_keys ?c)"
      by (auto simp: dedup_iter_keys [OF assms(1)])
    then show ?thesis
      using that(1) assms(2)
      by (auto simp: build_xor_filter_def build_xor_filter_from_keys_def xor_ok_def split: if_splits)
  qed
  show ?thesis
  proof (cases "build_xor_filter xf ?c")
    case None
    then show ?thesis by (simp add: td_get_stored_size_def td_new_def dedup_cache_lookup [OF assms(1)])
  next
    case (Some f)
    have "map_of idx i = None" if "\<not> f (chunk_id_to_u64 i)" using fil [OF Some] that by blast
    with Some show ?thesis
      by (auto simp: td_get_stored_size_def td_new_def dedup_cache_lookup [OF assms(1)])
  qed
qed

lemma di_new_lookup:
  assumes "hm_wf idx"
  shows "di_get_stored_size (di_from_chunk_index xf idx) i = map_option ce_stored_size (map_of idx i)"
proof -
  have "distinct (map fst (map (\<lambda>(i, e). (i, ce_stored_size e)) idx))"
    using assms by (simp add: hm_wf_def comp_def case_prod_beta)
  then show ?thesis
    by (simp add: di_get_stored_size_def di_from_chunk_index_def Let_def hm_get_collect
        map_of_rev_distinct map_of_map)
qed

section \<open>The full cache and its merge\<close>

definition fc_ok :: "full_cache_entry \<Rightarrow> bool" where
  "fc_ok e \<longleftrightarrow> wf_chunk_id (fc_chunk_id e) \<and> wf_pack_id (fc_pack_id e)"

definition fc_of :: "chunk_id \<times> chunk_index_entry \<Rightarrow> full_cache_entry" where
  "fc_of p = \<lparr>fc_chunk_id = fst p, fc_refcount = ce_refcount (snd p),
              fc_stored_size = ce_stored_size (snd p), fc_pack_id = ce_pack_id (snd p),
              fc_pack_offset = ce_pack_offset (snd p)\<rparr>"

definition fc_entry :: "full_cache_entry \<Rightarrow> chunk_index_entry" where
  "fc_entry e = \<lparr>ce_refcount = fc_refcount e, ce_stored_size = fc_stored_size e,
                 ce_pack_id = fc_pack_id e, ce_pack_offset = fc_pack_offset e\<rparr>"

definition full_file :: "u64 \<Rightarrow> full_cache_entry list \<Rightarrow> bytes" where
  "full_file g es = write_full_header g (of_nat (length es)) @ concat (map write_full_entry es)"

lemma length_write_full_entry: "fc_ok e \<Longrightarrow> length (write_full_entry e) = 80"
  by (simp add: fc_ok_def wf_chunk_id_def wf_pack_id_def write_full_entry_def)

lemma full_open:
  assumes "\<forall>e \<in> set es. fc_ok e" and "length es < 2 ^ 32" and "g \<noteq> 0"
  shows "mmap_full_open_path (Some (full_file gen es)) g =
    (if gen = g then Some \<lparr>mf_mmap = full_file gen es, mf_entry_count = of_nat (length es)\<rparr> else None)"
proof -
  have "length (concat (map write_full_entry es)) = length es * 80"
    using assms(1) by (intro length_concat_fixed) (auto simp: length_write_full_entry)
  then show ?thesis
    using assms(2,3)
    by (simp add: mmap_full_open_path_def full_file_def write_full_header_def open_cache_file_header)
qed

lemma full_entry_fields:
  assumes "fc_ok e"
  shows "ChunkId (byte_slice (write_full_entry e) 0 32) = fc_chunk_id e"
    "u32_from_le_bytes (byte_slice (write_full_entry e) 32 36) = fc_refcount e"
    "u32_from_le_bytes (byte_slice (write_full_entry e) 36 40) = fc_stored_size e"
    "PackId (byte_slice (write_full_entry e) 40 72) = fc_pack_id e"
    "u64_from_le_bytes (byte_slice (write_full_entry e) 72 80) = fc_pack_offset e"
  using assms by (simp_all add: fc_ok_def wf_chunk_id_def wf_pack_id_def write_full_entry_def byte_slice_def)

lemma full_iter:
  assumes "\<forall>e \<in> set es. fc_ok e" and "length es < 2 ^ 32"
  shows "mmap_full_iter \<lparr>mf_mmap = full_file gen es, mf_entry_count = of_nat (length es)\<rparr> = es"
proof -
  let ?d = "concat (map write_full_entry es)"
  have sz: "\<forall>e \<in> set es. length (write_full_entry e) = 80" using assms(1) length_write_full_entry by blast
  have "mmap_full_entry_at \<lparr>mf_mmap = full_file gen es, mf_entry_count = of_nat (length es)\<rparr> m = es ! m"
    if m: "m < length es" for m
  proof -
    have ok: "fc_ok (es ! m)" using assms(1) m by simp
    note sl = slice_concat_fixed [OF sz m]
    have 0: "byte_slice ?d (m * 80) (m * 80 + 32) = byte_slice (write_full_entry (es ! m)) 0 32"
      using sl [of 32 0] by simp
    have dr: "drop 28 (full_file gen es) = ?d" by (simp add: full_file_def write_full_header_def length_cache_header)
    show ?thesis
      unfolding mmap_full_entry_at_def Let_def mmap_full_index_cache.simps cache_sizes dr 0
        sl [of 36 32, simplified] sl [of 40 36, simplified] sl [of 72 40, simplified] sl [of 80 72, simplified]
        full_entry_fields [OF ok] by simp
  qed
  then show ?thesis
    using assms(2) by (intro nth_equalityI) (simp_all add: mmap_full_iter_def)
qed

lemma build_full_bytes:
  "build_full_index_cache_to_path idx g = full_file g (map fc_of (sorted_index idx))"
proof -
  have ins: "insort_key (\<lambda>e. chunk_bytes (fc_chunk_id e)) (fc_of p) (map fc_of ys) =
      map fc_of (insort_key (\<lambda>p. chunk_bytes (fst p)) p ys)" for p ys
    by (induction ys) (auto simp: fc_of_def)
  have "sort_key (\<lambda>e. chunk_bytes (fc_chunk_id e)) (map fc_of xs) =
      map fc_of (sort_key (\<lambda>p. chunk_bytes (fst p)) xs)" for xs
    by (induction xs) (auto simp: ins)
  moreover have "(\<lambda>(i, e). \<lparr>fc_chunk_id = i, fc_refcount = ce_refcount e,
      fc_stored_size = ce_stored_size e, fc_pack_id = ce_pack_id e,
      fc_pack_offset = ce_pack_offset e\<rparr>) = fc_of"
    by (auto simp: fc_of_def fun_eq_iff)
  ultimately show ?thesis
    by (simp add: build_full_index_cache_to_path_def full_file_def sorted_index_def Let_def)
qed

lemma ci_ok_fc: "ci_ok idx \<Longrightarrow> \<forall>e \<in> set (map fc_of (sorted_index idx)). fc_ok e"
  using sorted_index_props(1) [of idx] by (auto simp: fc_ok_def fc_of_def ci_ok_def)

text \<open>Loading a cache: each entry becomes an index entry.\<close>

lemma load_one:
  assumes "fc_refcount e \<noteq> 0" and "map_of idx (fc_chunk_id e) = None"
  shows "map_of (let index1 = ci_add idx (fc_chunk_id e) (fc_stored_size e) (fc_pack_id e) (fc_pack_offset e)
      in if fc_refcount e > 1 then ci_increment_refcount_by index1 (fc_chunk_id e) (fc_refcount e - 1)
         else index1) = (map_of idx)(fc_chunk_id e \<mapsto> fc_entry e)"
proof -
  have "fc_refcount e = 1" if "\<not> fc_refcount e > 1" using that assms(1) by unat_arith
  then show ?thesis
    using assms(2) by (auto simp: Let_def ci_get_add ci_get_incr_by fc_entry_def fun_eq_iff)
qed

lemma load_distinct:
  assumes "distinct (map fc_chunk_id es)" and "\<forall>e \<in> set es. fc_refcount e \<noteq> 0"
    and "\<forall>e \<in> set es. map_of idx (fc_chunk_id e) = None"
  shows "map_of (load_entries es idx) c =
    (case map_of (map (\<lambda>e. (fc_chunk_id e, fc_entry e)) es) c of Some x \<Rightarrow> Some x | None \<Rightarrow> map_of idx c)"
  using assms
proof (induction es arbitrary: idx)
  case (Cons e es)
  define idx' where "idx' = (let index1 = ci_add idx (fc_chunk_id e) (fc_stored_size e) (fc_pack_id e)
          (fc_pack_offset e)
      in if fc_refcount e > 1 then ci_increment_refcount_by index1 (fc_chunk_id e) (fc_refcount e - 1)
         else index1)"
  have m: "map_of idx' = (map_of idx)(fc_chunk_id e \<mapsto> fc_entry e)"
    unfolding idx'_def using Cons.prems by (intro load_one) auto
  have step: "load_entries (e # es) idx = load_entries es idx'" by (simp add: Let_def idx'_def)
  have none: "map_of (map (\<lambda>e. (fc_chunk_id e, fc_entry e)) es) (fc_chunk_id e) = None"
    using Cons.prems(1) by (auto simp: map_of_eq_None_iff)
  have "\<forall>x \<in> set es. map_of idx' (fc_chunk_id x) = None"
    using Cons.prems(1,3) by (auto simp: m image_iff)
  from Cons.IH [OF _ _ this] Cons.prems(1,2) show ?case
    unfolding step using none by (auto simp: m split: option.splits)
qed simp

text \<open>The merge loop: the bumped old entries and the bumped new ones.\<close>

definition bump_old :: "(chunk_id, u32) hmap \<Rightarrow> full_cache_entry \<Rightarrow> full_cache_entry" where
  "bump_old b e = e\<lparr>fc_refcount := fc_refcount e + bump_of b (fc_chunk_id e)\<rparr>"

definition bump_new :: "(chunk_id, u32) hmap \<Rightarrow> new_chunk_entry \<Rightarrow> full_cache_entry" where
  "bump_new b n = \<lparr>fc_chunk_id = ne_chunk_id n,
      fc_refcount = ne_refcount n + bump_of b (ne_chunk_id n),
      fc_stored_size = ne_stored_size n, fc_pack_id = ne_pack_id n, fc_pack_offset = ne_pack_offset n\<rparr>"

lemma merge_loop_simps:
  "merge_loop b [] ns = map (bump_new b) ns"
  "merge_loop b es [] = map (bump_old b) es"
  "merge_loop b (e # es) (n # ns) =
     (if chunk_bytes (fc_chunk_id e) \<le> chunk_bytes (ne_chunk_id n)
      then bump_old b e # merge_loop b es (n # ns) else bump_new b n # merge_loop b (e # es) ns)"
proof -
  have o: "(case map_of b (fc_chunk_id e) of Some bump \<Rightarrow> e\<lparr>fc_refcount := fc_refcount e + bump\<rparr>
      | None \<Rightarrow> e) = bump_old b e" for e
    by (auto simp: bump_old_def bump_of_def split: option.splits)
  have n: "\<lparr>fc_chunk_id = ne_chunk_id n,
      fc_refcount = ne_refcount n + (case map_of b (ne_chunk_id n) of Some b \<Rightarrow> b | None \<Rightarrow> 0),
      fc_stored_size = ne_stored_size n, fc_pack_id = ne_pack_id n,
      fc_pack_offset = ne_pack_offset n\<rparr> = bump_new b n" for n
    by (auto simp: bump_new_def bump_of_def split: option.splits)
  show "merge_loop b [] ns = map (bump_new b) ns" by (induction ns) (auto simp: n)
  show "merge_loop b es [] = map (bump_old b) es" by (induction es) (auto simp: o)
  show "merge_loop b (e # es) (n # ns) =
     (if chunk_bytes (fc_chunk_id e) \<le> chunk_bytes (ne_chunk_id n)
      then bump_old b e # merge_loop b es (n # ns) else bump_new b n # merge_loop b (e # es) ns)"
    by (simp add: o n)
qed

lemma merge_loop_set:
  "set (merge_loop b es ns) = bump_old b ` set es \<union> bump_new b ` set ns
   \<and> length (merge_loop b es ns) = length es + length ns"
proof (induction b es ns rule: merge_loop.induct)
  case (4 b e es n ns)
  then show ?case by (auto simp: merge_loop_simps(3) simp del: merge_loop.simps)
qed (auto simp: merge_loop_simps simp del: merge_loop.simps)

lemma merge_loop_distinct:
  assumes "distinct (map fc_chunk_id es)" and "distinct (map ne_chunk_id ns)"
    and "fc_chunk_id ` set es \<inter> ne_chunk_id ` set ns = {}"
  shows "distinct (map fc_chunk_id (merge_loop b es ns))"
  using assms
proof (induction b es ns rule: merge_loop.induct)
  case (4 b e es n ns)
  have ids: "fc_chunk_id ` set (merge_loop b es ns) = fc_chunk_id ` set es \<union> ne_chunk_id ` set ns" for es ns
    using merge_loop_set [of b es ns] by (simp add: bump_old_def bump_new_def image_Un image_image)
  show ?case
    using "4.prems" "4.IH" ids [of es "n # ns"] ids [of "e # es" ns]
    by (auto simp: merge_loop_simps(3) bump_old_def bump_new_def simp del: merge_loop.simps)
qed (auto simp: merge_loop_simps bump_old_def bump_new_def comp_def simp del: merge_loop.simps)

lemma load_full_file:
  assumes "\<forall>e \<in> set es. fc_ok e" and "length es < 2 ^ 32" and "g \<noteq> 0"
    and "distinct (map fc_chunk_id es)" and "\<forall>e \<in> set es. fc_refcount e \<noteq> 0"
  shows "\<exists>idx. load_chunk_index_from_full_cache_path (Some (full_file g es)) g = Inr idx
    \<and> map_of idx = map_of (map (\<lambda>e. (fc_chunk_id e, fc_entry e)) es)"
proof -
  have "load_chunk_index_from_full_cache_path (Some (full_file g es)) g = Inr (load_entries es [])"
    using full_open [OF assms(1,2,3), of g] full_iter [OF assms(1,2), of g]
    by (simp add: load_chunk_index_from_full_cache_path_def ci_new_def)
  moreover have "map_of (load_entries es []) = map_of (map (\<lambda>e. (fc_chunk_id e, fc_entry e)) es)"
    using load_distinct [OF assms(4,5), of "[]"] by (auto simp: fun_eq_iff split: option.splits)
  ultimately show ?thesis by blast
qed

lemma new_refs_distinct:
  "distinct (map ne_chunk_id es) \<Longrightarrow> n \<in> set es \<Longrightarrow> new_refs es (ne_chunk_id n) = ne_refcount n"
  by (induction es) (auto simp: new_refs_notin)

lemma new_loc_distinct:
  "distinct (map ne_chunk_id es) \<Longrightarrow> n \<in> set es \<Longrightarrow> new_loc es (ne_chunk_id n) = Some (ne_loc n)"
  by (induction es) (auto simp: new_loc_def image_iff)

text \<open>The entries of a merged cache are those of the index with the delta applied.\<close>

lemma merged_entries:
  assumes "ci_ok idx" and "delta_wf d" and "distinct (map ne_chunk_id (dl_new_entries d))"
    and "\<forall>e \<in> set (dl_new_entries d). \<not> ci_contains idx (ne_chunk_id e)"
    and "e \<in> bump_old (dl_refcount_bumps d) ` fc_of ` set idx
           \<union> bump_new (dl_refcount_bumps d) ` set (dl_new_entries d)"
  shows "rc_of (delta_apply_to d idx) (fc_chunk_id e) = fc_refcount e"
    and "loc_of (delta_apply_to d idx) (fc_chunk_id e) =
           Some (fc_stored_size e, fc_pack_id e, fc_pack_offset e)"
proof -
  from assms(5) consider
      (old) i x where "(i, x) \<in> set idx" and "e = bump_old (dl_refcount_bumps d) (fc_of (i, x))"
    | (new) n where "n \<in> set (dl_new_entries d)" and "e = bump_new (dl_refcount_bumps d) n"
    by auto
  then have "rc_of (delta_apply_to d idx) (fc_chunk_id e) = fc_refcount e \<and>
      loc_of (delta_apply_to d idx) (fc_chunk_id e) =
        Some (fc_stored_size e, fc_pack_id e, fc_pack_offset e)"
  proof cases
    case old
    have x: "map_of idx i = Some x" using old(1) assms(1) by (simp add: ci_ok_def hm_wf_def)
    then have "i \<notin> ne_chunk_id ` set (dl_new_entries d)" using assms(4) by (auto simp: ci_contains_iff)
    moreover have "rc_of idx i = ce_refcount x" "ci_contains idx i"
      "loc_of idx i = Some (ce_stored_size x, ce_pack_id x, ce_pack_offset x)"
      using x by (simp_all add: rc_of_def loc_of_def ci_contains_iff)
    ultimately show ?thesis
      using old(2) by (simp add: rc_of_apply_to [OF assms(2)] loc_of_apply_to bump_old_def fc_of_def
          new_refs_notin)
  next
    case new
    have "map_of idx (ne_chunk_id n) = None" using assms(4) new(1) by (auto simp: ci_contains_iff)
    then have "rc_of idx (ne_chunk_id n) = 0" "loc_of idx (ne_chunk_id n) = None"
      by (simp_all add: rc_of_def loc_of_def)
    then show ?thesis
      using new new_refs_distinct [OF assms(3) new(1)] new_loc_distinct [OF assms(3) new(1)]
      by (simp add: rc_of_apply_to [OF assms(2)] loc_of_apply_to bump_new_def ne_loc_def)
  qed
  then show "rc_of (delta_apply_to d idx) (fc_chunk_id e) = fc_refcount e"
    and "loc_of (delta_apply_to d idx) (fc_chunk_id e) =
           Some (fc_stored_size e, fc_pack_id e, fc_pack_offset e)" by auto
qed

lemma merged_absent:
  assumes "i \<notin> (\<lambda>p. fc_chunk_id (bump_old b (fc_of p))) ` set idx"
    and "i \<notin> (\<lambda>n. fc_chunk_id (bump_new b' n)) ` set (dl_new_entries d)"
  shows "loc_of (delta_apply_to d idx) i = None"
proof -
  have "i \<notin> fst ` set idx" "i \<notin> ne_chunk_id ` set (dl_new_entries d)"
    using assms by (auto simp: bump_old_def bump_new_def fc_of_def)
  then have "loc_of idx i = None" "new_loc (dl_new_entries d) i = None"
    by (simp_all add: loc_of_def map_of_eq_None_iff [THEN iffD2] new_loc_None_iff)
  then show ?thesis by (simp add: loc_of_apply_to)
qed

lemma entries_index_agree:
  assumes "distinct (map fc_chunk_id es)"
    and "\<And>e. e \<in> set es \<Longrightarrow> rc_of a (fc_chunk_id e) = fc_refcount e
           \<and> loc_of a (fc_chunk_id e) = Some (fc_stored_size e, fc_pack_id e, fc_pack_offset e)"
    and "\<And>i. i \<notin> fc_chunk_id ` set es \<Longrightarrow> loc_of a i = None"
    and "map_of idx' = map_of (map (\<lambda>e. (fc_chunk_id e, fc_entry e)) es)"
  shows "rc_of idx' i = rc_of a i \<and> loc_of idx' i = loc_of a i"
proof (cases "i \<in> fc_chunk_id ` set es")
  case True
  then obtain e where e: "e \<in> set es" "i = fc_chunk_id e" by auto
  have "map_of idx' i = Some (fc_entry e)"
    unfolding assms(4) by (rule map_of_is_SomeI) (use e assms(1) in \<open>auto simp: comp_def\<close>)
  then have "rc_of idx' i = fc_refcount e"
    "loc_of idx' i = Some (fc_stored_size e, fc_pack_id e, fc_pack_offset e)"
    by (simp_all add: rc_of_def loc_of_def fc_entry_def)
  then show ?thesis using assms(2) [OF e(1)] e(2) by simp
next
  case False
  then have "map_of idx' i = None" unfolding assms(4) by (auto simp: map_of_eq_None_iff image_image)
  moreover have "map_of a i = None" using assms(3) [OF False] by (simp add: loc_of_def)
  ultimately show ?thesis by (simp add: rc_of_def loc_of_def)
qed

lemma merged_file:
  assumes "ci_ok idx" and "g \<noteq> 0"
    and "mmap_full_open_path (Some (build_full_index_cache_to_path idx g)) g = Some old"
  shows "merge_full_index_cache old d g' = full_file g' (merge_loop (dl_refcount_bumps d)
    (map fc_of (sorted_index idx)) (sort_key (\<lambda>e. chunk_bytes (ne_chunk_id e)) (dl_new_entries d)))"
proof -
  let ?os = "map fc_of (sorted_index idx)"
  note so = sorted_index_props [OF assms(1)]
  have old: "old = \<lparr>mf_mmap = full_file g ?os, mf_entry_count = of_nat (length ?os)\<rparr>"
    using assms(2,3) full_open [OF ci_ok_fc [OF assms(1)], of g g] so(2) assms(1)
    by (simp add: build_full_bytes ci_ok_def)
  have iter: "mmap_full_iter old = ?os"
    unfolding old using full_iter [OF ci_ok_fc [OF assms(1)]] so(2) assms(1) by (simp add: ci_ok_def)
  have "length (merge_loop (dl_refcount_bumps d) ?os
      (sort_key (\<lambda>e. chunk_bytes (ne_chunk_id e)) (dl_new_entries d))) = length idx + length (dl_new_entries d)"
    using merge_loop_set [of "dl_refcount_bumps d" ?os
        "sort_key (\<lambda>e. chunk_bytes (ne_chunk_id e)) (dl_new_entries d)"] so(2) by auto
  then show ?thesis
    by (simp add: merge_full_index_cache_def Let_def iter full_file_def) (simp add: old so(2))
qed

lemma merged_distinct:
  assumes "ci_ok idx" and "distinct (map ne_chunk_id (dl_new_entries d))"
    and "\<forall>e \<in> set (dl_new_entries d). \<not> ci_contains idx (ne_chunk_id e)"
  shows "distinct (map fc_chunk_id (merge_loop b (map fc_of (sorted_index idx))
    (sort_key (\<lambda>e. chunk_bytes (ne_chunk_id e)) (dl_new_entries d))))"
proof (rule merge_loop_distinct)
  let ?os = "map fc_of (sorted_index idx)"
  let ?ns = "sort_key (\<lambda>e. chunk_bytes (ne_chunk_id e)) (dl_new_entries d)"
  note so = sorted_index_props [OF assms(1)]
  show "distinct (map fc_chunk_id ?os)" using so(5) by (simp add: fc_of_def comp_def)
  show "distinct (map ne_chunk_id ?ns)" using assms(2) by (simp add: distinct_map)
  have "fc_chunk_id ` set ?os = fst ` set idx" by (simp add: so(1) image_image fc_of_def)
  moreover have "ne_chunk_id n \<notin> fst ` set idx" if "n \<in> set (dl_new_entries d)" for n
    using assms(3) that by (simp add: ci_contains_iff map_of_eq_None_iff)
  ultimately show "fc_chunk_id ` set ?os \<inter> ne_chunk_id ` set ?ns = {}" by (simp add: disjoint_iff) blast
qed

section \<open>Properties\<close>

text \<open>C19: The dedup cache answers exactly as the index it was built from: for every index that
  fits the format and every generation other than 0, the written file is accepted for that
  generation, rejected for any other, and a lookup through the three tiers (session, xor filter,
  binary search) finds a chunk iff the index has it, with its stored size.\<close>

theorem dedup_cache_faithful:
  assumes "ci_ok idx" and "xor_ok xf" and "g \<noteq> 0"
  shows "\<exists>c. mmap_dedup_open_path (Some (build_dedup_cache_to_path idx g)) g = Some c
    \<and> td_get_stored_size (td_new xf c) i = map_option ce_stored_size (ci_get idx i)
    \<and> (g' \<noteq> g \<longrightarrow> mmap_dedup_open_path (Some (build_dedup_cache_to_path idx g)) g' = None)"
proof -
  have "mmap_dedup_open_path (Some (build_dedup_cache_to_path idx g)) g' = None" if "g' \<noteq> g"
    using that dedup_cache_open [OF assms(1), of g' g]
    by (cases "g' = 0") (auto simp: mmap_dedup_open_path_def open_cache_file_def)
  then show ?thesis
    using dedup_cache_open [OF assms(1,3), of g] td_new_lookup [OF assms(1,2)]
    by (auto simp: ci_get_def)
qed

definition wit_xor :: "u64 list \<Rightarrow> xor8 option" where "wit_xor ks = Some (\<lambda>k. k \<in> set ks)"

lemma wit_xor_ok: "xor_ok wit_xor" by (auto simp: xor_ok_def wit_xor_def)

definition wit_index :: chunk_index where
  "wit_index =
     [(wit_cid 9, \<lparr>ce_refcount = 2, ce_stored_size = 70, ce_pack_id = wit_pid 1, ce_pack_offset = 13\<rparr>),
      (wit_cid 4, \<lparr>ce_refcount = 1, ce_stored_size = 80, ce_pack_id = wit_pid 1, ce_pack_offset = 87\<rparr>)]"

lemma wit_index_ok: "ci_ok wit_index"
  by (simp add: ci_ok_def wit_index_def hm_wf_def wf_chunk_id_def wf_pack_id_def)
     (simp add: wit_cid_def wit_pid_def)

lemma dedup_cache_faithful_witness:
  "ci_ok wit_index \<and> xor_ok wit_xor \<and>
   (\<exists>c. mmap_dedup_open_path (Some (build_dedup_cache_to_path wit_index 5)) 5 = Some c
      \<and> td_get_stored_size (td_new wit_xor c) (wit_cid 4) = Some 80)"
  using dedup_cache_faithful [OF wit_index_ok wit_xor_ok, of 5 "wit_cid 4" 6] wit_index_ok wit_xor_ok
  by (auto simp: wit_index_def ci_get_def)

text \<open>C20: The restore cache gives every chunk of the index its pack, offset and stored size,
  nothing for other chunks, and is refused for any other generation.\<close>

theorem restore_cache_faithful:
  assumes "ci_ok idx" and "g \<noteq> 0"
  shows "\<exists>c. mmap_restore_open_path (Some (build_restore_cache_to_path idx g)) g = Some c
    \<and> mmap_restore_lookup c i =
        map_option (\<lambda>e. (ce_pack_id e, ce_pack_offset e, ce_stored_size e)) (ci_get idx i)
    \<and> (g' \<noteq> g \<longrightarrow> mmap_restore_open_path (Some (build_restore_cache_to_path idx g)) g' = None)"
proof -
  have "mmap_restore_open_path (Some (build_restore_cache_to_path idx g)) g' = None" if "g' \<noteq> g"
    using that restore_cache_open [OF assms(1), of g' g]
    by (cases "g' = 0") (auto simp: mmap_restore_open_path_def open_cache_file_def)
  then show ?thesis
    using restore_cache_open [OF assms(1,2), of g] restore_cache_lookup [OF assms(1)]
    by (auto simp: ci_get_def)
qed

lemma restore_cache_faithful_witness:
  "ci_ok wit_index \<and>
   (\<exists>c. mmap_restore_open_path (Some (build_restore_cache_to_path wit_index 5)) 5 = Some c
      \<and> mmap_restore_lookup c (wit_cid 9) = Some (wit_pid 1, 13, 70))"
  using restore_cache_faithful [OF wit_index_ok, of 5 "wit_cid 9" 6] wit_index_ok
  by (auto simp: wit_index_def ci_get_def)

text \<open>C16: Committing through the local cache is the same as committing through the index: merging
  a session's delta into the full cache of an index and loading the merged file yields, for every
  chunk, the reference count and location that applying the delta to the index itself yields.
  The session's new chunks are distinct and not in the index, its bumps reconcile against the
  index, and no 32-bit count wraps to zero.\<close>

theorem fast_path_commit_equiv:
  assumes "ci_ok idx" and "delta_wf d" and "g \<noteq> 0" and "g' \<noteq> 0"
    and "distinct (map ne_chunk_id (dl_new_entries d))"
    and "\<forall>e \<in> set (dl_new_entries d). \<not> ci_contains idx (ne_chunk_id e)
           \<and> wf_chunk_id (ne_chunk_id e) \<and> wf_pack_id (ne_pack_id e)"
    and "length idx + length (dl_new_entries d) < 2 ^ 32"
    and "\<forall>i. ci_contains (delta_apply_to d idx) i \<longrightarrow> rc_of (delta_apply_to d idx) i \<noteq> 0"
    and "mmap_full_open_path (Some (build_full_index_cache_to_path idx g)) g = Some old"
  shows "\<exists>idx'. load_chunk_index_from_full_cache_path (Some (merge_full_index_cache old d g')) g' = Inr idx'
    \<and> (\<forall>i. rc_of idx' i = rc_of (delta_apply_to d idx) i
           \<and> loc_of idx' i = loc_of (delta_apply_to d idx) i)"
proof -
  let ?b = "dl_refcount_bumps d"
  let ?os = "map fc_of (sorted_index idx)"
  let ?ns = "sort_key (\<lambda>e. chunk_bytes (ne_chunk_id e)) (dl_new_entries d)"
  let ?m = "merge_loop ?b ?os ?ns"
  note so = sorted_index_props [OF assms(1)]
  have set_m: "set ?m = bump_old ?b ` fc_of ` set idx \<union> bump_new ?b ` set (dl_new_entries d)"
    and len_m: "length ?m = length idx + length (dl_new_entries d)"
    using merge_loop_set [of ?b ?os ?ns] so(1,2) by auto
  have merged: "merge_full_index_cache old d g' = full_file g' ?m"
    by (rule merged_file [OF assms(1,3,9)])
  have ent: "rc_of (delta_apply_to d idx) (fc_chunk_id e) = fc_refcount e"
    "loc_of (delta_apply_to d idx) (fc_chunk_id e) = Some (fc_stored_size e, fc_pack_id e, fc_pack_offset e)"
    if "e \<in> set ?m" for e
  proof -
    have "\<forall>e \<in> set (dl_new_entries d). \<not> ci_contains idx (ne_chunk_id e)" using assms(6) by simp
    from merged_entries [OF assms(1,2,5) this that [unfolded set_m]]
    show "rc_of (delta_apply_to d idx) (fc_chunk_id e) = fc_refcount e"
      "loc_of (delta_apply_to d idx) (fc_chunk_id e) =
         Some (fc_stored_size e, fc_pack_id e, fc_pack_offset e)" by simp_all
  qed
  have ok: "\<forall>e \<in> set ?m. fc_ok e"
    using assms(1,6) unfolding set_m
    by (auto simp: fc_ok_def bump_old_def bump_new_def fc_of_def ci_ok_def)
  have nz: "\<forall>e \<in> set ?m. fc_refcount e \<noteq> 0"
  proof
    fix e assume e: "e \<in> set ?m"
    then have "ci_contains (delta_apply_to d idx) (fc_chunk_id e)" using ent(2) by (simp add: ci_contains_loc)
    then show "fc_refcount e \<noteq> 0" using assms(8) ent(1) [OF e] by auto
  qed
  have dist: "distinct (map fc_chunk_id ?m)"
    by (rule merged_distinct [OF assms(1,5)]) (use assms(6) in simp)
  obtain idx' where l: "load_chunk_index_from_full_cache_path (Some (full_file g' ?m)) g' = Inr idx'"
    and idx': "map_of idx' = map_of (map (\<lambda>e. (fc_chunk_id e, fc_entry e)) ?m)"
    using load_full_file [OF ok _ assms(4) dist nz] len_m assms(7) by auto
  have "loc_of (delta_apply_to d idx) i = None" if "i \<notin> fc_chunk_id ` set ?m" for i
    using that merged_absent [where i = i and idx = idx and d = d and b = ?b and b' = ?b]
    unfolding set_m by (simp add: image_Un image_image)
  then have "rc_of idx' i = rc_of (delta_apply_to d idx) i \<and> loc_of idx' i = loc_of (delta_apply_to d idx) i" for i
    by (intro entries_index_agree [OF dist _ _ idx']) (simp_all add: ent)
  then show ?thesis using l merged by auto
qed

definition wit_session :: index_delta where
  "wit_session =
     \<lparr>dl_new_entries = [\<lparr>ne_chunk_id = wit_cid 6, ne_stored_size = 50, ne_pack_id = wit_pid 7,
          ne_pack_offset = 13, ne_refcount = 1\<rparr>],
      dl_refcount_bumps = [(wit_cid 9, 4)]\<rparr>"

lemma fast_path_commit_equiv_witness:
  "\<exists>old idx'. mmap_full_open_path (Some (build_full_index_cache_to_path wit_index 5)) 5 = Some old
     \<and> load_chunk_index_from_full_cache_path (Some (merge_full_index_cache old wit_session 6)) 6 = Inr idx'
     \<and> rc_of idx' (wit_cid 9) = rc_of (delta_apply_to wit_session wit_index) (wit_cid 9)"
proof -
  have wf: "delta_wf wit_session" by (simp add: delta_wf_def wit_session_def hm_wf_def)
  have rc: "rc_of (delta_apply_to wit_session wit_index) i =
      (if i = wit_cid 9 then 6 else if i = wit_cid 4 then 1 else if i = wit_cid 6 then 1 else 0)" for i
    unfolding rc_of_apply_to [OF wf]
    by (auto simp: rc_of_def wit_session_def wit_index_def ci_contains_iff bump_of_def)
  have loc: "loc_of (delta_apply_to wit_session wit_index) i = None"
    if "i \<noteq> wit_cid 9" "i \<noteq> wit_cid 4" "i \<noteq> wit_cid 6" for i
  proof -
    have "loc_of wit_index i = None" "new_loc (dl_new_entries wit_session) i = None"
      using that by (simp_all add: loc_of_def wit_session_def wit_index_def new_loc_def)
    then show ?thesis by (simp add: loc_of_apply_to)
  qed
  obtain old where old: "mmap_full_open_path (Some (build_full_index_cache_to_path wit_index 5)) 5 = Some old"
    using full_open [OF ci_ok_fc [OF wit_index_ok], of 5 5] sorted_index_props(2) [OF wit_index_ok]
      wit_index_ok by (simp add: build_full_bytes ci_ok_def)
  have "\<forall>i. ci_contains (delta_apply_to wit_session wit_index) i \<longrightarrow>
      rc_of (delta_apply_to wit_session wit_index) i \<noteq> 0"
    using loc unfolding rc ci_contains_loc by auto
  moreover have "distinct (map ne_chunk_id (dl_new_entries wit_session))"
    "length wit_index + length (dl_new_entries wit_session) < 2 ^ 32"
    by (simp_all add: wit_session_def wit_index_def)
  moreover have "\<forall>e \<in> set (dl_new_entries wit_session). \<not> ci_contains wit_index (ne_chunk_id e)
      \<and> wf_chunk_id (ne_chunk_id e) \<and> wf_pack_id (ne_pack_id e)"
    by (simp add: wit_session_def wit_index_def ci_contains_iff)
       (simp add: wf_chunk_id_def wf_pack_id_def wit_cid_def wit_pid_def)
  ultimately show ?thesis
    using fast_path_commit_equiv [OF wit_index_ok wf, of 5 6] old by fastforce
qed

end
