(* ===== verification/Protocol.thy ===== *)
theory Protocol
  imports Types
begin

text \<open>
  The crate \<open>vykar-protocol\<close> (\<open>lib.rs\<close>): the pack-format constants shared by client and
  server, the protocol-version check, the wire types of the repack and verify endpoints,
  and the validation of keys and blob references a server applies to a request.
\<close>

section \<open>Constants and wire types\<close>

definition PACK_MAGIC :: bytes where
  "PACK_MAGIC = [0x56, 0x47, 0x45, 0x52, 0x50, 0x41, 0x43, 0x4b]"

definition PACK_HEADER_SIZE :: nat where "PACK_HEADER_SIZE = 9"
definition PACK_VERSION_CURRENT :: u8 where "PACK_VERSION_CURRENT = 1"
definition PACK_VERSION_MIN :: u8 where "PACK_VERSION_MIN = 1"
definition PACK_VERSION_MAX :: u8 where "PACK_VERSION_MAX = PACK_VERSION_CURRENT"
definition PROTOCOL_VERSION :: u32 where "PROTOCOL_VERSION = 1"
definition MIN_PROTOCOL_VERSION :: u32 where "MIN_PROTOCOL_VERSION = 1"

definition check_protocol_version :: "u32 \<Rightarrow> string + unit" where
  "check_protocol_version version =
     (if version = 0 then
        (if MIN_PROTOCOL_VERSION > 1
         then Inl (''legacy client (no protocol version); server requires >= ''
                    @ show_nat (unat MIN_PROTOCOL_VERSION))
         else Inr ())
      else if version < MIN_PROTOCOL_VERSION
        then Inl (''protocol version '' @ show_nat (unat version)
                    @ '' too old; server requires >= '' @ show_nat (unat MIN_PROTOCOL_VERSION))
      else if version > PROTOCOL_VERSION
        then Inl (''protocol version '' @ show_nat (unat version)
                    @ '' not supported; server supports <= '' @ show_nat (unat PROTOCOL_VERSION))
      else Inr ())"

record repack_blob_ref =
  rb_offset :: u64
  rb_length :: u64

record repack_operation_request =
  ro_source_pack :: string
  ro_keep_blobs :: "repack_blob_ref list"
  ro_delete_after :: bool

record repack_plan_request =
  rp_operations :: "repack_operation_request list"
  rp_protocol_version :: u32

record repack_operation_result =
  rr_source_pack :: string
  rr_new_pack :: "string option"
  rr_new_offsets :: "u64 list"
  rr_deleted :: bool

record repack_result_response =
  rr_completed :: "repack_operation_result list"

record verify_blob_ref =
  vb_offset :: u64
  vb_length :: u64

record verify_pack_request =
  vp_pack_key :: string
  vp_expected_size :: u64
  vp_expected_blobs :: "verify_blob_ref list"

record verify_packs_plan_request =
  vpp_packs :: "verify_pack_request list"
  vpp_protocol_version :: u32

record verify_pack_result =
  vr_pack_key :: string
  vr_hash_valid :: bool
  vr_header_valid :: bool
  vr_blobs_valid :: bool
  vr_error :: "string option"

record verify_packs_response =
  vr_results :: "verify_pack_result list"
  vr_truncated :: bool

section \<open>Repository layout\<close>

definition KNOWN_ROOT_FILES :: "string list" where
  "KNOWN_ROOT_FILES = [''config'', ''index'', ''index.gen'', ''manifest'']"

definition KNOWN_ROOT_DIRS :: "string list" where
  "KNOWN_ROOT_DIRS = [''keys'', ''snapshots'', ''packs'', ''locks'', ''sessions'', ''pending_index'']"

definition is_temp_file :: "string \<Rightarrow> bool" where
  "is_temp_file name =
     (let basename = (case rev (split_on (CHR ''/'') name) of [] \<Rightarrow> name | p # _ \<Rightarrow> p)
      in starts_with basename ''.tmp.'')"

definition is_known_repo_key :: "string \<Rightarrow> bool" where
  "is_known_repo_key key \<longleftrightarrow>
     key \<in> set KNOWN_ROOT_FILES
     \<or> list_ex (\<lambda>d. starts_with key d \<and> length d < length key \<and> key ! length d = CHR ''/'')
         KNOWN_ROOT_DIRS
     \<or> is_temp_file key"

definition is_valid_pack_key :: "string \<Rightarrow> bool" where
  "is_valid_pack_key key =
     (case split_on (CHR ''/'') (trim_matches_char (CHR ''/'') key) of
        [p0, p1, p2] \<Rightarrow>
          p0 = ''packs'' \<and> length p1 = 2 \<and> list_all is_ascii_hexdigit p1
          \<and> length p2 = 64 \<and> list_all is_ascii_hexdigit p2
      | _ \<Rightarrow> False)"

definition validate_blob_ref :: "u64 \<Rightarrow> u64 \<Rightarrow> string \<Rightarrow> string + unit" where
  "validate_blob_ref offset len ctx =
     (if len = 0 then Inl (''blob length must be > 0 at '' @ ctx)
      else if len > 0xFFFFFFFF then Inl (''blob length exceeds pack format max at '' @ ctx)
      else if checked_add_u64 offset len = None then Inl (''blob range overflow at '' @ ctx)
      else Inr ())"

section \<open>Lemmas\<close>

lemma length_PACK_MAGIC [simp]: "length PACK_MAGIC = 8"
  by (simp add: PACK_MAGIC_def)

lemma check_protocol_version_iff:
  "check_protocol_version v = Inr () \<longleftrightarrow> v = 0 \<or> v = 1"
proof -
  have "v = 0 \<or> v = 1 \<or> 1 < v" by unat_arith
  then show ?thesis
    by (auto simp: check_protocol_version_def MIN_PROTOCOL_VERSION_def PROTOCOL_VERSION_def)
qed

lemma trim_matches_id:
  assumes "s \<noteq> []" and "hd s \<noteq> c" and "last s \<noteq> c"
  shows "trim_matches_char c s = s"
proof -
  from assms(1,2) have "trim_start_char c s = s"
    by (cases s) (auto simp: trim_start_char_def)
  moreover from assms(1,3) have "dropWhile (\<lambda>x. x = c) (rev s) = rev s"
    by (cases "rev s") (auto simp: last_rev hd_rev simp flip: hd_rev)
  ultimately show ?thesis
    by (simp add: trim_matches_char_def trim_end_char_def)
qed

context hex_codec
begin

lemma pack_storage_key_trim:
  assumes "wf_pack_id p"
  shows "trim_matches_char (CHR ''/'') (pack_storage_key hx p) = pack_storage_key hx p"
proof (rule trim_matches_id)
  have ne: "pack_id_to_hex hx p \<noteq> []"
    using assms hex_length [of "pack_bytes p"]
    by (auto simp: pack_id_to_hex_def wf_pack_id_def)
  show "pack_storage_key hx p \<noteq> []" by (simp add: pack_storage_key_def)
  show "hd (pack_storage_key hx p) \<noteq> CHR ''/''" by (simp add: pack_storage_key_def)
  have "last (pack_storage_key hx p) \<in> set (pack_id_to_hex hx p)"
    using ne by (simp add: pack_storage_key_def)
  then show "last (pack_storage_key hx p) \<noteq> CHR ''/''"
    using slash_not_in_hex by (auto simp: pack_id_to_hex_def)
qed

lemma pack_storage_key_valid:
  assumes "wf_pack_id p"
  shows "is_valid_pack_key (pack_storage_key hx p)"
proof -
  have "length (take 1 (pack_bytes p)) = 1" using assms by (simp add: wf_pack_id_def)
  then have "length (pack_id_shard_prefix hx p) = 2"
    by (simp add: pack_id_shard_prefix_def hex_length)
  moreover have "length (pack_id_to_hex hx p) = 64"
    using assms by (simp add: pack_id_to_hex_def hex_length wf_pack_id_def)
  ultimately show ?thesis
    using assms
    by (simp add: is_valid_pack_key_def pack_storage_key_trim split_pack_storage_key
        list_all_iff pack_id_shard_prefix_def pack_id_to_hex_def hex_digits)
qed

end

lemma validate_blob_ref_ok_iff:
  "validate_blob_ref off len ctx = Inr () \<longleftrightarrow>
     0 < unat len \<and> unat len < 2 ^ 32 \<and> unat off + unat len < 2 ^ 64"
proof -
  have "len > 0xFFFFFFFF \<longleftrightarrow> 2 ^ 32 \<le> unat len"
    by (simp add: word_less_nat_alt) linarith
  moreover have "len = 0 \<longleftrightarrow> unat len = 0" by (simp add: unat_eq_0)
  ultimately show ?thesis
    by (auto simp: validate_blob_ref_def checked_add_u64_def)
qed

section \<open>Properties\<close>

text \<open>C27: Every pack key a client derives is parsed back to the same pack id, is accepted by the
  validation of the server, and belongs to one pack only.\<close>

theorem pack_key_agreement:
  assumes "hex_codec hx" and "wf_pack_id p"
  shows "pack_id_from_storage_key hx (pack_storage_key hx p) = Inr p
       \<and> is_valid_pack_key (pack_storage_key hx p)
       \<and> (pack_storage_key hx q = pack_storage_key hx p \<longleftrightarrow> q = p)"
  using hex_codec.pack_from_storage_key [OF assms] hex_codec.pack_storage_key_valid [OF assms]
    hex_codec.pack_storage_key_inject [OF assms(1)] by blast

lemma pack_key_agreement_witness:
  "wf_pack_id (PackId (replicate 32 10)) \<and>
   is_valid_pack_key (pack_storage_key lower_hex (PackId (replicate 32 10)))"
  using pack_key_agreement [OF lower_hex.hex_codec_axioms, of "PackId (replicate 32 10)" "PackId []"]
  by (simp add: wf_pack_id_def)

text \<open>A blob reference of a request is accepted exactly when its length is positive and fits
  32 bits and its end does not overflow 64 bits.\<close>

theorem blob_ref_accepted_iff:
  "validate_blob_ref off len ctx = Inr () \<longleftrightarrow>
     0 < unat len \<and> unat len < 2 ^ 32 \<and> unat off + unat len < 2 ^ 64"
  by (rule validate_blob_ref_ok_iff)

end
