(* ===== verification/Storage.thy ===== *)
theory Storage
  imports Protocol
begin

text \<open>
  The trait \<open>StorageBackend\<close> of \<open>vykar-storage\<close> as a record of operations on a backend
  state \<open>'s\<close>, its default methods, and its contract as the locale \<open>storage_contract\<close>:
  \<open>contents\<close> reads a backend state as a finite map from keys to objects, and every
  operation is described by its effect on that map, failures included.  The in-memory
  backend of \<open>testutil.rs\<close> is shown to satisfy the contract here; the REST backend is in
  \<open>Rest_Backend\<close>.
\<close>

section \<open>The trait (vykar-storage/src/lib.rs)\<close>

record 's storage_backend =
  be_get :: "string \<Rightarrow> ('s, vykar_error, bytes option) io"
  be_put :: "string \<Rightarrow> bytes \<Rightarrow> ('s, vykar_error, unit) io"
  be_delete :: "string \<Rightarrow> ('s, vykar_error, unit) io"
  be_exists :: "string \<Rightarrow> ('s, vykar_error, bool) io"
  be_list :: "string \<Rightarrow> ('s, vykar_error, string list) io"
  be_get_range :: "string \<Rightarrow> u64 \<Rightarrow> u64 \<Rightarrow> ('s, vykar_error, bytes option) io"
  be_create_dir :: "string \<Rightarrow> ('s, vykar_error, unit) io"
  be_put_owned :: "string \<Rightarrow> bytes \<Rightarrow> ('s, vykar_error, unit) io"
  be_size :: "string \<Rightarrow> ('s, vykar_error, u64 option) io"
  be_server_repack :: "repack_plan_request \<Rightarrow> ('s, vykar_error, repack_result_response) io"
  be_batch_delete_keys :: "string list \<Rightarrow> ('s, vykar_error, unit) io"
  be_server_verify_packs ::
    "verify_packs_plan_request \<Rightarrow> ('s, vykar_error, verify_packs_response) io"
  be_server_init :: "('s, vykar_error, unit) io"

text \<open>
  The default methods.  \<open>get_range_into\<close> returns its flag together with the contents it
  leaves in the caller's buffer; on an error the caller drops the buffer.
\<close>

definition default_get_range_into ::
  "(string \<Rightarrow> u64 \<Rightarrow> u64 \<Rightarrow> ('s, vykar_error, bytes option) io) \<Rightarrow>
   string \<Rightarrow> u64 \<Rightarrow> u64 \<Rightarrow> ('s, vykar_error, bool \<times> bytes) io" where
  "default_get_range_into gr key off len =
     io_bind (gr key off len) (\<lambda>v.
       case v of Some data \<Rightarrow> io_return (True, data) | None \<Rightarrow> io_return (False, []))"

definition default_put_owned ::
  "(string \<Rightarrow> bytes \<Rightarrow> ('s, vykar_error, unit) io) \<Rightarrow> string \<Rightarrow> bytes \<Rightarrow> ('s, vykar_error, unit) io"
  where "default_put_owned put key data = put key data"

definition default_size ::
  "(string \<Rightarrow> ('s, vykar_error, bytes option) io) \<Rightarrow> string \<Rightarrow> ('s, vykar_error, u64 option) io"
  where
  "default_size get key =
     io_bind (get key) (\<lambda>v. io_return (map_option (\<lambda>d. of_nat (length d)) v))"

definition default_server_repack ::
  "repack_plan_request \<Rightarrow> ('s, vykar_error, repack_result_response) io" where
  "default_server_repack plan = io_fail (UnsupportedBackend ''server-side repack API'')"

definition default_batch_delete_keys :: "string list \<Rightarrow> ('s, vykar_error, unit) io" where
  "default_batch_delete_keys keys = io_fail (UnsupportedBackend ''batch delete API'')"

definition default_server_verify_packs ::
  "verify_packs_plan_request \<Rightarrow> ('s, vykar_error, verify_packs_response) io" where
  "default_server_verify_packs plan =
     io_fail (UnsupportedBackend ''server-side verify-packs API'')"

definition default_server_init :: "('s, vykar_error, unit) io" where
  "default_server_init = io_fail (UnsupportedBackend ''server-side init API'')"

section \<open>The in-memory backend (vykar-core/src/testutil.rs)\<close>

type_synonym memory_state = "(string, bytes) hmap"

definition mem_get :: "string \<Rightarrow> (memory_state, vykar_error, bytes option) io" where
  "mem_get key m = (Inr (map_of m key), m)"

definition mem_put :: "string \<Rightarrow> bytes \<Rightarrow> (memory_state, vykar_error, unit) io" where
  "mem_put key data m = (Inr (), hm_insert key data m)"

definition mem_delete :: "string \<Rightarrow> (memory_state, vykar_error, unit) io" where
  "mem_delete key m = (Inr (), hm_remove key m)"

definition mem_exists :: "string \<Rightarrow> (memory_state, vykar_error, bool) io" where
  "mem_exists key m = (Inr (hm_contains m key), m)"

definition mem_list :: "string \<Rightarrow> (memory_state, vykar_error, string list) io" where
  "mem_list pre m =
     (Inr (filter (\<lambda>k. starts_with k pre \<and> \<not> ends_with k ''/'') (map fst m)), m)"

definition mem_get_range ::
  "string \<Rightarrow> u64 \<Rightarrow> u64 \<Rightarrow> (memory_state, vykar_error, bytes option) io" where
  "mem_get_range key off len m =
     (case map_of m key of
        None \<Rightarrow> (Inr None, m)
      | Some data \<Rightarrow>
          (case checked_add_u64 off len of
             None \<Rightarrow> (Inl (Other (''short read on '' @ key @ '' at offset '' @ show_nat (unat off)
                                  @ '': offset + length overflows usize'')), m)
           | Some end' \<Rightarrow>
               if length data \<le> unat off \<or> length data < unat end'
               then (Inl (Other (''short read on '' @ key @ '' at offset '' @ show_nat (unat off)
                       @ '': expected '' @ show_nat (unat len) @ '' bytes, got ''
                       @ show_nat (length data - unat off))), m)
               else (Inr (Some (take (unat len) (drop (unat off) data))), m)))"

definition mem_create_dir :: "string \<Rightarrow> (memory_state, vykar_error, unit) io" where
  "mem_create_dir key m = (Inr (), m)"

definition memory_backend :: "memory_state storage_backend" where
  "memory_backend =
     \<lparr>be_get = mem_get, be_put = mem_put, be_delete = mem_delete, be_exists = mem_exists,
      be_list = mem_list, be_get_range = mem_get_range, be_create_dir = mem_create_dir,
      be_put_owned = default_put_owned mem_put, be_size = default_size mem_get,
      be_server_repack = default_server_repack,
      be_batch_delete_keys = default_batch_delete_keys,
      be_server_verify_packs = default_server_verify_packs,
      be_server_init = default_server_init\<rparr>"

section \<open>The contract\<close>

text \<open>A prefix as a directory: the keys strictly below it.\<close>

definition dir_prefix :: "string \<Rightarrow> string" where
  "dir_prefix p = (if ends_with p ''/'' then p else p @ ''/'')"

locale storage_contract =
  fixes b :: "'s storage_backend"
    and contents :: "'s \<Rightarrow> string \<rightharpoonup> bytes"
    and valid_key :: "string \<Rightarrow> bool"
  assumes get_frame: "be_get b k s = (r, s') \<Longrightarrow> contents s' = contents s"
    and get_ok: "valid_key k \<Longrightarrow> be_get b k s = (Inr v, s') \<Longrightarrow> v = contents s k"
    and put_ok: "valid_key k \<Longrightarrow> be_put b k d s = (Inr u, s') \<Longrightarrow>
      contents s' = (contents s)(k \<mapsto> d)"
    and put_err: "valid_key k \<Longrightarrow> be_put b k d s = (Inl e, s') \<Longrightarrow>
      contents s' = contents s \<or> contents s' = (contents s)(k \<mapsto> d)"
    and put_owned_ok: "valid_key k \<Longrightarrow> be_put_owned b k d s = (Inr u, s') \<Longrightarrow>
      contents s' = (contents s)(k \<mapsto> d)"
    and put_owned_err: "valid_key k \<Longrightarrow> be_put_owned b k d s = (Inl e, s') \<Longrightarrow>
      contents s' = contents s \<or> contents s' = (contents s)(k \<mapsto> d)"
    and delete_ok: "valid_key k \<Longrightarrow> be_delete b k s = (Inr u, s') \<Longrightarrow>
      contents s' = (contents s)(k := None)"
    and delete_err: "valid_key k \<Longrightarrow> be_delete b k s = (Inl e, s') \<Longrightarrow>
      contents s' = contents s \<or> contents s' = (contents s)(k := None)"
    and exists_frame: "be_exists b k s = (r', s') \<Longrightarrow> contents s' = contents s"
    and exists_ok: "valid_key k \<Longrightarrow> be_exists b k s = (Inr v', s') \<Longrightarrow>
      v' \<longleftrightarrow> contents s k \<noteq> None"
    and list_frame: "be_list b p s = (r'', s') \<Longrightarrow> contents s' = contents s"
    and list_sound: "be_list b p s = (Inr ks, s') \<Longrightarrow> k \<in> set ks \<Longrightarrow>
      contents s k \<noteq> None \<and> starts_with k p"
    and list_complete: "be_list b p s = (Inr ks, s') \<Longrightarrow> valid_key k \<Longrightarrow>
      contents s k \<noteq> None \<Longrightarrow> starts_with k (dir_prefix p) \<Longrightarrow> k \<in> set ks"
    and get_range_frame: "be_get_range b k off len s = (r, s') \<Longrightarrow> contents s' = contents s"
    and get_range_ok: "valid_key k \<Longrightarrow> be_get_range b k off len s = (Inr v, s') \<Longrightarrow>
      (case contents s k of
         None \<Rightarrow> v = None
       | Some d \<Rightarrow> unat off + unat len \<le> length d
           \<and> v = Some (take (unat len) (drop (unat off) d)))"
    and size_frame: "be_size b k s = (sz, s') \<Longrightarrow> contents s' = contents s"
    and size_ok: "valid_key k \<Longrightarrow> be_size b k s = (Inr n, s') \<Longrightarrow>
      n = map_option (\<lambda>d. of_nat (length d)) (contents s k)"
begin

lemma put_get:
  assumes "valid_key k" and "be_put b k d s = (Inr u, s')" and "be_get b k s' = (Inr v, s'')"
  shows "v = Some d"
  using put_ok [OF assms(1,2)] get_ok [OF assms(1,3)] by simp

lemma delete_exists:
  assumes "valid_key k" and "be_delete b k s = (Inr u, s')" and "be_exists b k s' = (Inr v, s'')"
  shows "\<not> v"
  using delete_ok [OF assms(1,2)] exists_ok [OF assms(1,3)] by simp

lemma put_other:
  assumes "valid_key k" and "be_put b k d s = (r, s')" and "k' \<noteq> k"
  shows "contents s' k' = contents s k'"
  using assms(2) put_ok [OF assms(1)] put_err [OF assms(1)] assms(3)
  by (cases r) (metis fun_upd_other)+

lemma put_mono:
  assumes "valid_key k" and "be_put b k d s = (r, s')" and "contents s k' \<noteq> None"
  shows "contents s' k' \<noteq> None"
proof (cases r)
  case (Inl e)
  then show ?thesis using put_err [OF assms(1)] assms(2,3) by (fastforce split: if_splits)
next
  case (Inr u)
  then show ?thesis using put_ok [OF assms(1)] assms(2,3) by (fastforce split: if_splits)
qed

end

section \<open>Lemmas\<close>

definition plain_key :: "string \<Rightarrow> bool" where
  "plain_key k \<longleftrightarrow> \<not> ends_with k ''/''"

lemma dir_prefix_starts_with: "starts_with k (dir_prefix p) \<Longrightarrow> starts_with k p"
  by (auto simp: dir_prefix_def starts_with_iff split: if_splits)

interpretation mem: storage_contract memory_backend map_of plain_key
proof
  fix k s v s' off len r p ks
  show "case map_of s k of None \<Rightarrow> v = None
        | Some d \<Rightarrow> unat off + unat len \<le> length d \<and> v = Some (take (unat len) (drop (unat off) d))"
    if "be_get_range memory_backend k off len s = (Inr v, s')"
    using that
    by (auto simp: memory_backend_def mem_get_range_def checked_add_u64_def unat_word_ariths
        split: option.splits if_splits)
  show "map_of s' = map_of s" if "be_get_range memory_backend k off len s = (r, s')"
    using that by (auto simp: memory_backend_def mem_get_range_def split: option.splits if_splits)
  show "map_of s k \<noteq> None \<and> starts_with k p"
    if "be_list memory_backend p s = (Inr ks, s')" and "k \<in> set ks"
    using that by (auto simp: memory_backend_def mem_list_def map_of_eq_None_iff)
  show "k \<in> set ks"
    if "be_list memory_backend p s = (Inr ks, s')" and "plain_key k"
      and "map_of s k \<noteq> None" and "starts_with k (dir_prefix p)"
  proof -
    from that(1) have ks: "ks = filter (\<lambda>k. starts_with k p \<and> \<not> ends_with k ''/'') (map fst s)"
      by (auto simp: memory_backend_def mem_list_def)
    have "k \<in> fst ` set s" using that(3) by (metis map_of_eq_None_iff)
    then show ?thesis
      using that(2) dir_prefix_starts_with [OF that(4)] by (simp add: ks plain_key_def)
  qed
qed (auto simp: memory_backend_def mem_get_def mem_put_def default_put_owned_def mem_delete_def mem_exists_def
      mem_list_def hm_contains_def default_size_def io_bind_def io_return_def)

end
