(* ===== verification/Repo_Lock.thy ===== *)
theory Repo_Lock
  imports Storage "HOL-Library.List_Lexorder" "HOL-Library.Char_ord"
begin

text \<open>
  Advisory locks and session markers (\<open>vykar-core/src/repo/lock.rs\<close>).  Instants are integers
  in nanoseconds since the epoch and every reading of a clock or of the random generator is
  an argument; \<open>chrono\<close> and \<open>serde_json\<close> are the fields of \<open>lock_lib\<close>.  The storage calls of
  concurrent clients interleave in the relation \<open>lock_step\<close>; the lock is exclusive in every
  run in which a client writes a key that sorts after the keys of the current holders, and
  two clocks that disagree are enough to break it.
\<close>

section \<open>Definitions\<close>

record lock_entry =
  le_hostname :: string
  le_pid :: u32
  le_time :: string

record session_entry =
  se_hostname :: string
  se_pid :: u32
  se_registered_at :: string
  se_last_refresh :: string

record lock_lib =
  lock_to_json :: "lock_entry \<Rightarrow> string + bytes"
  lock_from_json :: "bytes \<Rightarrow> string + lock_entry"
  session_to_json :: "session_entry \<Rightarrow> string + bytes"
  session_from_json :: "bytes \<Rightarrow> string + session_entry"
  to_rfc3339 :: "int \<Rightarrow> string"
  parse_from_rfc3339 :: "string \<Rightarrow> string + int"

record host_info =
  hi_hostname :: string
  hi_pid :: u32

definition LOCKS_PREFIX :: string where "LOCKS_PREFIX = ''locks/''"

definition DEFAULT_STALE_LOCK_SECS :: int where "DEFAULT_STALE_LOCK_SECS = 6 * 60 * 60"

definition LOCK_REFRESH_INTERVAL_SECS :: int where "LOCK_REFRESH_INTERVAL_SECS = 3 * 60 * 60"

definition LOCK_MAX_UNREFRESHED_SECS :: int where
  "LOCK_MAX_UNREFRESHED_SECS = DEFAULT_STALE_LOCK_SECS - 30 * 60"

text \<open>\<open>chrono::Duration::seconds\<close>, in nanoseconds.\<close>

definition duration_seconds :: "int \<Rightarrow> int" where
  "duration_seconds n = n * 1000000000"

record lock_guard =
  lg_key :: string
  lg_acquired_at :: int

definition list_lock_keys :: "'s storage_backend \<Rightarrow> ('s, vykar_error, string list) io" where
  "list_lock_keys b =
     io_bind (be_list b LOCKS_PREFIX) (\<lambda>keys.
       io_return (filter (\<lambda>k. starts_with k LOCKS_PREFIX \<and> ends_with k ''.json'') keys))"

definition format_lock_holder ::
  "lock_lib \<Rightarrow> 's storage_backend \<Rightarrow> string \<Rightarrow> ('s, vykar_error, string) io" where
  "format_lock_holder lib b lock_key =
     io_bind (io_try (be_get b lock_key)) (\<lambda>r.
       io_return (case r of
           Inr (Some data) \<Rightarrow>
             (case lock_from_json lib data of
                Inl _ \<Rightarrow> lock_key
              | Inr entry \<Rightarrow> le_hostname entry @ '' (PID '' @ show_nat (unat (le_pid entry)) @ '')'')
         | _ \<Rightarrow> lock_key))"

text \<open>Whether \<open>cleanup_stale_locks\<close> removes a lock object with these contents.\<close>

definition lock_is_stale :: "lock_lib \<Rightarrow> int \<Rightarrow> int \<Rightarrow> bytes \<Rightarrow> bool" where
  "lock_is_stale lib now max_age data =
     (case lock_from_json lib data of
        Inl _ \<Rightarrow> False
      | Inr entry \<Rightarrow>
          (case parse_from_rfc3339 lib (le_time entry) of
             Inl _ \<Rightarrow> False
           | Inr acquired \<Rightarrow> max_age < now - acquired))"

definition cleanup_stale_locks ::
  "lock_lib \<Rightarrow> 's storage_backend \<Rightarrow> int \<Rightarrow> int \<Rightarrow> ('s, vykar_error, unit) io" where
  "cleanup_stale_locks lib b max_age now =
     io_bind (list_lock_keys b) (\<lambda>keys.
       io_for keys (\<lambda>key.
         io_bind (be_get b key) (\<lambda>d.
           case d of
             None \<Rightarrow> io_return ()
           | Some data \<Rightarrow>
               if lock_is_stale lib now max_age data
               then io_bind (io_try (be_delete b key)) (\<lambda>_. io_return ())
               else io_return ())))"

text \<open>\<open>{:032x}\<close> of a 128-bit number and \<open>{:020}\<close> of a signed one.\<close>

fun hex_digits_of :: "nat \<Rightarrow> nat \<Rightarrow> string" where
  "hex_digits_of 0 n = []"
| "hex_digits_of (Suc w) n = hex_digits_of w (n div 16) @ [hex_digit (n mod 16)]"

definition show_int_padded :: "nat \<Rightarrow> int \<Rightarrow> string" where
  "show_int_padded w i =
     (if i < 0 then ''-'' @ pad_zeros (w - 1) (show_nat (nat (- i))) else pad_zeros w (show_nat (nat i)))"

text \<open>The readings one call of \<open>acquire_lock\<close> takes, in order.\<close>

record lock_readings =
  lr_cleanup_now :: int
  lr_now :: int
  lr_uuid :: "128 word"
  lr_acquired_at :: int

definition lock_key_of :: "int \<Rightarrow> 128 word \<Rightarrow> string" where
  "lock_key_of now uuid =
     LOCKS_PREFIX @ show_int_padded 20 (now div 1000) @ ''-'' @ hex_digits_of 32 (unat uuid) @ ''.json''"

definition write_lock ::
  "lock_lib \<Rightarrow> host_info \<Rightarrow> 's storage_backend \<Rightarrow> string \<Rightarrow> int \<Rightarrow> ('s, vykar_error, unit) io" where
  "write_lock lib h b key now =
     (case lock_to_json lib \<lparr>le_hostname = hi_hostname h, le_pid = hi_pid h, le_time = to_rfc3339 lib now\<rparr> of
        Inl e \<Rightarrow> io_fail (Other (''lock serialize: '' @ e))
      | Inr data \<Rightarrow> be_put b key data)"

definition decide_lock ::
  "lock_lib \<Rightarrow> 's storage_backend \<Rightarrow> string \<Rightarrow> int \<Rightarrow> ('s, vykar_error, lock_guard) io" where
  "decide_lock lib b key acquired_at =
     io_bind (list_lock_keys b) (\<lambda>ks.
       let keys = sort ks in
       if key \<notin> set keys
       then io_bind (io_try (be_delete b key)) (\<lambda>_.
              io_fail (Other ''lock acquisition failed: written lock key not returned by LIST''))
       else if hd keys \<noteq> key
       then io_bind (io_try (be_delete b key)) (\<lambda>_.
              io_bind (format_lock_holder lib b (hd keys)) (\<lambda>holder. io_fail (Locked holder)))
       else io_return \<lparr>lg_key = key, lg_acquired_at = acquired_at\<rparr>)"

definition acquire_lock ::
  "lock_lib \<Rightarrow> host_info \<Rightarrow> 's storage_backend \<Rightarrow> lock_readings \<Rightarrow> ('s, vykar_error, lock_guard) io"
  where
  "acquire_lock lib h b rd =
     io_bind (cleanup_stale_locks lib b (duration_seconds DEFAULT_STALE_LOCK_SECS) (lr_cleanup_now rd))
       (\<lambda>_. let key = lock_key_of (lr_now rd) (lr_uuid rd) in
            io_bind (write_lock lib h b key (lr_now rd)) (\<lambda>_.
              decide_lock lib b key (lr_acquired_at rd)))"

definition release_lock :: "'s storage_backend \<Rightarrow> lock_guard \<Rightarrow> ('s, vykar_error, unit) io" where
  "release_lock b guard = be_delete b (lg_key guard)"

text \<open>The counting deletion loop of \<open>break_lock\<close> and \<open>clear_all_sessions\<close>.\<close>

fun delete_counting :: "'s storage_backend \<Rightarrow> string list \<Rightarrow> nat \<Rightarrow> ('s, vykar_error, nat) io" where
  "delete_counting b [] removed = io_return removed"
| "delete_counting b (k # ks) removed =
     io_bind (be_delete b k) (\<lambda>_. delete_counting b ks (removed + 1))"

definition break_lock :: "'s storage_backend \<Rightarrow> ('s, vykar_error, nat) io" where
  "break_lock b = io_bind (list_lock_keys b) (\<lambda>keys. delete_counting b keys 0)"

text \<open>
  The lock fence.  A clock reading in whole seconds is \<open>None\<close> when the clock is before the
  epoch; \<open>i64_max\<close> is what the code substitutes then.
\<close>

definition i64_max :: int where "i64_max = 9223372036854775807"

definition now_secs_of :: "int \<Rightarrow> int" where
  "now_secs_of t = (if t < 0 then i64_max else t div 1000000000)"

definition verify_lock_validity ::
  "'s storage_backend \<Rightarrow> string \<Rightarrow> int \<Rightarrow> int \<Rightarrow> ('s, vykar_error, unit) io" where
  "verify_lock_validity b lock_key last_refreshed_secs now =
     io_bind (be_exists b lock_key) (\<lambda>present.
       if \<not> present then io_fail (LockExpired ''lock file removed by another client'')
       else (let now_secs = now_secs_of now; elapsed = now_secs - last_refreshed_secs in
         if elapsed < 0 \<or> now_secs = i64_max
         then io_fail (LockExpired
                ''clock anomaly detected; refusing to write with potentially stale lock'')
         else if LOCK_MAX_UNREFRESHED_SECS < elapsed
         then io_fail (LockExpired (''lock unrefreshed for '' @ show_int elapsed @ ''s (limit: ''
                @ show_int LOCK_MAX_UNREFRESHED_SECS @ ''s); machine may have been suspended''))
         else io_return ()))"

record fence_readings =
  fr_verify :: int
  fr_now :: int
  fr_utc :: int

definition build_lock_fence :: "lock_guard \<Rightarrow> int" where
  "build_lock_fence guard =
     (if lg_acquired_at guard < 0 then 0 else lg_acquired_at guard div 1000000000)"

text \<open>
  One call of the fence closure; its result carries the new value of \<open>last_refreshed\<close>, which
  an error leaves as it was.
\<close>

definition lock_fence ::
  "lock_lib \<Rightarrow> host_info \<Rightarrow> 's storage_backend \<Rightarrow> string \<Rightarrow> int \<Rightarrow> fence_readings \<Rightarrow>
   ('s, vykar_error, int) io" where
  "lock_fence lib h b lock_key last_refreshed fr =
     io_bind (verify_lock_validity b lock_key last_refreshed (fr_verify fr)) (\<lambda>_.
       let now_secs = now_secs_of (fr_now fr); elapsed = now_secs - last_refreshed in
       if LOCK_REFRESH_INTERVAL_SECS \<le> elapsed
       then (case lock_to_json lib
                \<lparr>le_hostname = hi_hostname h, le_pid = hi_pid h, le_time = to_rfc3339 lib (fr_utc fr)\<rparr> of
               Inl _ \<Rightarrow> io_return last_refreshed
             | Inr data \<Rightarrow>
                 io_bind (io_try (be_put b lock_key data)) (\<lambda>r.
                   io_return (case r of Inr _ \<Rightarrow> now_secs | Inl _ \<Rightarrow> last_refreshed)))
       else io_return last_refreshed)"

section \<open>Retry\<close>

text \<open>
  The sleep between two attempts.  \<open>rnd % (delay / 2)\<close> panics when the divisor is zero; the
  other operations wrap.
\<close>

definition retry_delay :: "u64 \<Rightarrow> nat \<Rightarrow> u64 \<Rightarrow> u64 result" where
  "retry_delay base_delay_ms attempt rnd =
     (let delay = base_delay_ms * push_bit (min attempt 5) 1 in
      if delay div 2 = 0 then Inl (Panicked ''attempt to calculate the remainder with a divisor of zero'')
      else (let jitter = rnd mod (delay div 2) - delay div 4 in
            Inr (max (delay + jitter) 100)))"

text \<open>
  \<open>acquire_lock_with_retry\<close>.  \<open>rds\<close> has the readings of each attempt and the random number of
  the back-off after it; \<open>max_attempts\<close> is the length of \<open>rds\<close>.
\<close>

fun acquire_lock_attempts ::
  "lock_lib \<Rightarrow> host_info \<Rightarrow> 's storage_backend \<Rightarrow> u64 \<Rightarrow> nat \<Rightarrow> (lock_readings \<times> u64) list \<Rightarrow>
   ('s, vykar_error, lock_guard) io" where
  "acquire_lock_attempts lib h b base_delay_ms attempt [] = io_fail (Panicked ''unreachable'')"
| "acquire_lock_attempts lib h b base_delay_ms attempt ((rd, rnd) # rds) =
     io_bind (io_try (acquire_lock lib h b rd)) (\<lambda>r.
       case r of
         Inr guard \<Rightarrow> io_return guard
       | Inl (Locked holder) \<Rightarrow>
           if rds \<noteq> []
           then (case retry_delay base_delay_ms attempt rnd of
                   Inl e \<Rightarrow> io_fail e
                 | Inr _ \<Rightarrow> acquire_lock_attempts lib h b base_delay_ms (attempt + 1) rds)
           else io_fail (Locked holder)
       | Inl e \<Rightarrow> io_fail e)"

definition acquire_lock_with_retry ::
  "lock_lib \<Rightarrow> host_info \<Rightarrow> 's storage_backend \<Rightarrow> (lock_readings \<times> u64) list \<Rightarrow> u64 \<Rightarrow>
   ('s, vykar_error, lock_guard) io" where
  "acquire_lock_with_retry lib h b rds base_delay_ms =
     acquire_lock_attempts lib h b base_delay_ms 0 rds"

section \<open>Session markers\<close>

definition SESSIONS_PREFIX :: string where "SESSIONS_PREFIX = ''sessions/''"

definition DEFAULT_STALE_SESSION_SECS :: int where "DEFAULT_STALE_SESSION_SECS = 72 * 60 * 60"

definition session_marker_key :: "string \<Rightarrow> string" where
  "session_marker_key sid = SESSIONS_PREFIX @ sid @ ''.json''"

definition session_index_key :: "string \<Rightarrow> string" where
  "session_index_key sid = SESSIONS_PREFIX @ sid @ ''.index''"

definition parse_session_id :: "string \<Rightarrow> string option" where
  "parse_session_id key =
     (case strip_prefix_str key SESSIONS_PREFIX of
        None \<Rightarrow> None | Some s \<Rightarrow> strip_suffix_str s ''.json'')"

definition parse_index_id :: "string \<Rightarrow> string option" where
  "parse_index_id key =
     (case strip_prefix_str key SESSIONS_PREFIX of
        None \<Rightarrow> None | Some s \<Rightarrow> strip_suffix_str s ''.index'')"

definition fresh_session_entry :: "lock_lib \<Rightarrow> host_info \<Rightarrow> int \<Rightarrow> session_entry" where
  "fresh_session_entry lib h now =
     \<lparr>se_hostname = hi_hostname h, se_pid = hi_pid h,
      se_registered_at = to_rfc3339 lib now, se_last_refresh = to_rfc3339 lib now\<rparr>"

definition register_session ::
  "lock_lib \<Rightarrow> host_info \<Rightarrow> 's storage_backend \<Rightarrow> string \<Rightarrow> int \<Rightarrow> (lock_readings \<times> u64) list \<Rightarrow>
   ('s, vykar_error, unit) io" where
  "register_session lib h b sid now rds =
     (let key = session_marker_key sid in
      case session_to_json lib (fresh_session_entry lib h now) of
        Inl e \<Rightarrow> io_fail (Other (''session serialize: '' @ e))
      | Inr data \<Rightarrow>
          io_bind (be_put b key data) (\<lambda>_.
            io_bind (io_try (acquire_lock_with_retry lib h b (take 3 rds) 2000)) (\<lambda>r.
              case r of
                Inr guard \<Rightarrow>
                  io_bind (io_try (release_lock b guard)) (\<lambda>q.
                    case q of
                      Inr _ \<Rightarrow> io_return ()
                    | Inl e \<Rightarrow> io_bind (io_try (be_delete b key)) (\<lambda>_. io_fail e))
              | Inl e \<Rightarrow> io_bind (io_try (be_delete b key)) (\<lambda>_. io_fail e))))"

fun deregister_attempts :: "'s storage_backend \<Rightarrow> string \<Rightarrow> nat \<Rightarrow> ('s, vykar_error, unit) io" where
  "deregister_attempts b key 0 = io_return ()"
| "deregister_attempts b key (Suc n) =
     io_bind (io_try (be_delete b key)) (\<lambda>r.
       case r of Inr _ \<Rightarrow> io_return () | Inl _ \<Rightarrow> deregister_attempts b key n)"

definition deregister_session :: "'s storage_backend \<Rightarrow> string \<Rightarrow> ('s, vykar_error, unit) io" where
  "deregister_session b sid = deregister_attempts b (session_marker_key sid) 3"

definition refresh_session ::
  "lock_lib \<Rightarrow> host_info \<Rightarrow> 's storage_backend \<Rightarrow> string \<Rightarrow> int \<Rightarrow> ('s, vykar_error, unit) io" where
  "refresh_session lib h b sid now =
     (let key = session_marker_key sid in
      io_bind (io_try (be_get b key)) (\<lambda>g.
        let entry =
          (case g of
             Inr (Some data) \<Rightarrow>
               (case session_from_json lib data of
                  Inr e \<Rightarrow> e
                | Inl _ \<Rightarrow> fresh_session_entry lib h now)
                 \<lparr>se_last_refresh := to_rfc3339 lib now\<rparr>
           | _ \<Rightarrow> fresh_session_entry lib h now)
        in case session_to_json lib entry of
             Inl _ \<Rightarrow> io_return ()
           | Inr data \<Rightarrow> io_bind (io_try (be_put b key data)) (\<lambda>_. io_return ())))"

definition list_sessions :: "'s storage_backend \<Rightarrow> ('s, vykar_error, string list) io" where
  "list_sessions b =
     io_bind (be_list b SESSIONS_PREFIX) (\<lambda>keys. io_return (List.map_filter parse_session_id keys))"

text \<open>What the first pass of \<open>cleanup_stale_sessions\<close> decides about the contents of a marker.\<close>

datatype marker_verdict = MarkerBroken | MarkerStale | MarkerLive

definition classify_marker ::
  "lock_lib \<Rightarrow> int \<Rightarrow> int \<Rightarrow> string \<Rightarrow> (u32 \<Rightarrow> bool) \<Rightarrow> bytes \<Rightarrow> marker_verdict" where
  "classify_marker lib now max_age local_hostname pid_alive data =
     (case session_from_json lib data of
        Inl _ \<Rightarrow> MarkerBroken
      | Inr entry \<Rightarrow>
          (case (case parse_from_rfc3339 lib (se_last_refresh entry) of
                   Inr t \<Rightarrow> Inr t
                 | Inl _ \<Rightarrow> parse_from_rfc3339 lib (se_registered_at entry)) of
             Inl _ \<Rightarrow> MarkerBroken
           | Inr ts \<Rightarrow>
               if max_age < now - ts then MarkerStale
               else if se_hostname entry = local_hostname \<and> \<not> pid_alive (se_pid entry)
               then MarkerStale
               else MarkerLive))"

record sweep_state =
  sw_cleaned :: "string list"
  sw_surviving :: "string list"
  sw_cleaned_ids :: "string list"

fun sweep_markers ::
  "'s storage_backend \<Rightarrow> (bytes \<Rightarrow> marker_verdict) \<Rightarrow> string list \<Rightarrow> sweep_state \<Rightarrow>
   ('s, vykar_error, sweep_state) io" where
  "sweep_markers b verdict [] sw = io_return sw"
| "sweep_markers b verdict (key # keys) sw =
     (case parse_session_id key of
        None \<Rightarrow> sweep_markers b verdict keys sw
      | Some sid \<Rightarrow>
          io_bind (be_get b key) (\<lambda>d.
            case d of
              None \<Rightarrow> sweep_markers b verdict keys sw
            | Some data \<Rightarrow>
                (case verdict data of
                   MarkerBroken \<Rightarrow>
                     io_bind (io_try (be_delete b key)) (\<lambda>_.
                       sweep_markers b verdict keys
                         (sw\<lparr>sw_cleaned_ids := sid # sw_cleaned_ids sw\<rparr>))
                 | MarkerStale \<Rightarrow>
                     io_bind (io_try (be_delete b key)) (\<lambda>_.
                       sweep_markers b verdict keys
                         (sw\<lparr>sw_cleaned_ids := sid # sw_cleaned_ids sw,
                             sw_cleaned := sw_cleaned sw @ [sid]\<rparr>))
                 | MarkerLive \<Rightarrow>
                     sweep_markers b verdict keys
                       (sw\<lparr>sw_surviving := sid # sw_surviving sw\<rparr>))))"

definition sweep_journals ::
  "'s storage_backend \<Rightarrow> string list \<Rightarrow> sweep_state \<Rightarrow> ('s, vykar_error, unit) io" where
  "sweep_journals b keys sw =
     io_for keys (\<lambda>key.
       case parse_index_id key of
         None \<Rightarrow> io_return ()
       | Some sid \<Rightarrow>
           if sid \<notin> set (sw_surviving sw) \<and> sid \<notin> set (sw_cleaned_ids sw)
           then io_bind (io_try (be_delete b key)) (\<lambda>_. io_return ())
           else io_return ())"

definition cleanup_stale_sessions ::
  "lock_lib \<Rightarrow> 's storage_backend \<Rightarrow> int \<Rightarrow> string \<Rightarrow> (u32 \<Rightarrow> bool) \<Rightarrow> int \<Rightarrow>
   ('s, vykar_error, string list) io" where
  "cleanup_stale_sessions lib b max_age local_hostname pid_alive now =
     io_bind (be_list b SESSIONS_PREFIX) (\<lambda>keys.
       io_bind (sweep_markers b (classify_marker lib now max_age local_hostname pid_alive) keys
                  \<lparr>sw_cleaned = [], sw_surviving = [], sw_cleaned_ids = []\<rparr>) (\<lambda>sw.
         io_bind (sweep_journals b keys sw) (\<lambda>_. io_return (sw_cleaned sw))))"

fun read_session_entries ::
  "lock_lib \<Rightarrow> 's storage_backend \<Rightarrow> string list \<Rightarrow>
   ('s, vykar_error, (string \<times> session_entry option) list) io" where
  "read_session_entries lib b [] = io_return []"
| "read_session_entries lib b (key # keys) =
     (case parse_session_id key of
        None \<Rightarrow> read_session_entries lib b keys
      | Some sid \<Rightarrow>
          io_bind (be_get b key) (\<lambda>d.
            let entry = (case d of
                           None \<Rightarrow> None
                         | Some data \<Rightarrow>
                             (case session_from_json lib data of Inl _ \<Rightarrow> None | Inr e \<Rightarrow> Some e))
            in io_bind (read_session_entries lib b keys) (\<lambda>es. io_return ((sid, entry) # es))))"

definition list_session_entries ::
  "lock_lib \<Rightarrow> 's storage_backend \<Rightarrow> ('s, vykar_error, (string \<times> session_entry option) list) io" where
  "list_session_entries lib b =
     io_bind (be_list b SESSIONS_PREFIX) (\<lambda>keys. read_session_entries lib b keys)"

definition clear_all_sessions :: "'s storage_backend \<Rightarrow> ('s, vykar_error, nat) io" where
  "clear_all_sessions b =
     io_bind (be_list b SESSIONS_PREFIX) (\<lambda>keys.
       delete_counting b (filter (\<lambda>k. starts_with k SESSIONS_PREFIX) keys) 0)"

definition default_stale_session_duration :: int where
  "default_stale_session_duration = duration_seconds DEFAULT_STALE_SESSION_SECS"

text \<open>
  The refresh thread of \<open>SessionGuard\<close>: each element is one return of \<open>wait_timeout\<close>, with the
  time at which it returns; \<open>elapsed\<close> is in seconds.  Dropping the guard stops the thread and
  deregisters the session.
\<close>

fun session_refresher ::
  "lock_lib \<Rightarrow> host_info \<Rightarrow> 's storage_backend \<Rightarrow> string \<Rightarrow> nat \<Rightarrow> (bool \<times> int) list \<Rightarrow>
   ('s, vykar_error, unit) io" where
  "session_refresher lib h b sid elapsed [] = io_return ()"
| "session_refresher lib h b sid elapsed ((stopped, now) # ws) =
     (if stopped then io_return ()
      else if 15 * 60 \<le> elapsed + 30
      then io_bind (refresh_session lib h b sid now) (\<lambda>_. session_refresher lib h b sid 0 ws)
      else session_refresher lib h b sid (elapsed + 30) ws)"

definition session_guard_drop :: "'s storage_backend \<Rightarrow> string \<Rightarrow> ('s, vykar_error, unit) io" where
  "session_guard_drop b sid = deregister_session b sid"

section \<open>Interleaved clients\<close>

text \<open>
  Where a client stands in \<open>acquire_lock\<close>, and the stages as atomic steps of a system of
  clients over one store.
\<close>

datatype lock_phase = Idle | Cleaned | Stamped string int | Written string | Holding lock_guard

datatype lock_action = Cleanup nat int | Stamp nat int "128 word" | Put nat | Decide nat int | Release nat

type_synonym 's lock_system = "'s \<times> (nat \<Rightarrow> lock_phase)"

inductive lock_step ::
  "lock_lib \<Rightarrow> (nat \<Rightarrow> host_info) \<Rightarrow> 's storage_backend \<Rightarrow>
   's lock_system \<Rightarrow> lock_action \<Rightarrow> 's lock_system \<Rightarrow> bool"
  for lib hs b where
  cleanup: "ph c = Idle \<Longrightarrow>
     cleanup_stale_locks lib b (duration_seconds DEFAULT_STALE_LOCK_SECS) now s = (r, s') \<Longrightarrow>
     lock_step lib hs b (s, ph) (Cleanup c now)
       (s', ph(c := case r of Inl _ \<Rightarrow> Idle | Inr _ \<Rightarrow> Cleaned))"
| stamp: "ph c = Cleaned \<Longrightarrow>
     lock_step lib hs b (s, ph) (Stamp c now uuid) (s, ph(c := Stamped (lock_key_of now uuid) now))"
| put: "ph c = Stamped k now \<Longrightarrow> write_lock lib (hs c) b k now s = (r, s') \<Longrightarrow>
     lock_step lib hs b (s, ph) (Put c) (s', ph(c := case r of Inl _ \<Rightarrow> Idle | Inr _ \<Rightarrow> Written k))"
| decide: "ph c = Written k \<Longrightarrow> decide_lock lib b k t s = (r, s') \<Longrightarrow>
     lock_step lib hs b (s, ph) (Decide c t) (s', ph(c := case r of Inl _ \<Rightarrow> Idle | Inr g \<Rightarrow> Holding g))"
| release: "ph c = Holding g \<Longrightarrow> release_lock b g s = (r, s') \<Longrightarrow>
     lock_step lib hs b (s, ph) (Release c) (s', ph(c := Idle))"

inductive_cases lock_stepE: "lock_step lib hs b (s, ph) a (s', ph')"

text \<open>The key a client has in the store.\<close>

fun live_key :: "lock_phase \<Rightarrow> string option" where
  "live_key (Written k) = Some k"
| "live_key (Holding g) = Some (lg_key g)"
| "live_key _ = None"

text \<open>
  What the exclusion argument asks of clocks and random numbers: a cleanup does not find the
  entry of a live client stale, and a client that writes its key uses a new one that sorts
  after the keys of the current holders.
\<close>

fun orderly :: "lock_lib \<Rightarrow> (string \<rightharpoonup> bytes) \<Rightarrow> (nat \<Rightarrow> lock_phase) \<Rightarrow> lock_action \<Rightarrow> bool" where
  "orderly lib m ph (Cleanup c now) \<longleftrightarrow>
     (\<forall>c' k d. live_key (ph c') = Some k \<and> m k = Some d \<longrightarrow>
        \<not> lock_is_stale lib now (duration_seconds DEFAULT_STALE_LOCK_SECS) d)"
| "orderly lib m ph (Put c) \<longleftrightarrow>
     (\<forall>c' k now k'. ph c = Stamped k now \<and> live_key (ph c') = Some k' \<longrightarrow>
        k' \<noteq> k \<and> (\<forall>g. ph c' = Holding g \<longrightarrow> k' < k))"
| "orderly lib m ph _ \<longleftrightarrow> True"

inductive lock_reach ::
  "lock_lib \<Rightarrow> (nat \<Rightarrow> host_info) \<Rightarrow> 's storage_backend \<Rightarrow> ('s \<Rightarrow> string \<rightharpoonup> bytes) \<Rightarrow> 's lock_system \<Rightarrow> bool"
  for lib hs b contents where
  start: "lock_reach lib hs b contents (s, \<lambda>_. Idle)"
| step: "lock_reach lib hs b contents (s, ph) \<Longrightarrow> lock_step lib hs b (s, ph) a (s', ph') \<Longrightarrow>
     orderly lib (contents s) ph a \<Longrightarrow> lock_reach lib hs b contents (s', ph')"

section \<open>Lemmas\<close>

definition is_lock_key :: "string \<Rightarrow> bool" where
  "is_lock_key k \<longleftrightarrow> starts_with k LOCKS_PREFIX \<and> ends_with k ''.json''"

definition is_session_key :: "string \<Rightarrow> bool" where
  "is_session_key k \<longleftrightarrow> starts_with k SESSIONS_PREFIX \<and> (ends_with k ''.json'' \<or> ends_with k ''.index'')"




text \<open>What the session cleanup may remove: a marker that is not live, and a journal without a marker.\<close>

definition sweepable :: "(bytes \<Rightarrow> bool) \<Rightarrow> (string \<rightharpoonup> bytes) \<Rightarrow> string \<Rightarrow> bool" where
  "sweepable live m k \<longleftrightarrow>
     (case parse_session_id k of
        Some sid \<Rightarrow> (case m k of None \<Rightarrow> False | Some d \<Rightarrow> \<not> live d)
      | None \<Rightarrow>
          (case parse_index_id k of
             Some sid \<Rightarrow> m k \<noteq> None \<and> m (session_marker_key sid) = None
           | None \<Rightarrow> False))"

lemma is_lock_key_lock_key_of [simp, intro]: "is_lock_key (lock_key_of now uuid)"
  unfolding is_lock_key_def lock_key_of_def ends_with_iff starts_with_iff by (metis append_assoc)

lemma marker_key_is_session_key [simp]: "is_session_key (session_marker_key sid)"
  unfolding is_session_key_def session_marker_key_def ends_with_iff starts_with_iff
  by (metis append_assoc)

lemma index_key_is_session_key [simp]: "is_session_key (session_index_key sid)"
  unfolding is_session_key_def session_index_key_def ends_with_iff starts_with_iff
  by (metis append_assoc)

lemma parse_session_id_iff: "parse_session_id key = Some sid \<longleftrightarrow> key = session_marker_key sid"
  by (auto simp: parse_session_id_def session_marker_key_def strip_prefix_Some_iff
      strip_suffix_Some_iff split: option.splits)

lemma parse_index_id_iff: "parse_index_id key = Some sid \<longleftrightarrow> key = session_index_key sid"
  by (auto simp: parse_index_id_def session_index_key_def strip_prefix_Some_iff
      strip_suffix_Some_iff split: option.splits)

lemma parse_session_id_None: "parse_session_id key = None \<longleftrightarrow> (\<forall>sid. key \<noteq> session_marker_key sid)"
  by (metis not_None_eq parse_session_id_iff)

lemma parse_index_id_None: "parse_index_id key = None \<longleftrightarrow> (\<forall>sid. key \<noteq> session_index_key sid)"
  by (metis not_None_eq parse_index_id_iff)

lemma marker_key_inject [simp]: "session_marker_key a = session_marker_key c \<longleftrightarrow> a = c"
  by (simp add: session_marker_key_def)

lemma index_key_inject [simp]: "session_index_key a = session_index_key c \<longleftrightarrow> a = c"
  by (simp add: session_index_key_def)

lemma marker_neq_index [simp]: "session_marker_key a \<noteq> session_index_key c"
proof
  assume "session_marker_key a = session_index_key c"
  then have "last (session_marker_key a) = last (session_index_key c)" by simp
  then show False by (simp add: session_marker_key_def session_index_key_def)
qed


lemma sweepable_iff:
  "sweepable live m k \<longleftrightarrow> (\<exists>sid d. k = session_marker_key sid \<and> m k = Some d \<and> \<not> live d)
     \<or> (\<exists>sid. k = session_index_key sid \<and> m k \<noteq> None \<and> m (session_marker_key sid) = None)"
  by (auto simp: sweepable_def parse_session_id_iff parse_index_id_iff parse_session_id_None parse_index_id_None
      split: option.splits)

locale client_storage = storage_contract b contents valid_key
  for b :: "'s storage_backend" and contents valid_key +
  assumes lock_key_valid: "is_lock_key k \<Longrightarrow> valid_key k"
    and session_key_valid: "is_session_key k \<Longrightarrow> valid_key k"
begin

lemma delete_contents:
  assumes "valid_key k" and "be_delete b k s = (r, s')"
  shows "contents s' = contents s \<or> contents s' = (contents s)(k := None)"
  using assms delete_ok [OF assms(1)] delete_err [OF assms(1)] by (cases r) blast+

lemma list_lock_keys_set:
  assumes "list_lock_keys b s = (Inr ks, s')"
  shows "contents s' = contents s" and "set ks = {k. is_lock_key k \<and> contents s k \<noteq> None}"
proof -
  obtain ks0 where l: "be_list b LOCKS_PREFIX s = (Inr ks0, s')"
    and ks: "ks = filter (\<lambda>k. starts_with k LOCKS_PREFIX \<and> ends_with k ''.json'') ks0"
    using assms by (auto simp: list_lock_keys_def io_bind_Inr_iff io_return_def)
  show "contents s' = contents s" by (rule list_frame [OF l])
  have "dir_prefix LOCKS_PREFIX = LOCKS_PREFIX"
    by (simp add: dir_prefix_def LOCKS_PREFIX_def ends_with_def)
  then show "set ks = {k. is_lock_key k \<and> contents s k \<noteq> None}"
    using list_sound [OF l] list_complete [OF l] lock_key_valid by (auto simp: ks is_lock_key_def)
qed

lemma list_lock_keys_err:
  "list_lock_keys b s = (Inl e, s') \<Longrightarrow> contents s' = contents s"
  by (auto simp: list_lock_keys_def io_bind_Inl_iff io_return_def dest: list_frame)

lemma cleanup_contents:
  assumes "cleanup_stale_locks lib b age now s = (r, s')"
  shows "contents s' k = contents s k
    \<or> (is_lock_key k \<and> contents s' k = None
        \<and> (\<exists>d. contents s k = Some d \<and> lock_is_stale lib now age d))"
proof -
  define R where "R s t \<longleftrightarrow> (\<forall>k. contents t k = contents s k
    \<or> (is_lock_key k \<and> contents t k = None
        \<and> (\<exists>d. contents s k = Some d \<and> lock_is_stale lib now age d)))" for s t
  have trans: "R s u" if "R s t" "R t u" for s t u
    using that unfolding R_def by (metis option.distinct(1))
  from assms have "R s s'" unfolding cleanup_stale_locks_def
  proof (cases rule: io_bind_cases)
    case (fail e)
    then show ?thesis by (simp add: list_lock_keys_err R_def)
  next
    case (ok ks s1)
    have "R s1 s'"
    proof (rule io_for_rel [OF _ trans _ ok(2)])
      show "R t t" for t by (simp add: R_def)
    next
      fix x t q t'
      assume x: "x \<in> set ks"
      have key: "is_lock_key x" using x list_lock_keys_set(2) [OF ok(1)] by auto
      note valid = lock_key_valid [OF key]
      assume "io_bind (be_get b x) (\<lambda>d. case d of None \<Rightarrow> io_return ()
          | Some data \<Rightarrow> if lock_is_stale lib now age data
              then io_bind (io_try (be_delete b x)) (\<lambda>_. io_return ()) else io_return ()) t = (q, t')"
      then show "R t t'"
      proof (cases rule: io_bind_cases)
        case (fail e)
        then show ?thesis by (simp add: get_frame R_def)
      next
        case (ok d t1)
        have d: "d = contents t x" by (rule get_ok [OF valid ok(1)])
        have t1: "contents t1 = contents t" by (rule get_frame [OF ok(1)])
        show ?thesis
        proof (cases "\<exists>data. d = Some data \<and> lock_is_stale lib now age data")
          case False
          then have "t' = t1" using ok(2) by (auto simp: io_return_def split: option.splits)
          then show ?thesis by (simp add: t1 R_def)
        next
          case True
          then obtain r' where "be_delete b x t1 = (r', t')"
            using ok(2) by (auto simp: io_discard_iff io_return_def)
          from delete_contents [OF valid this] show ?thesis
            using True d t1 key by (auto simp: R_def split: if_splits)
        qed
      qed
    qed
    then show ?thesis using list_lock_keys_set(1) [OF ok(1)] by (simp add: R_def)
  qed
  then show ?thesis by (simp add: R_def)
qed

lemma write_lock_contents:
  assumes "is_lock_key k" and "write_lock lib h b k now s = (r, s')"
  shows "k' \<noteq> k \<Longrightarrow> contents s' k' = contents s k'"
    and "r = Inr () \<Longrightarrow> contents s' k \<noteq> None"
proof -
  note valid = lock_key_valid [OF assms(1)]
  show "contents s' k' = contents s k'" if "k' \<noteq> k"
    using assms(2) put_other [OF valid _ that]
    by (auto simp: write_lock_def io_fail_def split: sum.splits)
  show "contents s' k \<noteq> None" if "r = Inr ()"
    using assms(2) put_ok [OF valid] that
    by (auto simp: write_lock_def io_fail_def split: sum.splits)
qed

lemma format_lock_holder_frame:
  "format_lock_holder lib b k s = (r, s') \<Longrightarrow> contents s' = contents s \<and> (\<exists>holder. r = Inr holder)"
  by (auto simp: format_lock_holder_def io_bind_def io_try_def io_return_def
      split: prod.splits sum.splits dest: get_frame)

text \<open>The outcome of \<open>decide_lock\<close> in terms of the store it sees.\<close>

lemma decide_lock_Inr:
  assumes "decide_lock lib b k t s = (Inr g, s')"
  shows "contents s' = contents s" and "g = \<lparr>lg_key = k, lg_acquired_at = t\<rparr>"
    and "is_lock_key k" and "contents s k \<noteq> None"
    and "\<And>k'. is_lock_key k' \<Longrightarrow> contents s k' \<noteq> None \<Longrightarrow> k \<le> k'"
proof -
  obtain ks s1 where l: "list_lock_keys b s = (Inr ks, s1)" and mem: "k \<in> set ks"
    and hd: "hd (sort ks) = k" and s1: "s' = s1" and g: "g = \<lparr>lg_key = k, lg_acquired_at = t\<rparr>"
    using assms by (auto simp: decide_lock_def io_bind_Inr_iff Let_def io_return_def io_fail_def
        split: if_splits)
  note ks = list_lock_keys_set [OF l]
  show "contents s' = contents s" and "g = \<lparr>lg_key = k, lg_acquired_at = t\<rparr>"
    using ks(1) s1 g by simp_all
  show "is_lock_key k" and "contents s k \<noteq> None" using ks(2) mem by auto
  show "k \<le> k'" if "is_lock_key k'" and "contents s k' \<noteq> None" for k'
  proof -
    have "k' \<in> set (sort ks)" using that ks(2) by auto
    moreover have "sorted (sort ks)" by simp
    ultimately show ?thesis using hd by (cases "sort ks") auto
  qed
qed

lemma decide_lock_contents:
  assumes "is_lock_key k" and "decide_lock lib b k t s = (r, s')"
  shows "contents s' = contents s \<or> contents s' = (contents s)(k := None)"
proof -
  note valid = lock_key_valid [OF assms(1)]
  from assms(2) show ?thesis unfolding decide_lock_def
  proof (cases rule: io_bind_cases)
    case (fail e)
    then show ?thesis by (simp add: list_lock_keys_err)
  next
    case (ok ks s1)
    have s1: "contents s1 = contents s" by (rule list_lock_keys_set(1) [OF ok(1)])
    show ?thesis
    proof (cases "hd (sort ks) = k \<and> k \<in> set ks")
      case True
      then have "s' = s1" using ok(2) by (auto simp: Let_def io_return_def)
      then show ?thesis by (simp add: s1)
    next
      case False
      obtain q s2 where d: "be_delete b k s1 = (q, s2)" by fastforce
      have "contents s' = contents s2"
        using ok(2) False d
        by (auto simp: Let_def io_discard_iff io_fail_def split: if_splits elim!: io_bind_cases
            dest: format_lock_holder_frame)
      then show ?thesis using delete_contents [OF valid d] by (simp add: s1)
    qed
  qed
qed

text \<open>
  The invariant of the interleaved clients: live keys are lock keys present in the store, no
  two clients share one, and a holder sorts before every other client that has written.
\<close>

definition exclusion_inv :: "'s lock_system \<Rightarrow> bool" where
  "exclusion_inv st \<longleftrightarrow> (case st of (s, ph) \<Rightarrow>
     (\<forall>c k now. ph c = Stamped k now \<longrightarrow> is_lock_key k) \<and>
     (\<forall>c k. live_key (ph c) = Some k \<longrightarrow> is_lock_key k \<and> contents s k \<noteq> None) \<and>
     (\<forall>c c' k. live_key (ph c) = Some k \<and> live_key (ph c') = Some k \<longrightarrow> c = c') \<and>
     (\<forall>c c' g k. ph c = Holding g \<and> live_key (ph c') = Some k \<longrightarrow> lg_key g \<le> k))"

lemma exclusion_invI:
  assumes "\<And>c k now. ph c = Stamped k now \<Longrightarrow> is_lock_key k"
    and "\<And>c k. live_key (ph c) = Some k \<Longrightarrow> is_lock_key k"
    and "\<And>c k. live_key (ph c) = Some k \<Longrightarrow> contents s k \<noteq> None"
    and "\<And>c c' k. live_key (ph c) = Some k \<Longrightarrow> live_key (ph c') = Some k \<Longrightarrow> c = c'"
    and "\<And>c c' g k. ph c = Holding g \<Longrightarrow> live_key (ph c') = Some k \<Longrightarrow> lg_key g \<le> k"
  shows "exclusion_inv (s, ph)"
  using assms unfolding exclusion_inv_def by auto

lemma exclusion_invD:
  assumes "exclusion_inv (s, ph)"
  shows "ph c = Stamped k now \<Longrightarrow> is_lock_key k"
    and "live_key (ph c) = Some k \<Longrightarrow> is_lock_key k"
    and "live_key (ph c) = Some k \<Longrightarrow> contents s k \<noteq> None"
    and "live_key (ph c) = Some k \<Longrightarrow> live_key (ph c') = Some k \<Longrightarrow> c = c'"
    and "ph c = Holding g \<Longrightarrow> live_key (ph c') = Some k \<Longrightarrow> lg_key g \<le> k"
  using assms unfolding exclusion_inv_def by auto

text \<open>A client that gives up its key, while the others keep theirs in the store.\<close>

lemma exclusion_inv_drop:
  assumes inv: "exclusion_inv (s, ph)" and idle: "live_key p = None"
    and stamped: "\<And>k now. p = Stamped k now \<Longrightarrow> is_lock_key k"
    and keep: "\<And>c' k. c' \<noteq> c \<Longrightarrow> live_key (ph c') = Some k \<Longrightarrow> contents s' k = contents s k"
  shows "exclusion_inv (s', ph(c := p))"
proof (rule exclusion_invI)
  note D = exclusion_invD [OF inv]
  show "is_lock_key k" if "(ph(c := p)) c1 = Stamped k now" for c1 k now
    using that stamped D(1) [of c1 k now] by (simp split: if_splits)
  have live: "c1 \<noteq> c \<and> live_key (ph c1) = Some k" if "live_key ((ph(c := p)) c1) = Some k" for c1 k
    using that idle by (simp split: if_splits)
  show "is_lock_key k" if "live_key ((ph(c := p)) c1) = Some k" for c1 k
    using live [OF that] D(2) by blast
  show "contents s' k \<noteq> None" if "live_key ((ph(c := p)) c1) = Some k" for c1 k
    using live [OF that] D(3) keep by metis
  show "c1 = c2" if "live_key ((ph(c := p)) c1) = Some k" "live_key ((ph(c := p)) c2) = Some k" for c1 c2 k
    using live [OF that(1)] live [OF that(2)] D(4) by blast
  show "lg_key g \<le> k" if "(ph(c := p)) c1 = Holding g" "live_key ((ph(c := p)) c2) = Some k" for c1 c2 g k
  proof -
    have "ph c1 = Holding g" using that(1) idle by (auto split: if_splits)
    then show ?thesis using live [OF that(2)] D(5) by blast
  qed
qed

lemma exclusion_inv_step:
  assumes inv: "exclusion_inv (s, ph)" and step: "lock_step lib hs b (s, ph) a (s', ph')"
    and ord: "orderly lib (contents s) ph a"
  shows "exclusion_inv (s', ph')"
  using step
proof (cases rule: lock_stepE [consumes 1, case_names cleanup stamp put decide release])
  case (cleanup c now r)
  show ?thesis unfolding cleanup(2)
  proof (rule exclusion_inv_drop [OF inv])
    show "live_key (case r of Inl _ \<Rightarrow> Idle | Inr _ \<Rightarrow> Cleaned) = None" by (cases r) auto
    show "is_lock_key k" if "(case r of Inl _ \<Rightarrow> Idle | Inr _ \<Rightarrow> Cleaned) = Stamped k t" for k t
      using that by (cases r) auto
    show "contents s' k = contents s k" if "live_key (ph c') = Some k" for c' k
      using cleanup_contents [OF cleanup(4), of k] ord that unfolding cleanup(1) by auto
  qed
next
  case (stamp c now uuid)
  show ?thesis unfolding stamp(3,4)
    by (rule exclusion_inv_drop [OF inv]) auto
next
  case (put c k now r)
  note key = exclusion_invD(1) [OF inv put(3)]
  have new: "k' \<noteq> k" if "live_key (ph c') = Some k'" for c' k'
    using ord that put(3) unfolding put(1) by auto
  have keep: "contents s' k' = contents s k'" if "live_key (ph c') = Some k'" for c' k'
    by (rule write_lock_contents(1) [OF key put(4) new [OF that]])
  show ?thesis
  proof (cases r)
    case (Inl e)
    show ?thesis unfolding put(2) by (rule exclusion_inv_drop [OF inv]) (auto simp: Inl keep)
  next
    case (Inr u)
    have "contents s' k \<noteq> None" using write_lock_contents(2) [OF key put(4)] Inr by simp
    moreover have "lg_key g \<le> k" if "ph c' = Holding g" for c' g
    proof -
      have "live_key (ph c') = Some (lg_key g)" using that by simp
      then have "lg_key g < k" using ord that put(3) unfolding put(1) orderly.simps by blast
      then show ?thesis by simp
    qed
    moreover have "live_key (ph c') \<noteq> Some k" for c' using new by blast
    ultimately show ?thesis
      unfolding put(2) using exclusion_invD [OF inv] keep key Inr
      by (intro exclusion_invI) (auto split: if_splits)
  qed
next
  case (decide c k t r)
  have live: "live_key (ph c) = Some k" using decide(3) by simp
  note key = exclusion_invD(2) [OF inv live]
  show ?thesis
  proof (cases r)
    case (Inl e)
    have "contents s' k' = contents s k'" if "c' \<noteq> c" "live_key (ph c') = Some k'" for c' k'
      using decide_lock_contents [OF key decide(4)] that exclusion_invD(4) [OF inv live] by auto
    then show ?thesis unfolding decide(2) by (intro exclusion_inv_drop [OF inv]) (auto simp: Inl)
  next
    case (Inr g)
    note d = decide_lock_Inr [OF decide(4) [unfolded Inr]]
    have "k \<le> k'" if "live_key (ph c') = Some k'" for c' k'
      using d(5) exclusion_invD(2,3) [OF inv that] by blast
    then show ?thesis
      unfolding decide(2) Inr using exclusion_invD [OF inv] live d(1,2)
      by (intro exclusion_invI) (auto split: if_splits)
  qed
next
  case (release c g r)
  have live: "live_key (ph c) = Some (lg_key g)" using release(3) by simp
  note valid = lock_key_valid [OF exclusion_invD(2) [OF inv live]]
  have "contents s' k' = contents s k'" if "c' \<noteq> c" "live_key (ph c') = Some k'" for c' k'
    using delete_contents [OF valid] release(4) that exclusion_invD(4) [OF inv live]
    by (fastforce simp: release_lock_def)
  then show ?thesis unfolding release(2) by (intro exclusion_inv_drop [OF inv]) auto
qed

lemma reach_exclusion_inv: "lock_reach lib hs b contents st \<Longrightarrow> exclusion_inv st"
proof (induction rule: lock_reach.induct)
  case (start s)
  show ?case by (rule exclusion_invI) auto
next
  case (step s ph a s' ph')
  then show ?case by (blast intro: exclusion_inv_step)
qed

lemma holder_unique:
  assumes "lock_reach lib hs b contents (s, ph)" and "ph c = Holding g" and "ph c' = Holding g'"
  shows "c = c'"
proof -
  note D = exclusion_invD [OF reach_exclusion_inv [OF assms(1)]]
  have "lg_key g \<le> lg_key g'" and "lg_key g' \<le> lg_key g"
    using D(5) [OF assms(2), of c'] D(5) [OF assms(3), of c] assms(2,3) by simp_all
  then show ?thesis using D(4) [of c "lg_key g" c'] assms(2,3) by simp
qed

text \<open>A lock that is older and not stale blocks every attempt and is left alone.\<close>

lemma acquire_blocked:
  assumes "acquire_lock lib h b rd s = (r, s')"
    and "is_lock_key k" and "contents s k = Some d" and "k < lock_key_of (lr_now rd) (lr_uuid rd)"
    and "\<not> lock_is_stale lib (lr_cleanup_now rd) (duration_seconds DEFAULT_STALE_LOCK_SECS) d"
  shows "(\<exists>e. r = Inl e) \<and> contents s' k = Some d"
proof -
  let ?key = "lock_key_of (lr_now rd) (lr_uuid rd)"
  have neq: "k \<noteq> ?key" using assms(4) by auto
  from assms(1) show ?thesis unfolding acquire_lock_def
  proof (cases rule: io_bind_cases)
    case (fail e)
    then show ?thesis using cleanup_contents [OF fail(1), of k] assms(3,5) by auto
  next
    case (ok u s1)
    have s1: "contents s1 k = Some d" using cleanup_contents [OF ok(1), of k] assms(3,5) by auto
    from ok(2) show ?thesis unfolding Let_def
    proof (cases rule: io_bind_cases)
      case (fail e)
      then show ?thesis
        using write_lock_contents(1) [OF is_lock_key_lock_key_of fail(1) neq] s1 by simp
    next
      case (ok u' s2)
      have s2: "contents s2 k = Some d"
        using write_lock_contents(1) [OF is_lock_key_lock_key_of ok(1) neq] s1 by simp
      have "\<exists>e. r = Inl e"
      proof (cases r)
        case (Inr g)
        from decide_lock_Inr(5) [OF ok(2) [unfolded Inr] assms(2)] s2 assms(4) show ?thesis by auto
      qed auto
      then show ?thesis
        using decide_lock_contents [OF is_lock_key_lock_key_of ok(2)] s2 neq by auto
    qed
  qed
qed

lemma attempts_blocked:
  assumes "acquire_lock_attempts lib h b base n rds s = (r, s')"
    and "is_lock_key k" and "contents s k = Some d"
    and "\<And>rd rnd. (rd, rnd) \<in> set rds \<Longrightarrow> k < lock_key_of (lr_now rd) (lr_uuid rd)
      \<and> \<not> lock_is_stale lib (lr_cleanup_now rd) (duration_seconds DEFAULT_STALE_LOCK_SECS) d"
  shows "(\<exists>e. r = Inl e) \<and> contents s' k = Some d"
  using assms(1,3,4)
proof (induction rds arbitrary: n s)
  case Nil
  then show ?case by (auto simp: io_fail_def)
next
  case (Cons p rds)
  obtain rd rnd where p: "p = (rd, rnd)" by (cases p)
  obtain q s1 where a: "acquire_lock lib h b rd s = (q, s1)" by fastforce
  note blocked = acquire_blocked [OF a assms(2) Cons.prems(2)]
  have q: "(\<exists>e. q = Inl e) \<and> contents s1 k = Some d" using blocked Cons.prems(3) [of rd rnd] p by simp
  then obtain e where e: "q = Inl e" by blast
  show ?case
  proof (cases "(\<exists>holder. e = Locked holder) \<and> rds \<noteq> [] \<and> (\<exists>dl. retry_delay base n rnd = Inr dl)")
    case True
    then have "acquire_lock_attempts lib h b base (n + 1) rds s1 = (r, s')"
      using Cons.prems(1) a e p by (auto simp: io_bind_def io_try_def)
    then show ?thesis by (rule Cons.IH) (use q Cons.prems(3) in auto)
  next
    case False
    then have "(\<exists>e. r = Inl e) \<and> s' = s1"
      using Cons.prems(1) a e p
      by (cases e; cases "retry_delay base n rnd") (auto simp: io_bind_def io_try_def io_fail_def split: if_splits)
    then show ?thesis using q by simp
  qed
qed

lemma register_blocked:
  assumes "register_session lib h b sid now rds s = (r, s')"
    and "is_lock_key k" and "contents s k = Some d"
    and "\<And>rd rnd. (rd, rnd) \<in> set rds \<Longrightarrow> k < lock_key_of (lr_now rd) (lr_uuid rd)
      \<and> \<not> lock_is_stale lib (lr_cleanup_now rd) (duration_seconds DEFAULT_STALE_LOCK_SECS) d"
  shows "(\<exists>e. r = Inl e) \<and> contents s' k = Some d"
proof -
  let ?key = "session_marker_key sid"
  have neq: "k \<noteq> ?key"
    using assms(2) by (auto simp: is_lock_key_def session_marker_key_def SESSIONS_PREFIX_def
        LOCKS_PREFIX_def starts_with_iff)
  note valid = session_key_valid [OF marker_key_is_session_key [of sid]]
  show ?thesis
  proof (cases "session_to_json lib (fresh_session_entry lib h now)")
    case (Inl e)
    then show ?thesis using assms(1,3) by (auto simp: register_session_def io_fail_def)
  next
    case (Inr data)
    obtain q s1 where put: "be_put b ?key data s = (q, s1)" by fastforce
    have s1: "contents s1 k = Some d" using put_other [OF valid put neq] assms(3) by simp
    obtain a s2 where acq: "acquire_lock_with_retry lib h b (take 3 rds) 2000 s1 = (a, s2)"
      by fastforce
    have a: "(\<exists>e. a = Inl e) \<and> contents s2 k = Some d"
      using attempts_blocked [OF acq [unfolded acquire_lock_with_retry_def] assms(2) s1]
        assms(4) in_set_takeD by metis
    obtain d' s3 where del: "be_delete b ?key s2 = (d', s3)" by fastforce
    have "contents s3 k = Some d" using delete_contents [OF valid del] neq a by auto
    then show ?thesis
      using assms(1) Inr put acq a del s1
      by (cases q) (auto simp: register_session_def Let_def io_bind_def io_try_def io_fail_def)
  qed
qed

lemma delete_counting_contents:
  assumes "delete_counting b ks n s = (Inr m, s')" and "\<And>k. k \<in> set ks \<Longrightarrow> valid_key k"
  shows "m = n + length ks \<and> contents s' = (\<lambda>k. if k \<in> set ks then None else contents s k)"
  using assms
proof (induction ks arbitrary: n s)
  case Nil
  then show ?case by (auto simp: io_return_def)
next
  case (Cons k ks)
  then obtain u s1 where d: "be_delete b k s = (Inr u, s1)"
    and rest: "delete_counting b ks (n + 1) s1 = (Inr m, s')"
    by (auto simp: io_bind_Inr_iff)
  have "contents s1 = (contents s)(k := None)" using delete_ok [OF _ d] Cons.prems(2) by simp
  then show ?case using Cons.IH [OF rest] Cons.prems(2) by auto
qed

lemma break_lock_contents:
  assumes "break_lock b s = (Inr n, s')"
  shows "contents s' = (\<lambda>k. if is_lock_key k then None else contents s k)"
proof -
  obtain ks s1 where l: "list_lock_keys b s = (Inr ks, s1)"
    and d: "delete_counting b ks 0 s1 = (Inr n, s')"
    using assms by (auto simp: break_lock_def io_bind_Inr_iff)
  note ks = list_lock_keys_set [OF l]
  have "valid_key k" if "k \<in> set ks" for k using that ks(2) lock_key_valid by auto
  from delete_counting_contents [OF d this] show ?thesis using ks by auto
qed

text \<open>The first pass of the session cleanup.\<close>

lemma sweep_markers_cases:
  assumes "sweep_markers b v (key # keys) sw s = (r, s')"
  obtains (skip) s1 where "contents s1 = contents s" and "sweep_markers b v keys sw s1 = (r, s')"
      and "\<And>sid. key = session_marker_key sid \<Longrightarrow> contents s key = None"
  | (fail) e where "r = Inl e" and "contents s' = contents s"
  | (live) sid d s1 where "key = session_marker_key sid" and "contents s key = Some d" and "v d = MarkerLive"
      and "contents s1 = contents s"
      and "sweep_markers b v keys (sw\<lparr>sw_surviving := sid # sw_surviving sw\<rparr>) s1 = (r, s')"
  | (gone) sid d q s1 s2 where "key = session_marker_key sid" and "contents s key = Some d" and "v d \<noteq> MarkerLive"
      and "contents s1 = contents s" and "be_delete b key s1 = (q, s2)"
      and "sweep_markers b v keys (sw\<lparr>sw_cleaned_ids := sid # sw_cleaned_ids sw,
             sw_cleaned := sw_cleaned sw @ (if v d = MarkerStale then [sid] else [])\<rparr>) s2 = (r, s')"
proof (cases "parse_session_id key")
  case None
  then show ?thesis using assms skip parse_session_id_iff [of key] by fastforce
next
  case (Some sid)
  note key = Some [unfolded parse_session_id_iff]
  have valid: "valid_key key" using session_key_valid key by simp
  from assms Some have "io_bind (be_get b key) (\<lambda>d. case d of None \<Rightarrow> sweep_markers b v keys sw | Some data \<Rightarrow>
      (case v data of
         MarkerBroken \<Rightarrow> io_bind (io_try (be_delete b key)) (\<lambda>_. sweep_markers b v keys
           (sw\<lparr>sw_cleaned_ids := sid # sw_cleaned_ids sw\<rparr>))
       | MarkerStale \<Rightarrow> io_bind (io_try (be_delete b key)) (\<lambda>_. sweep_markers b v keys
           (sw\<lparr>sw_cleaned_ids := sid # sw_cleaned_ids sw, sw_cleaned := sw_cleaned sw @ [sid]\<rparr>))
       | MarkerLive \<Rightarrow> sweep_markers b v keys (sw\<lparr>sw_surviving := sid # sw_surviving sw\<rparr>))) s = (r, s')" by simp
  then show ?thesis
  proof (cases rule: io_bind_cases)
    case (fail e)
    then show ?thesis using get_frame that(2) by blast
  next
    case (ok m s1)
    note frame = get_frame [OF ok(1)] and m = get_ok [OF valid ok(1)]
    show ?thesis
    proof (cases m)
      case None
      then show ?thesis using skip [OF frame] ok(2) m by auto
    next
      case (Some d)
      note kd = key m [unfolded Some, symmetric]
      show ?thesis
      proof (cases "v d")
        case MarkerLive
        then show ?thesis using live [OF kd _ frame] ok(2) Some by simp
      next
        case MarkerBroken
        then show ?thesis using gone [OF kd _ frame] ok(2) Some by (cases sw) (auto simp: io_discard_iff)
      next
        case MarkerStale
        then show ?thesis using gone [OF kd _ frame] ok(2) Some by (cases sw) (auto simp: io_discard_iff)
      qed
    qed
  qed
qed

lemma sweep_markers_contents:
  assumes "sweep_markers b v keys sw s = (r, s')"
  shows "contents s' k = contents s k
    \<or> (\<exists>sid d. k = session_marker_key sid \<and> contents s k = Some d \<and> v d \<noteq> MarkerLive \<and> contents s' k = None)"
  using assms
proof (induction keys arbitrary: sw s)
  case Nil
  then show ?case by (simp add: io_return_def)
next
  case (Cons key keys)
  from Cons.prems show ?case
  proof (cases rule: sweep_markers_cases)
    case (gone sid d q s1 s2)
    have "valid_key key" using session_key_valid gone(1) by simp
    from delete_contents [OF this gone(5)] Cons.IH [OF gone(6)] show ?thesis
      using gone(1-4) by (auto split: if_splits)
  next
    case (skip s1)
    then show ?thesis using Cons.IH [OF skip(2)] by simp
  next
    case (live i d s1)
    then show ?thesis using Cons.IH [OF live(5)] by simp
  qed simp
qed

lemma sweep_markers_tracks:
  assumes "sweep_markers b v keys sw s = (Inr sw', s')"
  shows "set (sw_surviving sw) \<subseteq> set (sw_surviving sw')" and "set (sw_cleaned_ids sw) \<subseteq> set (sw_cleaned_ids sw')"
    and "session_marker_key sid \<in> set keys \<Longrightarrow> contents s (session_marker_key sid) \<noteq> None \<Longrightarrow>
      sid \<in> set (sw_surviving sw') \<union> set (sw_cleaned_ids sw')"
    and "set (sw_surviving sw') \<union> set (sw_cleaned_ids sw') \<subseteq> set (sw_surviving sw) \<union> set (sw_cleaned_ids sw)
      \<union> {sid. contents s (session_marker_key sid) \<noteq> None}"
  using assms
proof (atomize (full), induction keys arbitrary: sw s)
  case Nil
  then show ?case by (simp add: io_return_def)
next
  case (Cons key keys)
  from Cons.prems show ?case
  proof (cases rule: sweep_markers_cases)
    case (skip s1)
    then show ?thesis using Cons.IH [OF skip(2)] by auto
  next
    case (live i d s1)
    then show ?thesis using Cons.IH [OF live(5)] by auto
  next
    case (gone i d q s1 s2)
    have "valid_key key" using session_key_valid gone(1) by simp
    from delete_contents [OF this gone(5)] Cons.IH [OF gone(6)] show ?thesis
      using gone(1,2,4) by (auto split: if_splits)
  qed simp
qed

lemma sweep_markers_cleaned:
  assumes "sweep_markers b v keys sw s = (Inr sw', s')"
  shows "sid \<in> set (sw_cleaned sw') \<longleftrightarrow> sid \<in> set (sw_cleaned sw) \<or> session_marker_key sid \<in> set keys
    \<and> (\<exists>d. contents s (session_marker_key sid) = Some d \<and> v d = MarkerStale)"
  using assms
proof (induction keys arbitrary: sw s)
  case Nil
  then show ?case by (simp add: io_return_def)
next
  case (Cons key keys)
  from Cons.prems show ?case
  proof (cases rule: sweep_markers_cases)
    case (skip s1)
    then show ?thesis using Cons.IH [OF skip(2)] by (cases "key = session_marker_key sid") auto
  next
    case (live i d s1)
    then show ?thesis using Cons.IH [OF live(5)] by (cases "sid = i") auto
  next
    case (gone i d q s1 s2)
    have valid: "valid_key key" using session_key_valid gone(1) by simp
    have c: "contents s2 = contents s \<or> contents s2 = (contents s)(key := None)"
      using delete_contents [OF valid gone(5)] gone(4) by simp
    show ?thesis
    proof (cases "sid = i")
      case True
      then show ?thesis using c Cons.IH [OF gone(6)] gone(1,2) by (cases "v d = MarkerStale") auto
    next
      case False
      then have "contents s2 (session_marker_key sid) = contents s (session_marker_key sid)"
        using c gone(1) by auto
      then show ?thesis using Cons.IH [OF gone(6)] gone(1) False by simp
    qed
  qed simp
qed

lemma sweep_markers_removes:
  assumes "sweep_markers b v keys sw s = (Inr sw', s')" and "\<And>k t e t'. be_delete b k t \<noteq> (Inl e, t')"
    and "session_marker_key sid \<in> set keys" and "contents s (session_marker_key sid) = Some d" and "v d \<noteq> MarkerLive"
  shows "contents s' (session_marker_key sid) = None"
  using assms(1,3,4)
proof (induction keys arbitrary: sw s)
  case (Cons key keys)
  from Cons.prems(1) show ?case
  proof (cases rule: sweep_markers_cases)
    case (skip s1)
    then have "key \<noteq> session_marker_key sid" using Cons.prems(3) by auto
    then show ?thesis using Cons.IH [OF skip(2)] Cons.prems(2,3) skip(1) by auto
  next
    case (live i d' s1)
    then have "key \<noteq> session_marker_key sid" using Cons.prems(3) assms(5) by auto
    then show ?thesis using Cons.IH [OF live(5)] Cons.prems(2,3) live(4) by auto
  next
    case (gone i d' q s1 s2)
    have valid: "valid_key key" using session_key_valid gone(1) by simp
    obtain u where "q = Inr u" using gone(5) assms(2) by (cases q) auto
    then have c: "contents s2 = (contents s)(key := None)" using delete_ok [OF valid] gone(4,5) by simp
    show ?thesis
    proof (cases "key = session_marker_key sid")
      case True
      then show ?thesis using sweep_markers_contents [OF gone(6), of key] c by auto
    next
      case False
      then show ?thesis using Cons.IH [OF gone(6)] Cons.prems(2,3) c by auto
    qed
  qed simp
qed simp

text \<open>The second pass.\<close>

lemma sweep_journals_cases:
  assumes "sweep_journals b (key # keys) sw s = (r, s')"
  obtains (skip) "sweep_journals b keys sw s = (r, s')"
      and "\<And>sid. key = session_index_key sid \<Longrightarrow> sid \<in> set (sw_surviving sw) \<union> set (sw_cleaned_ids sw)"
  | (gone) sid q s1 where "key = session_index_key sid" and "sid \<notin> set (sw_surviving sw)" and "sid \<notin> set (sw_cleaned_ids sw)"
      and "be_delete b key s = (q, s1)" and "sweep_journals b keys sw s1 = (r, s')"
proof (cases "parse_index_id key")
  case None
  then have "sweep_journals b keys sw s = (r, s')"
    using assms by (simp add: sweep_journals_def io_bind_def io_return_def)
  then show ?thesis using skip None by (auto simp: parse_index_id_None)
next
  case (Some sid)
  note key = Some [unfolded parse_index_id_iff]
  show ?thesis
  proof (cases "sid \<in> set (sw_surviving sw) \<union> set (sw_cleaned_ids sw)")
    case True
    then have "sweep_journals b keys sw s = (r, s')"
      using assms Some by (auto simp: sweep_journals_def io_bind_def io_return_def)
    then show ?thesis using skip True key by auto
  next
    case False
    obtain q s1 where d: "be_delete b key s = (q, s1)" by fastforce
    then have "sweep_journals b keys sw s1 = (r, s')"
      using assms Some False by (simp add: sweep_journals_def io_bind_def io_try_def io_return_def)
    then show ?thesis using gone [OF key _ _ d] False by simp
  qed
qed

lemma sweep_journals_contents:
  assumes "sweep_journals b keys sw s = (r, s')"
  shows "contents s' k = contents s k \<or> (\<exists>sid. k = session_index_key sid \<and> sid \<notin> set (sw_surviving sw)
      \<and> sid \<notin> set (sw_cleaned_ids sw) \<and> contents s' k = None)"
  using assms
proof (induction keys arbitrary: s)
  case Nil
  then show ?case by (simp add: sweep_journals_def io_return_def)
next
  case (Cons key keys)
  from Cons.prems show ?case
  proof (cases rule: sweep_journals_cases)
    case (gone sid q s1)
    have "valid_key key" using session_key_valid gone(1) by simp
    from delete_contents [OF this gone(4)] Cons.IH [OF gone(5)] show ?thesis
      using gone(1-3) by (cases "k = key") auto
  qed (use Cons.IH in simp)
qed

lemma sweep_journals_removes:
  assumes "sweep_journals b keys sw s = (r, s')" and "\<And>k t e t'. be_delete b k t \<noteq> (Inl e, t')"
    and "session_index_key sid \<in> set keys" and "sid \<notin> set (sw_surviving sw)" and "sid \<notin> set (sw_cleaned_ids sw)"
  shows "contents s' (session_index_key sid) = None"
  using assms(1,3)
proof (induction keys arbitrary: s)
  case (Cons key keys)
  from Cons.prems(1) show ?case
  proof (cases rule: sweep_journals_cases)
    case skip
    then have "key \<noteq> session_index_key sid" using assms(4,5) by auto
    then show ?thesis using Cons.IH [OF skip(1)] Cons.prems(2) by simp
  next
    case (gone i q s1)
    have valid: "valid_key key" using session_key_valid gone(1) by simp
    obtain u where "q = Inr u" using gone(4) assms(2) by (cases q) auto
    then have c: "contents s1 = (contents s)(key := None)" using delete_ok [OF valid] gone(4) by simp
    show ?thesis
    proof (cases "key = session_index_key sid")
      case True
      then show ?thesis using sweep_journals_contents [OF gone(5), of key] c by auto
    next
      case False
      then show ?thesis using Cons.IH [OF gone(5)] Cons.prems(2) by simp
    qed
  qed
qed simp

lemma sessions_listed:
  assumes "be_list b SESSIONS_PREFIX s = (Inr keys, s1)"
  shows "contents s (session_marker_key sid) \<noteq> None \<Longrightarrow> session_marker_key sid \<in> set keys"
    and "contents s (session_index_key sid) \<noteq> None \<Longrightarrow> session_index_key sid \<in> set keys"
proof -
  have dir: "dir_prefix SESSIONS_PREFIX = SESSIONS_PREFIX"
    by (simp add: dir_prefix_def SESSIONS_PREFIX_def ends_with_def)
  note l = list_complete [OF assms session_key_valid, unfolded dir]
  show "session_marker_key sid \<in> set keys" if "contents s (session_marker_key sid) \<noteq> None"
    using l [OF marker_key_is_session_key that] by (simp add: session_marker_key_def)
  show "session_index_key sid \<in> set keys" if "contents s (session_index_key sid) \<noteq> None"
    using l [OF index_key_is_session_key that] by (simp add: session_index_key_def)
qed

lemma sweep_journals_ok: "sweep_journals b keys sw s = (r, s') \<Longrightarrow> r = Inr ()"
proof (induction keys arbitrary: s)
  case (Cons key keys)
  from Cons.prems show ?case by (cases rule: sweep_journals_cases) (rule Cons.IH, assumption)+
qed (simp add: sweep_journals_def io_return_def)

lemma cleanup_sessions_cases:
  assumes "cleanup_stale_sessions lib b age host alive now s = (r, s')"
  obtains (listing) e where "r = Inl e" and "contents s' = contents s"
  | (markers) e keys s1 where "r = Inl e" and "contents s1 = contents s"
      and "sweep_markers b (classify_marker lib now age host alive) keys
             \<lparr>sw_cleaned = [], sw_surviving = [], sw_cleaned_ids = []\<rparr> s1 = (Inl e, s')"
  | (swept) keys sw s1 s2 where "r = Inr (sw_cleaned sw)" and "be_list b SESSIONS_PREFIX s = (Inr keys, s1)"
      and "contents s1 = contents s"
      and "sweep_markers b (classify_marker lib now age host alive) keys
             \<lparr>sw_cleaned = [], sw_surviving = [], sw_cleaned_ids = []\<rparr> s1 = (Inr sw, s2)"
      and "sweep_journals b keys sw s2 = (Inr (), s')"
proof -
  from assms [unfolded cleanup_stale_sessions_def] show ?thesis
  proof (cases rule: io_bind_cases)
    case (fail e)
    then show ?thesis using listing list_frame by blast
  next
    case (ok keys s1)
    note l = ok(1) list_frame [OF ok(1)]
    from ok(2) show ?thesis
    proof (cases rule: io_bind_cases)
      case (fail e)
      then show ?thesis using markers l(2) by blast
    next
      case (ok sw s2)
      obtain q s3 where j: "sweep_journals b keys sw s2 = (q, s3)" by fastforce
      note q = sweep_journals_ok [OF j]
      then have "r = Inr (sw_cleaned sw)" "s' = s3"
        using ok(2) j by (simp_all add: io_bind_def io_return_def)
      then show ?thesis using swept [OF _ l ok(1)] j q by simp
    qed
  qed
qed

lemma cleanup_sessions_contents:
  assumes "cleanup_stale_sessions lib b age host alive now s = (r, s')"
  defines "v \<equiv> classify_marker lib now age host alive"
  shows "contents s' k = contents s k \<or> sweepable (\<lambda>d. v d = MarkerLive) (contents s) k \<and> contents s' k = None"
  using assms(1)
proof (cases rule: cleanup_sessions_cases)
  case (markers e keys s1)
  then show ?thesis
    using sweep_markers_contents [OF markers(3), of k] by (auto simp: sweepable_iff v_def)
next
  case (swept keys sw s1 s2)
  have "sid \<in> set (sw_surviving sw) \<union> set (sw_cleaned_ids sw)" if "contents s (session_marker_key sid) \<noteq> None" for sid
    using sweep_markers_tracks(3) [OF swept(4)] sessions_listed(1) [OF swept(2)] that swept(3) by metis
  then have "contents s' k = contents s2 k
      \<or> (\<exists>sid. k = session_index_key sid \<and> contents s (session_marker_key sid) = None \<and> contents s' k = None)"
    using sweep_journals_contents [OF swept(5), of k] by (metis Un_iff)
  then show ?thesis
    using sweep_markers_contents [OF swept(4), of k] swept(3)
    by (cases "contents s k") (auto simp: sweepable_iff v_def)
qed simp

lemma cleanup_sessions_done:
  assumes "cleanup_stale_sessions lib b age host alive now s = (Inr cleaned, s')"
  defines "v \<equiv> classify_marker lib now age host alive"
  shows "set cleaned = {sid. \<exists>d. contents s (session_marker_key sid) = Some d \<and> v d = MarkerStale}"
    and "(\<And>k t e t'. be_delete b k t \<noteq> (Inl e, t')) \<Longrightarrow> sweepable (\<lambda>d. v d = MarkerLive) (contents s) k \<Longrightarrow> contents s' k = None"
  using assms(1)
proof (atomize (full), cases rule: cleanup_sessions_cases)
  case (swept keys sw s1 s2)
  have "set cleaned = {sid. \<exists>d. contents s (session_marker_key sid) = Some d \<and> v d = MarkerStale}"
    using sweep_markers_cleaned [OF swept(4)] sessions_listed(1) [OF swept(2)] swept(1,3) unfolding v_def by fastforce
  moreover have "contents s' k = None"
    if reliable: "\<forall>k t e t'. be_delete b k t \<noteq> (Inl e, t')" and k: "sweepable (\<lambda>d. v d = MarkerLive) (contents s) k"
    using k [unfolded sweepable_iff]
  proof (elim disjE exE conjE)
    fix sid d
    assume m: "k = session_marker_key sid" "contents s k = Some d" "v d \<noteq> MarkerLive"
    then have "contents s2 k = None"
      using sweep_markers_removes [OF swept(4), of sid d] reliable sessions_listed(1) [OF swept(2), of sid] swept(3)
      by (simp add: v_def)
    then show ?thesis using sweep_journals_contents [OF swept(5), of k] by auto
  next
    fix sid
    assume j: "k = session_index_key sid" "contents s k \<noteq> None" "contents s (session_marker_key sid) = None"
    then have "sid \<notin> set (sw_surviving sw)" "sid \<notin> set (sw_cleaned_ids sw)"
      using sweep_markers_tracks(4) [OF swept(4)] swept(3) by auto
    then show ?thesis
      using sweep_journals_removes [OF swept(5), of sid] reliable sessions_listed(2) [OF swept(2), of sid] j by auto
  qed
  ultimately show "set cleaned = {sid. \<exists>d. contents s (session_marker_key sid) = Some d \<and> v d = MarkerStale} \<and>
    ((\<forall>k t e t'. be_delete b k t \<noteq> (Inl e, t')) \<longrightarrow> sweepable (\<lambda>d. v d = MarkerLive) (contents s) k \<longrightarrow> contents s' k = None)" by blast
qed simp_all

end

interpretation mem_client: client_storage memory_backend map_of plain_key
proof
  fix k :: string
  show "plain_key k" if "is_lock_key k"
    using that by (auto simp: is_lock_key_def plain_key_def ends_with_iff)
  show "plain_key k" if "is_session_key k"
    using that by (auto simp: is_session_key_def plain_key_def ends_with_iff)
qed

text \<open>Fixed-width decimal numbers sort as their values.\<close>

fun decimal_digits :: "nat \<Rightarrow> nat \<Rightarrow> string" where
  "decimal_digits 0 n = []"
| "decimal_digits (Suc w) n = decimal_digits w (n div 10) @ [char_of (48 + n mod 10)]"

lemma length_decimal_digits [simp]: "length (decimal_digits w n) = w"
  by (induction w arbitrary: n) auto

lemma decimal_digits_0: "decimal_digits w 0 = replicate w (CHR ''0'')"
proof (induction w)
  case (Suc w)
  have "char_of (48 :: nat) = CHR ''0''" by code_simp
  then show ?case using Suc by (simp flip: replicate_append_same)
qed simp

lemma length_show_nat_le: "n < 10 ^ w \<Longrightarrow> 0 < w \<Longrightarrow> length (show_nat n) \<le> w"
proof (induction n arbitrary: w rule: show_nat.induct)
  case (1 n)
  show ?case
  proof (cases "n < 10")
    case True
    then show ?thesis using 1 by (simp add: show_nat.simps)
  next
    case False
    then obtain w' where w: "w = Suc w'" and "0 < w'" using 1(2,3) by (cases w; cases "w - 1") auto
    then have "length (show_nat (n div 10)) \<le> w'" using 1(1) [OF False] 1(2) by (simp add: less_mult_imp_div_less mult.commute)
    then show ?thesis using w False by (simp add: show_nat.simps [of n])
  qed
qed

lemma pad_show_nat: "n < 10 ^ w \<Longrightarrow> 0 < w \<Longrightarrow> pad_zeros w (show_nat n) = decimal_digits w n"
proof (induction n arbitrary: w rule: show_nat.induct)
  case (1 n)
  then obtain w' where w: "w = Suc w'" by (cases w) auto
  show ?case
  proof (cases "n < 10")
    case True
    then show ?thesis by (simp add: w show_nat.simps pad_zeros_def decimal_digits_0)
  next
    case False
    then have "0 < w'" using 1(2) w by (cases w') auto
    moreover have "n div 10 < 10 ^ w'" using 1(2) w by (simp add: less_mult_imp_div_less mult.commute)
    ultimately have "pad_zeros w' (show_nat (n div 10)) = decimal_digits w' (n div 10)"
      using 1(1) [OF False] by blast
    then show ?thesis using False by (simp add: w show_nat.simps [of n] pad_zeros_def)
  qed
qed

lemma append_less_same_length:
  fixes xs ys :: string
  assumes "length xs = length ys" and "xs < ys"
  shows "xs @ us < ys @ vs"
  using assms by (induction xs ys rule: list_induct2) auto

lemma append_less_same_prefix:
  fixes xs ys :: string
  shows "zs @ xs < zs @ ys \<longleftrightarrow> xs < ys"
  by (induction zs) auto

lemma decimal_digits_less: "m < n \<Longrightarrow> n < 10 ^ w \<Longrightarrow> decimal_digits w m < decimal_digits w n"
proof (induction w arbitrary: m n)
  case (Suc w)
  show ?case
  proof (cases "m div 10 < n div 10")
    case True
    have "n div 10 < 10 ^ w" using Suc.prems(2) by (simp add: less_mult_imp_div_less mult.commute)
    with Suc.IH [OF True] show ?thesis by (simp add: append_less_same_length)
  next
    case False
    then have eq: "m div 10 = n div 10" using Suc.prems(1) by (simp add: div_le_mono le_antisym)
    then have "m mod 10 < n mod 10" using Suc.prems(1) by (metis div_mod_decomp nat_add_left_cancel_less)
    then have "(char_of (48 + m mod 10) :: char) < char_of (48 + n mod 10)"
      by (simp add: less_char_def)
    then have "[char_of (48 + m mod 10) :: char] < [char_of (48 + n mod 10)]" by simp
    then show ?thesis by (simp add: eq append_less_same_prefix)
  qed
qed simp

lemma lock_key_of_less:
  assumes "0 \<le> t" and "t div 1000 < t' div 1000" and "t' div 1000 < 10 ^ 20"
  shows "lock_key_of t u < lock_key_of t' u'"
proof -
  let ?m = "nat (t div 1000)" and ?n = "nat (t' div 1000)"
  have pos: "0 \<le> t div 1000" "0 \<le> t' div 1000" using assms by simp_all
  have "?m < ?n" and n: "?n < 10 ^ 20" using assms pos by (simp_all add: nat_less_iff)
  then have "decimal_digits 20 ?m < decimal_digits 20 ?n" by (simp add: decimal_digits_less)
  then have "decimal_digits 20 ?m @ us < decimal_digits 20 ?n @ vs" for us vs
    by (simp add: append_less_same_length)
  moreover have "?m < 10 ^ 20" using n \<open>?m < ?n\<close> by linarith
  ultimately show ?thesis
    using n pos by (simp add: lock_key_of_def LOCKS_PREFIX_def show_int_padded_def pad_show_nat)
qed

section \<open>Properties\<close>

text \<open>C4: In every interleaving of clients in which no cleanup finds a live lock stale and every
  written key sorts after the keys of the current holders, at most one client holds the lock.\<close>

theorem lock_exclusive:
  assumes "client_storage b contents valid_key"
    and "lock_reach lib hs b contents (s, ph)"
    and "ph c = Holding g" and "ph c' = Holding g'"
  shows "c = c'"
  by (rule client_storage.holder_unique [OF assms])

text \<open>C28: While a lock that was stamped earlier and is not stale lies in the store, every
  registration of a backup session fails, after all its retries, and leaves that lock as it
  is.\<close>

theorem register_refused_while_locked:
  assumes "client_storage b contents valid_key"
    and "register_session lib h b sid now rds s = (r, s')"
    and "0 \<le> t" and "contents s (lock_key_of t u) = Some d"
    and "\<And>rd rnd. (rd, rnd) \<in> set rds \<Longrightarrow>
      t div 1000 < lr_now rd div 1000 \<and> lr_now rd div 1000 < 10 ^ 20
      \<and> \<not> lock_is_stale lib (lr_cleanup_now rd) (duration_seconds DEFAULT_STALE_LOCK_SECS) d"
  shows "(\<exists>e. r = Inl e) \<and> contents s' (lock_key_of t u) = Some d"
  using client_storage.register_blocked [OF assms(1,2) is_lock_key_lock_key_of assms(4)]
    assms(5) lock_key_of_less [OF assms(3)] by blast

text \<open>A successful \<open>break_lock\<close> removes every lock object and nothing else.\<close>

theorem break_lock_clears:
  assumes "client_storage b contents valid_key" and "break_lock b s = (Inr n, s')"
  shows "contents s' = (\<lambda>k. if is_lock_key k then None else contents s k)"
  by (rule client_storage.break_lock_contents [OF assms])


text \<open>C29: A lock that passes the fence, and whose entry was written no earlier than the
  refresh time the fence knows, survives every cleanup of the following thirty minutes.\<close>

theorem fenced_lock_survives:
  assumes "client_storage b contents valid_key"
    and "verify_lock_validity b k refreshed now s = (Inr (), s1)"
    and "contents s2 k = Some d" and "lock_from_json lib d = Inr entry"
    and "parse_from_rfc3339 lib (le_time entry) = Inr t" and "duration_seconds refreshed \<le> t"
    and "now' \<le> duration_seconds (now_secs_of now) + duration_seconds (30 * 60)"
    and "cleanup_stale_locks lib b (duration_seconds DEFAULT_STALE_LOCK_SECS) now' s2 = (r, s3)"
  shows "contents s3 k = Some d"
proof -
  have "now_secs_of now - refreshed \<le> LOCK_MAX_UNREFRESHED_SECS"
    using assms(2) by (auto simp: verify_lock_validity_def io_bind_Inr_iff Let_def io_fail_def
        split: if_splits)
  then have "now' - t \<le> duration_seconds DEFAULT_STALE_LOCK_SECS"
    using assms(6,7) by (simp add: duration_seconds_def LOCK_MAX_UNREFRESHED_SECS_def
        DEFAULT_STALE_LOCK_SECS_def)
  then have "\<not> lock_is_stale lib now' (duration_seconds DEFAULT_STALE_LOCK_SECS) d"
    using assms(4,5) by (simp add: lock_is_stale_def)
  then show ?thesis
    using client_storage.cleanup_contents [OF assms(1,8), of k] assms(3) by auto
qed

text \<open>Between two attempts a client sleeps at least 100 ms, at least three quarters of the
  exponential delay and less than five quarters of it rounded up; the jitter arithmetic never
  wraps.\<close>

theorem retry_delay_bounds:
  fixes base rnd :: u64 and attempt :: nat
  defines "D \<equiv> unat base * 2 ^ min attempt 5"
  assumes "2 \<le> D" and "D < 2 ^ 63"
  shows "\<exists>d. retry_delay base attempt rnd = Inr d \<and> 100 \<le> unat d
    \<and> D - D div 4 \<le> unat d \<and> unat d \<le> max 100 (D - D div 4 + D div 2)"
proof -
  define w where "w = base * push_bit (min attempt 5) 1"
  have "(2 :: nat) ^ min attempt 5 < 2 ^ 64" by (rule power_strict_increasing) auto
  then have "unat (of_nat (2 ^ min attempt 5) :: u64) = 2 ^ min attempt 5" by (rule unat_of_nat_u64)
  then have "unat (push_bit (min attempt 5) 1 :: u64) = 2 ^ min attempt 5"
    by (simp add: push_bit_eq_mult)
  then have w: "unat w = D"
    using assms by (simp add: w_def unat_word_ariths)
  have half: "unat (w div 2) = D div 2" and quart: "unat (w div 4) = D div 4"
    by (simp_all add: unat_div w)
  have nz: "w div 2 \<noteq> 0" using half assms(2) by auto
  define j where "j = rnd mod (w div 2)"
  have j: "unat j < D div 2"
    using assms(2) half by (simp add: j_def unat_mod)
  have "w div 4 \<le> w" by (simp add: word_le_nat_alt quart w)
  then have sub: "unat (w - w div 4) = D - D div 4" by (simp add: unat_sub w quart)
  have "unat ((w - w div 4) + j) = (D - D div 4 + unat j) mod 2 ^ 64"
    by (simp add: unat_word_ariths(1) sub)
  moreover have "D - D div 4 + unat j < 2 ^ 64" using j assms(3) by simp
  ultimately have "unat ((w - w div 4) + j) = D - D div 4 + unat j" by simp
  moreover have eq: "w + (j - w div 4) = (w - w div 4) + j" by simp
  ultimately have sum: "unat (w + (j - w div 4)) = D - D div 4 + unat j" unfolding eq by blast
  have "unat (max (w + (j - w div 4)) 100) = max (D - D div 4 + unat j) 100"
    by (simp add: max_def word_le_nat_alt sum)
  moreover have "retry_delay base attempt rnd = Inr (max (w + (j - w div 4)) 100)"
    unfolding retry_delay_def Let_def w_def [symmetric] j_def [symmetric] using nz by simp
  ultimately show ?thesis using j by (auto simp: le_max_iff_disj intro: diff_le_mono)
qed

section \<open>Witnesses\<close>

definition wit_lock_entry :: lock_entry where
  "wit_lock_entry = \<lparr>le_hostname = ''h'', le_pid = 1, le_time = ''t''\<rparr>"

definition wit_lock_lib :: lock_lib where
  "wit_lock_lib =
     \<lparr>lock_to_json = (\<lambda>_. Inr [1]),
      lock_from_json = (\<lambda>d. if d = [1] then Inr wit_lock_entry else Inl []),
      session_to_json = (\<lambda>_. Inr [2]),
      session_from_json = (\<lambda>d. Inl []),
      to_rfc3339 = (\<lambda>_. ''t''),
      parse_from_rfc3339 = (\<lambda>s. if s = ''t'' then Inr 0 else Inl [])\<rparr>"

definition wit_host :: host_info where
  "wit_host = \<lparr>hi_hostname = ''h'', hi_pid = 1\<rparr>"

lemmas mem_ops =
  memory_backend_def mem_get_def mem_put_def mem_delete_def mem_exists_def mem_list_def

lemma wit_cleanup_empty:
  "cleanup_stale_locks lib memory_backend age now [] = (Inr (), [])"
  by (simp add: cleanup_stale_locks_def list_lock_keys_def mem_ops io_bind_def io_return_def)

lemma wit_write:
  "write_lock wit_lock_lib h memory_backend k now s = (Inr (), hm_insert k [1] s)"
  by (simp add: write_lock_def wit_lock_lib_def mem_ops)

lemma wit_decide_first:
  assumes "is_lock_key k" and "k \<in> fst ` set s"
    and "\<And>k'. k' \<in> fst ` set s \<Longrightarrow> k \<le> k'"
  shows "decide_lock lib memory_backend k t s = (Inr \<lparr>lg_key = k, lg_acquired_at = t\<rparr>, s)"
proof -
  obtain ks where ks: "list_lock_keys memory_backend s = (Inr ks, s)"
    by (auto simp: list_lock_keys_def mem_ops io_bind_def io_return_def)
  note set = mem_client.list_lock_keys_set(2) [OF ks]
  have mem: "k \<in> set ks" using set assms(1,2) map_of_eq_None_iff [of s k] by auto
  have "k \<le> k'" if "k' \<in> set ks" for k'
    using that set assms(3) map_of_eq_None_iff [of s k'] by auto
  then have "hd (sort ks) = k"
    using mem by (cases "sort ks") (metis hd_in_set list.sel(1) order.antisym set_ConsD set_empty set_sort sorted_simps(2) sorted_sort list.set_intros(1) empty_iff list.set(1))+
  then show ?thesis using mem by (simp add: decide_lock_def ks io_bind_def Let_def io_return_def)
qed

lemma wit_cleanup_single:
  assumes "is_lock_key k" and "now \<le> 1000000000"
  shows "cleanup_stale_locks wit_lock_lib memory_backend (duration_seconds DEFAULT_STALE_LOCK_SECS)
    now [(k, [1])] = (Inr (), [(k, [1])])"
proof -
  have "\<not> ends_with k ''/''" using assms(1) by (auto simp: is_lock_key_def ends_with_iff)
  moreover have "\<not> lock_is_stale wit_lock_lib now (duration_seconds DEFAULT_STALE_LOCK_SECS) [1]"
    using assms(2) by (simp add: lock_is_stale_def wit_lock_lib_def wit_lock_entry_def
        duration_seconds_def DEFAULT_STALE_LOCK_SECS_def)
  ultimately show ?thesis
    using assms(1)
    by (simp add: cleanup_stale_locks_def list_lock_keys_def mem_ops io_bind_def io_return_def
        is_lock_key_def)
qed

abbreviation wit_key :: string where "wit_key \<equiv> lock_key_of 5000000 0"

abbreviation wit_guard :: lock_guard where
  "wit_guard \<equiv> \<lparr>lg_key = wit_key, lg_acquired_at = 5000000\<rparr>"

lemma wit_run:
  "lock_reach wit_lock_lib (\<lambda>_. wit_host) memory_backend map_of
     ([(wit_key, [1])], (\<lambda>_. Idle)(0 := Holding wit_guard))"
proof -
  let ?R = "lock_reach wit_lock_lib (\<lambda>_. wit_host) memory_backend map_of"
  note go = lock_reach.step [where lib = wit_lock_lib and hs = "\<lambda>_. wit_host"
      and b = memory_backend and contents = map_of]
  have 1: "?R ([], (\<lambda>_. Idle)(0 := Cleaned))"
    by (rule go [OF lock_reach.start, where a = "Cleanup 0 0"])
      (use lock_step.cleanup [of "\<lambda>_. Idle" 0, OF refl wit_cleanup_empty] in \<open>auto split: if_splits\<close>)
  have 2: "?R ([], (\<lambda>_. Idle)(0 := Stamped wit_key 5000000))"
    by (rule go [OF 1, where a = "Stamp 0 5000000 0"])
      (use lock_step.stamp [of "(\<lambda>_. Idle)(0 := Cleaned)" 0 wit_lock_lib "\<lambda>_. wit_host" memory_backend "[]" 5000000 0] in auto)
  have 3: "?R ([(wit_key, [1])], (\<lambda>_. Idle)(0 := Written wit_key))"
    by (rule go [OF 2, where a = "Put 0"])
      (use lock_step.put [of "(\<lambda>_. Idle)(0 := Stamped wit_key 5000000)" 0 wit_key 5000000, OF _ wit_write, of "\<lambda>_. wit_host" "[]"]
        in \<open>auto simp: hm_insert_def split: if_splits\<close>)
  have d: "decide_lock wit_lock_lib memory_backend wit_key 5000000 [(wit_key, [1])]
      = (Inr wit_guard, [(wit_key, [1])])"
    by (rule wit_decide_first) auto
  show ?thesis
    by (rule go [OF 3, where a = "Decide 0 5000000"])
      (use lock_step.decide [of "(\<lambda>_. Idle)(0 := Written wit_key)" 0 wit_key, OF _ d] in auto)
qed

lemma lock_exclusive_witness:
  "\<exists>s ph. lock_reach wit_lock_lib (\<lambda>_. wit_host) memory_backend map_of (s, ph)
     \<and> {c. \<exists>g. ph c = Holding g} = {0}"
proof (intro exI conjI)
  show "{c. \<exists>g. ((\<lambda>_. Idle)(0 := Holding wit_guard)) c = Holding g} = {0}"
    using lock_exclusive [OF mem_client.client_storage_axioms wit_run, of 0 wit_guard] by auto
qed (rule wit_run)

definition wit_readings :: "int \<Rightarrow> lock_readings" where
  "wit_readings t = \<lparr>lr_cleanup_now = t, lr_now = t, lr_uuid = 0, lr_acquired_at = t\<rparr>"

lemma register_refused_while_locked_witness:
  "\<exists>e s'. register_session wit_lock_lib wit_host memory_backend ''a'' 6000000
     [(wit_readings 6000000, 0)] [(wit_key, [1])] = (Inl e, s') \<and> map_of s' wit_key = Some [1]"
proof -
  obtain r s' where r: "register_session wit_lock_lib wit_host memory_backend ''a'' 6000000
     [(wit_readings 6000000, 0)] [(wit_key, [1])] = (r, s')" by fastforce
  have "(\<exists>e. r = Inl e) \<and> map_of s' wit_key = Some [1]"
    by (rule register_refused_while_locked [OF mem_client.client_storage_axioms r])
      (auto simp: wit_readings_def lock_is_stale_def wit_lock_lib_def wit_lock_entry_def
        duration_seconds_def DEFAULT_STALE_LOCK_SECS_def)
  then show ?thesis using r by auto
qed

lemma break_lock_clears_witness:
  "\<exists>s'. break_lock memory_backend [(wit_key, [1]), (''config'', [2])] = (Inr 1, s')
     \<and> map_of s' = map_of [(''config'', [2])]"
proof -
  have cfg: "\<not> is_lock_key ''config''" by (simp add: is_lock_key_def ends_with_def)
  have key: "starts_with wit_key LOCKS_PREFIX" "ends_with wit_key ''.json''"
    using is_lock_key_lock_key_of [of 5000000 0] by (auto simp: is_lock_key_def)
  have plain: "\<not> ends_with wit_key ''/''"
    using mem_client.lock_key_valid [of wit_key] by (simp add: plain_key_def)
  have "\<not> starts_with ''config'' LOCKS_PREFIX" by (simp add: LOCKS_PREFIX_def starts_with_def)
  then have "break_lock memory_backend [(wit_key, [1]), (''config'', [2])]
      = (Inr 1, hm_remove wit_key [(wit_key, [1]), (''config'', [2])])"
    using key plain by (simp add: break_lock_def list_lock_keys_def mem_ops io_bind_def io_return_def)
  then show ?thesis
    using break_lock_clears [OF mem_client.client_storage_axioms, of "[(wit_key, [1]), (''config'', [2])]" 1]
      cfg by (auto simp: fun_eq_iff)
qed




lemma fenced_lock_survives_witness:
  "\<exists>s1 s3. verify_lock_validity memory_backend wit_key 0 1000000000 [(wit_key, [1])] = (Inr (), s1)
     \<and> cleanup_stale_locks wit_lock_lib memory_backend (duration_seconds DEFAULT_STALE_LOCK_SECS)
         2000000000 [(wit_key, [1])] = (Inr (), s3) \<and> map_of s3 wit_key = Some [1]"
proof -
  let ?s = "[(wit_key, [1])]"
  have v: "verify_lock_validity memory_backend wit_key 0 1000000000 ?s = (Inr (), ?s)"
    by (simp add: verify_lock_validity_def mem_ops io_bind_def io_return_def hm_contains_def
        now_secs_of_def i64_max_def LOCK_MAX_UNREFRESHED_SECS_def DEFAULT_STALE_LOCK_SECS_def)
  obtain r s3 where c: "cleanup_stale_locks wit_lock_lib memory_backend
      (duration_seconds DEFAULT_STALE_LOCK_SECS) 2000000000 ?s = (r, s3)" by fastforce
  have "r = Inr ()"
    using c by (auto simp: cleanup_stale_locks_def list_lock_keys_def mem_ops io_bind_def
        io_return_def io_try_def split: if_splits)
  moreover have "map_of s3 wit_key = Some [1]"
    by (rule fenced_lock_survives [OF mem_client.client_storage_axioms v _ _ _ _ _ c,
          where entry = wit_lock_entry and t = 0])
      (auto simp: wit_lock_lib_def wit_lock_entry_def duration_seconds_def now_secs_of_def)
  ultimately show ?thesis using v c by auto
qed

lemma retry_delay_bounds_witness:
  "\<exists>d. retry_delay 500 0 7 = Inr d \<and> 375 \<le> unat d \<and> unat d \<le> 625"
  using retry_delay_bounds [of 500 0 7] by auto

text \<open>
  A client whose clock is behind that of the holder gets the lock as well: its key sorts
  first.
\<close>

lemma skewed_clocks_two_holders:
  "\<exists>g s1 g' s2. acquire_lock wit_lock_lib wit_host memory_backend (wit_readings 5000000) [] = (Inr g, s1)
     \<and> acquire_lock wit_lock_lib wit_host memory_backend (wit_readings 3000000) s1 = (Inr g', s2)
     \<and> lg_key g \<noteq> lg_key g' \<and> map_of s2 (lg_key g) \<noteq> None \<and> map_of s2 (lg_key g') \<noteq> None"
proof -
  let ?k = "lock_key_of 3000000 0"
  have less: "?k < wit_key" by (rule lock_key_of_less) auto
  have 1: "acquire_lock wit_lock_lib wit_host memory_backend (wit_readings 5000000) []
      = (Inr wit_guard, [(wit_key, [1])])"
    using wit_decide_first [of wit_key "[(wit_key, [1])]"]
    by (simp add: acquire_lock_def wit_readings_def io_bind_def wit_cleanup_empty wit_write Let_def
        hm_insert_def)
  have "decide_lock wit_lock_lib memory_backend ?k 3000000 [(wit_key, [1]), (?k, [1])]
      = (Inr \<lparr>lg_key = ?k, lg_acquired_at = 3000000\<rparr>, [(wit_key, [1]), (?k, [1])])"
    using less by (intro wit_decide_first) auto
  then have 2: "acquire_lock wit_lock_lib wit_host memory_backend (wit_readings 3000000) [(wit_key, [1])]
      = (Inr \<lparr>lg_key = ?k, lg_acquired_at = 3000000\<rparr>, [(wit_key, [1]), (?k, [1])])"
    using less by (auto simp: acquire_lock_def wit_readings_def io_bind_def wit_cleanup_single wit_write
        Let_def hm_insert_def)
  show ?thesis using 1 2 less by auto
qed

end
