(* ===== verification/Retention.thy ===== *)
theory Retention
  imports Types "HOL-Library.List_Lexorder" "HOL-Library.Char_ord"
begin

text \<open>
  The manifest of snapshots (\<open>vykar-core/src/repo/manifest.rs\<close>) and the retention policy
  (\<open>vykar-core/src/prune.rs\<close>, \<open>RetentionConfig\<close> of \<open>config/types.rs\<close>).  Instants are integers
  in nanoseconds; the calendar of \<open>chrono\<close> is the record \<open>calendar\<close>.  The bucket rules are
  compared with two reference definitions: \<open>retained\<close> takes the newest snapshot of each bucket, and
  \<open>retained_at_most\<close> lets a bucket whose newest snapshot is kept already use up no place of a rule, as
  the comment on \<open>apply_bucket_rule\<close> has it.
\<close>

section \<open>Manifest\<close>

record snapshot_entry =
  sn_name :: string
  sn_id :: snapshot_id
  sn_time :: int
  sn_source_label :: string
  sn_label :: string
  sn_source_paths :: "string list"
  sn_hostname :: string

record manifest =
  mf_version :: u32
  mf_timestamp :: int
  mf_snapshots :: "snapshot_entry list"

definition manifest_new :: "int \<Rightarrow> manifest" where
  "manifest_new now = \<lparr>mf_version = 1, mf_timestamp = now, mf_snapshots = []\<rparr>"

definition from_snapshot_entries :: "int \<Rightarrow> snapshot_entry list \<Rightarrow> manifest" where
  "from_snapshot_entries now entries =
     \<lparr>mf_version = 1, mf_timestamp = now, mf_snapshots = entries\<rparr>"

definition find_snapshot :: "manifest \<Rightarrow> string \<Rightarrow> snapshot_entry option" where
  "find_snapshot m name = List.find (\<lambda>a. sn_name a = name) (mf_snapshots m)"

text \<open>\<open>Iterator::max_by_key\<close>: the last of several maxima.\<close>

fun max_by_time :: "snapshot_entry list \<Rightarrow> snapshot_entry option" where
  "max_by_time [] = None"
| "max_by_time (x # xs) =
     (case max_by_time xs of
        None \<Rightarrow> Some x
      | Some y \<Rightarrow> if sn_time x \<le> sn_time y then Some y else Some x)"

definition resolve_snapshot :: "manifest \<Rightarrow> string \<Rightarrow> snapshot_entry result" where
  "resolve_snapshot m query =
     (if eq_ignore_ascii_case query ''latest''
      then ok_or (max_by_time (mf_snapshots m)) (SnapshotNotFound ''latest'')
      else ok_or (find_snapshot m query) (SnapshotNotFound query))"

fun remove_first :: "('a \<Rightarrow> bool) \<Rightarrow> 'a list \<Rightarrow> 'a option \<times> 'a list" where
  "remove_first P [] = (None, [])"
| "remove_first P (x # xs) =
     (if P x then (Some x, xs) else (case remove_first P xs of (r, ys) \<Rightarrow> (r, x # ys)))"

definition remove_snapshot :: "string \<Rightarrow> manifest \<Rightarrow> snapshot_entry option \<times> manifest" where
  "remove_snapshot name m =
     (case remove_first (\<lambda>a. sn_name a = name) (mf_snapshots m) of
        (r, ss) \<Rightarrow> (r, m\<lparr>mf_snapshots := ss\<rparr>))"

section \<open>Durations\<close>

text \<open>
  \<open>str::trim\<close> and \<open>str::parse::<i64>\<close>.  White space is the ASCII part of the Unicode
  property.
\<close>

definition is_ascii_space :: "char \<Rightarrow> bool" where
  "is_ascii_space c \<longleftrightarrow> (let n = (of_char c :: nat) in (9 \<le> n \<and> n \<le> 13) \<or> n = 32)"

definition trim_str :: "string \<Rightarrow> string" where
  "trim_str s = rev (dropWhile is_ascii_space (rev (dropWhile is_ascii_space s)))"

fun digits_value :: "nat \<Rightarrow> string \<Rightarrow> nat" where
  "digits_value acc [] = acc"
| "digits_value acc (c # cs) = digits_value (acc * 10 + (of_char c - 48)) cs"

definition i64_ok :: "int \<Rightarrow> bool" where
  "i64_ok i \<longleftrightarrow> - (2 ^ 63) \<le> i \<and> i < 2 ^ 63"

definition parse_i64 :: "string \<Rightarrow> int option" where
  "parse_i64 s =
     (let (neg, ds) = (case s of
          [] \<Rightarrow> (False, [])
        | c # cs \<Rightarrow> if c = CHR ''-'' then (True, cs) else if c = CHR ''+'' then (False, cs) else (False, s))
      in if ds = [] \<or> \<not> list_all is_ascii_digit ds then None
         else (let i = (if neg then - int (digits_value 0 ds) else int (digits_value 0 ds))
               in if i64_ok i then Some i else None))"

text \<open>Wrapping multiplication of \<open>i64\<close> and \<open>chrono::Duration\<close>, in nanoseconds.\<close>

definition wrap_i64 :: "int \<Rightarrow> int" where
  "wrap_i64 i = (i + 2 ^ 63) mod 2 ^ 64 - 2 ^ 63"

definition duration_of_secs :: "int \<Rightarrow> int result" where
  "duration_of_secs secs =
     (if - ((2 ^ 63 - 1) div 1000) \<le> secs \<and> secs \<le> (2 ^ 63 - 1) div 1000
      then Inr (secs * 1000000000) else Inl (Panicked ''TimeDelta out of bounds''))"

definition quoted :: "string \<Rightarrow> string" where
  "quoted s = CHR 0x27 # s @ [CHR 0x27]"

definition parse_timespan :: "string \<Rightarrow> int result" where
  "parse_timespan s0 =
     (let s = trim_str s0 in
      if s = [] then Inl (Config ''empty duration string'')
      else case parse_i64 s of
        Some n \<Rightarrow> duration_of_secs (n * 86400)
      | None \<Rightarrow>
          if list_all is_ascii_digit s then Inl (Config (''invalid duration: '' @ quoted s))
          else (let num_str = takeWhile is_ascii_digit s; suffix = dropWhile is_ascii_digit s in
            case parse_i64 num_str of
              None \<Rightarrow> Inl (Config (''invalid duration number: '' @ quoted num_str))
            | Some n \<Rightarrow>
                if suffix = ''h'' \<or> suffix = ''H'' then duration_of_secs (n * 3600)
                else if suffix = ''d'' \<or> suffix = ''D'' then duration_of_secs (n * 86400)
                else if suffix = ''w'' \<or> suffix = ''W'' then duration_of_secs (n * 604800)
                else if suffix = ''m'' \<or> suffix = ''M'' then duration_of_secs (wrap_i64 (n * 30) * 86400)
                else if suffix = ''y'' \<or> suffix = ''Y'' then duration_of_secs (wrap_i64 (n * 365) * 86400)
                else Inl (Config (''unknown duration suffix: '' @ quoted suffix))))"

section \<open>Policy\<close>

record calendar =
  cal_year :: "int \<Rightarrow> int"
  cal_ordinal :: "int \<Rightarrow> nat"
  cal_hour :: "int \<Rightarrow> nat"
  cal_iso_year :: "int \<Rightarrow> int"
  cal_iso_week :: "int \<Rightarrow> nat"
  cal_month :: "int \<Rightarrow> nat"
  cal_min :: int
  cal_max :: int

record retention_config =
  keep_within :: "string option"
  keep_last :: "nat option"
  keep_hourly :: "nat option"
  keep_daily :: "nat option"
  keep_weekly :: "nat option"
  keep_monthly :: "nat option"
  keep_yearly :: "nat option"

definition has_any_rule :: "retention_config \<Rightarrow> bool" where
  "has_any_rule p \<longleftrightarrow> keep_within p \<noteq> None \<or> keep_last p \<noteq> None \<or> keep_hourly p \<noteq> None
     \<or> keep_daily p \<noteq> None \<or> keep_weekly p \<noteq> None \<or> keep_monthly p \<noteq> None \<or> keep_yearly p \<noteq> None"

datatype prune_decision = Keep "string list" | Prune

record prune_entry =
  pe_snapshot_name :: string
  pe_snapshot_time :: int
  pe_decision :: prune_decision

definition hourly_key :: "calendar \<Rightarrow> int \<Rightarrow> int \<times> nat \<times> nat" where
  "hourly_key cal t = (cal_year cal t, cal_ordinal cal t, cal_hour cal t)"

definition daily_key :: "calendar \<Rightarrow> int \<Rightarrow> int \<times> nat" where
  "daily_key cal t = (cal_year cal t, cal_ordinal cal t)"

definition weekly_key :: "calendar \<Rightarrow> int \<Rightarrow> int \<times> nat" where
  "weekly_key cal t = (cal_iso_year cal t, cal_iso_week cal t)"

definition monthly_key :: "calendar \<Rightarrow> int \<Rightarrow> int \<times> nat" where
  "monthly_key cal t = (cal_year cal t, cal_month cal t)"

definition yearly_key :: "calendar \<Rightarrow> int \<Rightarrow> int" where
  "yearly_key cal t = cal_year cal t"

record retention_state =
  rs_kept :: "nat list"
  rs_reasons :: "(nat, string list) hmap"

definition keep_idx :: "nat \<Rightarrow> retention_state \<Rightarrow> retention_state" where
  "keep_idx idx st = st\<lparr>rs_kept := List.insert idx (rs_kept st)\<rparr>"

definition push_reason :: "nat \<Rightarrow> string \<Rightarrow> retention_state \<Rightarrow> retention_state" where
  "push_reason idx r st =
     st\<lparr>rs_reasons := hm_insert idx
          ((case map_of (rs_reasons st) idx of None \<Rightarrow> [] | Some rs \<Rightarrow> rs) @ [r]) (rs_reasons st)\<rparr>"

fun bucket_loop ::
  "(int \<Rightarrow> 'k) \<Rightarrow> (nat \<Rightarrow> int) \<Rightarrow> nat \<Rightarrow> string \<Rightarrow> nat list \<Rightarrow> 'k list \<Rightarrow> nat \<Rightarrow>
   retention_state \<Rightarrow> retention_state" where
  "bucket_loop key_fn time_of max_buckets rule [] seen kept_count st = st"
| "bucket_loop key_fn time_of max_buckets rule (idx # indices) seen kept_count st =
     (let bucket = key_fn (time_of idx) in
      if bucket \<in> set seen then bucket_loop key_fn time_of max_buckets rule indices seen kept_count st
      else (let reason = rule @ '' #'' @ show_nat (kept_count + 1);
                (st', kept_count') =
                  (if idx \<in> set (rs_kept st) then (push_reason idx reason st, kept_count + 1)
                   else if kept_count < max_buckets
                   then (push_reason idx reason (keep_idx idx st), kept_count + 1)
                   else (st, kept_count))
            in if max_buckets \<le> kept_count' then st'
               else bucket_loop key_fn time_of max_buckets rule indices (bucket # seen) kept_count' st'))"

definition apply_bucket_rule ::
  "nat list \<Rightarrow> (nat \<Rightarrow> int) \<Rightarrow> nat \<Rightarrow> (int \<Rightarrow> 'k) \<Rightarrow> string \<Rightarrow> retention_state \<Rightarrow> retention_state" where
  "apply_bucket_rule indices time_of max_buckets key_fn rule st =
     bucket_loop key_fn time_of max_buckets rule indices [] 0 st"

definition bucket_rule_opt ::
  "nat option \<Rightarrow> nat list \<Rightarrow> (nat \<Rightarrow> int) \<Rightarrow> (int \<Rightarrow> 'k) \<Rightarrow> string \<Rightarrow> retention_state \<Rightarrow> retention_state"
  where
  "bucket_rule_opt n indices time_of key_fn rule st =
     (case n of None \<Rightarrow> st | Some m \<Rightarrow> apply_bucket_rule indices time_of m key_fn rule st)"

definition newest_first :: "snapshot_entry list \<Rightarrow> nat list" where
  "newest_first snapshots = sort_key (\<lambda>i. - sn_time (snapshots ! i)) [0..<length snapshots]"

definition within_cutoff :: "calendar \<Rightarrow> retention_config \<Rightarrow> int \<Rightarrow> int option result" where
  "within_cutoff cal policy now =
     (case keep_within policy of
        None \<Rightarrow> Inr None
      | Some within_str \<Rightarrow>
          rbind (parse_timespan within_str) (\<lambda>dur.
            if cal_min cal \<le> now - dur \<and> now - dur \<le> cal_max cal then Inr (Some (now - dur))
            else Inl (Panicked ''`DateTime - TimeDelta` overflowed'')))"

fun within_loop :: "(nat \<Rightarrow> int) \<Rightarrow> int \<Rightarrow> nat list \<Rightarrow> retention_state \<Rightarrow> retention_state" where
  "within_loop time_of cutoff [] st = st"
| "within_loop time_of cutoff (idx # indices) st =
     within_loop time_of cutoff indices
       (if cutoff \<le> time_of idx then push_reason idx ''within'' (keep_idx idx st) else st)"

fun last_loop :: "nat \<Rightarrow> nat \<Rightarrow> nat list \<Rightarrow> retention_state \<Rightarrow> retention_state" where
  "last_loop n i [] st = st"
| "last_loop n i (idx # indices) st =
     (if n \<le> i then st
      else last_loop n (i + 1) indices
             (push_reason idx (''last #'' @ show_nat (i + 1)) (keep_idx idx st)))"

definition entry_of :: "snapshot_entry list \<Rightarrow> (nat, string list) hmap \<Rightarrow> nat \<Rightarrow> prune_entry" where
  "entry_of snapshots reasons idx =
     \<lparr>pe_snapshot_name = sn_name (snapshots ! idx), pe_snapshot_time = sn_time (snapshots ! idx),
      pe_decision = (case map_of reasons idx of Some r \<Rightarrow> Keep r | None \<Rightarrow> Prune)\<rparr>"

fun build_entries ::
  "snapshot_entry list \<Rightarrow> (nat, string list) hmap \<Rightarrow> nat list \<Rightarrow> prune_entry list" where
  "build_entries snapshots reasons [] = []"
| "build_entries snapshots reasons (idx # indices) =
     entry_of snapshots reasons idx # build_entries snapshots (hm_remove idx reasons) indices"

definition apply_rules ::
  "calendar \<Rightarrow> retention_config \<Rightarrow> nat list \<Rightarrow> (nat \<Rightarrow> int) \<Rightarrow> int option \<Rightarrow> retention_state" where
  "apply_rules cal policy indices time_of cutoff =
     (let st0 = \<lparr>rs_kept = [], rs_reasons = []\<rparr>;
          st1 = (case cutoff of None \<Rightarrow> st0 | Some c \<Rightarrow> within_loop time_of c indices st0);
          st2 = (case keep_last policy of None \<Rightarrow> st1 | Some n \<Rightarrow> last_loop n 0 indices st1);
          st3 = bucket_rule_opt (keep_hourly policy) indices time_of (hourly_key cal) ''hourly'' st2;
          st4 = bucket_rule_opt (keep_daily policy) indices time_of (daily_key cal) ''daily'' st3;
          st5 = bucket_rule_opt (keep_weekly policy) indices time_of (weekly_key cal) ''weekly'' st4;
          st6 = bucket_rule_opt (keep_monthly policy) indices time_of (monthly_key cal) ''monthly'' st5
      in bucket_rule_opt (keep_yearly policy) indices time_of (yearly_key cal) ''yearly'' st6)"

definition apply_policy ::
  "calendar \<Rightarrow> snapshot_entry list \<Rightarrow> retention_config \<Rightarrow> int \<Rightarrow> prune_entry list result" where
  "apply_policy cal snapshots policy now =
     (if snapshots = [] then Inr []
      else rbind (within_cutoff cal policy now) (\<lambda>cutoff.
        let indices = newest_first snapshots;
            st = apply_rules cal policy indices (\<lambda>i. sn_time (snapshots ! i)) cutoff;
            prune_count = length snapshots - length (rs_kept st)
        in if prune_count = length snapshots
           then Inl (Other ''refusing to prune: policy would remove ALL snapshots'')
           else Inr (build_entries snapshots (rs_reasons st) indices)))"

text \<open>The groups of \<open>apply_policy_by_label\<close>, in the order of the \<open>BTreeMap\<close>.\<close>

definition label_groups :: "snapshot_entry list \<Rightarrow> (string \<times> nat list) list" where
  "label_groups snapshots =
     map (\<lambda>l. (l, filter (\<lambda>i. sn_source_label (snapshots ! i) = l) [0..<length snapshots]))
       (sort (remdups (map sn_source_label snapshots)))"

fun label_loop ::
  "calendar \<Rightarrow> snapshot_entry list \<Rightarrow> retention_config \<Rightarrow> (string, retention_config) hmap \<Rightarrow> int \<Rightarrow>
   (string \<times> nat list) list \<Rightarrow> prune_entry list \<Rightarrow> prune_entry list result" where
  "label_loop cal snapshots dflt sources now [] all_entries = Inr all_entries"
| "label_loop cal snapshots dflt sources now ((label, indices) # groups) all_entries =
     (let group = map (\<lambda>i. snapshots ! i) indices;
          policy = (case map_of sources label of Some p \<Rightarrow> p | None \<Rightarrow> dflt)
      in if \<not> has_any_rule policy
         then label_loop cal snapshots dflt sources now groups
                (all_entries @ map (\<lambda>e. \<lparr>pe_snapshot_name = sn_name e, pe_snapshot_time = sn_time e,
                                         pe_decision = Keep [''no policy'']\<rparr>) group)
         else rbind (apply_policy cal group policy now) (\<lambda>es.
                label_loop cal snapshots dflt sources now groups (all_entries @ es)))"

definition apply_policy_by_label ::
  "calendar \<Rightarrow> snapshot_entry list \<Rightarrow> retention_config \<Rightarrow> (string, retention_config) hmap \<Rightarrow> int \<Rightarrow>
   prune_entry list result" where
  "apply_policy_by_label cal snapshots dflt sources now =
     rbind (label_loop cal snapshots dflt sources now (label_groups snapshots) []) (\<lambda>es.
       Inr (sort_key (\<lambda>e. - pe_snapshot_time e) es))"

section \<open>Reference definitions\<close>

text \<open>The first index of each bucket, in the order of the list.\<close>

fun bucket_reps :: "(nat \<Rightarrow> 'k) \<Rightarrow> 'k set \<Rightarrow> nat list \<Rightarrow> nat list" where
  "bucket_reps key seen [] = []"
| "bucket_reps key seen (i # idxs) =
     (if key i \<in> seen then bucket_reps key seen idxs else i # bucket_reps key (insert (key i) seen) idxs)"

definition newest_per_bucket :: "nat option \<Rightarrow> (nat \<Rightarrow> 'k) \<Rightarrow> nat list \<Rightarrow> nat set" where
  "newest_per_bucket n key idxs = (case n of None \<Rightarrow> {} | Some m \<Rightarrow> set (take m (bucket_reps key {} idxs)))"

definition retained ::
  "calendar \<Rightarrow> snapshot_entry list \<Rightarrow> retention_config \<Rightarrow> int option \<Rightarrow> nat set" where
  "retained cal snapshots p cutoff =
     (let idxs = newest_first snapshots; t = (\<lambda>i. sn_time (snapshots ! i)) in
      (case cutoff of None \<Rightarrow> {} | Some c \<Rightarrow> {i. i < length snapshots \<and> c \<le> t i})
      \<union> (case keep_last p of None \<Rightarrow> {} | Some n \<Rightarrow> set (take n idxs))
      \<union> newest_per_bucket (keep_hourly p) (hourly_key cal \<circ> t) idxs
      \<union> newest_per_bucket (keep_daily p) (daily_key cal \<circ> t) idxs
      \<union> newest_per_bucket (keep_weekly p) (weekly_key cal \<circ> t) idxs
      \<union> newest_per_bucket (keep_monthly p) (monthly_key cal \<circ> t) idxs
      \<union> newest_per_bucket (keep_yearly p) (yearly_key cal \<circ> t) idxs)"

text \<open>
  The other reading, of the comment on \<open>apply_bucket_rule\<close>: a bucket whose newest snapshot is kept
  already is passed over without using up one of the rule's places.  A rule is the list of the newest
  snapshots of its buckets with the number of places.
\<close>

definition bucket_rules ::
  "calendar \<Rightarrow> snapshot_entry list \<Rightarrow> retention_config \<Rightarrow> (nat option \<times> nat list) list" where
  "bucket_rules cal snapshots p =
     (let idxs = newest_first snapshots; t = (\<lambda>i. sn_time (snapshots ! i)) in
      [(keep_hourly p, bucket_reps (hourly_key cal \<circ> t) {} idxs),
       (keep_daily p, bucket_reps (daily_key cal \<circ> t) {} idxs),
       (keep_weekly p, bucket_reps (weekly_key cal \<circ> t) {} idxs),
       (keep_monthly p, bucket_reps (monthly_key cal \<circ> t) {} idxs),
       (keep_yearly p, bucket_reps (yearly_key cal \<circ> t) {} idxs)])"

fun fill_places :: "(nat option \<times> nat list) list \<Rightarrow> nat set \<Rightarrow> nat set" where
  "fill_places [] kept = kept"
| "fill_places ((None, reps) # rules) kept = fill_places rules kept"
| "fill_places ((Some m, reps) # rules) kept =
     fill_places rules (kept \<union> set (take m (filter (\<lambda>i. i \<notin> kept) reps)))"

definition retained_at_most ::
  "calendar \<Rightarrow> snapshot_entry list \<Rightarrow> retention_config \<Rightarrow> int option \<Rightarrow> nat set" where
  "retained_at_most cal snapshots p cutoff =
     fill_places (bucket_rules cal snapshots p)
       ((case cutoff of None \<Rightarrow> {} | Some c \<Rightarrow> {i. i < length snapshots \<and> c \<le> sn_time (snapshots ! i)})
        \<union> (case keep_last p of None \<Rightarrow> {} | Some n \<Rightarrow> set (take n (newest_first snapshots))))"

text \<open>Policies in which no two rules can claim the same snapshot.\<close>

definition one_rule :: "retention_config \<Rightarrow> bool" where
  "one_rule p \<longleftrightarrow> length (filter id [keep_within p \<noteq> None, keep_last p \<noteq> None, keep_hourly p \<noteq> None,
     keep_daily p \<noteq> None, keep_weekly p \<noteq> None, keep_monthly p \<noteq> None, keep_yearly p \<noteq> None]) \<le> 1"

section \<open>Lemmas\<close>

definition st_ok :: "retention_state \<Rightarrow> bool" where
  "st_ok st \<longleftrightarrow> distinct (rs_kept st) \<and> fst ` set (rs_reasons st) = set (rs_kept st)"

lemma keys_hm_insert [simp]: "fst ` set (hm_insert k v m) = insert k (fst ` set m)"
  by (simp flip: dom_map_of_conv_image_fst)

lemma st_ok_push:
  assumes "st_ok st" and "idx \<in> set (rs_kept st)"
  shows "st_ok (push_reason idx r st)" and "rs_kept (push_reason idx r st) = rs_kept st"
  using assms by (auto simp: st_ok_def push_reason_def)

lemma st_ok_keep:
  assumes "st_ok st"
  shows "st_ok (push_reason idx r (keep_idx idx st))"
    and "set (rs_kept (push_reason idx r (keep_idx idx st))) = insert idx (set (rs_kept st))"
  using assms by (auto simp: st_ok_def push_reason_def keep_idx_def)

lemma bucket_loop_spec:
  assumes "st_ok st"
  shows "st_ok (bucket_loop key_fn time_of n rule idxs seen c st)
    \<and> set (rs_kept (bucket_loop key_fn time_of n rule idxs seen c st)) = set (rs_kept st) \<union> set (take (n - c) (bucket_reps (key_fn \<circ> time_of) (set seen) idxs))"
  using assms
proof (induction idxs arbitrary: seen c st)
  case Nil
  then show ?case by simp
next
  case (Cons i idxs)
  let ?r = "rule @ '' #'' @ show_nat (c + 1)"
  show ?case
  proof (cases "key_fn (time_of i) \<in> set seen")
    case True
    then show ?thesis using Cons.IH [OF Cons.prems] by (simp add: Let_def)
  next
    case new: False
    show ?thesis
    proof (cases "i \<in> set (rs_kept st)")
      case True
      note p = st_ok_push [OF Cons.prems True, of ?r]
      show ?thesis
      proof (cases "n \<le> c + 1")
        case True
        then have "n - c = 0 \<or> n - c = 1" by auto
        then show ?thesis using True new \<open>i \<in> set (rs_kept st)\<close> p
          by (auto simp: Let_def)
      next
        case False
        then have "n - c = Suc (n - (c + 1))" by simp
        then show ?thesis
          using Cons.IH [OF p(1), of "key_fn (time_of i) # seen" "c + 1"] False new \<open>i \<in> set (rs_kept st)\<close> p(2)
          by (auto simp: Let_def)
      qed
    next
      case fresh: False
      show ?thesis
      proof (cases "c < n")
        case True
        note p = st_ok_keep [OF Cons.prems, of i ?r]
        from True have n: "n - c = Suc (n - (c + 1))" by simp
        show ?thesis
        proof (cases "n \<le> c + 1")
          case last: True
          then have "n - (c + 1) = 0" by simp
          then show ?thesis using last True new fresh p n by (simp add: Let_def)
        next
          case False
          then show ?thesis
            using Cons.IH [OF p(1), of "key_fn (time_of i) # seen" "c + 1"] True new fresh p(2) n
            by (auto simp: Let_def)
        qed
      next
        case False
        then show ?thesis using new fresh Cons.prems by (simp add: Let_def)
      qed
    qed
  qed
qed

lemma bucket_rule_opt_spec:
  assumes "st_ok st"
  shows "st_ok (bucket_rule_opt n idxs time_of key_fn rule st)
    \<and> set (rs_kept (bucket_rule_opt n idxs time_of key_fn rule st))
      = set (rs_kept st) \<union> newest_per_bucket n (key_fn \<circ> time_of) idxs"
  using bucket_loop_spec [OF assms, of key_fn time_of _ rule idxs "[]" 0] assms
  by (cases n) (simp_all add: bucket_rule_opt_def newest_per_bucket_def apply_bucket_rule_def)

lemma within_loop_spec:
  assumes "st_ok st"
  shows "st_ok (within_loop time_of c idxs st)
    \<and> set (rs_kept (within_loop time_of c idxs st)) = set (rs_kept st) \<union> {i \<in> set idxs. c \<le> time_of i}"
  using assms
proof (induction idxs arbitrary: st)
  case (Cons i idxs)
  show ?case
  proof (cases "c \<le> time_of i")
    case True
    then show ?thesis using Cons.IH st_ok_keep [OF Cons.prems, of i "''within''"] by auto
  next
    case False
    then show ?thesis using Cons.IH Cons.prems by auto
  qed
qed simp

lemma last_loop_spec:
  assumes "st_ok st"
  shows "st_ok (last_loop n j idxs st)
    \<and> set (rs_kept (last_loop n j idxs st)) = set (rs_kept st) \<union> set (take (n - j) idxs)"
  using assms
proof (induction idxs arbitrary: st j)
  case (Cons i idxs)
  show ?case
  proof (cases "n \<le> j")
    case False
    then have "n - j = Suc (n - (j + 1))" by simp
    moreover note p = st_ok_keep [OF Cons.prems, of i "''last #'' @ show_nat (j + 1)"]
    ultimately show ?thesis using Cons.IH [OF p(1), of "j + 1"] p(2) False by auto
  qed (simp add: Cons.prems)
qed simp

lemma newest_first_indices [simp]:
  "set (newest_first snapshots) = {0..<length snapshots}" "distinct (newest_first snapshots)"
  "length (newest_first snapshots) = length snapshots"
  by (simp_all add: newest_first_def)

lemma build_entries_map:
  "distinct idxs \<Longrightarrow> build_entries snapshots reasons idxs =
     map (entry_of snapshots reasons) idxs"
proof (induction idxs arbitrary: reasons)
  case (Cons i idxs)
  then show ?case by (auto simp: entry_of_def)
qed simp

lemma apply_rules_spec:
  fixes snapshots :: "snapshot_entry list" and cal p cutoff
  defines "st \<equiv> apply_rules cal p (newest_first snapshots) (\<lambda>i. sn_time (snapshots ! i)) cutoff"
  shows "st_ok st \<and> set (rs_kept st) = retained cal snapshots p cutoff"
proof -
  let ?idxs = "newest_first snapshots" and ?t = "\<lambda>i. sn_time (snapshots ! i)"
  define st0 where "st0 = \<lparr>rs_kept = [], rs_reasons = []\<rparr>"
  define st1 where "st1 = (case cutoff of None \<Rightarrow> st0 | Some c \<Rightarrow> within_loop ?t c ?idxs st0)"
  define st2 where "st2 = (case keep_last p of None \<Rightarrow> st1 | Some n \<Rightarrow> last_loop n 0 ?idxs st1)"
  have 0: "st_ok st0 \<and> rs_kept st0 = []" by (simp add: st0_def st_ok_def)
  have 1: "st_ok st1 \<and> set (rs_kept st1) = (case cutoff of None \<Rightarrow> {} | Some c \<Rightarrow> {i. i < length snapshots \<and> c \<le> ?t i})"
    using 0 within_loop_spec [of st0 ?t _ ?idxs] by (cases cutoff) (auto simp: st1_def)
  have 2: "st_ok st2 \<and> set (rs_kept st2) = set (rs_kept st1) \<union> (case keep_last p of None \<Rightarrow> {} | Some n \<Rightarrow> set (take n ?idxs))"
    using 1 last_loop_spec [of st1 _ 0 ?idxs] by (cases "keep_last p") (auto simp: st2_def)
  have st: "st = bucket_rule_opt (keep_yearly p) ?idxs ?t (yearly_key cal) ''yearly''
      (bucket_rule_opt (keep_monthly p) ?idxs ?t (monthly_key cal) ''monthly''
      (bucket_rule_opt (keep_weekly p) ?idxs ?t (weekly_key cal) ''weekly''
      (bucket_rule_opt (keep_daily p) ?idxs ?t (daily_key cal) ''daily''
      (bucket_rule_opt (keep_hourly p) ?idxs ?t (hourly_key cal) ''hourly'' st2))))"
    by (simp only: st_def apply_rules_def Let_def st2_def st1_def st0_def)
  note rule = bucket_rule_opt_spec [THEN conjunct1] bucket_rule_opt_spec [THEN conjunct2]
  show ?thesis using 1 2 unfolding st retained_def Let_def by (simp add: rule)
qed

text \<open>What a successful call decides, entry by entry.\<close>

lemma apply_policy_Inr:
  assumes "apply_policy cal snapshots p now = Inr es" and "snapshots \<noteq> []"
  obtains cutoff reasons where "within_cutoff cal p now = Inr cutoff"
    and "es = map (entry_of snapshots reasons) (newest_first snapshots)"
    and "dom (map_of reasons) = retained cal snapshots p cutoff"
    and "retained cal snapshots p cutoff \<noteq> {}"
proof -
  let ?idxs = "newest_first snapshots" and ?t = "\<lambda>i. sn_time (snapshots ! i)"
  from assms obtain cutoff where c: "within_cutoff cal p now = Inr cutoff"
    by (auto simp: apply_policy_def Let_def rbind_Inr_iff)
  define st where "st = apply_rules cal p ?idxs ?t cutoff"
  have nz: "length snapshots - length (rs_kept st) \<noteq> length snapshots"
    and es: "es = build_entries snapshots (rs_reasons st) ?idxs"
    using assms c unfolding apply_policy_def Let_def st_def by (auto split: if_splits)
  have 3: "st_ok st \<and> set (rs_kept st) = retained cal snapshots p cutoff"
    unfolding st_def by (rule apply_rules_spec)
  have "dom (map_of (rs_reasons st)) = retained cal snapshots p cutoff"
    using 3 by (simp add: st_ok_def dom_map_of_conv_image_fst)
  moreover have "retained cal snapshots p cutoff \<noteq> {}"
    using nz 3 by (metis diff_zero list.size(3) set_empty2)
  ultimately show ?thesis using that [OF c, of "rs_reasons st"] es by (simp add: build_entries_map)
qed

lemma newest_first_sorted:
  "sorted_wrt (\<lambda>i j. sn_time (snapshots ! j) \<le> sn_time (snapshots ! i)) (newest_first snapshots)"
proof -
  have "sorted (map (\<lambda>i. - sn_time (snapshots ! i)) (newest_first snapshots))"
    by (simp add: newest_first_def)
  then show ?thesis by (simp add: sorted_map)
qed

lemma apply_policy_length: "apply_policy cal ss p now = Inr es \<Longrightarrow> length es = length ss"
proof (cases "ss = []")
  case False
  assume "apply_policy cal ss p now = Inr es"
  then show ?thesis by (rule apply_policy_Inr [OF _ False]) simp
qed (simp add: apply_policy_def)

lemma set_bucket_reps: "set (bucket_reps key S xs) \<subseteq> set xs"
  by (induction xs arbitrary: S) auto

lemma newest_per_bucket_subset: "newest_per_bucket n key xs \<subseteq> set xs"
  using set_bucket_reps [of key "{}" xs] set_take_subset [of _ "bucket_reps key {} xs"]
  by (auto simp: newest_per_bucket_def split: option.splits)

lemma retained_subset: "retained cal ss p cutoff \<subseteq> {0..<length ss}"
proof -
  have eq: "{0..<length ss} = set (newest_first ss)" by simp
  show ?thesis
    unfolding retained_def Let_def eq
    by (intro Un_least newest_per_bucket_subset) (auto split: option.splits dest: in_set_takeD)
qed

lemma apply_policy_keeps_one:
  assumes "apply_policy cal ss p now = Inr es" and "ss \<noteq> []"
  shows "\<exists>e \<in> set es. pe_decision e \<noteq> Prune \<and> pe_snapshot_name e \<in> sn_name ` set ss"
  using assms
proof (rule apply_policy_Inr)
  fix cutoff reasons
  assume es: "es = map (entry_of ss reasons) (newest_first ss)"
    and dom: "dom (map_of reasons) = retained cal ss p cutoff" and ne: "retained cal ss p cutoff \<noteq> {}"
  obtain i where i: "i \<in> retained cal ss p cutoff" using ne by blast
  then have len: "i < length ss" using retained_subset [of cal ss p cutoff] by auto
  obtain r where r: "map_of reasons i = Some r" using i dom by auto
  have "entry_of ss reasons i \<in> set es" using len by (simp add: es)
  then show ?thesis
    using len r by (intro bexI [of _ "entry_of ss reasons i"]) (auto simp: entry_of_def)
qed

lemma label_loop_keeps:
  assumes "label_loop cal ss dflt sources now groups acc = Inr es"
  shows "set acc \<subseteq> set es" and "(l, idxs) \<in> set groups \<Longrightarrow> idxs \<noteq> [] \<Longrightarrow>
    \<exists>e \<in> set es. pe_decision e \<noteq> Prune \<and> pe_snapshot_name e \<in> (\<lambda>i. sn_name (ss ! i)) ` set idxs"
  using assms
proof (atomize (full), induction groups arbitrary: acc)
  case Nil
  then show ?case by simp
next
  case (Cons g groups)
  obtain l' is' where g: "g = (l', is')" by (cases g)
  let ?group = "map (\<lambda>i. ss ! i) is'" and ?p = "case map_of sources l' of Some p \<Rightarrow> p | None \<Rightarrow> dflt"
  have "\<exists>new. label_loop cal ss dflt sources now groups (acc @ new) = Inr es \<and> (is' \<noteq> [] \<longrightarrow>
    (\<exists>e \<in> set new. pe_decision e \<noteq> Prune \<and> pe_snapshot_name e \<in> (\<lambda>i. sn_name (ss ! i)) ` set is'))"
  proof (cases "has_any_rule ?p")
    case True
    then obtain new where a: "apply_policy cal ?group ?p now = Inr new"
      and l: "label_loop cal ss dflt sources now groups (acc @ new) = Inr es"
      using Cons.prems g by (auto simp: Let_def rbind_Inr_iff)
    have "\<exists>e \<in> set new. pe_decision e \<noteq> Prune \<and> pe_snapshot_name e \<in> (\<lambda>i. sn_name (ss ! i)) ` set is'"
      if "is' \<noteq> []"
      using apply_policy_keeps_one [OF a] that by (simp add: image_image)
    then show ?thesis using l by blast
  next
    case False
    then show ?thesis
      using Cons.prems g by (intro exI [of _ "map _ ?group"] conjI) (auto simp: Let_def neq_Nil_conv)
  qed
  then show ?case using Cons.IH g by fastforce
qed

lemma max_by_time_max:
  "max_by_time xs = Some x \<Longrightarrow> x \<in> set xs \<and> (\<forall>y \<in> set xs. sn_time y \<le> sn_time x)"
proof (induction xs arbitrary: x)
  case (Cons a xs)
  show ?case
  proof (cases "max_by_time xs")
    case None
    then have "xs = []" by (cases xs) (auto split: option.splits if_splits)
    then show ?thesis using Cons.prems by simp
  next
    case (Some y)
    then show ?thesis using Cons.IH [OF Some] Cons.prems by (auto split: if_splits)
  qed
qed simp

lemma remove_first_splits:
  fixes x :: snapshot_entry
  shows "x \<in> set xs \<Longrightarrow> P x \<Longrightarrow> \<exists>us y vs. xs = us @ y # vs \<and> P y \<and> remove_first P xs = (Some y, us @ vs)"
proof (induction xs)
  case (Cons a xs)
  show ?case
  proof (cases "P a")
    case True
    then show ?thesis by (intro exI [of _ "[]"]) auto
  next
    case False
    then obtain us y vs where "xs = us @ y # vs" "P y" "remove_first P xs = (Some y, us @ vs)"
      using Cons by auto
    then show ?thesis using False by (intro exI [of _ "a # us"] exI [of _ y] exI [of _ vs]) auto
  qed
qed simp

text \<open>The two readings of the bucket rules.\<close>

lemma take_filter_covers: "set (take m xs) \<subseteq> K \<union> set (take m (filter (\<lambda>i. i \<notin> K) xs))"
proof (induction xs arbitrary: m)
  case (Cons x xs)
  show ?case
  proof (cases m)
    case (Suc n)
    let ?f = "filter (\<lambda>i. i \<notin> K) xs"
    have "set (take n ?f) \<subseteq> set (take (Suc n) ?f)" by (rule set_take_subset_set_take) simp
    then show ?thesis using Cons.IH [of n] Suc by (cases "x \<in> K") auto
  qed simp
qed simp

lemma fill_places_covers:
  "kept \<union> (\<Union>(n, reps) \<in> set rules. case n of None \<Rightarrow> {} | Some m \<Rightarrow> set (take m reps)) \<subseteq> fill_places rules kept"
proof (induction rules kept rule: fill_places.induct)
  case (3 m reps rules kept)
  then show ?case using take_filter_covers [of m reps kept] by auto
qed auto

lemma retained_covered: "retained cal snapshots p cutoff \<subseteq> retained_at_most cal snapshots p cutoff"
  unfolding retained_at_most_def
  by (rule subset_trans [OF _ fill_places_covers])
     (auto simp: retained_def bucket_rules_def newest_per_bucket_def Let_def)

lemma one_rule_at_most:
  assumes "one_rule p" and "within_cutoff cal p now = Inr cutoff"
  shows "retained_at_most cal snapshots p cutoff = retained cal snapshots p cutoff"
proof -
  have w: "keep_within p = None \<Longrightarrow> cutoff = None" using assms(2) by (simp add: within_cutoff_def)
  note defs = retained_at_most_def retained_def bucket_rules_def newest_per_bucket_def Let_def
  show ?thesis
  proof (cases "keep_within p = None \<and> keep_last p = None")
    case True
    then have "cutoff = None" using w by simp
    then show ?thesis
      using True assms(1) by (auto simp: one_rule_def defs split: if_splits)
  next
    case False
    then have "keep_hourly p = None" "keep_daily p = None" "keep_weekly p = None" "keep_monthly p = None"
        "keep_yearly p = None"
      using assms(1) by (auto simp: one_rule_def split: if_splits)
    then show ?thesis by (simp add: defs)
  qed
qed

section \<open>Properties\<close>

text \<open>C10: What a retention policy keeps.  The decisions come newest first, one for each snapshot.
  Every snapshot of the reference definition is kept: those within the period, the newest \<open>keep_last\<close>
  ones, and for each bucket rule the newest snapshot of each of the newest buckets, as many as the rule
  says.  Nothing more is kept than the rules allow when a bucket whose newest snapshot another rule has
  kept uses up no place.  The two agree when the policy has one rule, and then the decisions are exactly
  those of the reference.\<close>

theorem retention_between_references:
  assumes "apply_policy cal snapshots p now = Inr es" and "snapshots \<noteq> []"
  shows "\<exists>cutoff. within_cutoff cal p now = Inr cutoff \<and>
    list_all2 (\<lambda>i e. pe_snapshot_name e = sn_name (snapshots ! i)
        \<and> pe_snapshot_time e = sn_time (snapshots ! i)
        \<and> (i \<in> retained cal snapshots p cutoff \<longrightarrow> pe_decision e \<noteq> Prune)
        \<and> (pe_decision e \<noteq> Prune \<longrightarrow> i \<in> retained_at_most cal snapshots p cutoff)
        \<and> (one_rule p \<longrightarrow> (pe_decision e = Prune \<longleftrightarrow> i \<notin> retained cal snapshots p cutoff)))
      (newest_first snapshots) es"
  using assms
proof (rule apply_policy_Inr)
  fix cutoff reasons
  assume c: "within_cutoff cal p now = Inr cutoff" and es: "es = map (entry_of snapshots reasons) (newest_first snapshots)"
    and dom: "dom (map_of reasons) = retained cal snapshots p cutoff"
  have "pe_decision (entry_of snapshots reasons i) = Prune \<longleftrightarrow> i \<notin> retained cal snapshots p cutoff" for i
    unfolding dom [symmetric] by (auto simp: entry_of_def split: option.splits)
  with c es show ?thesis
    using retained_covered [of cal snapshots p cutoff]
    by (intro exI [of _ cutoff]) (auto simp: list_all2_map2 list_all2_same entry_of_def)
qed

text \<open>C31: A retention policy that succeeds on a non-empty list keeps at least one snapshot.\<close>

theorem prune_never_removes_all:
  assumes "apply_policy cal snapshots p now = Inr es" and "snapshots \<noteq> []"
  shows "\<exists>e \<in> set es. pe_decision e \<noteq> Prune"
  using apply_policy_keeps_one [OF assms] by blast

text \<open>C32: Pruning by source label keeps at least one snapshot of every label.\<close>

theorem label_policy_keeps_every_source:
  assumes "apply_policy_by_label cal snapshots dflt sources now = Inr es" and "s \<in> set snapshots"
  shows "\<exists>e \<in> set es. pe_decision e \<noteq> Prune \<and>
    (\<exists>s' \<in> set snapshots. sn_source_label s' = sn_source_label s \<and> pe_snapshot_name e = sn_name s')"
proof -
  let ?idxs = "filter (\<lambda>i. sn_source_label (snapshots ! i) = sn_source_label s) [0..<length snapshots]"
  obtain es' where l: "label_loop cal snapshots dflt sources now (label_groups snapshots) [] = Inr es'"
    and es: "set es = set es'"
    using assms(1) by (auto simp: apply_policy_by_label_def rbind_Inr_iff)
  have "(sn_source_label s, ?idxs) \<in> set (label_groups snapshots)"
    using assms(2) by (auto simp: label_groups_def)
  moreover have "?idxs \<noteq> []"
    using assms(2) by (auto simp: in_set_conv_nth filter_empty_conv)
  ultimately obtain e where "e \<in> set es'" "pe_decision e \<noteq> Prune"
    "pe_snapshot_name e \<in> (\<lambda>i. sn_name (snapshots ! i)) ` set ?idxs"
    using label_loop_keeps(2) [OF l] by blast
  then show ?thesis unfolding es by (intro bexI [of _ e]) auto
qed

text \<open>C34: The query \<open>latest\<close> resolves to a snapshot no other snapshot is newer than, and any
  other query only to a snapshot of that name; removing a resolved snapshot by its name takes
  one entry of that name and keeps the rest in order.\<close>

theorem resolve_snapshot_correct:
  assumes "resolve_snapshot m query = Inr s"
  shows "s \<in> set (mf_snapshots m)
    \<and> (if eq_ignore_ascii_case query ''latest'' then \<forall>x \<in> set (mf_snapshots m). sn_time x \<le> sn_time s
       else sn_name s = query)
    \<and> (\<exists>xs y ys. mf_snapshots m = xs @ y # ys \<and> sn_name y = sn_name s
        \<and> remove_snapshot (sn_name s) m = (Some y, m\<lparr>mf_snapshots := xs @ ys\<rparr>))"
proof -
  have s: "s \<in> set (mf_snapshots m)"
    and *: "if eq_ignore_ascii_case query ''latest'' then \<forall>x \<in> set (mf_snapshots m). sn_time x \<le> sn_time s
       else sn_name s = query"
    using assms max_by_time_max
    by (auto simp: resolve_snapshot_def ok_or_def find_snapshot_def find_Some_iff split: if_splits option.splits)
  obtain us y vs where "mf_snapshots m = us @ y # vs" "sn_name y = sn_name s"
    "remove_first (\<lambda>a. sn_name a = sn_name s) (mf_snapshots m) = (Some y, us @ vs)"
    using remove_first_splits [OF s, of "\<lambda>a. sn_name a = sn_name s"] by auto
  then show ?thesis using s * by (intro conjI) (auto simp: remove_snapshot_def)
qed

section \<open>Witnesses\<close>

definition wit_snap :: "string \<Rightarrow> int \<Rightarrow> snapshot_entry" where
  "wit_snap name t = \<lparr>sn_name = name, sn_id = SnapshotId [], sn_time = t, sn_source_label = [],
     sn_label = [], sn_source_paths = [], sn_hostname = []\<rparr>"

definition wit_cal :: calendar where
  "wit_cal = \<lparr>cal_year = (\<lambda>t. t div 1000), cal_ordinal = (\<lambda>t. nat (t mod 1000 div 10)),
     cal_hour = (\<lambda>t. nat (t mod 10)), cal_iso_year = (\<lambda>t. t div 1000), cal_iso_week = (\<lambda>_. 0),
     cal_month = (\<lambda>_. 0), cal_min = -1000000000000000000, cal_max = 1000000000000000000\<rparr>"

definition wit_policy :: retention_config where
  "wit_policy = \<lparr>keep_within = None, keep_last = None, keep_hourly = None, keep_daily = Some 1,
     keep_weekly = None, keep_monthly = None, keep_yearly = None\<rparr>"

lemma wit_sort:
  "newest_first [wit_snap ''a'' 1011, wit_snap ''b'' 1012] = [1, 0]"
  by (simp add: newest_first_def wit_snap_def upt_rec)

lemma wit_apply:
  "apply_policy wit_cal [wit_snap ''a'' 1011, wit_snap ''b'' 1012] wit_policy 2000 =
     Inr [\<lparr>pe_snapshot_name = ''b'', pe_snapshot_time = 1012, pe_decision = Keep [''daily #1'']\<rparr>,
          \<lparr>pe_snapshot_name = ''a'', pe_snapshot_time = 1011, pe_decision = Prune\<rparr>]"
proof -
  have "show_nat (Suc 0) = ''1''" by code_simp
  then show ?thesis
    by (simp add: apply_policy_def within_cutoff_def wit_policy_def apply_rules_def bucket_rule_opt_def
        apply_bucket_rule_def Let_def wit_sort push_reason_def keep_idx_def hm_insert_def entry_of_def
        hm_remove_def) (simp add: wit_snap_def)
qed

lemma retention_between_references_witness:
  "\<exists>cutoff. within_cutoff wit_cal wit_policy 2000 = Inr cutoff
    \<and> 1 \<in> retained_at_most wit_cal [wit_snap ''a'' 1011, wit_snap ''b'' 1012] wit_policy cutoff
    \<and> 0 \<notin> retained wit_cal [wit_snap ''a'' 1011, wit_snap ''b'' 1012] wit_policy cutoff"
  using retention_between_references [OF wit_apply] by (auto simp: wit_sort)

lemma prune_never_removes_all_witness:
  "\<exists>es. apply_policy wit_cal [wit_snap ''a'' 1011, wit_snap ''b'' 1012] wit_policy 2000 = Inr es
    \<and> \<not> list_all (\<lambda>e. pe_decision e = Prune) es"
  using prune_never_removes_all [OF wit_apply] wit_apply by auto

lemma wit_by_label:
  "apply_policy_by_label wit_cal [wit_snap ''a'' 1011, wit_snap ''b'' 1012] wit_policy [] 2000 =
     Inr [\<lparr>pe_snapshot_name = ''b'', pe_snapshot_time = 1012, pe_decision = Keep [''daily #1'']\<rparr>,
          \<lparr>pe_snapshot_name = ''a'', pe_snapshot_time = 1011, pe_decision = Prune\<rparr>]"
proof -
  have "label_groups [wit_snap ''a'' 1011, wit_snap ''b'' 1012] = [([], [0, 1])]"
    by (simp add: label_groups_def wit_snap_def upt_rec)
  moreover have "has_any_rule wit_policy" by (simp add: has_any_rule_def wit_policy_def)
  ultimately show ?thesis by (simp add: apply_policy_by_label_def wit_apply)
qed

lemma label_policy_keeps_every_source_witness:
  "\<exists>es. apply_policy_by_label wit_cal [wit_snap ''a'' 1011, wit_snap ''b'' 1012] wit_policy [] 2000 = Inr es
    \<and> \<not> list_all (\<lambda>e. pe_decision e = Prune) es"
  using label_policy_keeps_every_source [OF wit_by_label, of "wit_snap ''a'' 1011"] wit_by_label by auto

lemma resolve_snapshot_correct_witness:
  "\<exists>s. resolve_snapshot (from_snapshot_entries 0 [wit_snap ''a'' 5, wit_snap ''b'' 7]) ''Latest'' = Inr s
     \<and> sn_name s = ''b''"
proof -
  have e: "eq_ignore_ascii_case ''Latest'' ''latest''" by code_simp
  then have r: "resolve_snapshot (from_snapshot_entries 0 [wit_snap ''a'' 5, wit_snap ''b'' 7]) ''Latest''
      = Inr (wit_snap ''b'' 7)"
    by (simp add: resolve_snapshot_def from_snapshot_entries_def) (simp add: wit_snap_def)
  show ?thesis using resolve_snapshot_correct [OF r] r by (simp add: wit_snap_def)
qed

end
