(* ===== verification/Pack.thy ===== *)
theory Pack
  imports Storage Chunk_Index
begin

text \<open>
  \<open>vykar-core/src/repo/pack.rs\<close>: the pack writer, which concatenates encrypted blobs behind
  a nine-byte header with a four-byte length prefix each, the sealing and flushing of a pack,
  the reading of one blob by range, and the forward scan of a pack.

  \<open>usize\<close> values are natural numbers (a buffer fits in memory), offsets and lengths that the
  source casts are words.  The monotonic clock is an argument, in nanoseconds.
  \<open>pw_rel\<close> relates a writer to the list of blobs and reference counts it stands for.
\<close>

section \<open>Definitions\<close>

datatype pack_type = Data | Tree

record blob_meta =
  bm_chunk_id :: chunk_id
  bm_stored_size :: u32

definition MAX_BLOBS_PER_PACK :: nat where "MAX_BLOBS_PER_PACK = 10000"

definition PACK_MAX_AGE_SECS :: nat where "PACK_MAX_AGE_SECS = 300"

type_synonym packed_chunk_entry = "chunk_id \<times> u32 \<times> u64 \<times> u32"

record sealed_pack =
  sp_pack_id :: pack_id
  sp_entries :: "packed_chunk_entry list"
  sp_data :: bytes

definition sealed_data_put_to ::
  "bytes \<Rightarrow> 's storage_backend \<Rightarrow> string \<Rightarrow> ('s, vykar_error, unit) io" where
  "sealed_data_put_to v storage key = be_put_owned storage key v"

record pack_writer =
  pw_pack_type :: pack_type
  pw_target_size :: nat
  pw_buffer :: "bytes option"
  pw_blob_meta :: "blob_meta list"
  pw_current_size :: nat
  pw_pending :: "(chunk_id, u32 \<times> u32) hmap"
  pw_first_blob_time :: "nat option"

definition pw_new :: "pack_type \<Rightarrow> nat \<Rightarrow> pack_writer" where
  "pw_new ty target =
     \<lparr>pw_pack_type = ty, pw_target_size = target, pw_buffer = None, pw_blob_meta = [],
      pw_current_size = 0, pw_pending = [], pw_first_blob_time = None\<rparr>"

definition pw_init_buffer :: "pack_writer \<Rightarrow> pack_writer" where
  "pw_init_buffer w = w\<lparr>pw_buffer := Some (PACK_MAGIC @ [PACK_VERSION_CURRENT])\<rparr>"

definition pw_add_blob ::
  "nat \<Rightarrow> pack_writer \<Rightarrow> chunk_id \<Rightarrow> bytes \<Rightarrow> u64 result \<times> pack_writer" where
  "pw_add_blob now w cid blob =
     (let blob_len = of_nat (length blob) :: u32;
          w1 = (if pw_blob_meta w = [] then pw_init_buffer w else w);
          off = of_nat PACK_HEADER_SIZE + of_nat (pw_current_size w1) + 4 :: u64
      in case pw_buffer w1 of
           None \<Rightarrow> (Inl (Panicked ''buffer initialized above''), w1)
         | Some v \<Rightarrow>
             (Inr off,
              w1\<lparr>pw_buffer := Some (v @ u32_to_le_bytes blob_len @ blob),
                 pw_current_size := pw_current_size w1 + (4 + length blob),
                 pw_first_blob_time :=
                   (case pw_first_blob_time w1 of None \<Rightarrow> Some now | Some t \<Rightarrow> Some t),
                 pw_pending := hm_insert cid (blob_len, 1) (pw_pending w1),
                 pw_blob_meta := pw_blob_meta w1
                   @ [\<lparr>bm_chunk_id = cid, bm_stored_size = blob_len\<rparr>]\<rparr>))"

definition pw_contains_pending :: "pack_writer \<Rightarrow> chunk_id \<Rightarrow> bool" where
  "pw_contains_pending w cid = hm_contains (pw_pending w) cid"

definition pw_increment_pending :: "pack_writer \<Rightarrow> chunk_id \<Rightarrow> pack_writer" where
  "pw_increment_pending w cid =
     w\<lparr>pw_pending := hm_modify cid (\<lambda>(sz, rc). (sz, rc + 1)) (pw_pending w)\<rparr>"

definition pw_get_pending_stored_size :: "pack_writer \<Rightarrow> chunk_id \<Rightarrow> u32 option" where
  "pw_get_pending_stored_size w cid = map_option fst (map_of (pw_pending w) cid)"

definition pw_should_flush :: "nat \<Rightarrow> pack_writer \<Rightarrow> bool" where
  "pw_should_flush now w =
     (if pw_blob_meta w = [] then False
      else if pw_target_size w \<le> pw_current_size w then True
      else if MAX_BLOBS_PER_PACK \<le> length (pw_blob_meta w) then True
      else (case pw_first_blob_time w of
              Some t \<Rightarrow> PACK_MAX_AGE_SECS \<le> (now - t) div 10 ^ 9
            | None \<Rightarrow> False))"

definition pw_has_pending :: "pack_writer \<Rightarrow> bool" where
  "pw_has_pending w \<longleftrightarrow> pw_blob_meta w \<noteq> []"

definition pw_set_target_size :: "pack_writer \<Rightarrow> nat \<Rightarrow> pack_writer" where
  "pw_set_target_size w target = w\<lparr>pw_target_size := target\<rparr>"

fun seal_results ::
  "(chunk_id, u32 \<times> u32) hmap \<Rightarrow> nat \<Rightarrow> blob_meta list \<Rightarrow> packed_chunk_entry list" where
  "seal_results pending running_offset [] = []"
| "seal_results pending running_offset (m # ms) =
     (bm_chunk_id m, bm_stored_size m, of_nat running_offset + 4,
      (case map_of pending (bm_chunk_id m) of Some (_, rc) \<Rightarrow> rc | None \<Rightarrow> 1))
     # seal_results pending (running_offset + (4 + unat (bm_stored_size m))) ms"

definition pw_seal :: "blake2_lib \<Rightarrow> pack_writer \<Rightarrow> sealed_pack result \<times> pack_writer" where
  "pw_seal b2 w =
     (if pw_blob_meta w = [] then (Inl (Other ''cannot seal empty pack writer''), w)
      else
        let results = seal_results (pw_pending w) PACK_HEADER_SIZE (pw_blob_meta w) in
        case pw_buffer w of
          None \<Rightarrow> (Inl (Panicked ''buffer was initialized''), w)
        | Some v \<Rightarrow>
            (Inr \<lparr>sp_pack_id = pack_id_compute b2 v, sp_entries = results, sp_data = v\<rparr>,
             w\<lparr>pw_buffer := None, pw_blob_meta := [], pw_current_size := 0,
               pw_pending := [], pw_first_blob_time := None\<rparr>))"

definition pw_flush ::
  "blake2_lib \<Rightarrow> hex_lib \<Rightarrow> 's storage_backend \<Rightarrow> pack_writer \<Rightarrow> 's \<Rightarrow>
   (pack_id \<times> packed_chunk_entry list) result \<times> pack_writer \<times> 's" where
  "pw_flush b2 hx storage w s =
     (case pw_seal b2 w of
        (Inl e, w') \<Rightarrow> (Inl e, w', s)
      | (Inr sp, w') \<Rightarrow>
          (case be_put storage (pack_storage_key hx (sp_pack_id sp)) (sp_data sp) s of
             (Inl e, s') \<Rightarrow> (Inl e, w', s')
           | (Inr _, s') \<Rightarrow> (Inr (sp_pack_id sp, sp_entries sp), w', s')))"

definition read_blob_from_pack ::
  "hex_lib \<Rightarrow> 's storage_backend \<Rightarrow> pack_id \<Rightarrow> u64 \<Rightarrow> u32 \<Rightarrow> ('s, vykar_error, bytes) io" where
  "read_blob_from_pack hx storage pid off len =
     io_bind (be_get_range storage (pack_storage_key hx pid) off (ucast len)) (\<lambda>v.
       case v of
         None \<Rightarrow> io_fail (Other (''pack not found: '' @ pack_id_display hx pid))
       | Some data \<Rightarrow>
           if length data \<noteq> unat len
           then io_fail (Other (''short read from pack '' @ pack_id_display hx pid
                  @ '' at offset '' @ show_nat (unat off) @ '': expected ''
                  @ show_nat (unat len) @ '' bytes, got '' @ show_nat (length data)))
           else io_return data)"

text \<open>The \<open>while\<close> loop of the scan: the blobs it pushes and the position it stops at.\<close>

function scan_loop :: "bytes \<Rightarrow> nat \<Rightarrow> (u64 \<times> u32) list \<times> nat" where
  "scan_loop d pos =
     (if pos + 4 \<le> length d then
        let blob_len = u32_from_le_bytes (take 4 (drop pos d)) in
        if pos + 4 + unat blob_len > length d then ([], pos)
        else let (blobs, pos') = scan_loop d (pos + (4 + unat blob_len))
             in ((of_nat (pos + 4), blob_len) # blobs, pos')
      else ([], pos))"
  by pat_completeness auto
termination by (relation "measure (\<lambda>(d, pos). length d - pos)") auto

declare scan_loop.simps [simp del]

definition scan_pack_blobs_bytes :: "bytes \<Rightarrow> (u64 \<times> u32) list result" where
  "scan_pack_blobs_bytes d =
     (if length d < PACK_HEADER_SIZE then Inl (InvalidFormat ''pack too small'')
      else if take 8 d \<noteq> PACK_MAGIC then Inl (InvalidFormat ''invalid pack magic'')
      else if d ! 8 < PACK_VERSION_MIN \<or> d ! 8 > PACK_VERSION_MAX
        then Inl (InvalidFormat (''unsupported pack version '' @ show_nat (unat (d ! 8))
                    @ '' (supported: '' @ show_nat (unat PACK_VERSION_MIN) @ ''..=''
                    @ show_nat (unat PACK_VERSION_MAX) @ '')''))
      else let (blobs, pos) = scan_loop d PACK_HEADER_SIZE in
        if pos \<noteq> length d
        then Inl (InvalidFormat (''truncated or corrupt pack: ''
                    @ show_nat (length d - pos) @ '' trailing bytes''))
        else Inr blobs)"

definition scan_pack_blobs ::
  "hex_lib \<Rightarrow> 's storage_backend \<Rightarrow> pack_id \<Rightarrow> ('s, vykar_error, (u64 \<times> u32) list) io" where
  "scan_pack_blobs hx storage pid =
     io_bind (be_get storage (pack_storage_key hx pid)) (\<lambda>v.
       case v of
         None \<Rightarrow> io_fail (Other (''pack not found: '' @ pack_id_display hx pid))
       | Some d \<Rightarrow> (\<lambda>s. (scan_pack_blobs_bytes d, s)))"

definition compute_tree_pack_target :: "u32 \<Rightarrow> nat" where
  "compute_tree_pack_target min_pack_size = min (unat min_pack_size) (4 * 1024 * 1024)"

section \<open>Specification\<close>

text \<open>A pack image, and where its blobs are.\<close>

definition blob_frame :: "bytes \<Rightarrow> bytes" where
  "blob_frame b = u32_to_le_bytes (of_nat (length b)) @ b"

definition pack_image :: "bytes list \<Rightarrow> bytes" where
  "pack_image bs = PACK_MAGIC @ [PACK_VERSION_CURRENT] @ concat (map blob_frame bs)"

fun blob_locs :: "nat \<Rightarrow> bytes list \<Rightarrow> (u64 \<times> u32) list" where
  "blob_locs pos [] = []"
| "blob_locs pos (b # bs) =
     (of_nat (pos + 4), of_nat (length b)) # blob_locs (pos + (4 + length b)) bs"

text \<open>What a writer stands for: the blobs in order, each with its reference count.\<close>

type_synonym abs_pack = "(chunk_id \<times> bytes \<times> u32) list"

definition abs_add :: "chunk_id \<Rightarrow> bytes \<Rightarrow> abs_pack \<Rightarrow> abs_pack" where
  "abs_add i b xs = xs @ [(i, b, 1)]"

definition abs_incr :: "chunk_id \<Rightarrow> abs_pack \<Rightarrow> abs_pack" where
  "abs_incr i xs = map (\<lambda>(j, b, r). (j, b, if j = i then r + 1 else r)) xs"

definition pw_rel :: "pack_writer \<Rightarrow> abs_pack \<Rightarrow> bool" where
  "pw_rel w xs \<longleftrightarrow>
     distinct (map fst xs) \<and>
     (\<forall>(i, b, r) \<in> set xs. length b < 2 ^ 32) \<and>
     pw_blob_meta w =
       map (\<lambda>(i, b, r). \<lparr>bm_chunk_id = i, bm_stored_size = of_nat (length b)\<rparr>) xs \<and>
     pw_current_size w = sum_list (map (\<lambda>(i, b, r). 4 + length b) xs) \<and>
     pw_buffer w = (if xs = [] then None else Some (pack_image (map (\<lambda>(i, b, r). b) xs))) \<and>
     map_of (pw_pending w) = map_of (map (\<lambda>(i, b, r). (i, (of_nat (length b), r))) xs)"

datatype pw_op = Add_blob nat chunk_id bytes | Increment chunk_id

fun pw_exec :: "pw_op \<Rightarrow> pack_writer \<Rightarrow> pack_writer" where
  "pw_exec (Add_blob now i b) w = snd (pw_add_blob now w i b)"
| "pw_exec (Increment i) w = pw_increment_pending w i"

fun abs_exec :: "pw_op \<Rightarrow> abs_pack \<Rightarrow> abs_pack" where
  "abs_exec (Add_blob now i b) xs = abs_add i b xs"
| "abs_exec (Increment i) xs = abs_incr i xs"

text \<open>The callers' discipline: a chunk is added only when it is not pending already.\<close>

fun pw_ops_ok :: "pw_op list \<Rightarrow> abs_pack \<Rightarrow> bool" where
  "pw_ops_ok [] xs = True"
| "pw_ops_ok (Add_blob now i b # ops) xs =
     (i \<notin> fst ` set xs \<and> length b < 2 ^ 32 \<and> pw_ops_ok ops (abs_add i b xs))"
| "pw_ops_ok (Increment i # ops) xs = pw_ops_ok ops (abs_incr i xs)"

section \<open>Lemmas\<close>

lemma length_blob_frame [simp]: "length (blob_frame b) = 4 + length b"
  by (simp add: blob_frame_def)

lemma scan_loop_frames:
  assumes "\<forall>b \<in> set bs. length b < 2 ^ 32"
  shows "scan_loop (pre @ concat (map blob_frame bs)) (length pre) =
           (blob_locs (length pre) bs, length pre + length (concat (map blob_frame bs)))"
  using assms
proof (induction bs arbitrary: pre)
  case Nil
  then show ?case by (simp add: scan_loop.simps)
next
  case (Cons b bs)
  let ?d = "pre @ concat (map blob_frame (b # bs))"
  have len: "u32_from_le_bytes (take 4 (drop (length pre) ?d)) = of_nat (length b)"
    by (simp add: blob_frame_def)
  have "scan_loop ?d (length pre + (4 + length b)) =
      (blob_locs (length pre + (4 + length b)) bs, length ?d)"
    using Cons.IH [of "pre @ blob_frame b"] Cons.prems by simp
  with len Cons.prems show ?case
    by (subst scan_loop.simps) (simp add: Let_def)
qed

lemma scan_loop_sound:
  assumes "scan_loop d pos = (locs, length d)" and "pos \<le> length d"
  shows "\<exists>bs. drop pos d = concat (map blob_frame bs) \<and> locs = blob_locs pos bs
              \<and> (\<forall>b \<in> set bs. length b < 2 ^ 32)"
  using assms
proof (induction d pos arbitrary: locs rule: scan_loop.induct)
  case (1 d pos)
  show ?case
  proof (cases "pos + 4 \<le> length d")
    case False
    with "1.prems" have "locs = [] \<and> pos = length d" by (simp add: scan_loop.simps)
    then show ?thesis by (intro exI [of _ "[]"]) simp
  next
    case True
    let ?h = "take 4 (drop pos d)"
    let ?n = "u32_from_le_bytes ?h"
    let ?b = "take (unat ?n) (drop (pos + 4) d)"
    have fits: "\<not> pos + 4 + unat ?n > length d"
      using "1.prems" True by (auto simp: scan_loop.simps [of d pos] Let_def)
    obtain l where rec: "scan_loop d (pos + (4 + unat ?n)) = (l, length d)"
      and locs: "locs = (of_nat (pos + 4), ?n) # l"
      using "1.prems"(1) True fits
      by (auto simp: scan_loop.simps [of d pos] Let_def split: prod.splits)
    obtain bs where bs: "drop (pos + (4 + unat ?n)) d = concat (map blob_frame bs)"
      "l = blob_locs (pos + (4 + unat ?n)) bs" "\<forall>b \<in> set bs. length b < 2 ^ 32"
      using "1.IH" [OF True refl fits rec] fits by auto
    have lb: "length ?b = unat ?n" using fits by simp
    have small: "unat ?n < 2 ^ 32" using unsigned_less [of ?n] by simp
    have "blob_frame ?b = ?h @ ?b"
      using True lb by (simp add: blob_frame_def u32_to_le_bytes_inverse)
    moreover have "drop pos d = ?h @ drop (pos + 4) d"
      using append_take_drop_id [of 4 "drop pos d"] by (simp add: add.commute)
    moreover have "drop (pos + 4) d = ?b @ drop (pos + (4 + unat ?n)) d"
      using append_take_drop_id [of "unat ?n" "drop (pos + 4) d"] by (simp add: ac_simps)
    ultimately have "drop pos d = concat (map blob_frame (?b # bs))"
      using bs(1) by simp
    moreover have "locs = blob_locs pos (?b # bs)"
      using locs bs(2) lb by simp
    ultimately show ?thesis using bs(3) lb small by (intro exI [of _ "?b # bs"]) auto
  qed
qed

lemma scan_pack_image:
  assumes "\<forall>b \<in> set bs. length b < 2 ^ 32"
  shows "scan_pack_blobs_bytes (pack_image bs) = Inr (blob_locs PACK_HEADER_SIZE bs)"
proof -
  have "scan_loop (pack_image bs) 9 = (blob_locs 9 bs, length (pack_image bs))"
    using scan_loop_frames [OF assms, of "PACK_MAGIC @ [PACK_VERSION_CURRENT]"]
    by (simp add: pack_image_def)
  then show ?thesis
    by (simp add: scan_pack_blobs_bytes_def PACK_HEADER_SIZE_def)
       (simp add: pack_image_def nth_append PACK_VERSION_MIN_def PACK_VERSION_MAX_def
         PACK_VERSION_CURRENT_def)
qed

lemma scan_pack_sound:
  assumes "scan_pack_blobs_bytes d = Inr locs"
  shows "\<exists>bs. d = pack_image bs \<and> locs = blob_locs PACK_HEADER_SIZE bs
              \<and> (\<forall>b \<in> set bs. length b < 2 ^ 32)"
proof -
  from assms have len: "9 \<le> length d" and magic: "take 8 d = PACK_MAGIC"
    and ver: "d ! 8 = 1" and loop: "scan_loop d 9 = (locs, length d)"
    by (auto simp: scan_pack_blobs_bytes_def PACK_HEADER_SIZE_def PACK_VERSION_MIN_def
        PACK_VERSION_MAX_def PACK_VERSION_CURRENT_def Let_def not_less
        split: if_splits prod.splits) unat_arith
  from scan_loop_sound [OF loop len] obtain bs where bs: "drop 9 d = concat (map blob_frame bs)"
    "locs = blob_locs 9 bs" "\<forall>b \<in> set bs. length b < 2 ^ 32" by blast
  have "d = take 8 d @ [d ! 8] @ drop 9 d"
    using len id_take_nth_drop [of 8 d] by simp
  then have "d = pack_image bs"
    using magic ver bs(1) by (simp add: pack_image_def PACK_VERSION_CURRENT_def)
  then show ?thesis using bs by (auto simp: PACK_HEADER_SIZE_def)
qed

text \<open>Every location points at its blob.\<close>

lemma blob_locs_read:
  assumes "\<forall>b \<in> set bs. length b < 2 ^ 32"
    and "length pre + length (concat (map blob_frame bs)) < 2 ^ 64"
  shows "list_all2 (\<lambda>(off, len) c.
           unat off + unat len \<le> length (pre @ concat (map blob_frame bs)) \<and>
           take (unat len) (drop (unat off) (pre @ concat (map blob_frame bs))) = c)
         (blob_locs (length pre) bs) bs"
  using assms
proof (induction bs arbitrary: pre)
  case (Cons b bs)
  have off: "unat (of_nat (length pre + 4) :: u64) = length pre + 4"
    using Cons.prems(2) by (intro unat_of_nat_u64) simp
  have "list_all2 (\<lambda>(off, len) c.
           unat off + unat len \<le> length ((pre @ blob_frame b) @ concat (map blob_frame bs)) \<and>
           take (unat len) (drop (unat off) ((pre @ blob_frame b) @ concat (map blob_frame bs))) = c)
         (blob_locs (length (pre @ blob_frame b)) bs) bs"
    using Cons.prems by (intro Cons.IH) auto
  moreover have "take (length b) (drop (length pre + 4) (pre @ blob_frame b @ rest)) = b" for rest
    by (simp add: blob_frame_def)
  ultimately show ?case using off Cons.prems(1) by simp
qed simp

lemma length_blob_locs [simp]: "length (blob_locs pos bs) = length bs"
  by (induction pos bs rule: blob_locs.induct) auto

abbreviation abs_blobs :: "abs_pack \<Rightarrow> bytes list" where
  "abs_blobs xs \<equiv> map (\<lambda>(i, b, r). b) xs"

lemma seal_results_eq:
  assumes "\<forall>(i, b, r) \<in> set xs. map_of pend i = Some (of_nat (length b), r) \<and> length b < 2 ^ 32"
  shows "seal_results pend pos
           (map (\<lambda>(i, b, r). \<lparr>bm_chunk_id = i, bm_stored_size = of_nat (length b)\<rparr>) xs) =
         map2 (\<lambda>(i, b, r) (off, sz). (i, sz, off, r)) xs (blob_locs pos (abs_blobs xs))"
  using assms
  by (induction xs arbitrary: pos) (auto simp: add.assoc)

lemma pw_rel_new [simp]: "pw_rel (pw_new ty n) []"
  by (simp add: pw_rel_def pw_new_def)

lemma pack_image_snoc: "pack_image (bs @ [b]) = pack_image bs @ blob_frame b"
  by (simp add: pack_image_def)

lemma pw_rel_add:
  assumes "pw_rel w xs" and "i \<notin> fst ` set xs" and "length b < 2 ^ 32"
  shows "pw_rel (snd (pw_add_blob now w i b)) (abs_add i b xs)"
    and "fst (pw_add_blob now w i b) = Inr (of_nat (length (pack_image (abs_blobs xs)) + 4))"
proof -
  have nil: "xs = [] \<longleftrightarrow> pw_blob_meta w = []" using assms(1) by (auto simp: pw_rel_def)
  have sz: "pw_current_size w = sum_list (map (\<lambda>(i, b, r). 4 + length b) xs)"
    using assms(1) by (simp add: pw_rel_def)
  have "length (concat (map blob_frame (abs_blobs xs))) = sum_list (map (\<lambda>(i, b, r). 4 + length b) xs)"
    by (induction xs) auto
  then have len:
    "length (pack_image (abs_blobs xs)) = 9 + sum_list (map (\<lambda>(i, b, r). 4 + length b) xs)"
    by (simp add: pack_image_def)
  have fresh: "map_of (map (\<lambda>(i, b, r). (i, (of_nat (length b) :: u32, r))) xs) i = None"
    using assms(2) by (force simp: map_of_eq_None_iff)
  have buf: "pw_buffer (if pw_blob_meta w = [] then pw_init_buffer w else w) =
      Some (pack_image (abs_blobs xs))"
    using assms(1) nil by (auto simp: pw_rel_def pw_init_buffer_def pack_image_def)
  show "fst (pw_add_blob now w i b) = Inr (of_nat (length (pack_image (abs_blobs xs)) + 4))"
    using buf sz by (auto simp: pw_add_blob_def Let_def len PACK_HEADER_SIZE_def pw_init_buffer_def)
  show "pw_rel (snd (pw_add_blob now w i b)) (abs_add i b xs)"
    using assms buf sz fresh
    by (auto simp: pw_rel_def pw_add_blob_def Let_def abs_add_def pack_image_snoc blob_frame_def
        pw_init_buffer_def map_add_def fun_eq_iff split: option.splits)
qed

lemma map_of_abs_incr:
  "map_of (map (\<lambda>(i, b, r). (i, (of_nat (length b) :: u32, r))) (abs_incr c xs)) k =
   (if k = c then map_option (\<lambda>(sz, rc). (sz, rc + 1)) else id)
     (map_of (map (\<lambda>(i, b, r). (i, (of_nat (length b), r))) xs) k)"
  by (induction xs) (auto simp: abs_incr_def)

lemma abs_incr_simps [simp]:
  "map fst (abs_incr c xs) = map fst xs" "abs_incr c xs = [] \<longleftrightarrow> xs = []"
  "abs_blobs (abs_incr c xs) = abs_blobs xs"
  "map (\<lambda>(i, b, r). f i b) (abs_incr c xs) = map (\<lambda>(i, b, r). f i b) xs"
  by (auto simp: abs_incr_def comp_def case_prod_beta)

lemma pw_rel_incr:
  assumes "pw_rel w xs"
  shows "pw_rel (pw_increment_pending w c) (abs_incr c xs)"
proof -
  have "\<forall>(i, b, r) \<in> set (abs_incr c xs). length b < 2 ^ 32"
    using assms by (auto simp: pw_rel_def abs_incr_def)
  with assms show ?thesis
    by (auto simp: pw_rel_def pw_increment_pending_def map_of_abs_incr fun_eq_iff
        abs_incr_simps(4) [where f = "\<lambda>i b. 4 + length b"]
        abs_incr_simps(4) [where f = "\<lambda>i b. \<lparr>bm_chunk_id = i, bm_stored_size = of_nat (length b)\<rparr>"])
qed

lemma pw_rel_ops:
  assumes "pw_rel w xs" and "pw_ops_ok ops xs"
  shows "pw_rel (fold pw_exec ops w) (fold abs_exec ops xs)"
  using assms
proof (induction ops xs arbitrary: w rule: pw_ops_ok.induct)
  case (2 now i b ops xs)
  then show ?case using pw_rel_add(1) [of w xs i b now] by simp
next
  case (3 i ops xs)
  then show ?case using pw_rel_incr [of w xs i] by simp
qed simp

lemma map_of_abs_pack:
  "distinct (map fst xs) \<Longrightarrow> (i, b, r) \<in> set xs \<Longrightarrow>
   map_of (map (\<lambda>(i, b, r). (i, (of_nat (length b), r))) xs) i = Some (of_nat (length b), r)"
  by (induction xs) force+

lemma pw_seal_rel:
  assumes "pw_rel w xs" and "xs \<noteq> []"
  obtains sp w' where "pw_seal b2 w = (Inr sp, w')" and "pw_rel w' []"
    and "sp_data sp = pack_image (abs_blobs xs)"
    and "sp_pack_id sp = pack_id_compute b2 (pack_image (abs_blobs xs))"
    and "sp_entries sp = map2 (\<lambda>(i, b, r) (off, sz). (i, sz, off, r)) xs
           (blob_locs PACK_HEADER_SIZE (abs_blobs xs))"
proof -
  have "\<forall>(i, b, r) \<in> set xs. map_of (pw_pending w) i = Some (of_nat (length b), r) \<and> length b < 2 ^ 32"
  proof (clarify, intro conjI)
    fix i b r assume x: "(i, b, r) \<in> set xs"
    show "map_of (pw_pending w) i = Some (of_nat (length b), r)"
      using assms(1) map_of_abs_pack [OF _ x] by (simp add: pw_rel_def)
    show "length b < 2 ^ 32" using assms(1) x by (auto simp: pw_rel_def)
  qed
  note res = seal_results_eq [OF this, of PACK_HEADER_SIZE]
  have "pw_rel (w\<lparr>pw_buffer := None, pw_blob_meta := [], pw_current_size := 0,
               pw_pending := [], pw_first_blob_time := None\<rparr>) []"
    by (simp add: pw_rel_def)
  then show thesis
    using assms res by (intro that) (auto simp: pw_seal_def pw_rel_def Let_def)
qed

lemma list_all2_entries:
  assumes "length xs = length locs" and "list_all2 (\<lambda>(off, len) c. R off len c) locs (abs_blobs xs)"
  shows "list_all2 (\<lambda>(i, sz, off, r) (j, b, r'). i = j \<and> r = r' \<and> R off sz b)
           (map2 (\<lambda>(i, b, r) (off, sz). (i, sz, off, r)) xs locs) xs"
  using assms by (induction xs locs rule: list_induct2) auto

text \<open>The entries of a sealed pack, read back from its bytes.\<close>

lemma sealed_entries_read:
  assumes "pw_rel w xs" and "length (pack_image (abs_blobs xs)) < 2 ^ 64"
  shows "list_all2 (\<lambda>(i, sz, off, r) (j, b, r').
           i = j \<and> r = r' \<and> unat off + unat sz \<le> length (pack_image (abs_blobs xs)) \<and>
           take (unat sz) (drop (unat off) (pack_image (abs_blobs xs))) = b)
         (map2 (\<lambda>(i, b, r) (off, sz). (i, sz, off, r)) xs
            (blob_locs PACK_HEADER_SIZE (abs_blobs xs))) xs"
proof -
  have img: "pack_image bs = (PACK_MAGIC @ [PACK_VERSION_CURRENT]) @ concat (map blob_frame bs)" for bs
    by (simp add: pack_image_def)
  have hd: "length (PACK_MAGIC @ [PACK_VERSION_CURRENT]) = PACK_HEADER_SIZE"
    by (simp add: PACK_HEADER_SIZE_def)
  have small: "\<forall>b \<in> set (abs_blobs xs). length b < 2 ^ 32"
    using assms(1) by (auto simp: pw_rel_def)
  have "list_all2 (\<lambda>(off, len) c.
           unat off + unat len \<le> length (pack_image (abs_blobs xs)) \<and>
           take (unat len) (drop (unat off) (pack_image (abs_blobs xs))) = c)
         (blob_locs PACK_HEADER_SIZE (abs_blobs xs)) (abs_blobs xs)"
    using blob_locs_read [OF small, of "PACK_MAGIC @ [PACK_VERSION_CURRENT]"] assms(2)
    unfolding hd img [symmetric] by (simp add: img PACK_HEADER_SIZE_def)
  from list_all2_entries [OF _ this] show ?thesis by simp
qed

lemma map2_entries:
  assumes "length xs = length locs"
  shows "map (\<lambda>(i, sz, off, r). (off, sz)) (map2 (\<lambda>(i, b, r) (off, sz). (i, sz, off, r)) xs locs) = locs"
    and "map (\<lambda>(i, sz, off, r). (i, r)) (map2 (\<lambda>(i, b, r) (off, sz). (i, sz, off, r)) xs locs) =
         map (\<lambda>(i, b, r). (i, r)) xs"
  using assms by (induction xs locs rule: list_induct2) auto

context storage_contract
begin

lemma flush_stores:
  assumes "pw_flush b2 hx b w s = (Inr (pid, entries), w', s')"
    and "pw_rel w xs"
    and "valid_key (pack_storage_key hx pid)"
  shows "pid = pack_id_compute b2 (pack_image (abs_blobs xs))"
    and "entries = map2 (\<lambda>(i, b, r) (off, sz). (i, sz, off, r)) xs
           (blob_locs PACK_HEADER_SIZE (abs_blobs xs))"
    and "contents s' = (contents s)(pack_storage_key hx pid \<mapsto> pack_image (abs_blobs xs))"
    and "pw_rel w' []"
proof -
  have ne: "xs \<noteq> []"
    using assms(1,2) by (auto simp: pw_flush_def pw_seal_def pw_rel_def)
  obtain sp w1 where sp: "pw_seal b2 w = (Inr sp, w1)" "pw_rel w1 []"
    "sp_data sp = pack_image (abs_blobs xs)"
    "sp_pack_id sp = pack_id_compute b2 (pack_image (abs_blobs xs))"
    "sp_entries sp = map2 (\<lambda>(i, b, r) (off, sz). (i, sz, off, r)) xs
           (blob_locs PACK_HEADER_SIZE (abs_blobs xs))"
    by (rule pw_seal_rel [OF assms(2) ne, of b2])
  with assms(1) obtain u where put:
    "be_put b (pack_storage_key hx (sp_pack_id sp)) (sp_data sp) s = (Inr u, s')"
    and r: "pid = sp_pack_id sp" "entries = sp_entries sp" "w' = w1"
    by (auto simp: pw_flush_def split: prod.splits sum.splits)
  show "pid = pack_id_compute b2 (pack_image (abs_blobs xs))"
    "entries = map2 (\<lambda>(i, b, r) (off, sz). (i, sz, off, r)) xs
           (blob_locs PACK_HEADER_SIZE (abs_blobs xs))" "pw_rel w' []"
    using r sp by simp_all
  show "contents s' = (contents s)(pack_storage_key hx pid \<mapsto> pack_image (abs_blobs xs))"
    using put_ok [OF _ put] assms(3) sp r by simp
qed

lemma read_blob_ok:
  assumes "read_blob_from_pack hx b pid off len s = (Inr data, s')"
    and "valid_key (pack_storage_key hx pid)"
    and "contents s (pack_storage_key hx pid) = Some d"
  shows "data = take (unat len) (drop (unat off) d)"
proof -
  have "unat (ucast len :: u64) = unat len"
    using unsigned_less [of len, where 'a = nat] by (simp add: unsigned_ucast_eq take_bit_eq_mod)
  moreover obtain s1 where
    g: "be_get_range b (pack_storage_key hx pid) off (ucast len) s = (Inr (Some data), s1)"
    using assms(1)
    by (auto simp: read_blob_from_pack_def io_bind_Inr_iff io_return_def io_fail_def
        split: option.splits if_splits)
  ultimately show ?thesis using get_range_ok [OF assms(2) g] assms(3) by simp
qed

lemma flush_read_back:
  assumes "pw_rel w xs" and "pw_flush b2 hx b w s = (Inr (pid, entries), w', s')"
    and "valid_key (pack_storage_key hx pid)"
    and "length (pack_image (abs_blobs xs)) < 2 ^ 64"
    and "contents s2 (pack_storage_key hx pid) = contents s' (pack_storage_key hx pid)"
    and "(i, sz, off, r) \<in> set entries"
    and "read_blob_from_pack hx b pid off sz s2 = (Inr data, s3)"
  shows "(i, data, r) \<in> set xs"
proof -
  note st = flush_stores [OF assms(2,1,3)]
  have data: "data = take (unat sz) (drop (unat off) (pack_image (abs_blobs xs)))"
    using read_blob_ok [OF assms(7)] assms(3,5) st(1,3) by simp
  obtain x where "x \<in> set xs" and "case x of (j, b, r') \<Rightarrow> i = j \<and> r = r' \<and>
      unat off + unat sz \<le> length (pack_image (abs_blobs xs)) \<and>
      take (unat sz) (drop (unat off) (pack_image (abs_blobs xs))) = b"
    using list_all2_in_set [OF sealed_entries_read [OF assms(1,4)]] assms(6) st(2) by fastforce
  with data show ?thesis by auto
qed

end

section \<open>Properties\<close>

text \<open>The forward scan accepts exactly the well-formed packs: a byte string is accepted iff
  it is the magic and version header followed by length-prefixed blobs with nothing left over,
  and the locations returned are those of the blobs, in order.\<close>

theorem scan_accepts_iff:
  "scan_pack_blobs_bytes d = Inr locs \<longleftrightarrow>
     (\<exists>bs. d = pack_image bs \<and> locs = blob_locs PACK_HEADER_SIZE bs
        \<and> list_all (\<lambda>b. length b < 2 ^ 32) bs)"
  using scan_pack_sound [of d locs] scan_pack_image by (auto simp: list_all_iff)

text \<open>C11: Whatever sequence of new blobs and repeated references a pack writer receives (a blob
  being added only when its chunk is not pending), sealing it succeeds, resets the writer, and
  yields entries that carry the chunks in order with the number of references each received and
  whose offsets and sizes are the ones a scan of the sealed bytes finds.\<close>

theorem seal_scan_roundtrip:
  assumes "pw_ops_ok ops []" and "fold abs_exec ops [] \<noteq> []"
  shows "\<exists>sp w'. pw_seal b2 (fold pw_exec ops (pw_new ty target)) = (Inr sp, w')
    \<and> pw_blob_meta w' = [] \<and> pw_pending w' = [] \<and> pw_buffer w' = None \<and> pw_current_size w' = 0
    \<and> sp_pack_id sp = pack_id_compute b2 (sp_data sp)
    \<and> scan_pack_blobs_bytes (sp_data sp) = Inr (map (\<lambda>(i, sz, off, r). (off, sz)) (sp_entries sp))
    \<and> map (\<lambda>(i, sz, off, r). (i, r)) (sp_entries sp) =
        map (\<lambda>(i, b, r). (i, r)) (fold abs_exec ops [])"
proof -
  let ?xs = "fold abs_exec ops []"
  have rel: "pw_rel (fold pw_exec ops (pw_new ty target)) ?xs"
    by (rule pw_rel_ops [OF pw_rel_new assms(1)])
  obtain sp w' where sp: "pw_seal b2 (fold pw_exec ops (pw_new ty target)) = (Inr sp, w')"
    "sp_data sp = pack_image (abs_blobs ?xs)"
    "sp_pack_id sp = pack_id_compute b2 (pack_image (abs_blobs ?xs))"
    "sp_entries sp = map2 (\<lambda>(i, b, r) (off, sz). (i, sz, off, r)) ?xs
           (blob_locs PACK_HEADER_SIZE (abs_blobs ?xs))"
    by (rule pw_seal_rel [OF rel assms(2), of b2])
  have small: "\<forall>b \<in> set (abs_blobs ?xs). length b < 2 ^ 32"
    using rel by (auto simp: pw_rel_def)
  have "map (\<lambda>(i, sz, off, r). (off, sz)) (sp_entries sp) =
      blob_locs PACK_HEADER_SIZE (abs_blobs ?xs)"
    unfolding sp(4) by (rule map2_entries) simp
  moreover have "map (\<lambda>(i, sz, off, r). (i, r)) (sp_entries sp) = map (\<lambda>(i, b, r). (i, r)) ?xs"
    unfolding sp(4) by (rule map2_entries) simp
  moreover have "pw_blob_meta w' = [] \<and> pw_pending w' = [] \<and> pw_buffer w' = None
      \<and> pw_current_size w' = 0"
    using sp(1) by (auto simp: pw_seal_def Let_def split: if_splits option.splits)
  ultimately show ?thesis
    using sp(1,2,3) scan_pack_image [OF small] by auto
qed

text \<open>A stand-in for the hash with its 32-byte output, for the concrete instances.\<close>

definition wit_b2 :: blake2_lib where
  "wit_b2 = \<lparr>blake2b_256 = (\<lambda>d. take 32 (rev d @ replicate 32 0)),
             blake2b_mac_256 = (\<lambda>k d. take 32 (rev d @ replicate 32 0))\<rparr>"

definition wit_ops :: "pw_op list" where
  "wit_ops = [Add_blob 5 (wit_cid 1) [0xde, 0xad], Increment (wit_cid 1),
              Add_blob 6 (wit_cid 2) [0xbe, 0xef, 0x42]]"

lemma wit_ops_ok: "pw_ops_ok wit_ops [] \<and> fold abs_exec wit_ops [] \<noteq> []"
  by (simp add: wit_ops_def abs_add_def abs_incr_def)

lemma seal_scan_roundtrip_witness:
  "pw_ops_ok wit_ops [] \<and> fold abs_exec wit_ops [] \<noteq> [] \<and>
   (\<exists>sp w'. pw_seal wit_b2
              (fold pw_exec wit_ops (pw_new Data 100)) = (Inr sp, w')
      \<and> scan_pack_blobs_bytes (sp_data sp) = Inr (map (\<lambda>(i, sz, off, r). (off, sz)) (sp_entries sp)))"
  using seal_scan_roundtrip [of wit_ops wit_b2 Data 100]
    wit_ops_ok by blast

text \<open>C15: A chunk flushed in a pack is read back intact: over any storage that meets the storage
  contract, once a flush has succeeded, and as long as the pack object is not changed, a
  successful range read at an entry's offset and size returns the blob that was added for that
  entry's chunk.\<close>

theorem flushed_blob_reads_back:
  assumes "storage_contract b contents valid_key"
    and "pw_ops_ok ops []" and "fold abs_exec ops [] = xs"
    and "length (pack_image (map (\<lambda>(i, b, r). b) xs)) < 2 ^ 64"
    and "valid_key (pack_storage_key hx pid)"
    and "pw_flush b2 hx b (fold pw_exec ops (pw_new ty target)) s = (Inr (pid, entries), w', s')"
    and "contents s2 (pack_storage_key hx pid) = contents s' (pack_storage_key hx pid)"
    and "(i, sz, off, r) \<in> set entries"
    and "read_blob_from_pack hx b pid off sz s2 = (Inr data, s3)"
  shows "(i, data, r) \<in> set xs"
proof -
  have rel: "pw_rel (fold pw_exec ops (pw_new ty target)) xs"
    using pw_rel_ops [OF pw_rel_new assms(2)] assms(3) by simp
  show ?thesis
    by (rule storage_contract.flush_read_back [OF assms(1) rel assms(6) assms(5) assms(4,7,8,9)])
qed

lemma pack_key_plain:
  assumes "pack_bytes pid \<noteq> []"
  shows "plain_key (pack_storage_key lower_hex pid)"
proof -
  have "CHR ''/'' \<notin> set (hex_encode lower_hex (pack_bytes pid))"
    by (rule lower_hex.slash_not_in_hex)
  moreover have "hex_encode lower_hex (pack_bytes pid) \<noteq> []"
    using lower_hex.hex_length [of "pack_bytes pid"] assms by auto
  ultimately have "last (pack_storage_key lower_hex pid) \<noteq> CHR ''/''"
    by (metis append_is_Nil_conv last_append last_in_set pack_id_to_hex_def pack_storage_key_def)
  then show ?thesis by (auto simp: plain_key_def ends_with_iff)
qed

abbreviation wit_pack :: pack_id where
  "wit_pack \<equiv> pack_id_compute wit_b2 (pack_image [[0xde, 0xad], [0xbe, 0xef, 0x42]])"

lemma wit_seal:
  "fst (pw_seal wit_b2 (fold pw_exec wit_ops (pw_new Data 100))) =
     Inr \<lparr>sp_pack_id = wit_pack, sp_entries = [(wit_cid 1, 2, 13, 2), (wit_cid 2, 3, 19, 1)],
          sp_data = pack_image [[0xde, 0xad], [0xbe, 0xef, 0x42]]\<rparr>"
  by code_simp

lemma wit_read:
  "take 3 (drop 19 (pack_image [[0xde, 0xad], [0xbe, 0xef, 0x42]])) = [0xbe, 0xef, 0x42]"
  "length (pack_image [[0xde, 0xad], [0xbe, 0xef, 0x42]]) = 22"
  by code_simp+

lemma flushed_blob_reads_back_witness:
  "\<exists>entries w' s'. pw_flush wit_b2 lower_hex memory_backend
       (fold pw_exec wit_ops (pw_new Data 100)) [] = (Inr (wit_pack, entries), w', s')
     \<and> (wit_cid 2, 3, 19, 1) \<in> set entries
     \<and> read_blob_from_pack lower_hex memory_backend wit_pack 19 3 s' = (Inr [0xbe, 0xef, 0x42], s')
     \<and> (wit_cid 2, [0xbe, 0xef, 0x42], 1) \<in> set (fold abs_exec wit_ops [])"
proof -
  let ?es = "[(wit_cid 1, 2, 13, 2), (wit_cid 2, 3, 19, 1)]"
  let ?s = "[(pack_storage_key lower_hex wit_pack, pack_image [[0xde, 0xad], [0xbe, 0xef, 0x42]])]"
  let ?f = "pw_flush wit_b2 lower_hex memory_backend (fold pw_exec wit_ops (pw_new Data 100)) []"
  obtain w' where "pw_seal wit_b2 (fold pw_exec wit_ops (pw_new Data 100)) =
      (Inr \<lparr>sp_pack_id = wit_pack, sp_entries = ?es,
            sp_data = pack_image [[0xde, 0xad], [0xbe, 0xef, 0x42]]\<rparr>, w')"
    using wit_seal by (metis prod.collapse)
  then have f: "?f = (Inr (wit_pack, ?es), w', ?s)"
    by (simp add: pw_flush_def memory_backend_def mem_put_def hm_insert_def)
  have rd: "read_blob_from_pack lower_hex memory_backend wit_pack 19 3 ?s =
      (Inr [0xbe, 0xef, 0x42], ?s)"
    using wit_read
    by (simp add: read_blob_from_pack_def memory_backend_def mem_get_range_def io_bind_def
        checked_add_u64_def io_return_def)
  have small: "length (pack_image (map (\<lambda>(i, b, r). b) (fold abs_exec wit_ops []))) < 2 ^ 64"
    by (simp add: wit_ops_def abs_add_def abs_incr_def pack_image_def)
  have key: "plain_key (pack_storage_key lower_hex wit_pack)"
    by (rule pack_key_plain) (simp add: pack_id_compute_def wit_b2_def pack_image_def)
  have "(wit_cid 2, [0xbe, 0xef, 0x42], 1) \<in> set (fold abs_exec wit_ops [])"
    by (rule flushed_blob_reads_back [OF mem.storage_contract_axioms _ refl small key f refl _ rd])
       (use wit_ops_ok in simp_all)
  with f rd show ?thesis by auto
qed

end
