(* ===== verification/Write_Session.thy ===== *)
theory Write_Session
  imports Pack Object_Format Compress Dedup_Cache Repo_Lock
begin

text \<open>
  The write session of a backup (\<open>vykar-core/src/repo/write_session.rs\<close>): the two pack
  writers, the queue of background uploads, the deduplication mode, the index delta and the
  journal from which a later run recovers an interrupted session.

  Everything the code draws from the machine comes through the record \<open>system\<close>: storage,
  clocks, random numbers, whether an upload thread has finished, and the files of the local
  cache directory.  A cache file is read as a whole, \<open>None\<close> when it cannot be read, and replaced
  as a whole, since the code writes a temporary file and renames it; without a cache directory
  nothing can be read and writing does nothing.  An upload in the queue
  is the object it writes; its write takes effect when the thread is joined.
\<close>

section \<open>Surroundings\<close>

record 's system =
  sy_storage :: "'s storage_backend"
  sy_nonce :: "'s \<Rightarrow> bytes \<times> 's"
  sy_instant :: "'s \<Rightarrow> nat \<times> 's"
  sy_utc :: "'s \<Rightarrow> int \<times> 's"
  sy_next_u64 :: "'s \<Rightarrow> u64 \<times> 's"
  sy_is_finished :: "'s \<Rightarrow> bool \<times> 's"
  sy_cache_read :: "string \<Rightarrow> 's \<Rightarrow> bytes option"
  sy_cache_write :: "string \<Rightarrow> bytes \<Rightarrow> ('s, vykar_error, unit) io"

text \<open>
  The libraries and fixed parameters of a repository: hashing, encodings, compression, the
  crypto engine chosen at open, the \<open>rmp_serde\<close> encodings of the journal and the index blob,
  the xor filter, and the floating-point pack size target.
\<close>

record repo_lib =
  rl_hex :: hex_lib
  rl_b2 :: blake2_lib
  rl_codec :: codec_lib
  rl_crypto :: crypto_engine
  rl_locks :: lock_lib
  rl_host :: host_info
  rl_xor :: "u64 list \<Rightarrow> xor8 option"
  rl_journal_to_vec :: "pending_pack_entry list \<Rightarrow> bytes result"
  rl_journal_from_slice :: "bytes \<Rightarrow> pending_pack_entry list result"
  rl_index_to_vec :: "index_blob \<Rightarrow> bytes result"
  rl_index_from_slice :: "bytes \<Rightarrow> index_blob result"
  rl_data_pack_target :: "nat \<Rightarrow> u32 \<Rightarrow> u32 \<Rightarrow> nat"

section \<open>Definitions\<close>

definition UPLOAD_QUEUE_HEADROOM :: nat where "UPLOAD_QUEUE_HEADROOM = 2"

definition JOURNAL_WRITE_INTERVAL :: nat where "JOURNAL_WRITE_INTERVAL = 8"

definition DEFAULT_SESSION_ID :: string where "DEFAULT_SESSION_ID = ''default''"

definition PENDING_INDEX_OBJECT_CONTEXT :: bytes where
  "PENDING_INDEX_OBJECT_CONTEXT = str_bytes ''pending_index''"

definition RECOVERY_STALE_SECS :: int where "RECOVERY_STALE_SECS = 45 * 60"

record pending_index_recovery =
  pr_recovered_chunks :: nat
  pr_recovered_sessions :: "string list"

datatype recover_result = RecoverNotFound | RecoverCorrupt | RecoverOk nat

datatype marker_state = MarkerActive | MarkerOld | MarkerUnknown

record dump_rollback_tracker =
  dt_delta_checkpoint :: index_delta_checkpoint
  dt_dedup_inserts :: "chunk_id list"
  dt_promoted_recovered :: "(chunk_id \<times> recovered_chunk_entry) list"
  dt_journal_pack_ids :: "pack_id list"
  dt_data_pack_target_size :: nat

type_synonym upload = "string \<times> bytes"

record write_session =
  ws_data_pack_writer :: pack_writer
  ws_tree_pack_writer :: pack_writer
  ws_pending_uploads :: "upload list"
  ws_max_in_flight_uploads :: nat
  ws_dedup_index :: "dedup_index option"
  ws_tiered_dedup :: "tiered_dedup_index option"
  ws_index_delta :: "index_delta option"
  ws_pending_journal :: pending_index_journal
  ws_pending_journal_last_written :: nat
  ws_recovered_chunks :: "(chunk_id, recovered_chunk_entry) hmap"
  ws_recovered_index_keys :: "string list"
  ws_persisted_pack_count :: nat
  ws_session_packs_flushed :: nat
  ws_session_id :: string
  ws_last_session_refresh :: nat
  ws_dump_tracker :: "dump_rollback_tracker option"

text \<open>Operations on a session together with the state of the machine.\<close>

type_synonym ('s, 'a) ws_io = "('s \<times> write_session, vykar_error, 'a) io"

definition on_store :: "('s, vykar_error, 'a) io \<Rightarrow> ('s \<times> 'w, vykar_error, 'a) io" where
  "on_store m = (\<lambda>(s, w). case m s of (r, s') \<Rightarrow> (r, (s', w)))"

definition draw :: "('s \<Rightarrow> 'a \<times> 's) \<Rightarrow> ('s \<times> 'w, vykar_error, 'a) io" where
  "draw f = (\<lambda>(s, w). case f s of (a, s') \<Rightarrow> (Inr a, (s', w)))"

definition get_ws :: "('s \<times> 'w, vykar_error, 'w) io" where
  "get_ws = (\<lambda>(s, w). (Inr w, (s, w)))"

definition modify_ws :: "('w \<Rightarrow> 'w) \<Rightarrow> ('s \<times> 'w, vykar_error, unit) io" where
  "modify_ws f = (\<lambda>(s, w). (Inr (), (s, f w)))"

definition ws_new :: "nat \<Rightarrow> nat \<Rightarrow> nat \<Rightarrow> nat \<Rightarrow> write_session" where
  "ws_new data_target tree_target max_in_flight now =
     \<lparr>ws_data_pack_writer = pw_new Data data_target, ws_tree_pack_writer = pw_new Tree tree_target,
      ws_pending_uploads = [], ws_max_in_flight_uploads = max_in_flight, ws_dedup_index = None,
      ws_tiered_dedup = None, ws_index_delta = None, ws_pending_journal = [],
      ws_pending_journal_last_written = 0, ws_recovered_chunks = [], ws_recovered_index_keys = [],
      ws_persisted_pack_count = 0, ws_session_packs_flushed = 0, ws_session_id = DEFAULT_SESSION_ID,
      ws_last_session_refresh = now, ws_dump_tracker = None\<rparr>"

definition maybe_refresh_session :: "repo_lib \<Rightarrow> 's system \<Rightarrow> ('s, unit) ws_io" where
  "maybe_refresh_session lib y =
     io_bind get_ws (\<lambda>w.
       if ws_session_id w \<noteq> DEFAULT_SESSION_ID then
         io_bind (draw (sy_instant y)) (\<lambda>now.
           if 15 * 60 \<le> (now - ws_last_session_refresh w) div 10 ^ 9 then
             io_bind (draw (sy_utc y)) (\<lambda>utc.
             io_bind (on_store (refresh_session (rl_locks lib) (rl_host lib) (sy_storage y) (ws_session_id w) utc)) (\<lambda>_.
             io_bind (draw (sy_instant y)) (\<lambda>now'. modify_ws (\<lambda>w. w\<lparr>ws_last_session_refresh := now'\<rparr>))))
           else io_return ())
       else io_return ())"

definition pending_index_key :: "write_session \<Rightarrow> string" where
  "pending_index_key w = session_index_key (ws_session_id w)"

definition write_pending_index :: "repo_lib \<Rightarrow> 's system \<Rightarrow> ('s, unit) ws_io" where
  "write_pending_index lib y =
     io_bind get_ws (\<lambda>w.
       case rl_journal_to_vec lib (pj_to_wire (ws_pending_journal w)) of
         Inl e \<Rightarrow> io_fail e
       | Inr serialized \<Rightarrow>
           (case compress (rl_codec lib) (Zstd 3) serialized of
              Inl e \<Rightarrow> io_fail e
            | Inr compressed \<Rightarrow>
                io_bind (draw (sy_nonce y)) (\<lambda>nonce.
                  case pack_object_with_context nonce PendingIndex PENDING_INDEX_OBJECT_CONTEXT
                         compressed (rl_crypto lib) of
                    Inl e \<Rightarrow> io_fail e
                  | Inr packed \<Rightarrow> on_store (be_put (sy_storage y) (pending_index_key w) packed))))"

definition write_pending_index_best_effort :: "repo_lib \<Rightarrow> 's system \<Rightarrow> ('s, unit) ws_io" where
  "write_pending_index_best_effort lib y =
     io_bind get_ws (\<lambda>w.
       if pj_is_empty (ws_pending_journal w) then io_return ()
       else io_bind (io_try (write_pending_index lib y)) (\<lambda>r.
         case r of
           Inr _ \<Rightarrow> modify_ws (\<lambda>w. w\<lparr>ws_pending_journal_last_written := pj_len (ws_pending_journal w)\<rparr>)
         | Inl _ \<Rightarrow> io_return ()))"

definition maybe_write_pending_index :: "repo_lib \<Rightarrow> 's system \<Rightarrow> ('s, unit) ws_io" where
  "maybe_write_pending_index lib y =
     io_bind get_ws (\<lambda>w.
       if ws_pending_journal_last_written w + JOURNAL_WRITE_INTERVAL \<le> pj_len (ws_pending_journal w)
       then write_pending_index_best_effort lib y
       else io_return ())"

subsection \<open>Uploads\<close>

definition join_upload :: "'s system \<Rightarrow> upload \<Rightarrow> ('s, vykar_error, unit) io" where
  "join_upload y u = sealed_data_put_to (snd u) (sy_storage y) (fst u)"

definition swap_remove :: "nat \<Rightarrow> 'a list \<Rightarrow> 'a list" where
  "swap_remove i xs = butlast (xs[i := last xs])"

lemma length_swap_remove [simp]: "length (swap_remove i xs) = length xs - 1"
  by (simp add: swap_remove_def)

function drain_loop :: "'s system \<Rightarrow> nat \<Rightarrow> upload list \<Rightarrow> 's \<Rightarrow> unit result \<times> upload list \<times> 's" where
  "drain_loop y i us s =
     (if i < length us then
        (case sy_is_finished y s of (fin, s1) \<Rightarrow>
           if fin then
             (case join_upload y (us ! i) s1 of
                (Inl e, s2) \<Rightarrow> (Inl e, swap_remove i us, s2)
              | (Inr _, s2) \<Rightarrow> drain_loop y i (swap_remove i us) s2)
           else drain_loop y (i + 1) us s1)
      else (Inr (), us, s))"
  by pat_completeness auto
termination by (relation "measure (\<lambda>(y, i, us, s). length us - i)") auto

declare drain_loop.simps [simp del]

definition drain_finished_uploads :: "repo_lib \<Rightarrow> 's system \<Rightarrow> ('s, unit) ws_io" where
  "drain_finished_uploads lib y =
     io_bind (\<lambda>(s, w). case drain_loop y 0 (ws_pending_uploads w) s of
                (r, us, s') \<Rightarrow> (r, (s', w\<lparr>ws_pending_uploads := us\<rparr>))) (\<lambda>_.
       maybe_write_pending_index lib y)"

fun join_all :: "'s system \<Rightarrow> upload list \<Rightarrow> 's \<Rightarrow> vykar_error option \<times> 's" where
  "join_all y [] s = (None, s)"
| "join_all y (u # us) s =
     (case join_upload y u s of (r, s1) \<Rightarrow>
        (case join_all y us s1 of (e, s2) \<Rightarrow>
           (case r of Inl e' \<Rightarrow> Some e' | Inr _ \<Rightarrow> e, s2)))"

definition wait_pending_uploads :: "repo_lib \<Rightarrow> 's system \<Rightarrow> ('s, unit) ws_io" where
  "wait_pending_uploads lib y =
     io_bind (\<lambda>(s, w). case join_all y (ws_pending_uploads w) s of
                (e, s') \<Rightarrow> (Inr e, (s', w\<lparr>ws_pending_uploads := []\<rparr>))) (\<lambda>first_err.
     io_bind get_ws (\<lambda>w.
     io_bind (if pj_is_empty (ws_pending_journal w) then io_return ()
              else write_pending_index_best_effort lib y) (\<lambda>_.
       case first_err of Some e \<Rightarrow> io_fail e | None \<Rightarrow> io_return ())))"

text \<open>The blocking part of \<open>cap_pending_uploads\<close>: the queue is full, so one upload is joined.\<close>

definition block_on_upload :: "repo_lib \<Rightarrow> 's system \<Rightarrow> ('s, unit) ws_io" where
  "block_on_upload lib y =
     io_bind get_ws (\<lambda>w.
       if ws_max_in_flight_uploads w + UPLOAD_QUEUE_HEADROOM \<le> length (ws_pending_uploads w)
       then io_bind (modify_ws (\<lambda>w. w\<lparr>ws_pending_uploads := swap_remove 0 (ws_pending_uploads w)\<rparr>)) (\<lambda>_.
            io_bind (on_store (join_upload y (hd (ws_pending_uploads w)))) (\<lambda>_.
              maybe_write_pending_index lib y))
       else io_return ())"

definition cap_pending_uploads :: "repo_lib \<Rightarrow> 's system \<Rightarrow> ('s, unit) ws_io" where
  "cap_pending_uploads lib y =
     io_bind (drain_finished_uploads lib y) (\<lambda>_.
     io_bind (maybe_refresh_session lib y) (\<lambda>_. block_on_upload lib y))"

subsection \<open>Sealed entries\<close>

text \<open>\<open>for _ in 1..refcount\<close>.\<close>

fun increment_times :: "nat \<Rightarrow> chunk_id \<Rightarrow> chunk_index \<Rightarrow> chunk_index" where
  "increment_times 0 i idx = idx"
| "increment_times (Suc n) i idx = increment_times n i (ci_increment_refcount idx i)"

definition track_insert :: "chunk_id \<Rightarrow> write_session \<Rightarrow> write_session" where
  "track_insert i w =
     w\<lparr>ws_dump_tracker := map_option (\<lambda>t. t\<lparr>dt_dedup_inserts := dt_dedup_inserts t @ [i]\<rparr>) (ws_dump_tracker w)\<rparr>"

definition delta_add_opt ::
  "chunk_id \<Rightarrow> u32 \<Rightarrow> pack_id \<Rightarrow> u64 \<Rightarrow> u32 \<Rightarrow> write_session \<Rightarrow> write_session" where
  "delta_add_opt i sz pid off rc w =
     w\<lparr>ws_index_delta := map_option (\<lambda>d. delta_add_new_entry d i sz pid off rc) (ws_index_delta w)\<rparr>"

fun apply_sealed_entries ::
  "pack_id \<Rightarrow> packed_chunk_entry list \<Rightarrow> write_session \<Rightarrow> chunk_index \<Rightarrow> bool \<times> write_session \<times> chunk_index"
  where
  "apply_sealed_entries pid [] w idx =
     (ws_tiered_dedup w = None \<and> ws_dedup_index w = None, w, idx)"
| "apply_sealed_entries pid ((i, sz, off, rc) # es) w idx =
     (case (ws_tiered_dedup w, ws_dedup_index w) of
        (Some t, _) \<Rightarrow>
          apply_sealed_entries pid es
            (track_insert i (delta_add_opt i sz pid off rc (w\<lparr>ws_tiered_dedup := Some (td_insert t i sz)\<rparr>))) idx
      | (None, Some d) \<Rightarrow>
          apply_sealed_entries pid es
            (track_insert i (delta_add_opt i sz pid off rc (w\<lparr>ws_dedup_index := Some (di_insert d i sz)\<rparr>))) idx
      | (None, None) \<Rightarrow>
          apply_sealed_entries pid es (track_insert i w)
            (increment_times (unat rc - 1) i (ci_add idx i sz pid off)))"

subsection \<open>Recovered chunks\<close>

definition promote_recovered_chunk ::
  "chunk_id \<Rightarrow> write_session \<Rightarrow> chunk_index \<Rightarrow> (u32 \<times> bool) option \<times> write_session \<times> chunk_index" where
  "promote_recovered_chunk i w idx =
     (case map_of (ws_recovered_chunks w) i of
        None \<Rightarrow> (None, w, idx)
      | Some e \<Rightarrow>
          (let w1 = w\<lparr>ws_dump_tracker := map_option (\<lambda>t.
                       t\<lparr>dt_promoted_recovered := dt_promoted_recovered t @ [(i, e)],
                         dt_dedup_inserts := dt_dedup_inserts t @ [i]\<rparr>) (ws_dump_tracker w),
                     ws_recovered_chunks := hm_remove i (ws_recovered_chunks w)\<rparr>;
               add = delta_add_opt i (rc_stored_size e) (rc_pack_id e) (rc_pack_offset e) 1
           in case (ws_tiered_dedup w1, ws_dedup_index w1) of
                (Some t, _) \<Rightarrow>
                  (Some (rc_stored_size e, False),
                   add (w1\<lparr>ws_tiered_dedup := Some (td_insert t i (rc_stored_size e))\<rparr>), idx)
              | (None, Some d) \<Rightarrow>
                  (Some (rc_stored_size e, False),
                   add (w1\<lparr>ws_dedup_index := Some (di_insert d i (rc_stored_size e))\<rparr>), idx)
              | (None, None) \<Rightarrow>
                  (Some (rc_stored_size e, True), add w1,
                   ci_add idx i (rc_stored_size e) (rc_pack_id e) (rc_pack_offset e))))"

definition bump_ref_pending_ws :: "chunk_id \<Rightarrow> write_session \<Rightarrow> u32 option \<times> write_session" where
  "bump_ref_pending_ws i w =
     (case pw_get_pending_stored_size (ws_data_pack_writer w) i of
        Some sz \<Rightarrow> (Some sz, w\<lparr>ws_data_pack_writer := pw_increment_pending (ws_data_pack_writer w) i\<rparr>)
      | None \<Rightarrow>
          (case pw_get_pending_stored_size (ws_tree_pack_writer w) i of
             Some sz \<Rightarrow> (Some sz, w\<lparr>ws_tree_pack_writer := pw_increment_pending (ws_tree_pack_writer w) i\<rparr>)
           | None \<Rightarrow> (None, w)))"

subsection \<open>Recovery of interrupted sessions\<close>

definition trunc_secs :: "int \<Rightarrow> int" where
  "trunc_secs t = (if 0 \<le> t then t div 1000000000 else - ((- t) div 1000000000))"

definition recovery_marker_state :: "lock_lib \<Rightarrow> int \<Rightarrow> bytes option result \<Rightarrow> marker_state" where
  "recovery_marker_state lk now got =
     (case got of
        Inr (Some data) \<Rightarrow>
          (case session_from_json lk data of
             Inl _ \<Rightarrow> MarkerUnknown
           | Inr entry \<Rightarrow>
               (case (case parse_from_rfc3339 lk (se_last_refresh entry) of
                        Inr t \<Rightarrow> Inr t
                      | Inl _ \<Rightarrow> parse_from_rfc3339 lk (se_registered_at entry)) of
                  Inl _ \<Rightarrow> MarkerUnknown
                | Inr ts \<Rightarrow>
                    if RECOVERY_STALE_SECS \<le> trunc_secs (now - ts) then MarkerOld else MarkerActive))
      | _ \<Rightarrow> MarkerUnknown)"

fun read_marker_states ::
  "lock_lib \<Rightarrow> 's storage_backend \<Rightarrow> int \<Rightarrow> string list \<Rightarrow> (string, marker_state) hmap \<Rightarrow>
   ('s, vykar_error, (string, marker_state) hmap) io" where
  "read_marker_states lk b now [] m = io_return m"
| "read_marker_states lk b now (key # keys) m =
     (case parse_session_id key of
        None \<Rightarrow> read_marker_states lk b now keys m
      | Some sid \<Rightarrow>
          io_bind (io_try (be_get b key)) (\<lambda>got.
            read_marker_states lk b now keys (hm_insert sid (recovery_marker_state lk now got) m)))"

definition shard_dir :: "repo_lib \<Rightarrow> pack_id \<Rightarrow> string" where
  "shard_dir lib pid = ''packs/'' @ pack_id_shard_prefix (rl_hex lib) pid"

fun check_packs_one_by_one ::
  "repo_lib \<Rightarrow> 's storage_backend \<Rightarrow> string \<Rightarrow> pending_pack_entry list \<Rightarrow> string list \<Rightarrow>
   ('s, vykar_error, string list) io" where
  "check_packs_one_by_one lib b shard [] known = io_return known"
| "check_packs_one_by_one lib b shard (e # es) known =
     (let key = pack_storage_key (rl_hex lib) (pp_pack_id e) in
      if shard_dir lib (pp_pack_id e) = shard
      then io_bind (io_try (be_exists b key)) (\<lambda>r.
             check_packs_one_by_one lib b shard es
               (if r = Inr True then List.insert key known else known))
      else check_packs_one_by_one lib b shard es known)"

fun list_known_packs ::
  "repo_lib \<Rightarrow> 's storage_backend \<Rightarrow> pending_pack_entry list \<Rightarrow> string list \<Rightarrow> string list \<Rightarrow>
   ('s, vykar_error, string list) io" where
  "list_known_packs lib b wire [] known = io_return known"
| "list_known_packs lib b wire (shard # shards) known =
     io_bind (io_try (be_list b shard)) (\<lambda>r.
       case r of
         Inr keys \<Rightarrow> list_known_packs lib b wire shards (List.union keys known)
       | Inl _ \<Rightarrow>
           io_bind (check_packs_one_by_one lib b shard wire known) (\<lambda>known'.
             list_known_packs lib b wire shards known'))"

fun recover_chunks ::
  "chunk_index \<Rightarrow> pack_id \<Rightarrow> pending_chunk_entry list \<Rightarrow> (chunk_id, recovered_chunk_entry) hmap \<Rightarrow> nat \<Rightarrow>
   (chunk_id, recovered_chunk_entry) hmap \<times> nat" where
  "recover_chunks idx pid [] rec n = (rec, n)"
| "recover_chunks idx pid (c # cs) rec n =
     (if \<not> ci_contains idx (pc_chunk_id c)
      then recover_chunks idx pid cs
             (hm_insert (pc_chunk_id c)
                \<lparr>rc_stored_size = pc_stored_size c, rc_pack_id = pid, rc_pack_offset = pc_pack_offset c\<rparr> rec)
             (n + 1)
      else recover_chunks idx pid cs rec n)"

fun recover_packs ::
  "repo_lib \<Rightarrow> chunk_index \<Rightarrow> string list \<Rightarrow> pending_pack_entry list \<Rightarrow> write_session \<Rightarrow> nat \<Rightarrow>
   write_session \<times> nat" where
  "recover_packs lib idx known [] w n = (w, n)"
| "recover_packs lib idx known (e # es) w n =
     (if pack_storage_key (rl_hex lib) (pp_pack_id e) \<notin> set known
      then recover_packs lib idx known es w n
      else (case recover_chunks idx (pp_pack_id e) (pp_chunks e) (ws_recovered_chunks w) n of
              (rec, n') \<Rightarrow>
                recover_packs lib idx known es
                  (w\<lparr>ws_recovered_chunks := rec,
                     ws_pending_journal := pj_record_pack (ws_pending_journal w) (pp_pack_id e) (pp_chunks e)\<rparr>)
                  n'))"

definition decode_journal :: "repo_lib \<Rightarrow> bytes \<Rightarrow> pending_pack_entry list result" where
  "decode_journal lib data =
     rbind (unpack_object_expect_with_context data PendingIndex PENDING_INDEX_OBJECT_CONTEXT (rl_crypto lib))
       (\<lambda>compressed. rbind (decompress_metadata (rl_codec lib) compressed)
          (\<lambda>serialized. rl_journal_from_slice lib serialized))"

definition recover_single_index ::
  "repo_lib \<Rightarrow> 's system \<Rightarrow> chunk_index \<Rightarrow> string \<Rightarrow> ('s, recover_result) ws_io" where
  "recover_single_index lib y idx key =
     io_bind (on_store (be_get (sy_storage y) key)) (\<lambda>got.
       case got of
         None \<Rightarrow> io_return RecoverNotFound
       | Some data \<Rightarrow>
           (case decode_journal lib data of
              Inl _ \<Rightarrow> io_return RecoverCorrupt
            | Inr wire \<Rightarrow>
                (let shards = remdups (map (\<lambda>e. shard_dir lib (pp_pack_id e)) wire) in
                 io_bind (on_store (list_known_packs lib (sy_storage y) wire shards [])) (\<lambda>known.
                   (\<lambda>(s, w). case recover_packs lib idx known wire w 0 of
                      (w', n) \<Rightarrow> (Inr (RecoverOk n), (s, w')))))))"

fun recover_indices ::
  "repo_lib \<Rightarrow> 's system \<Rightarrow> chunk_index \<Rightarrow> (string, marker_state) hmap \<Rightarrow> (string \<times> string) list \<Rightarrow>
   pending_index_recovery \<Rightarrow> ('s, pending_index_recovery) ws_io" where
  "recover_indices lib y idx markers [] acc = io_return acc"
| "recover_indices lib y idx markers ((index_key, sid) # keys) acc =
     (if map_of markers sid = None \<or> map_of markers sid = Some MarkerOld
      then io_bind (io_try (recover_single_index lib y idx index_key)) (\<lambda>r.
             case r of
               Inr (RecoverOk n) \<Rightarrow>
                 io_bind (modify_ws (\<lambda>w. w\<lparr>ws_recovered_index_keys := ws_recovered_index_keys w @ [index_key]\<rparr>)) (\<lambda>_.
                   recover_indices lib y idx markers keys
                     \<lparr>pr_recovered_chunks = pr_recovered_chunks acc + n,
                      pr_recovered_sessions = pr_recovered_sessions acc @ [sid]\<rparr>)
             | Inr RecoverCorrupt \<Rightarrow>
                 io_bind (io_try (on_store (be_delete (sy_storage y) index_key))) (\<lambda>_.
                   recover_indices lib y idx markers keys acc)
             | _ \<Rightarrow> recover_indices lib y idx markers keys acc)
      else recover_indices lib y idx markers keys acc)"

definition recover_pending_index ::
  "repo_lib \<Rightarrow> 's system \<Rightarrow> chunk_index \<Rightarrow> ('s, pending_index_recovery) ws_io" where
  "recover_pending_index lib y idx =
     io_bind (on_store (be_list (sy_storage y) SESSIONS_PREFIX)) (\<lambda>all_keys.
     io_bind (draw (sy_utc y)) (\<lambda>now.
     io_bind (on_store (read_marker_states (rl_locks lib) (sy_storage y) now all_keys [])) (\<lambda>markers.
     io_bind get_ws (\<lambda>w.
       let index_keys = filter (\<lambda>(key, sid). key \<noteq> pending_index_key w)
             (List.map_filter (\<lambda>key. map_option (\<lambda>sid. (key, sid)) (parse_index_id key)) all_keys)
       in recover_indices lib y idx markers index_keys
            \<lparr>pr_recovered_chunks = 0, pr_recovered_sessions = []\<rparr>))))"

definition clear_pending_index :: "'s storage_backend \<Rightarrow> string \<Rightarrow> ('s, vykar_error, unit) io" where
  "clear_pending_index b sid =
     io_bind (io_try (be_delete b (session_index_key sid))) (\<lambda>_. io_return ())"

definition cleanup_recovered_indices :: "'s system \<Rightarrow> ('s, unit) ws_io" where
  "cleanup_recovered_indices y =
     io_bind get_ws (\<lambda>w.
     io_bind (on_store (io_for (ws_recovered_index_keys w) (\<lambda>k.
                io_bind (io_try (be_delete (sy_storage y) k)) (\<lambda>_. io_return ())))) (\<lambda>_.
       modify_ws (\<lambda>w. w\<lparr>ws_recovered_index_keys := []\<rparr>)))"

section \<open>Lemmas\<close>

text \<open>The part of a session that decides what is committed.\<close>

definition core ::
  "write_session \<Rightarrow> pack_writer \<times> pack_writer \<times> dedup_index option \<times> tiered_dedup_index option \<times>
   index_delta option \<times> (chunk_id, recovered_chunk_entry) hmap" where
  "core w = (ws_data_pack_writer w, ws_tree_pack_writer w, ws_dedup_index w, ws_tiered_dedup w,
     ws_index_delta w, ws_recovered_chunks w)"

definition same_core :: "'s \<times> write_session \<Rightarrow> 's \<times> write_session \<Rightarrow> bool" where
  "same_core st st' \<longleftrightarrow> core (snd st') = core (snd st)"

lemma same_core_rel [simp, intro]: "reflp same_core" "transp same_core"
  by (auto simp: same_core_def intro!: reflpI transpI)

lemma core_rel_prims [io_rel_intros]:
  "io_rel same_core (on_store m)" "io_rel same_core (draw d)" "io_rel same_core get_ws"
  "(\<And>w. core (f w) = core w) \<Longrightarrow> io_rel same_core (modify_ws f)"
  by (auto simp: io_rel_def same_core_def on_store_def draw_def get_ws_def modify_ws_def
      split: prod.splits)

lemma core_updates [simp]:
  "core (w\<lparr>ws_pending_uploads := us\<rparr>) = core w"
  "core (w\<lparr>ws_pending_journal_last_written := n\<rparr>) = core w"
  "core (w\<lparr>ws_last_session_refresh := t\<rparr>) = core w"
  "core (w\<lparr>ws_pending_journal := j\<rparr>) = core w"
  by (simp_all add: core_def)

lemma core_rel_ops [io_rel_intros]:
  "io_rel same_core (write_pending_index lib y)"
  "io_rel same_core (write_pending_index_best_effort lib y)"
  "io_rel same_core (maybe_write_pending_index lib y)"
  "io_rel same_core (maybe_refresh_session lib y)"
  unfolding write_pending_index_best_effort_def maybe_write_pending_index_def
    write_pending_index_def maybe_refresh_session_def
  by (intro io_rel_intros same_core_rel core_updates)+

lemma drain_core: "io_rel same_core (drain_finished_uploads lib y)"
  unfolding drain_finished_uploads_def
  by (intro io_rel_intros same_core_rel)
    (auto intro!: io_relI simp: same_core_def split: prod.splits)

lemma wait_core: "io_rel same_core (wait_pending_uploads lib y)"
  unfolding wait_pending_uploads_def
  by (intro io_rel_intros same_core_rel)
    (auto intro!: io_relI simp: same_core_def split: prod.splits)

lemma cap_core: "io_rel same_core (cap_pending_uploads lib y)"
  unfolding cap_pending_uploads_def block_on_upload_def
  by (intro io_rel_intros same_core_rel drain_core core_updates)

end
