(* ===== verification/File_Cache.thy ===== *)
theory File_Cache
  imports Object_Format
begin

text \<open>
  The items of a snapshot (\<open>vykar-core/src/snapshot/item.rs\<close>) and the file cache
  (\<open>vykar-core/src/repo/file_cache.rs\<close>) that lets a backup reuse the chunks of files whose
  metadata did not change: one section per source path, looked up by the longest matching
  path, and the index built from the items of a parent snapshot that stands in for a missing
  section.  The 16-byte hash of a path is a parameter.  \<open>file_cache_reuse\<close> shows that what a
  backup inserts is what the next one finds.
\<close>

section \<open>Items\<close>

datatype item_type = RegularFile | Directory | Symlink

record chunk_ref =
  cr_id :: chunk_id
  cr_size :: u32
  cr_csize :: u32

record item =
  it_path :: string
  it_entry_type :: item_type
  it_mode :: u32
  it_uid :: u32
  it_gid :: u32
  it_user :: "string option"
  it_group :: "string option"
  it_mtime :: int
  it_atime :: "int option"
  it_ctime :: "int option"
  it_size :: u64
  it_chunks :: "chunk_ref list"
  it_link_target :: "string option"
  it_xattrs :: "(string, bytes) hmap option"

section \<open>Paths\<close>

text \<open>
  \<open>Path::components\<close> on Unix: whether the path is absolute, and its components, where empty
  ones and \<open>.\<close> disappear except for a \<open>.\<close> that starts a relative path.
\<close>

definition path_components :: "string \<Rightarrow> bool \<times> string list" where
  "path_components p =
     (let cs = split_on (CHR ''/'') p; absolute = starts_with p ''/'';
          proper = filter (\<lambda>c. c \<noteq> [] \<and> c \<noteq> ''.'')
      in (absolute, if \<not> absolute \<and> hd cs = ''.'' then ''.'' # proper (tl cs) else proper cs))"

definition path_starts_with :: "string \<Rightarrow> string \<Rightarrow> bool" where
  "path_starts_with p base =
     (case (path_components p, path_components base) of
        ((a, cs), (b, ds)) \<Rightarrow> a = b \<and> take (length ds) cs = ds)"

definition path_join :: "string \<Rightarrow> string \<Rightarrow> string" where
  "path_join base rel =
     (if starts_with rel ''/'' then rel
      else if base = [] \<or> ends_with base ''/'' then base @ rel
      else base @ ''/'' @ rel)"

section \<open>The cache\<close>

datatype path_hash = PathHash bytes

definition hash_path :: "(bytes \<Rightarrow> bytes) \<Rightarrow> string \<Rightarrow> path_hash" where
  "hash_path blake2b_128 p = PathHash (blake2b_128 (str_bytes p))"

record file_cache_entry =
  fe_device :: u64
  fe_inode :: u64
  fe_mtime_ns :: int
  fe_ctime_ns :: int
  fe_size :: u64
  fe_chunk_refs :: "chunk_ref list"

record cache_section =
  cs_anchor_snapshot_id :: snapshot_id
  cs_entries :: "(path_hash, file_cache_entry) hmap"

record file_cache =
  fl_sections :: "(string, cache_section) hmap"
  fl_active_keys :: "string list"

definition file_cache_new :: file_cache where
  "file_cache_new = \<lparr>fl_sections = [], fl_active_keys = []\<rparr>"

definition find_section_key :: "file_cache \<Rightarrow> string \<Rightarrow> string option" where
  "find_section_key c p = List.find (path_starts_with p) (fl_active_keys c)"

text \<open>\<open>sort_by_key(|k| Reverse(k.len()))\<close>: stable, longest first.\<close>

definition longest_first :: "string list \<Rightarrow> string list" where
  "longest_first ks = sort_key (\<lambda>k. - int (length k)) ks"

definition empty_section :: cache_section where
  "empty_section = \<lparr>cs_anchor_snapshot_id = SnapshotId (replicate 32 0), cs_entries = []\<rparr>"

definition begin_sections :: "string list \<Rightarrow> nat list \<Rightarrow> file_cache \<Rightarrow> file_cache result" where
  "begin_sections roots capacity_hints c =
     (if length roots \<noteq> length capacity_hints then Inl (Panicked ''assertion failed: left == right'')
      else Inr (c\<lparr>fl_sections := fold (\<lambda>r m. hm_insert r empty_section m) roots (fl_sections c),
                  fl_active_keys := longest_first roots\<rparr>))"

definition activate_for_walk_roots :: "string list \<Rightarrow> file_cache \<Rightarrow> bool \<times> file_cache" where
  "activate_for_walk_roots roots c =
     (list_all (hm_contains (fl_sections c)) roots,
      c\<lparr>fl_active_keys := longest_first (filter (hm_contains (fl_sections c)) roots)\<rparr>)"

definition clear_active_for_lookup :: "file_cache \<Rightarrow> file_cache" where
  "clear_active_for_lookup c = c\<lparr>fl_active_keys := []\<rparr>"

text \<open>The metadata of a file: device, inode, modification and change time, size.\<close>

type_synonym file_meta = "u64 \<times> u64 \<times> int \<times> int \<times> u64"

definition entry_meta :: "file_cache_entry \<Rightarrow> file_meta" where
  "entry_meta e = (fe_device e, fe_inode e, fe_mtime_ns e, fe_ctime_ns e, fe_size e)"

definition make_entry :: "file_meta \<Rightarrow> chunk_ref list \<Rightarrow> file_cache_entry" where
  "make_entry m refs =
     (case m of (device, inode, mtime_ns, ctime_ns, size') \<Rightarrow>
        \<lparr>fe_device = device, fe_inode = inode, fe_mtime_ns = mtime_ns, fe_ctime_ns = ctime_ns,
         fe_size = size', fe_chunk_refs = refs\<rparr>)"

definition file_cache_lookup ::
  "(bytes \<Rightarrow> bytes) \<Rightarrow> file_cache \<Rightarrow> string \<Rightarrow> file_meta \<Rightarrow> chunk_ref list option" where
  "file_cache_lookup h c p m =
     (if fl_active_keys c = [] then None
      else case find_section_key c p of
        None \<Rightarrow> None
      | Some key \<Rightarrow>
          (case map_of (fl_sections c) key of
             None \<Rightarrow> None
           | Some section \<Rightarrow>
               (case map_of (cs_entries section) (hash_path h p) of
                  None \<Rightarrow> None
                | Some e \<Rightarrow> if entry_meta e = m then Some (fe_chunk_refs e) else None)))"

fun insert_matching ::
  "path_hash \<Rightarrow> file_cache_entry \<Rightarrow> string list \<Rightarrow> (string, cache_section) hmap \<Rightarrow>
   (string, cache_section) hmap result" where
  "insert_matching ph e [] sections = Inr sections"
| "insert_matching ph e (key # keys) sections =
     (case map_of sections key of
        None \<Rightarrow> Inl (Panicked ''insert called without active section'')
      | Some s \<Rightarrow>
          insert_matching ph e keys
            (hm_insert key (s\<lparr>cs_entries := hm_insert ph e (cs_entries s)\<rparr>) sections))"

definition file_cache_insert ::
  "(bytes \<Rightarrow> bytes) \<Rightarrow> string \<Rightarrow> file_meta \<Rightarrow> chunk_ref list \<Rightarrow> file_cache \<Rightarrow> file_cache result" where
  "file_cache_insert h p m refs c =
     (let matching = filter (path_starts_with p) (fl_active_keys c) in
      if matching = [] then Inl (Panicked ''insert called without matching active section'')
      else rbind (insert_matching (hash_path h p) (make_entry m refs) matching (fl_sections c))
             (\<lambda>sections. Inr (c\<lparr>fl_sections := sections\<rparr>)))"

definition file_cache_contains :: "(bytes \<Rightarrow> bytes) \<Rightarrow> file_cache \<Rightarrow> string \<Rightarrow> bool" where
  "file_cache_contains h c p =
     (case find_section_key c p of
        None \<Rightarrow> False
      | Some key \<Rightarrow>
          (case map_of (fl_sections c) key of
             None \<Rightarrow> False
           | Some section \<Rightarrow> hm_contains (cs_entries section) (hash_path h p)))"

fun finalize_keys ::
  "snapshot_id \<Rightarrow> string list \<Rightarrow> (string, cache_section) hmap \<Rightarrow> (string, cache_section) hmap result" where
  "finalize_keys sid [] sections = Inr sections"
| "finalize_keys sid (key # keys) sections =
     (case map_of sections key of
        None \<Rightarrow> Inl (Panicked ''finalize_sections: active key missing from sections'')
      | Some s \<Rightarrow> finalize_keys sid keys (hm_insert key (s\<lparr>cs_anchor_snapshot_id := sid\<rparr>) sections))"

definition finalize_sections :: "snapshot_id \<Rightarrow> file_cache \<Rightarrow> file_cache result" where
  "finalize_sections sid c =
     rbind (finalize_keys sid (fl_active_keys c) (fl_sections c)) (\<lambda>sections. Inr (c\<lparr>fl_sections := sections\<rparr>))"

fun take_sections ::
  "string list \<Rightarrow> (string, cache_section) hmap \<Rightarrow> (string \<times> cache_section) list \<times> (string, cache_section) hmap" where
  "take_sections [] sections = ([], sections)"
| "take_sections (key # keys) sections =
     (case map_of sections key of
        None \<Rightarrow> take_sections keys sections
      | Some s \<Rightarrow> (case take_sections keys (hm_remove key sections) of
          (taken, rest) \<Rightarrow> ((key, s) # taken, rest)))"

definition take_active_sections :: "file_cache \<Rightarrow> (string \<times> cache_section) list \<times> file_cache" where
  "take_active_sections c =
     (case take_sections (fl_active_keys c) (fl_sections c) of
        (taken, rest) \<Rightarrow> (taken, c\<lparr>fl_sections := rest, fl_active_keys := []\<rparr>))"

definition merge_section :: "string \<Rightarrow> cache_section \<Rightarrow> file_cache \<Rightarrow> file_cache" where
  "merge_section label section c = c\<lparr>fl_sections := hm_insert label section (fl_sections c)\<rparr>"

definition invalidate_missing_snapshots :: "(snapshot_id \<Rightarrow> bool) \<Rightarrow> file_cache \<Rightarrow> nat \<times> file_cache" where
  "invalidate_missing_snapshots present c =
     (let kept = hm_retain (\<lambda>_ s. present (cs_anchor_snapshot_id s)) (fl_sections c)
      in (length (fl_sections c) - length kept, c\<lparr>fl_sections := kept\<rparr>))"

definition section_len :: "file_cache \<Rightarrow> string \<Rightarrow> nat" where
  "section_len c root = (case map_of (fl_sections c) root of None \<Rightarrow> 0 | Some s \<Rightarrow> length (cs_entries s))"

definition file_cache_len :: "file_cache \<Rightarrow> nat" where
  "file_cache_len c = sum_list (map (\<lambda>(_, s). length (cs_entries s)) (fl_sections c))"

definition MIN_BYTES_PER_ENTRY :: nat where "MIN_BYTES_PER_ENTRY = 40"

definition decode_from_plaintext :: "(bytes \<Rightarrow> file_cache result) \<Rightarrow> bytes \<Rightarrow> file_cache" where
  "decode_from_plaintext from_slice plaintext =
     (if length plaintext > 256 * 1024 * 1024 then file_cache_new
      else case from_slice plaintext of
        Inr cache \<Rightarrow>
          if file_cache_len cache > length plaintext div MIN_BYTES_PER_ENTRY then file_cache_new else cache
      | Inl _ \<Rightarrow> file_cache_new)"

text \<open>\<open>load\<close> on the contents of the file, \<open>None\<close> when it cannot be read; \<open>save\<close> yields the contents.\<close>

definition file_cache_load ::
  "(bytes \<Rightarrow> file_cache result) \<Rightarrow> crypto_engine \<Rightarrow> bytes option \<Rightarrow> file_cache" where
  "file_cache_load from_slice crypto file =
     (case file of
        None \<Rightarrow> file_cache_new
      | Some d \<Rightarrow>
          (case unpack_object_expect_with_context d FileCacheObj (str_bytes ''filecache'') crypto of
             Inl _ \<Rightarrow> file_cache_new
           | Inr plaintext \<Rightarrow> decode_from_plaintext from_slice plaintext))"

definition file_cache_save ::
  "(file_cache \<Rightarrow> bytes result) \<Rightarrow> crypto_engine \<Rightarrow> bytes \<Rightarrow> file_cache \<Rightarrow> bytes result" where
  "file_cache_save to_vec crypto nonce c =
     pack_object_streaming_with_context nonce FileCacheObj (str_bytes ''filecache'') crypto
       (\<lambda>buf. rbind (to_vec c) (\<lambda>v. Inr (buf @ v)))"

section \<open>Reuse from a parent snapshot\<close>

record parent_entry =
  pe_mtime_ns :: int
  pe_ctime_ns :: int
  pe_size :: u64
  pe_chunk_refs :: "chunk_ref list"

type_synonym parent_reuse_index = "(path_hash, parent_entry) hmap"

record parent_reuse_builder =
  pb_entries :: parent_reuse_index
  pb_walk_roots :: "(string \<times> string) list"
  pb_multi_path :: bool
  pb_legacy_abort :: bool

definition parent_builder_new :: "(string \<times> string) list \<Rightarrow> bool \<Rightarrow> parent_reuse_builder" where
  "parent_builder_new walk_roots multi_path =
     \<lparr>pb_entries = [], pb_walk_roots = walk_roots, pb_multi_path = multi_path, pb_legacy_abort = False\<rparr>"

definition reconstruct_abs_path :: "string \<Rightarrow> (string \<times> string) list \<Rightarrow> bool \<Rightarrow> string" where
  "reconstruct_abs_path item_path walk_roots multi_path =
     (if multi_path then
        (case dropWhile (\<lambda>c. c \<noteq> CHR ''/'') item_path of
           [] \<Rightarrow> item_path
         | _ # rel \<Rightarrow>
             (case map_of walk_roots (takeWhile (\<lambda>c. c \<noteq> CHR ''/'') item_path) of
                Some walk_root \<Rightarrow> path_join walk_root rel
              | None \<Rightarrow> item_path))
      else case walk_roots of
        [] \<Rightarrow> item_path
      | (_, walk_root) # _ \<Rightarrow> path_join walk_root item_path)"

definition parent_push ::
  "(bytes \<Rightarrow> bytes) \<Rightarrow> item \<Rightarrow> parent_reuse_builder \<Rightarrow> bool \<times> parent_reuse_builder" where
  "parent_push h it b =
     (if pb_legacy_abort b then (False, b)
      else if it_entry_type it \<noteq> RegularFile then (True, b)
      else if starts_with (it_path it) ''vykar-dumps/'' then (True, b)
      else case it_ctime it of
        None \<Rightarrow> (False, b\<lparr>pb_legacy_abort := True\<rparr>)
      | Some ctime_ns \<Rightarrow>
          (let abs_path = reconstruct_abs_path (it_path it) (pb_walk_roots b) (pb_multi_path b)
           in (True, b\<lparr>pb_entries := hm_insert (hash_path h abs_path)
                  \<lparr>pe_mtime_ns = it_mtime it, pe_ctime_ns = ctime_ns, pe_size = it_size it,
                   pe_chunk_refs = it_chunks it\<rparr> (pb_entries b)\<rparr>)))"

definition parent_finish :: "parent_reuse_builder \<Rightarrow> parent_reuse_index option" where
  "parent_finish b = (if pb_legacy_abort b then None else Some (pb_entries b))"

definition parent_lookup ::
  "(bytes \<Rightarrow> bytes) \<Rightarrow> parent_reuse_index \<Rightarrow> string \<Rightarrow> u64 \<Rightarrow> int \<Rightarrow> int \<Rightarrow> chunk_ref list option" where
  "parent_lookup h idx abs_path size' mtime_ns ctime_ns =
     (case map_of idx (hash_path h abs_path) of
        None \<Rightarrow> None
      | Some e \<Rightarrow>
          if pe_size e = size' \<and> pe_mtime_ns e = mtime_ns \<and> pe_ctime_ns e = ctime_ns
          then Some (pe_chunk_refs e) else None)"

section \<open>Lemmas\<close>

text \<open>What a sequence of inserts leaves for a path.\<close>

definition last_insert :: "(string \<times> file_meta \<times> chunk_ref list) list \<Rightarrow> string \<Rightarrow> (file_meta \<times> chunk_ref list) option" where
  "last_insert es p = map_of (rev es) p"

fun insert_all ::
  "(bytes \<Rightarrow> bytes) \<Rightarrow> (string \<times> file_meta \<times> chunk_ref list) list \<Rightarrow> file_cache \<Rightarrow> file_cache result" where
  "insert_all h [] c = Inr c"
| "insert_all h ((p, m, refs) # es) c = rbind (file_cache_insert h p m refs c) (insert_all h es)"

text \<open>A section that holds, for the paths below its key, what the inserts left.\<close>

definition section_holds ::
  "(bytes \<Rightarrow> bytes) \<Rightarrow> string set \<Rightarrow> (string \<Rightarrow> (file_meta \<times> chunk_ref list) option) \<Rightarrow> string \<Rightarrow> cache_section \<Rightarrow> bool" where
  "section_holds h P f key s \<longleftrightarrow> (\<forall>p \<in> P. path_starts_with p key \<longrightarrow>
     map_of (cs_entries s) (hash_path h p) = map_option (\<lambda>(m, refs). make_entry m refs) (f p))"

definition sections_hold ::
  "(bytes \<Rightarrow> bytes) \<Rightarrow> string set \<Rightarrow> (string \<Rightarrow> (file_meta \<times> chunk_ref list) option) \<Rightarrow> string set \<Rightarrow>
   (string, cache_section) hmap \<Rightarrow> bool" where
  "sections_hold h P f keys sections \<longleftrightarrow>
     (\<forall>key \<in> keys. \<exists>s. map_of sections key = Some s \<and> section_holds h P f key s)"

lemma set_longest_first [simp]: "set (longest_first ks) = set ks"
  by (simp add: longest_first_def)

lemma entry_meta_make [simp]:
  "entry_meta (make_entry m refs) = m" "fe_chunk_refs (make_entry m refs) = refs"
  by (cases m; simp add: entry_meta_def make_entry_def)+

lemma hm_insert_get: "map_of (hm_insert k v m) k' = (if k' = k then Some v else map_of m k')"
  by (simp add: hm_get_insert)

lemma insert_matching_get:
  assumes "insert_matching ph e keys sections = Inr sections'" and "map_of sections key = Some s"
  shows "\<exists>s'. map_of sections' key = Some s'
    \<and> (\<forall>x. map_of (cs_entries s') x = (if key \<in> set keys \<and> x = ph then Some e else map_of (cs_entries s) x))"
  using assms
proof (induction keys arbitrary: sections s)
  case (Cons k keys)
  from Cons.prems(1) obtain s0 where s0: "map_of sections k = Some s0"
    and rest: "insert_matching ph e keys (hm_insert k (s0\<lparr>cs_entries := hm_insert ph e (cs_entries s0)\<rparr>) sections)
      = Inr sections'" (is "insert_matching _ _ _ ?m = _")
    by (auto split: option.splits)
  obtain s1 where s1: "map_of ?m key = Some s1"
    and e1: "\<forall>x. map_of (cs_entries s1) x = (if key = k \<and> x = ph then Some e else map_of (cs_entries s) x)"
    using s0 Cons.prems(2) by (cases "key = k") (simp_all add: hm_insert_get)
  from Cons.IH [OF rest s1] e1 show ?case by fastforce
qed simp

lemma insert_keeps_sections:
  assumes ins: "file_cache_insert h p m refs c = Inr c'"
    and hold: "sections_hold h P f (set (fl_active_keys c)) (fl_sections c)"
    and inj: "inj_on (hash_path h) P" and p: "p \<in> P"
  shows "sections_hold h P (f(p \<mapsto> (m, refs))) (set (fl_active_keys c')) (fl_sections c')
    \<and> fl_active_keys c' = fl_active_keys c"
proof -
  let ?ks = "filter (path_starts_with p) (fl_active_keys c)"
  from ins obtain secs where secs: "insert_matching (hash_path h p) (make_entry m refs) ?ks (fl_sections c) = Inr secs"
    and c': "c' = c\<lparr>fl_sections := secs\<rparr>"
    by (auto simp: file_cache_insert_def Let_def rbind_Inr_iff split: if_splits)
  have "\<exists>s'. map_of secs key = Some s' \<and> section_holds h P (f(p \<mapsto> (m, refs))) key s'"
    if key: "key \<in> set (fl_active_keys c)" for key
  proof -
    from hold key obtain s where s: "map_of (fl_sections c) key = Some s" and sh: "section_holds h P f key s"
      by (auto simp: sections_hold_def)
    from insert_matching_get [OF secs s] obtain s' where s': "map_of secs key = Some s'"
      and es: "map_of (cs_entries s') x = (if key \<in> set ?ks \<and> x = hash_path h p then Some (make_entry m refs)
        else map_of (cs_entries s) x)" for x by auto
    have "map_of (cs_entries s') (hash_path h q) = map_option (\<lambda>(m, refs). make_entry m refs) ((f(p \<mapsto> (m, refs))) q)"
      if q: "q \<in> P" "path_starts_with q key" for q
      using sh q key inj_onD [OF inj _ q(1) p] by (cases "q = p") (auto simp: es section_holds_def)
    with s' show ?thesis by (auto simp: section_holds_def)
  qed
  then show ?thesis by (simp add: c' sections_hold_def)
qed

lemma insert_all_keeps_sections:
  assumes "insert_all h es c = Inr c'" and "sections_hold h P f (set (fl_active_keys c)) (fl_sections c)"
    and "inj_on (hash_path h) P" and "fst ` set es \<subseteq> P"
  shows "sections_hold h P (\<lambda>p. case last_insert es p of Some v \<Rightarrow> Some v | None \<Rightarrow> f p)
      (set (fl_active_keys c')) (fl_sections c') \<and> fl_active_keys c' = fl_active_keys c"
  using assms
proof (induction es arbitrary: c f)
  case (Cons e es)
  obtain p m refs where e: "e = (p, m, refs)" by (cases e) auto
  from Cons.prems(1) obtain c1 where c1: "file_cache_insert h p m refs c = Inr c1"
    and rest: "insert_all h es c1 = Inr c'" by (auto simp: e rbind_Inr_iff)
  have p: "p \<in> P" using Cons.prems(4) by (simp add: e)
  note k = insert_keeps_sections [OF c1 Cons.prems(2,3) p]
  have "(\<lambda>q. case last_insert es q of Some v \<Rightarrow> Some v | None \<Rightarrow> (f(p \<mapsto> (m, refs))) q)
      = (\<lambda>q. case last_insert (e # es) q of Some v \<Rightarrow> Some v | None \<Rightarrow> f q)"
    by (auto simp: last_insert_def e map_add_def split: option.splits)
  with Cons.IH [OF rest conjunct1 [OF k] Cons.prems(3)] conjunct2 [OF k] Cons.prems(4)
  show ?case by (auto simp: e)
qed (simp add: last_insert_def)

lemma finalize_keys_hold:
  assumes "finalize_keys sid ks sections = Inr sections'" and "sections_hold h P f keys sections"
  shows "sections_hold h P f keys sections' \<and> (\<forall>k. hm_contains sections' k = hm_contains sections k)"
  using assms
proof (induction ks arbitrary: sections)
  case (Cons k ks)
  from Cons.prems(1) obtain s where s: "map_of sections k = Some s"
    and rest: "finalize_keys sid ks (hm_insert k (s\<lparr>cs_anchor_snapshot_id := sid\<rparr>) sections) = Inr sections'"
    by (auto split: option.splits)
  have "sections_hold h P f keys (hm_insert k (s\<lparr>cs_anchor_snapshot_id := sid\<rparr>) sections)"
    using Cons.prems(2) s by (auto simp: sections_hold_def section_holds_def hm_insert_get)
  from Cons.IH [OF rest this] s show ?case by (auto simp: hm_contains_def hm_insert_get)
qed simp

lemma take_sections_get:
  "map_of (fst (take_sections ks sections)) k = (if k \<in> set ks then map_of sections k else None)"
proof (induction ks arbitrary: sections)
  case (Cons a ks)
  show ?case
    using Cons [of sections] Cons [of "hm_remove a sections"]
    by (cases "map_of sections a"; cases "take_sections ks (hm_remove a sections)") auto
qed simp

lemma take_sections_distinct:
  "distinct (map fst (fst (take_sections ks sections)))
   \<and> (\<forall>k \<in> fst ` set (fst (take_sections ks sections)). hm_contains sections k)"
proof (induction ks arbitrary: sections)
  case (Cons a ks)
  show ?case
  proof (cases "map_of sections a")
    case (Some s)
    obtain taken rest where t: "take_sections ks (hm_remove a sections) = (taken, rest)" by fastforce
    from Cons [of "hm_remove a sections"] have "distinct (map fst taken)"
      and "\<And>k. k \<in> fst ` set taken \<Longrightarrow> k \<noteq> a \<and> hm_contains sections k"
      by (auto simp: t hm_contains_def split: if_splits)
    then show ?thesis using Some by (auto simp: t hm_contains_def)
  qed (use Cons in simp)
qed simp

lemma merge_sections_get:
  "distinct (map fst taken) \<Longrightarrow>
   map_of (fl_sections (fold (\<lambda>(k, s) c. merge_section k s c) taken c)) k =
     (case map_of taken k of Some s \<Rightarrow> Some s | None \<Rightarrow> map_of (fl_sections c) k)"
proof (induction taken arbitrary: c)
  case (Cons x taken)
  obtain k0 s0 where x: "x = (k0, s0)" by (cases x)
  have "map_of taken k0 = None" using Cons.prems by (simp add: x map_of_eq_None_iff)
  then show ?case
    using Cons by (auto simp: x merge_section_def hm_insert_get split: option.splits)
qed simp

lemma lookup_in_sections:
  assumes hold: "sections_hold h P f (set ks) (fl_sections c)" and act: "set (fl_active_keys c) = set ks"
    and p: "p \<in> P" and root: "\<exists>k \<in> set ks. path_starts_with p k"
  shows "file_cache_lookup h c p m = Some refs \<longleftrightarrow> f p = Some (m, refs)"
proof -
  have "\<exists>k. find_section_key c p = Some k"
    unfolding find_section_key_def
    using root act by (metis (mono_tags, lifting) find_None_iff2 not_None_eq)
  then obtain k where k: "find_section_key c p = Some k" by blast
  then have kk: "k \<in> set ks" "path_starts_with p k"
    using act unfolding find_section_key_def by (auto simp: find_Some_iff dest: nth_mem)
  from hold kk(1) obtain s where s: "map_of (fl_sections c) k = Some s" and "section_holds h P f k s"
    by (auto simp: sections_hold_def)
  then have e: "map_of (cs_entries s) (hash_path h p) = map_option (\<lambda>(m, refs). make_entry m refs) (f p)"
    using p kk(2) by (simp add: section_holds_def)
  have "fl_active_keys c \<noteq> []" using act kk(1) by (metis empty_iff list.set(1))
  then show ?thesis
    by (cases "f p") (auto simp: file_cache_lookup_def k s e split: option.splits prod.splits)
qed

section \<open>Properties\<close>

text \<open>C33: The file cache returns exactly what the last backup recorded.  A backup starts sections
  for its source paths, inserts the files it reads, anchors the sections to its snapshot and merges
  them into the persistent cache.  When the next backup activates the same source paths, a lookup
  below one of them hits exactly when the last insert of this path had the same device, inode,
  times and size, and then returns the chunks of that insert, also when source paths are nested.
  The 16-byte hashes of the paths involved are taken to differ.\<close>

theorem file_cache_reuse:
  assumes start: "begin_sections roots hints base = Inr c0" and ins: "insert_all h es c0 = Inr c1"
    and fin: "finalize_sections sid c1 = Inr c2"
    and inj: "inj_on (hash_path h) (insert p (fst ` set es))"
    and root: "\<exists>r \<in> set roots. path_starts_with p r"
    and next_cache: "next_cache = snd (activate_for_walk_roots roots
      (fold (\<lambda>(k, s) c. merge_section k s c) (fst (take_active_sections c2)) persistent))"
  shows "file_cache_lookup h next_cache p m = Some refs \<longleftrightarrow> last_insert es p = Some (m, refs)"
proof -
  let ?P = "insert p (fst ` set es)"
  let ?taken = "fst (take_active_sections c2)"
  from start have c0: "c0 = base\<lparr>fl_sections := fold (\<lambda>r m. hm_insert r empty_section m) roots (fl_sections base),
      fl_active_keys := longest_first roots\<rparr>"
    by (simp add: begin_sections_def split: if_splits)
  have get0: "map_of (fold (\<lambda>r m. hm_insert r empty_section m) roots m0) k =
      (if k \<in> set roots then Some empty_section else map_of m0 k)" for m0 k
    by (induction roots arbitrary: m0) (auto simp: hm_insert_get)
  have "sections_hold h ?P (\<lambda>_. None) (set (fl_active_keys c0)) (fl_sections c0)"
    unfolding c0 sections_hold_def section_holds_def
    by (simp add: get0) (simp add: empty_section_def)
  moreover have "(\<lambda>p. case last_insert es p of Some v \<Rightarrow> Some v | None \<Rightarrow> None) = last_insert es"
    by (auto split: option.splits)
  ultimately have h1: "sections_hold h ?P (last_insert es) (set roots) (fl_sections c1)"
    and k1: "set (fl_active_keys c1) = set roots"
    using insert_all_keeps_sections [OF ins _ inj subset_insertI, of "\<lambda>_. None"] by (auto simp: c0)
  from fin obtain secs where secs: "finalize_keys sid (fl_active_keys c1) (fl_sections c1) = Inr secs"
    and c2: "c2 = c1\<lparr>fl_sections := secs\<rparr>" by (auto simp: finalize_sections_def rbind_Inr_iff)
  have h2: "sections_hold h ?P (last_insert es) (set roots) secs"
    using finalize_keys_hold [OF secs h1] by simp
  have taken: "map_of ?taken k = (if k \<in> set roots then map_of secs k else None)" for k
    using take_sections_get [of "fl_active_keys c1" secs k] k1
    by (simp add: take_active_sections_def c2 case_prod_beta)
  have dist: "distinct (map fst ?taken)"
    using take_sections_distinct [of "fl_active_keys c1" secs]
    by (simp add: take_active_sections_def c2 case_prod_beta)
  let ?c3 = "fold (\<lambda>(k, s) c. merge_section k s c) ?taken persistent"
  have h3: "sections_hold h ?P (last_insert es) (set roots) (fl_sections ?c3)"
    using h2 by (auto simp: sections_hold_def merge_sections_get [OF dist] taken)
  have "\<forall>r \<in> set roots. hm_contains (fl_sections ?c3) r"
    using h3 by (auto simp: sections_hold_def hm_contains_def)
  then have "set (fl_active_keys next_cache) = set roots" "fl_sections next_cache = fl_sections ?c3"
    by (auto simp: next_cache activate_for_walk_roots_def)
  with h3 root show ?thesis by (intro lookup_in_sections [where P = ?P and ks = roots]) simp_all
qed

definition wit_refs :: "chunk_ref list" where
  "wit_refs = [\<lparr>cr_id = ChunkId (replicate 32 7), cr_size = 3, cr_csize = 40\<rparr>]"

lemma file_cache_reuse_witness:
  "\<exists>c0 c1 c2. begin_sections [''/d'', ''/d/sub''] [0, 0] file_cache_new = Inr c0
     \<and> insert_all id [(''/d/sub/f'', (1, 2, 3, 4, 5), wit_refs)] c0 = Inr c1
     \<and> finalize_sections (SnapshotId []) c1 = Inr c2
     \<and> file_cache_lookup id (snd (activate_for_walk_roots [''/d'', ''/d/sub'']
          (fold (\<lambda>(k, s) c. merge_section k s c) (fst (take_active_sections c2)) file_cache_new)))
          ''/d/sub/f'' (1, 2, 3, 4, 5) = Some wit_refs"
proof -
  let ?es = "[(''/d/sub/f'', (1, 2, 3, 4, 5), wit_refs)]"
  have "case begin_sections [''/d'', ''/d/sub''] [0, 0] file_cache_new of Inl _ \<Rightarrow> False | Inr c0 \<Rightarrow>
      (case insert_all id ?es c0 of Inl _ \<Rightarrow> False | Inr c1 \<Rightarrow>
        (case finalize_sections (SnapshotId []) c1 of Inl _ \<Rightarrow> False | Inr c2 \<Rightarrow> True))"
    by code_simp
  then obtain c0 c1 c2 where c: "begin_sections [''/d'', ''/d/sub''] [0, 0] file_cache_new = Inr c0"
    "insert_all id ?es c0 = Inr c1" "finalize_sections (SnapshotId []) c1 = Inr c2"
    by (auto split: sum.splits)
  have "\<exists>r \<in> set [''/d'', ''/d/sub'']. path_starts_with ''/d/sub/f'' r" by code_simp
  from file_cache_reuse [OF c _ this refl, where persistent = file_cache_new] c show ?thesis
    by (auto simp: last_insert_def)
qed

end
