(* ===== verification/Repository.thy ===== *)
theory Repository
  imports Write_Session Retention File_Cache "HOL-Library.Code_Target_Nat"
begin

text \<open>
  The repository handle (\<open>vykar-core/src/repo/mod.rs\<close>): the blob cache, deduplicated storing of
  chunks through the pack writers, flushing, reading single chunks and coalesced ranges, the
  checkpoint of a command dump, and loading, verifying and persisting the index.

  The state of an operation is the state of the machine together with the repository record;
  \<open>expect\<close> on a missing write session is the error \<open>Panicked\<close>.
\<close>

section \<open>Blob cache\<close>

definition BLOB_CACHE_MAX_BYTES :: nat where "BLOB_CACHE_MAX_BYTES = 32 * 1024 * 1024"

definition INDEX_OBJECT_CONTEXT :: bytes where "INDEX_OBJECT_CONTEXT = str_bytes ''index''"

record blob_cache =
  bc_entries :: "(chunk_id, bytes) hmap"
  bc_order :: "chunk_id list"
  bc_current_bytes :: nat
  bc_max_bytes :: nat

definition bc_new :: "nat \<Rightarrow> blob_cache" where
  "bc_new max_bytes = \<lparr>bc_entries = [], bc_order = [], bc_current_bytes = 0, bc_max_bytes = max_bytes\<rparr>"

definition bc_get :: "blob_cache \<Rightarrow> chunk_id \<Rightarrow> bytes option" where
  "bc_get c i = map_of (bc_entries c) i"

text \<open>The eviction loop; \<open>usize\<close> subtraction below zero is written as a truncated one.\<close>

fun bc_evict :: "nat \<Rightarrow> nat \<Rightarrow> (chunk_id, bytes) hmap \<Rightarrow> chunk_id list \<Rightarrow> nat \<Rightarrow>
    (chunk_id, bytes) hmap \<times> chunk_id list \<times> nat" where
  "bc_evict max_bytes data_len es [] cur = (es, [], cur)"
| "bc_evict max_bytes data_len es (i # order) cur =
     (if max_bytes < cur + data_len
      then (case map_of es i of
              Some d \<Rightarrow> bc_evict max_bytes data_len (hm_remove i es) order (cur - length d)
            | None \<Rightarrow> bc_evict max_bytes data_len es order cur)
      else (es, i # order, cur))"

definition bc_insert :: "blob_cache \<Rightarrow> chunk_id \<Rightarrow> bytes \<Rightarrow> blob_cache" where
  "bc_insert c i data =
     (if bc_max_bytes c < length data then c
      else (case bc_evict (bc_max_bytes c) (length data) (bc_entries c) (bc_order c) (bc_current_bytes c) of
              (es, order, cur) \<Rightarrow>
                c\<lparr>bc_entries := hm_insert i data es, bc_order := order @ [i],
                  bc_current_bytes := cur + length data\<rparr>))"

section \<open>The handle\<close>

datatype encryption_mode = EncNone | Aes256Gcm | Chacha20Poly1305

fun encryption_mode_as_str :: "encryption_mode \<Rightarrow> string" where
  "encryption_mode_as_str EncNone = ''none''"
| "encryption_mode_as_str Aes256Gcm = ''aes256gcm''"
| "encryption_mode_as_str Chacha20Poly1305 = ''chacha20poly1305''"

record repo_config =
  cf_version :: u32
  cf_id :: bytes
  cf_encryption :: encryption_mode
  cf_created :: int
  cf_min_pack_size :: u32
  cf_max_pack_size :: u32

text \<open>
  The lock fence is the key of the lock and the time of its last refresh.  \<close>

record repository =
  rp_manifest :: manifest
  rp_chunk_index :: chunk_index
  rp_config :: repo_config
  rp_blob_cache :: blob_cache
  rp_index_generation :: u64
  rp_index_dirty :: bool
  rp_rebuild_dedup_cache :: bool
  rp_write_session :: "write_session option"
  rp_lock_fence :: "(string \<times> int) option"
  rp_file_cache :: file_cache
  rp_file_cache_dirty :: bool

type_synonym ('s, 'a) repo_io = "('s \<times> repository, vykar_error, 'a) io"

definition no_session :: vykar_error where "no_session = Panicked ''no active write session''"

definition need_ws :: "('s, write_session) repo_io" where
  "need_ws = (\<lambda>(s, r). case rp_write_session r of
      None \<Rightarrow> (Inl no_session, (s, r)) | Some w \<Rightarrow> (Inr w, (s, r)))"

definition put_ws :: "write_session \<Rightarrow> ('s, unit) repo_io" where
  "put_ws w = modify_ws (\<lambda>r. r\<lparr>rp_write_session := Some w\<rparr>)"

definition with_ws :: "('s, 'a) ws_io \<Rightarrow> ('s, 'a) repo_io" where
  "with_ws m = (\<lambda>(s, r). case rp_write_session r of
      None \<Rightarrow> (Inl no_session, (s, r))
    | Some w \<Rightarrow> (case m (s, w) of (res, (s', w')) \<Rightarrow> (res, (s', r\<lparr>rp_write_session := Some w'\<rparr>))))"

definition begin_write_session :: "repo_lib \<Rightarrow> 's system \<Rightarrow> ('s, unit) repo_io" where
  "begin_write_session lib y =
     io_bind get_ws (\<lambda>r.
       if rp_write_session r \<noteq> None then io_fail (Other ''write session already active'')
       else (let num_packs = ci_count_distinct_packs (rp_chunk_index r);
                 cfg = rp_config r;
                 data_target = rl_data_pack_target lib num_packs (cf_min_pack_size cfg) (cf_max_pack_size cfg);
                 tree_target = compute_tree_pack_target (cf_min_pack_size cfg)
             in io_bind (draw (sy_instant y)) (\<lambda>now.
                  put_ws ((ws_new data_target tree_target 2 now)\<lparr>ws_persisted_pack_count := num_packs\<rparr>))))"

definition set_write_session_id :: "string \<Rightarrow> repository \<Rightarrow> repository" where
  "set_write_session_id sid r =
     r\<lparr>rp_write_session := map_option (\<lambda>w. w\<lparr>ws_session_id := sid\<rparr>) (rp_write_session r)\<rparr>"

definition rebase_pack_target_from_index :: "repo_lib \<Rightarrow> repository \<Rightarrow> repository" where
  "rebase_pack_target_from_index lib r =
     (case rp_write_session r of
        None \<Rightarrow> r
      | Some w \<Rightarrow>
          (let num_packs = ci_count_distinct_packs (rp_chunk_index r);
               data_target = rl_data_pack_target lib num_packs (cf_min_pack_size (rp_config r))
                               (cf_max_pack_size (rp_config r))
           in r\<lparr>rp_write_session := Some (w\<lparr>ws_persisted_pack_count := num_packs,
                  ws_session_packs_flushed := 0,
                  ws_data_pack_writer := pw_set_target_size (ws_data_pack_writer w) data_target\<rparr>)\<rparr>))"

definition set_max_in_flight_uploads :: "nat \<Rightarrow> ('s, unit) repo_io" where
  "set_max_in_flight_uploads n =
     io_bind need_ws (\<lambda>w. put_ws (w\<lparr>ws_max_in_flight_uploads := max n 1\<rparr>))"

definition enable_dedup_mode :: "repo_lib \<Rightarrow> ('s, unit) repo_io" where
  "enable_dedup_mode lib =
     io_bind need_ws (\<lambda>w.
       if ws_dedup_index w \<noteq> None then io_return ()
       else modify_ws (\<lambda>r.
         r\<lparr>rp_chunk_index := ci_new,
           rp_write_session := Some (w\<lparr>ws_dedup_index := Some (di_from_chunk_index (rl_xor lib) (rp_chunk_index r)),
             ws_index_delta := Some delta_new\<rparr>)\<rparr>))"

text \<open>A file of the local cache directory.\<close>

definition read_cache_file :: "'s system \<Rightarrow> string \<Rightarrow> ('s, bytes option) repo_io" where
  "read_cache_file y file = draw (\<lambda>s. (sy_cache_read y file s, s))"

definition enable_tiered_dedup_mode :: "repo_lib \<Rightarrow> 's system \<Rightarrow> ('s, unit) repo_io" where
  "enable_tiered_dedup_mode lib y =
     io_bind need_ws (\<lambda>w.
       if ws_tiered_dedup w \<noteq> None \<or> ws_dedup_index w \<noteq> None then io_return ()
       else io_bind (modify_ws (\<lambda>r. r\<lparr>rp_rebuild_dedup_cache := True\<rparr>)) (\<lambda>_.
         io_bind get_ws (\<lambda>r.
         io_bind (read_cache_file y ''dedup_cache'') (\<lambda>file.
           case mmap_dedup_open_path file (rp_index_generation r) of
             Some cache \<Rightarrow>
               modify_ws (\<lambda>r. r\<lparr>rp_chunk_index := ci_new,
                 rp_write_session := Some (w\<lparr>ws_tiered_dedup := Some (td_new (rl_xor lib) cache),
                   ws_index_delta := Some delta_new\<rparr>)\<rparr>)
           | None \<Rightarrow> enable_dedup_mode lib))))"

definition dedup_filter :: "repository \<Rightarrow> xor8 option" where
  "dedup_filter r =
     (case rp_write_session r of
        None \<Rightarrow> None
      | Some w \<Rightarrow>
          (case (ws_tiered_dedup w, ws_dedup_index w) of
             (Some t, _) \<Rightarrow> td_xor_filter t
           | (None, Some d) \<Rightarrow> di_xor_filter d
           | (None, None) \<Rightarrow> None))"

definition chunk_exists :: "repository \<Rightarrow> chunk_id \<Rightarrow> bool" where
  "chunk_exists r i =
     (case rp_write_session r of
        None \<Rightarrow> ci_contains (rp_chunk_index r) i
      | Some w \<Rightarrow>
          (case (ws_tiered_dedup w, ws_dedup_index w) of
             (Some t, _) \<Rightarrow> td_contains t i
           | (None, Some d) \<Rightarrow> di_contains d i
           | (None, None) \<Rightarrow> ci_contains (rp_chunk_index r) i))"

section \<open>Deduplication\<close>

definition delta_bump_opt :: "chunk_id \<Rightarrow> write_session \<Rightarrow> write_session" where
  "delta_bump_opt i w =
     w\<lparr>ws_index_delta := map_option (\<lambda>d. delta_bump_refcount d i) (ws_index_delta w)\<rparr>"

definition increment_chunk_ref :: "chunk_id \<Rightarrow> repository \<Rightarrow> repository" where
  "increment_chunk_ref i r =
     (case rp_write_session r of
        Some w \<Rightarrow>
          if ws_index_delta w \<noteq> None then r\<lparr>rp_write_session := Some (delta_bump_opt i w)\<rparr>
          else r\<lparr>rp_chunk_index := ci_increment_refcount (rp_chunk_index r) i, rp_index_dirty := True\<rparr>
      | None \<Rightarrow> r\<lparr>rp_chunk_index := ci_increment_refcount (rp_chunk_index r) i, rp_index_dirty := True\<rparr>)"

definition promote_recovered :: "chunk_id \<Rightarrow> ('s, u32 option) repo_io" where
  "promote_recovered i =
     io_bind need_ws (\<lambda>w.
     io_bind get_ws (\<lambda>r.
       case promote_recovered_chunk i w (rp_chunk_index r) of
         (res, w', idx) \<Rightarrow>
           io_bind (modify_ws (\<lambda>r. r\<lparr>rp_write_session := Some w', rp_chunk_index := idx,
             rp_index_dirty := (rp_index_dirty r \<or> (case res of Some (_, True) \<Rightarrow> True | _ \<Rightarrow> False))\<rparr>)) (\<lambda>_.
             io_return (map_option fst res))))"

definition bump_ref_pending :: "chunk_id \<Rightarrow> ('s, u32 option) repo_io" where
  "bump_ref_pending i =
     io_bind need_ws (\<lambda>w. case bump_ref_pending_ws i w of
       (res, w') \<Rightarrow> io_bind (put_ws w') (\<lambda>_. io_return res))"

definition bump_recovered_or_pending :: "chunk_id \<Rightarrow> ('s, u32 option) repo_io" where
  "bump_recovered_or_pending i =
     io_bind (promote_recovered i) (\<lambda>res.
       case res of Some sz \<Rightarrow> io_return (Some sz) | None \<Rightarrow> bump_ref_pending i)"

definition bump_ref_if_exists :: "chunk_id \<Rightarrow> ('s, u32 option) repo_io" where
  "bump_ref_if_exists i =
     io_bind need_ws (\<lambda>w.
       let bump = (\<lambda>sz. io_bind (put_ws (delta_bump_opt i w)) (\<lambda>_. io_return (Some sz))) in
       case (ws_tiered_dedup w, ws_dedup_index w) of
         (Some t, _) \<Rightarrow>
           (case td_get_stored_size t i of
              Some sz \<Rightarrow> bump sz | None \<Rightarrow> bump_recovered_or_pending i)
       | (None, Some d) \<Rightarrow>
           (case di_get_stored_size d i of
              Some sz \<Rightarrow> bump sz | None \<Rightarrow> bump_recovered_or_pending i)
       | (None, None) \<Rightarrow>
           io_bind get_ws (\<lambda>r.
             case ci_get (rp_chunk_index r) i of
               Some e \<Rightarrow>
                 io_bind (modify_ws (\<lambda>r. r\<lparr>rp_chunk_index := ci_increment_refcount (rp_chunk_index r) i,
                    rp_index_dirty := True\<rparr>)) (\<lambda>_. io_return (Some (ce_stored_size e)))
             | None \<Rightarrow> bump_recovered_or_pending i))"

definition bump_ref_prefilter_hit :: "chunk_id \<Rightarrow> ('s, u32 option) repo_io" where
  "bump_ref_prefilter_hit i =
     io_bind need_ws (\<lambda>w.
       case ws_tiered_dedup w of
         Some t \<Rightarrow>
           (case td_get_stored_size_skip_filter t i of
              Some sz \<Rightarrow> io_bind (put_ws (delta_bump_opt i w)) (\<lambda>_. io_return (Some sz))
            | None \<Rightarrow> bump_recovered_or_pending i)
       | None \<Rightarrow> bump_ref_if_exists i)"

definition bump_ref_prefilter_miss :: "chunk_id \<Rightarrow> ('s, u32 option) repo_io" where
  "bump_ref_prefilter_miss i =
     io_bind need_ws (\<lambda>w.
       case ws_tiered_dedup w of
         Some t \<Rightarrow>
           (case td_session_new_stored_size t i of
              Some sz \<Rightarrow> io_bind (put_ws (delta_bump_opt i w)) (\<lambda>_. io_return (Some sz))
            | None \<Rightarrow> bump_recovered_or_pending i)
       | None \<Rightarrow> bump_ref_if_exists i)"

definition reuse_cached_chunk_ref :: "repo_lib \<Rightarrow> chunk_id \<Rightarrow> ('s, u32) repo_io" where
  "reuse_cached_chunk_ref lib i =
     io_bind (bump_ref_if_exists i) (\<lambda>res.
       case res of
         Some sz \<Rightarrow> io_return sz
       | None \<Rightarrow> io_fail (Other (''cache hit references unresolvable chunk ''
                    @ chunk_id_display (rl_hex lib) i)))"

section \<open>Storing chunks\<close>

definition writer_of :: "pack_type \<Rightarrow> write_session \<Rightarrow> pack_writer" where
  "writer_of ty w = (case ty of Data \<Rightarrow> ws_data_pack_writer w | Tree \<Rightarrow> ws_tree_pack_writer w)"

definition set_writer :: "pack_type \<Rightarrow> pack_writer \<Rightarrow> write_session \<Rightarrow> write_session" where
  "set_writer ty pw w =
     (case ty of Data \<Rightarrow> w\<lparr>ws_data_pack_writer := pw\<rparr> | Tree \<Rightarrow> w\<lparr>ws_tree_pack_writer := pw\<rparr>)"

definition after_seal ::
  "repo_lib \<Rightarrow> pack_type \<Rightarrow> repo_config \<Rightarrow> sealed_pack \<Rightarrow> write_session \<Rightarrow> write_session" where
  "after_seal lib ty cfg sp w =
     (let w1 = (if ty = Data then
                  (let n = ws_session_packs_flushed w + 1;
                       target = rl_data_pack_target lib (ws_persisted_pack_count w + n)
                                  (cf_min_pack_size cfg) (cf_max_pack_size cfg)
                   in w\<lparr>ws_session_packs_flushed := n,
                        ws_data_pack_writer := pw_set_target_size (ws_data_pack_writer w) target\<rparr>)
                else w);
          chunks = map (\<lambda>(i, sz, off, rc). \<lparr>pc_chunk_id = i, pc_stored_size = sz, pc_pack_offset = off\<rparr>)
                     (sp_entries sp)
      in w1\<lparr>ws_pending_journal := pj_record_pack (ws_pending_journal w1) (sp_pack_id sp) chunks,
            ws_dump_tracker := map_option (\<lambda>t. t\<lparr>dt_journal_pack_ids := dt_journal_pack_ids t @ [sp_pack_id sp]\<rparr>)
              (ws_dump_tracker w1)\<rparr>)"

definition repo_apply_sealed_entries ::
  "pack_id \<Rightarrow> packed_chunk_entry list \<Rightarrow> ('s, unit) repo_io" where
  "repo_apply_sealed_entries pid entries =
     io_bind need_ws (\<lambda>w.
       modify_ws (\<lambda>r. case apply_sealed_entries pid entries w (rp_chunk_index r) of
         (dirty, w', idx) \<Rightarrow>
           r\<lparr>rp_write_session := Some w', rp_chunk_index := idx,
             rp_index_dirty := (rp_index_dirty r \<or> dirty)\<rparr>))"

text \<open>\<open>flush_writer_async\<close> makes room in the upload queue, then seals the pack and queues it.\<close>

definition seal_and_queue :: "repo_lib \<Rightarrow> pack_type \<Rightarrow> ('s, unit) repo_io" where
  "seal_and_queue lib ty =
     io_bind need_ws (\<lambda>w.
       case pw_seal (rl_b2 lib) (writer_of ty w) of
         (Inl e, pw) \<Rightarrow> io_bind (put_ws (set_writer ty pw w)) (\<lambda>_. io_fail e)
       | (Inr sp, pw) \<Rightarrow>
           io_bind get_ws (\<lambda>r.
           io_bind (put_ws (after_seal lib ty (rp_config r) sp (set_writer ty pw w))) (\<lambda>_.
           io_bind (repo_apply_sealed_entries (sp_pack_id sp) (sp_entries sp)) (\<lambda>_.
           io_bind need_ws (\<lambda>w'.
             put_ws (w'\<lparr>ws_pending_uploads := ws_pending_uploads w'
               @ [(pack_storage_key (rl_hex lib) (sp_pack_id sp), sp_data sp)]\<rparr>))))))"

definition flush_writer_async :: "repo_lib \<Rightarrow> 's system \<Rightarrow> pack_type \<Rightarrow> ('s, unit) repo_io" where
  "flush_writer_async lib y ty =
     io_bind (with_ws (cap_pending_uploads lib y)) (\<lambda>_. seal_and_queue lib ty)"

definition commit_prepacked_chunk ::
  "repo_lib \<Rightarrow> 's system \<Rightarrow> chunk_id \<Rightarrow> bytes \<Rightarrow> pack_type \<Rightarrow> ('s, u32) repo_io" where
  "commit_prepacked_chunk lib y i packed ty =
     io_bind need_ws (\<lambda>w.
     io_bind (draw (sy_instant y)) (\<lambda>now.
       case pw_add_blob now (writer_of ty w) i packed of
         (Inl e, pw) \<Rightarrow> io_bind (put_ws (set_writer ty pw w)) (\<lambda>_. io_fail e)
       | (Inr _, pw) \<Rightarrow>
           io_bind (put_ws (set_writer ty pw w)) (\<lambda>_.
           io_bind (draw (sy_instant y)) (\<lambda>now'.
           io_bind (if pw_should_flush now' pw then flush_writer_async lib y ty else io_return ()) (\<lambda>_.
             io_return (of_nat (length packed)))))))"

definition commit_chunk_inline ::
  "repo_lib \<Rightarrow> 's system \<Rightarrow> chunk_id \<Rightarrow> bytes \<Rightarrow> compression \<Rightarrow> pack_type \<Rightarrow> ('s, u32) repo_io" where
  "commit_chunk_inline lib y i data alg ty =
     (case compress (rl_codec lib) alg data of
        Inl e \<Rightarrow> io_fail e
      | Inr compressed \<Rightarrow>
          io_bind (draw (sy_nonce y)) (\<lambda>nonce.
            case pack_object_with_context nonce ChunkData (chunk_bytes i) compressed (rl_crypto lib) of
              Inl e \<Rightarrow> io_fail e
            | Inr packed \<Rightarrow> commit_prepacked_chunk lib y i packed ty))"

definition store_chunk ::
  "repo_lib \<Rightarrow> 's system \<Rightarrow> bytes \<Rightarrow> compression \<Rightarrow> pack_type \<Rightarrow> ('s, chunk_id \<times> u32 \<times> bool) repo_io" where
  "store_chunk lib y data alg ty =
     (let i = chunk_id_compute (rl_b2 lib) (en_chunk_id_key (rl_crypto lib)) data in
      io_bind (bump_ref_if_exists i) (\<lambda>res.
        case res of
          Some sz \<Rightarrow> io_return (i, sz, False)
        | None \<Rightarrow> io_bind (commit_chunk_inline lib y i data alg ty) (\<lambda>sz. io_return (i, sz, True))))"

definition flush_packs :: "repo_lib \<Rightarrow> 's system \<Rightarrow> ('s, unit) repo_io" where
  "flush_packs lib y =
     io_bind get_ws (\<lambda>r.
       case rp_write_session r of
         None \<Rightarrow> io_return ()
       | Some w \<Rightarrow>
           io_bind (if pw_has_pending (ws_data_pack_writer w) then flush_writer_async lib y Data
                    else io_return ()) (\<lambda>_.
           io_bind (if pw_has_pending (ws_tree_pack_writer w) then flush_writer_async lib y Tree
                    else io_return ()) (\<lambda>_.
             with_ws (wait_pending_uploads lib y))))"

text \<open>\<open>flush_on_abort\<close>: every error is logged and dropped.\<close>

definition try_unit :: "('st, 'e, 'a) io \<Rightarrow> ('st, 'e, unit) io" where
  "try_unit m = io_bind (io_try m) (\<lambda>_. io_return ())"

definition flush_on_abort :: "repo_lib \<Rightarrow> 's system \<Rightarrow> ('s, unit) repo_io" where
  "flush_on_abort lib y =
     io_bind get_ws (\<lambda>r.
       case rp_write_session r of
         None \<Rightarrow> io_return ()
       | Some w \<Rightarrow>
           if ws_pending_uploads w = [] \<and> pj_is_empty (ws_pending_journal w)
              \<and> \<not> (pw_has_pending (ws_data_pack_writer w) \<or> pw_has_pending (ws_tree_pack_writer w))
           then io_return ()
           else
             io_bind (if pw_has_pending (ws_data_pack_writer w)
                      then try_unit (flush_writer_async lib y Data) else io_return ()) (\<lambda>_.
             io_bind need_ws (\<lambda>w1.
             io_bind (if pw_has_pending (ws_tree_pack_writer w1)
                      then try_unit (flush_writer_async lib y Tree) else io_return ()) (\<lambda>_.
             io_bind (with_ws (\<lambda>(s, w). case join_all y (ws_pending_uploads w) s of
                        (_, s') \<Rightarrow> (Inr (), (s', w\<lparr>ws_pending_uploads := []\<rparr>)))) (\<lambda>_.
             io_bind (with_ws (write_pending_index_best_effort lib y)) (\<lambda>_.
               modify_ws (\<lambda>r. r\<lparr>rp_write_session := None\<rparr>)))))))"

definition repo_recover_pending_index ::
  "repo_lib \<Rightarrow> 's system \<Rightarrow> ('s, pending_index_recovery) repo_io" where
  "repo_recover_pending_index lib y =
     io_bind get_ws (\<lambda>r. with_ws (recover_pending_index lib y (rp_chunk_index r)))"

section \<open>Command dump checkpoint\<close>

definition begin_dump_checkpoint :: "repo_lib \<Rightarrow> 's system \<Rightarrow> ('s, unit) repo_io" where
  "begin_dump_checkpoint lib y =
     io_bind need_ws (\<lambda>w.
     io_bind (if pw_has_pending (ws_data_pack_writer w) then flush_writer_async lib y Data
              else io_return ()) (\<lambda>_.
     io_bind need_ws (\<lambda>w1.
       put_ws (w1\<lparr>ws_dump_tracker := Some
         \<lparr>dt_delta_checkpoint = (case ws_index_delta w1 of
              Some d \<Rightarrow> delta_checkpoint d | None \<Rightarrow> delta_checkpoint_empty),
          dt_dedup_inserts = [], dt_promoted_recovered = [], dt_journal_pack_ids = [],
          dt_data_pack_target_size = pw_target_size (ws_data_pack_writer w1)\<rparr>\<rparr>))))"

definition commit_dump_checkpoint :: "repository \<Rightarrow> repository" where
  "commit_dump_checkpoint r =
     r\<lparr>rp_write_session := map_option (\<lambda>w. w\<lparr>ws_dump_tracker := None\<rparr>) (rp_write_session r)\<rparr>"

definition rollback_session :: "dump_rollback_tracker \<Rightarrow> write_session \<Rightarrow> write_session" where
  "rollback_session t w =
     (let w1 = w\<lparr>ws_dump_tracker := None,
            ws_index_delta := map_option (\<lambda>d. delta_rollback d (dt_delta_checkpoint t)) (ws_index_delta w)\<rparr>;
          w2 = (case (ws_tiered_dedup w1, ws_dedup_index w1) of
                  (Some td, _) \<Rightarrow> w1\<lparr>ws_tiered_dedup := Some (fold (\<lambda>i td. td_remove td i) (dt_dedup_inserts t) td)\<rparr>
                | (None, Some d) \<Rightarrow> w1\<lparr>ws_dedup_index := Some (fold (\<lambda>i d. di_remove d i) (dt_dedup_inserts t) d)\<rparr>
                | (None, None) \<Rightarrow> w1)
      in w2\<lparr>ws_recovered_chunks :=
              fold (\<lambda>(i, e) m. hm_insert i e m) (dt_promoted_recovered t) (ws_recovered_chunks w2),
            ws_pending_journal := fold (\<lambda>p j. pj_remove_pack j p) (dt_journal_pack_ids t) (ws_pending_journal w2),
            ws_data_pack_writer := pw_new Data (dt_data_pack_target_size t)\<rparr>)"

definition rollback_dump_checkpoint :: "('s, unit) repo_io" where
  "rollback_dump_checkpoint =
     io_bind need_ws (\<lambda>w.
       case ws_dump_tracker w of
         None \<Rightarrow> io_return ()
       | Some t \<Rightarrow>
           modify_ws (\<lambda>r. r\<lparr>rp_write_session := Some (rollback_session t w),
             rp_chunk_index :=
               (if ws_tiered_dedup w = None \<and> ws_dedup_index w = None
                then fold (\<lambda>i idx. snd (ci_decrement idx i)) (dt_dedup_inserts t) (rp_chunk_index r)
                else rp_chunk_index r)\<rparr>))"

section \<open>The index object\<close>

definition check_lock_fence :: "repo_lib \<Rightarrow> 's system \<Rightarrow> ('s, unit) repo_io" where
  "check_lock_fence lib y =
     io_bind get_ws (\<lambda>r.
       case rp_lock_fence r of
         None \<Rightarrow> io_return ()
       | Some (key, refreshed) \<Rightarrow>
           io_bind (draw (sy_utc y)) (\<lambda>t1.
           io_bind (draw (sy_utc y)) (\<lambda>t2.
           io_bind (draw (sy_utc y)) (\<lambda>t3.
           io_bind (on_store (lock_fence (rl_locks lib) (rl_host lib) (sy_storage y) key refreshed
                      \<lparr>fr_verify = t1, fr_now = t2, fr_utc = t3\<rparr>)) (\<lambda>refreshed'.
             modify_ws (\<lambda>r. r\<lparr>rp_lock_fence := Some (key, refreshed')\<rparr>))))))"

definition decode_index_blob_full :: "repo_lib \<Rightarrow> bytes \<Rightarrow> index_blob result" where
  "decode_index_blob_full lib index_data =
     rbind (unpack_object_expect_with_context index_data ChunkIndexObj INDEX_OBJECT_CONTEXT (rl_crypto lib))
       (\<lambda>compressed. rbind (decompress_metadata (rl_codec lib) compressed)
          (\<lambda>index_bytes. rl_index_from_slice lib index_bytes))"

definition reload_full_index_with_generation ::
  "repo_lib \<Rightarrow> 's system \<Rightarrow> ('s, u64 \<times> chunk_index) repo_io" where
  "reload_full_index_with_generation lib y =
     io_bind (on_store (be_get (sy_storage y) ''index'')) (\<lambda>got.
       case got of
         None \<Rightarrow> io_return (0, ci_new)
       | Some index_data \<Rightarrow>
           (case decode_index_blob_full lib index_data of
              Inl e \<Rightarrow> io_fail e
            | Inr blob \<Rightarrow> io_return (ib_generation blob, ib_chunks blob)))"

definition reload_full_index :: "repo_lib \<Rightarrow> 's system \<Rightarrow> ('s, chunk_index) repo_io" where
  "reload_full_index lib y =
     io_bind (reload_full_index_with_generation lib y) (\<lambda>(g, idx). io_return idx)"

definition load_chunk_index :: "repo_lib \<Rightarrow> 's system \<Rightarrow> ('s, unit) repo_io" where
  "load_chunk_index lib y =
     io_bind (reload_full_index_with_generation lib y) (\<lambda>(g, idx).
     io_bind (modify_ws (\<lambda>r. r\<lparr>rp_index_generation := g, rp_chunk_index := idx\<rparr>)) (\<lambda>_.
     io_bind (io_try (on_store (be_put (sy_storage y) ''index.gen'' (u64_to_le_bytes g)))) (\<lambda>_.
       modify_ws (rebase_pack_target_from_index lib))))"

definition load_chunk_index_uncached :: "repo_lib \<Rightarrow> 's system \<Rightarrow> ('s, unit) repo_io" where
  "load_chunk_index_uncached lib y =
     io_bind (reload_full_index lib y) (\<lambda>idx.
       modify_ws (\<lambda>r. rebase_pack_target_from_index lib (r\<lparr>rp_chunk_index := idx\<rparr>)))"

text \<open>\<open>compress_stream_zstd\<close>: the tag byte and the compressed stream, appended to the buffer.\<close>

definition write_index_plaintext :: "repo_lib \<Rightarrow> index_blob \<Rightarrow> bytes \<Rightarrow> bytes result" where
  "write_index_plaintext lib blob buf =
     rbind (rl_index_to_vec lib blob) (\<lambda>serialized. compress_append (rl_codec lib) (Zstd 3) serialized buf)"

definition persist_index :: "repo_lib \<Rightarrow> 's system \<Rightarrow> ('s, unit) repo_io" where
  "persist_index lib y =
     io_bind get_ws (\<lambda>r.
     io_bind (draw (sy_nonce y)) (\<lambda>nonce.
       case pack_object_streaming_with_context nonce ChunkIndexObj INDEX_OBJECT_CONTEXT (rl_crypto lib)
              (write_index_plaintext lib
                 \<lparr>ib_generation = rp_index_generation r, ib_chunks = rp_chunk_index r\<rparr>) of
         Inl e \<Rightarrow> io_fail e
       | Inr index_packed \<Rightarrow>
           io_bind (check_lock_fence lib y) (\<lambda>_.
           io_bind (on_store (be_put (sy_storage y) ''index'' index_packed)) (\<lambda>_.
           io_bind (io_try (on_store (be_put (sy_storage y) ''index.gen''
                      (u64_to_le_bytes (rp_index_generation r))))) (\<lambda>_.
           io_bind (modify_ws (\<lambda>r. r\<lparr>rp_index_dirty := False\<rparr>)) (\<lambda>_.
           io_bind (io_try (on_store (sy_cache_write y ''index_blob''
                      (index_blob_file index_packed (rp_index_generation r))))) (\<lambda>_.
             io_return ())))))))"

definition BATCH_VERIFY_THRESHOLD :: nat where "BATCH_VERIFY_THRESHOLD = 32"

definition missing_pack :: "repo_lib \<Rightarrow> pack_id \<Rightarrow> vykar_error" where
  "missing_pack lib pid = Other (''commit failed: pack '' @ pack_id_display (rl_hex lib) pid
     @ '' missing from storage (stale session or concurrent deletion)'')"

definition require_pack :: "repo_lib \<Rightarrow> 's storage_backend \<Rightarrow> pack_id \<Rightarrow> ('s, vykar_error, unit) io" where
  "require_pack lib b pid =
     io_bind (be_exists b (pack_storage_key (rl_hex lib) pid)) (\<lambda>present.
       if present then io_return () else io_fail (missing_pack lib pid))"

fun list_shards ::
  "'s storage_backend \<Rightarrow> string list \<Rightarrow> string list \<Rightarrow> string list \<Rightarrow>
   ('s, vykar_error, string list \<times> string list) io" where
  "list_shards b [] known fallback = io_return (known, fallback)"
| "list_shards b (shard # shards) known fallback =
     io_bind (io_try (be_list b shard)) (\<lambda>r.
       case r of
         Inr keys \<Rightarrow> list_shards b shards (List.union keys known) fallback
       | Inl _ \<Rightarrow> list_shards b shards known (List.insert shard fallback))"

definition verify_delta_packs ::
  "repo_lib \<Rightarrow> 's storage_backend \<Rightarrow> index_delta \<Rightarrow> ('s, vykar_error, unit) io" where
  "verify_delta_packs lib b delta =
     (let pack_ids = remdups (map ne_pack_id (dl_new_entries delta));
          shards = remdups (map (shard_dir lib) pack_ids)
      in if BATCH_VERIFY_THRESHOLD \<le> length pack_ids \<and> length shards < length pack_ids
         then io_bind (list_shards b shards [] []) (\<lambda>(known, fallback).
                io_for pack_ids (\<lambda>pid.
                  if shard_dir lib pid \<in> set fallback then require_pack lib b pid
                  else if pack_storage_key (rl_hex lib) pid \<notin> set known then io_fail (missing_pack lib pid)
                  else io_return ()))
         else io_for pack_ids (require_pack lib b))"

section \<open>Reading chunks\<close>

definition decode_chunk :: "repo_lib \<Rightarrow> chunk_id \<Rightarrow> bytes \<Rightarrow> bytes result" where
  "decode_chunk lib i blob =
     rbind (unpack_object_expect_with_context blob ChunkData (chunk_bytes i) (rl_crypto lib))
       (\<lambda>compressed. decompress (rl_codec lib) compressed)"

definition cache_blob :: "chunk_id \<Rightarrow> bytes \<Rightarrow> ('s, unit) repo_io" where
  "cache_blob i d = modify_ws (\<lambda>r. r\<lparr>rp_blob_cache := bc_insert (rp_blob_cache r) i d\<rparr>)"

definition read_chunk_at ::
  "repo_lib \<Rightarrow> 's system \<Rightarrow> chunk_id \<Rightarrow> pack_id \<Rightarrow> u64 \<Rightarrow> u32 \<Rightarrow> ('s, bytes) repo_io" where
  "read_chunk_at lib y i pid off sz =
     io_bind get_ws (\<lambda>r.
       case bc_get (rp_blob_cache r) i of
         Some cached \<Rightarrow> io_return cached
       | None \<Rightarrow>
           io_bind (on_store (read_blob_from_pack (rl_hex lib) (sy_storage y) pid off sz)) (\<lambda>blob.
             case decode_chunk lib i blob of
               Inl e \<Rightarrow> io_fail e
             | Inr plaintext \<Rightarrow> io_bind (cache_blob i plaintext) (\<lambda>_. io_return plaintext)))"

definition read_chunk :: "repo_lib \<Rightarrow> 's system \<Rightarrow> chunk_id \<Rightarrow> ('s, bytes) repo_io" where
  "read_chunk lib y i =
     io_bind get_ws (\<lambda>r.
       case ci_get (rp_chunk_index r) i of
         None \<Rightarrow> io_fail (Other (''chunk not found: '' @ chunk_id_display (rl_hex lib) i))
       | Some e \<Rightarrow> read_chunk_at lib y i (ce_pack_id e) (ce_pack_offset e) (ce_stored_size e))"

definition COALESCE_GAP :: u64 where "COALESCE_GAP = 256 * 1024"

definition COALESCE_MAX :: u64 where "COALESCE_MAX = 16 * 1024 * 1024"

record coalesced_blob =
  cb_result_idx :: nat
  cb_chunk_id :: chunk_id
  cb_pack_offset :: u64
  cb_stored_size :: u32

record coalesced_group =
  cg_pack_id :: pack_id
  cg_read_start :: u64
  cg_read_end :: u64
  cg_blobs :: "coalesced_blob list"

definition blob_end :: "coalesced_blob \<Rightarrow> u64" where
  "blob_end b = cb_pack_offset b + ucast (cb_stored_size b)"

type_synonym chunk_request = "chunk_id \<times> pack_id \<times> u64 \<times> u32"

text \<open>Phase 1: the slots served from the cache, and the blobs to fetch by pack.\<close>

fun cache_scan ::
  "blob_cache \<Rightarrow> nat \<Rightarrow> chunk_request list \<Rightarrow> (pack_id, coalesced_blob list) hmap \<Rightarrow>
   bytes option list \<times> (pack_id, coalesced_blob list) hmap" where
  "cache_scan cache idx [] packs = ([], packs)"
| "cache_scan cache idx ((i, pid, off, sz) # chunks) packs =
     (case bc_get cache i of
        Some d \<Rightarrow>
          (case cache_scan cache (idx + 1) chunks packs of (slots, packs') \<Rightarrow> (Some d # slots, packs'))
      | None \<Rightarrow>
          (let blob = \<lparr>cb_result_idx = idx, cb_chunk_id = i, cb_pack_offset = off, cb_stored_size = sz\<rparr>;
               old = (case map_of packs pid of None \<Rightarrow> [] | Some bs \<Rightarrow> bs)
           in case cache_scan cache (idx + 1) chunks (hm_insert pid (old @ [blob]) packs) of
                (slots, packs') \<Rightarrow> (None # slots, packs')))"

function drain_ready :: "bytes option list \<Rightarrow> nat \<Rightarrow> bytes \<Rightarrow> bytes option list \<times> nat \<times> bytes" where
  "drain_ready slots next_emit out =
     (if next_emit < length slots then
        (case slots ! next_emit of
           Some data \<Rightarrow> drain_ready (slots[next_emit := None]) (next_emit + 1) (out @ data)
         | None \<Rightarrow> (slots, next_emit, out))
      else (slots, next_emit, out))"
  by pat_completeness auto
termination by (relation "measure (\<lambda>(slots, n, out). length slots - n)") auto

declare drain_ready.simps [simp del]

text \<open>Phase 2: adjacent blobs of one pack merged into range reads.\<close>

fun coalesce_loop ::
  "pack_id \<Rightarrow> u64 \<Rightarrow> u64 \<Rightarrow> coalesced_blob list \<Rightarrow> coalesced_blob list \<Rightarrow> coalesced_group list" where
  "coalesce_loop pid cur_start cur_end cur_blobs [] =
     [\<lparr>cg_pack_id = pid, cg_read_start = cur_start, cg_read_end = cur_end, cg_blobs = cur_blobs\<rparr>]"
| "coalesce_loop pid cur_start cur_end cur_blobs (b # bs) =
     (let gap = sat_sub_u64 (cb_pack_offset b) cur_end;
          merged_size = blob_end b - cur_start
      in if gap \<le> COALESCE_GAP \<and> merged_size \<le> COALESCE_MAX
         then coalesce_loop pid cur_start (blob_end b) (cur_blobs @ [b]) bs
         else \<lparr>cg_pack_id = pid, cg_read_start = cur_start, cg_read_end = cur_end, cg_blobs = cur_blobs\<rparr>
              # coalesce_loop pid (cb_pack_offset b) (blob_end b) [b] bs)"

fun coalesce_pack :: "pack_id \<times> coalesced_blob list \<Rightarrow> coalesced_group list" where
  "coalesce_pack (pid, blobs) =
     (case sort_key cb_pack_offset blobs of
        [] \<Rightarrow> []
      | b # bs \<Rightarrow> coalesce_loop pid (cb_pack_offset b) (blob_end b) [b] bs)"

definition coalesce_groups :: "(pack_id, coalesced_blob list) hmap \<Rightarrow> coalesced_group list" where
  "coalesce_groups packs =
     sort_key (\<lambda>g. Min (set (map cb_result_idx (cg_blobs g)))) (concat (map coalesce_pack packs))"

text \<open>Phase 3: reading, decoding and emitting.\<close>

record read_state =
  rd_slots :: "bytes option list"
  rd_next_emit :: nat
  rd_out :: bytes

definition rd_drain :: "read_state \<Rightarrow> read_state" where
  "rd_drain st = (case drain_ready (rd_slots st) (rd_next_emit st) (rd_out st) of
     (slots, n, out) \<Rightarrow> \<lparr>rd_slots = slots, rd_next_emit = n, rd_out = out\<rparr>)"

fun read_group_blobs ::
  "repo_lib \<Rightarrow> pack_id \<Rightarrow> u64 \<Rightarrow> bytes \<Rightarrow> coalesced_blob list \<Rightarrow> read_state \<Rightarrow> ('s, read_state) repo_io" where
  "read_group_blobs lib pid start raw_data [] st = io_return st"
| "read_group_blobs lib pid start raw_data (b # bs) st =
     (let local_offset = unat (cb_pack_offset b - start);
          local_end = local_offset + unat (cb_stored_size b)
      in if length raw_data < local_end
         then io_fail (Other (''blob extends beyond downloaded range in pack '' @ pack_id_display (rl_hex lib) pid))
         else (case decode_chunk lib (cb_chunk_id b) (byte_slice raw_data local_offset local_end) of
                 Inl e \<Rightarrow> io_fail e
               | Inr plaintext \<Rightarrow>
                   io_bind (cache_blob (cb_chunk_id b) plaintext) (\<lambda>_.
                     read_group_blobs lib pid start raw_data bs
                       (rd_drain (st\<lparr>rd_slots := (rd_slots st)[cb_result_idx b := Some plaintext]\<rparr>)))))"

fun read_groups ::
  "repo_lib \<Rightarrow> 's system \<Rightarrow> coalesced_group list \<Rightarrow> read_state \<Rightarrow> ('s, read_state) repo_io" where
  "read_groups lib y [] st = io_return st"
| "read_groups lib y (g # gs) st =
     io_bind (on_store (be_get_range (sy_storage y) (pack_storage_key (rl_hex lib) (cg_pack_id g))
                (cg_read_start g) (cg_read_end g - cg_read_start g))) (\<lambda>got.
       case got of
         None \<Rightarrow> io_fail (Other (''pack not found: '' @ pack_id_display (rl_hex lib) (cg_pack_id g)))
       | Some raw_data \<Rightarrow>
           io_bind (read_group_blobs lib (cg_pack_id g) (cg_read_start g) raw_data (cg_blobs g) st) (\<lambda>st'.
             read_groups lib y gs st'))"

definition read_chunks_coalesced_into ::
  "repo_lib \<Rightarrow> 's system \<Rightarrow> chunk_request list \<Rightarrow> bytes \<Rightarrow> ('s, bytes) repo_io" where
  "read_chunks_coalesced_into lib y chunks out =
     (if chunks = [] then io_return out
      else io_bind get_ws (\<lambda>r.
        case cache_scan (rp_blob_cache r) 0 chunks [] of
          (slots, packs) \<Rightarrow>
            (let st = rd_drain \<lparr>rd_slots = slots, rd_next_emit = 0, rd_out = out\<rparr> in
             if packs = [] then io_return (rd_out st)
             else io_bind (read_groups lib y (coalesce_groups packs) st) (\<lambda>st'.
                    io_return (rd_out (rd_drain st'))))))"

text \<open>
  Rolling back a dump: every lookup in the active dedup structure answers as it did before the dump
  inserted the chunks \<open>xs\<close>, none of which was known.
\<close>

lemma rollback_session_tiered:
  assumes "ws_tiered_dedup w = Some (fold (\<lambda>(i, n) td. td_insert td i n) xs td0)"
    and "dt_dedup_inserts t = map fst xs" and "\<forall>i \<in> fst ` set xs. td_get_stored_size td0 i = None"
  shows "map_option td_get_stored_size (ws_tiered_dedup (rollback_session t w)) = Some (td_get_stored_size td0)"
  using td.rollback_inserts [OF assms(3)] assms(1,2) by (simp add: rollback_session_def Let_def)

lemma rollback_session_dedup:
  assumes "ws_tiered_dedup w = None" and "ws_dedup_index w = Some (fold (\<lambda>(i, n) d. di_insert d i n) xs d0)"
    and "dt_dedup_inserts t = map fst xs" and "\<forall>i \<in> fst ` set xs. di_get_stored_size d0 i = None"
  shows "map_option di_get_stored_size (ws_dedup_index (rollback_session t w)) = Some (di_get_stored_size d0)"
  using di.rollback_inserts [OF assms(4)] assms(1-3) by (simp add: rollback_session_def Let_def)

section \<open>Accounting of references\<close>

definition pend_refs :: "pack_writer \<Rightarrow> chunk_id \<Rightarrow> u32" where
  "pend_refs pw c = (case map_of (pw_pending pw) c of None \<Rightarrow> 0 | Some (sz, rc) \<Rightarrow> rc)"

text \<open>The references a session holds for a chunk: in its delta and in its two open packs.\<close>

definition sess_refs :: "write_session \<Rightarrow> chunk_id \<Rightarrow> u32" where
  "sess_refs w c = (case ws_index_delta w of None \<Rightarrow> 0 | Some d \<Rightarrow> delta_refs d c)
     + pend_refs (ws_data_pack_writer w) c + pend_refs (ws_tree_pack_writer w) c"

definition writer_ok :: "nat \<Rightarrow> pack_writer \<Rightarrow> bool" where
  "writer_ok n pw \<longleftrightarrow> (\<exists>xs. pw_rel pw xs \<and> (\<forall>(i, b, r) \<in> set xs. 0 < unat r \<and> unat r \<le> n))"

definition sess_ok :: "nat \<Rightarrow> write_session \<Rightarrow> bool" where
  "sess_ok n w \<longleftrightarrow> (ws_tiered_dedup w \<noteq> None \<or> ws_dedup_index w \<noteq> None)
     \<and> (\<exists>d. ws_index_delta w = Some d \<and> delta_wf d)
     \<and> writer_ok n (ws_data_pack_writer w) \<and> writer_ok n (ws_tree_pack_writer w)"

lemma core_eq_iff: "core w' = core w \<longleftrightarrow>
    ws_data_pack_writer w' = ws_data_pack_writer w \<and> ws_tree_pack_writer w' = ws_tree_pack_writer w
    \<and> ws_dedup_index w' = ws_dedup_index w \<and> ws_tiered_dedup w' = ws_tiered_dedup w
    \<and> ws_index_delta w' = ws_index_delta w \<and> ws_recovered_chunks w' = ws_recovered_chunks w"
  by (auto simp: core_def)

lemma core_sess: "core w' = core w \<Longrightarrow> sess_refs w' = sess_refs w \<and> (sess_ok n w' \<longleftrightarrow> sess_ok n w)"
  by (auto simp: core_eq_iff sess_refs_def sess_ok_def)

lemma writer_ok_mono: "writer_ok n pw \<Longrightarrow> n \<le> m \<Longrightarrow> writer_ok m pw"
  unfolding writer_ok_def by (fastforce elim: order_trans)

lemma writer_ok_new [simp]: "writer_ok n (pw_new ty k)" and pend_refs_new [simp]: "pend_refs (pw_new ty k) c = 0"
  by (auto simp: writer_ok_def pend_refs_def pw_new_def intro!: exI [of _ "[]"] pw_rel_new [unfolded pw_new_def])

lemma pending_abs:
  assumes "pw_rel pw xs"
  shows "pw_get_pending_stored_size pw i = None \<longleftrightarrow> i \<notin> fst ` set xs"
  using assms
  by (force simp: pw_rel_def pw_get_pending_stored_size_def map_of_eq_None_iff)

lemma writer_increment:
  assumes "writer_ok n pw" and "n + 1 < 2 ^ 32" and "pw_get_pending_stored_size pw i \<noteq> None"
  shows "writer_ok (n + 1) (pw_increment_pending pw i)"
    and "pend_refs (pw_increment_pending pw i) c = pend_refs pw c + (if c = i then 1 else 0)"
proof -
  obtain xs where rel: "pw_rel pw xs" and bnd: "\<forall>(i, b, r) \<in> set xs. 0 < unat r \<and> unat r \<le> n"
    using assms(1) by (auto simp: writer_ok_def)
  have suc: "unat (r + 1) = unat r + 1" if "unat r \<le> n" for r :: u32
    using that assms(2) by (simp add: unat_word_ariths)
  have "\<forall>(j, b, r) \<in> set (abs_incr i xs). 0 < unat r \<and> unat r \<le> n + 1"
    using bnd suc by (fastforce simp: abs_incr_def)
  then show "writer_ok (n + 1) (pw_increment_pending pw i)"
    using pw_rel_incr [OF rel, of i] unfolding writer_ok_def by blast
  show "pend_refs (pw_increment_pending pw i) c = pend_refs pw c + (if c = i then 1 else 0)"
    using assms(3) by (auto simp: pend_refs_def pw_increment_pending_def pw_get_pending_stored_size_def
        split: option.splits)
qed

lemma writer_add:
  assumes "writer_ok n pw" and "pw_get_pending_stored_size pw i = None" and "length b < 2 ^ 32"
    and "pw_add_blob now pw i b = (res, pw')"
  shows "writer_ok (n + 1) pw'" and "pend_refs pw' c = pend_refs pw c + (if c = i then 1 else 0)"
    and "\<exists>off. res = Inr off"
proof -
  obtain xs where rel: "pw_rel pw xs" and bnd: "\<forall>(i, b, r) \<in> set xs. 0 < unat r \<and> unat r \<le> n"
    using assms(1) by (auto simp: writer_ok_def)
  have fresh: "i \<notin> fst ` set xs" using pending_abs [OF rel] assms(2) by blast
  note add = pw_rel_add [OF rel fresh assms(3), of now, unfolded assms(4)]
  show "\<exists>off. res = Inr off" using add(2) by simp
  have rel': "pw_rel pw' (abs_add i b xs)" using add(1) by simp
  moreover have "\<forall>(j, b', r) \<in> set (abs_add i b xs). 0 < unat r \<and> unat r \<le> n + 1"
    using bnd by (fastforce simp: abs_add_def)
  ultimately show "writer_ok (n + 1) pw'" unfolding writer_ok_def by blast
  have "map_of (pw_pending pw') = (map_of (pw_pending pw))(i \<mapsto> (of_nat (length b), 1))"
    using add(2) assms(4) by (auto simp: pw_add_blob_def Let_def pw_init_buffer_def split: option.splits)
  moreover have "map_of (pw_pending pw) i = None"
    using assms(2) by (simp add: pw_get_pending_stored_size_def)
  ultimately show "pend_refs pw' c = pend_refs pw c + (if c = i then 1 else 0)"
    by (simp add: pend_refs_def)
qed

text \<open>The references the entries of a sealed pack carry.\<close>

definition entry_refs :: "packed_chunk_entry list \<Rightarrow> chunk_id \<Rightarrow> u32" where
  "entry_refs es c = sum_list (map (\<lambda>(i, sz, off, rc). if i = c then rc else 0) es)"

lemma seal_refs_sum:
  assumes "length xs = length ls" and "distinct (map fst xs)"
  shows "entry_refs (map2 (\<lambda>(i, b, r) (off, sz). (i, sz, off, r)) xs ls) c =
    (case map_of (map (\<lambda>(i, b, r). (i, (of_nat (length b) :: u32, r))) xs) c of
       None \<Rightarrow> 0 | Some (sz, rc) \<Rightarrow> rc)"
  using assms
proof (induction xs ls rule: list_induct2)
  case (Cons x xs l ls)
  obtain i b r where x: "x = (i, b, r)" by (cases x) auto
  have "map_of (map (\<lambda>(i, b, r). (i, (of_nat (length b) :: u32, r))) xs) i = None"
    using Cons.prems by (force simp: x map_of_eq_None_iff)
  then show ?case
    using Cons by (cases l) (auto simp: x entry_refs_def)
qed (simp add: entry_refs_def)

lemma writer_seal:
  assumes "writer_ok n pw" and "pw_seal b2 pw = (Inr sp, pw')"
  shows "writer_ok m pw'" and "pend_refs pw' c = 0"
    and "entry_refs (sp_entries sp) c = pend_refs pw c"
    and "\<forall>(i, sz, off, rc) \<in> set (sp_entries sp). rc \<noteq> 0"
proof -
  obtain xs where rel: "pw_rel pw xs" and bnd: "\<forall>(i, b, r) \<in> set xs. 0 < unat r \<and> unat r \<le> n"
    using assms(1) by (auto simp: writer_ok_def)
  have ne: "xs \<noteq> []" using rel assms(2) by (auto simp: pw_rel_def pw_seal_def)
  have rel': "pw_rel pw' []" and es: "sp_entries sp = map2 (\<lambda>(i, b, r) (off, sz). (i, sz, off, r)) xs
      (blob_locs PACK_HEADER_SIZE (abs_blobs xs))"
    by (rule pw_seal_rel [OF rel ne, of b2]; use assms(2) in simp)+
  show "writer_ok m pw'" using rel' by (auto simp: writer_ok_def)
  show "pend_refs pw' c = 0" using rel' by (simp add: pw_rel_def pend_refs_def)
  show "\<forall>(i, sz, off, rc) \<in> set (sp_entries sp). rc \<noteq> 0"
    using bnd by (fastforce simp: es dest: set_zip_leftD)
  show "entry_refs (sp_entries sp) c = pend_refs pw c"
    using rel seal_refs_sum [of xs "blob_locs PACK_HEADER_SIZE (abs_blobs xs)" c]
    by (simp add: es pw_rel_def pend_refs_def length_blob_locs)
qed

lemma delta_wf_steps:
  "delta_wf d \<Longrightarrow> delta_wf (delta_bump_refcount d i)"
  "delta_wf d \<Longrightarrow> rc \<noteq> 0 \<Longrightarrow> delta_wf (delta_add_new_entry d i sz pid off rc)"
  by (auto simp: delta_wf_def delta_bump_refcount_def delta_add_new_entry_def)

lemma delta_refs_steps:
  "delta_refs (delta_bump_refcount d i) c = delta_refs d c + (if i = c then 1 else 0)"
  "delta_refs (delta_add_new_entry d i sz pid off rc) c = delta_refs d c + (if i = c then rc else 0)"
  by (auto simp: delta_refs_def delta_bump_refcount_def delta_add_new_entry_def
      bump_of_add_u32 new_refs_append new_refs_def)

lemma delta_add_session:
  assumes "sess_ok n w" and "rc \<noteq> 0" and "ws_index_delta w1 = ws_index_delta w"
    and "ws_tiered_dedup w1 \<noteq> None \<or> ws_dedup_index w1 \<noteq> None"
    and "ws_data_pack_writer w1 = ws_data_pack_writer w" and "ws_tree_pack_writer w1 = ws_tree_pack_writer w"
  shows "sess_ok n (delta_add_opt i sz pid off rc w1)"
    and "sess_refs (delta_add_opt i sz pid off rc w1) c = sess_refs w c + (if i = c then rc else 0)"
proof -
  obtain d where d: "ws_index_delta w = Some d" "delta_wf d" using assms(1) by (auto simp: sess_ok_def)
  show "sess_ok n (delta_add_opt i sz pid off rc w1)"
    using assms d delta_wf_steps(2) [OF d(2) assms(2)] by (simp add: sess_ok_def delta_add_opt_def)
  show "sess_refs (delta_add_opt i sz pid off rc w1) c = sess_refs w c + (if i = c then rc else 0)"
    using assms d by (simp add: sess_refs_def delta_add_opt_def delta_refs_steps)
qed

lemma core_track_insert [simp]: "core (track_insert i w) = core w"
  by (simp add: core_def track_insert_def)

lemma sealed_entry_session:
  assumes "sess_ok n w" and "rc \<noteq> 0"
  obtains w2 where "apply_sealed_entries pid ((i, sz, off, rc) # es) w idx = apply_sealed_entries pid es w2 idx"
    and "sess_ok n w2" and "\<And>c. sess_refs w2 c = sess_refs w c + (if i = c then rc else 0)"
    and "ws_data_pack_writer w2 = ws_data_pack_writer w" and "ws_tree_pack_writer w2 = ws_tree_pack_writer w"
proof -
  obtain w1 where eq: "apply_sealed_entries pid ((i, sz, off, rc) # es) w idx =
      apply_sealed_entries pid es (track_insert i (delta_add_opt i sz pid off rc w1)) idx"
    and w1: "ws_index_delta w1 = ws_index_delta w" "ws_tiered_dedup w1 \<noteq> None \<or> ws_dedup_index w1 \<noteq> None"
      "ws_data_pack_writer w1 = ws_data_pack_writer w" "ws_tree_pack_writer w1 = ws_tree_pack_writer w"
  proof (cases "ws_tiered_dedup w")
    case None
    then obtain d where "ws_dedup_index w = Some d" using assms(1) by (auto simp: sess_ok_def)
    then show thesis using None by (intro that [of "w\<lparr>ws_dedup_index := Some (di_insert d i sz)\<rparr>"]) simp_all
  next
    case (Some t)
    then show thesis by (intro that [of "w\<lparr>ws_tiered_dedup := Some (td_insert t i sz)\<rparr>"]) simp_all
  qed
  let ?w2 = "delta_add_opt i sz pid off rc w1"
  note add = delta_add_session [OF assms w1]
  note cs = core_sess [OF core_track_insert [of i ?w2], of n]
  show thesis
    using w1(3,4) cs add by (intro that [OF eq]) (simp_all add: track_insert_def delta_add_opt_def)
qed

lemma apply_sealed_session:
  assumes "apply_sealed_entries pid es w idx = (dirty, w', idx')" and "sess_ok n w"
    and "\<forall>(i, sz, off, rc) \<in> set es. rc \<noteq> 0"
  shows "sess_ok n w' \<and> (\<forall>c. sess_refs w' c = sess_refs w c + entry_refs es c)
    \<and> ws_data_pack_writer w' = ws_data_pack_writer w \<and> ws_tree_pack_writer w' = ws_tree_pack_writer w"
  using assms
proof (induction es arbitrary: w)
  case (Cons e es)
  obtain i sz off rc where e: "e = (i, sz, off, rc)" by (cases e) auto
  have "rc \<noteq> 0" using Cons.prems(3) by (simp add: e)
  then obtain w2 where w2: "apply_sealed_entries pid (e # es) w idx = apply_sealed_entries pid es w2 idx"
    "sess_ok n w2" "\<And>c. sess_refs w2 c = sess_refs w c + (if i = c then rc else 0)"
    "ws_data_pack_writer w2 = ws_data_pack_writer w" "ws_tree_pack_writer w2 = ws_tree_pack_writer w"
    unfolding e by (rule sealed_entry_session [OF Cons.prems(2)]) blast
  show ?case
    using Cons.IH [of w2] Cons.prems(1,3) w2 by (simp add: e entry_refs_def add.assoc)
qed (simp add: entry_refs_def)

subsection \<open>Every operation counts its references\<close>

text \<open>\<open>w'\<close> holds one more reference than \<open>w\<close> for every element of \<open>js\<close>.\<close>

definition adds :: "nat \<Rightarrow> chunk_id list \<Rightarrow> write_session \<Rightarrow> write_session \<Rightarrow> bool" where
  "adds n js w w' \<longleftrightarrow> sess_ok (n + length js) w' \<and>
     (\<forall>c. sess_refs w' c = sess_refs w c + of_nat (count_list js c))"

lemma adds_trans: "adds n js w w1 \<Longrightarrow> adds (n + length js) ks w1 w2 \<Longrightarrow> adds n (js @ ks) w w2"
  by (auto simp: adds_def add.assoc)

lemma sess_ok_mono: "sess_ok n w \<Longrightarrow> n \<le> m \<Longrightarrow> sess_ok m w"
  by (auto simp: sess_ok_def intro: writer_ok_mono)

lemma adds_core: "sess_ok n w \<Longrightarrow> core w' = core w \<Longrightarrow> adds n [] w w'"
  using core_sess [of w' w n] by (simp add: adds_def)

lemma adds_bump:
  assumes "sess_ok n w" shows "adds n [i] w (delta_bump_opt i w)"
proof -
  obtain d where d: "ws_index_delta w = Some d" "delta_wf d" using assms by (auto simp: sess_ok_def)
  have "sess_ok n (delta_bump_opt i w)"
    using assms d delta_wf_steps(1) [OF d(2)] by (simp add: sess_ok_def delta_bump_opt_def)
  then show ?thesis
    using d sess_ok_mono [of n "delta_bump_opt i w" "n + 1"]
    by (simp add: adds_def sess_refs_def delta_bump_opt_def delta_refs_steps)
qed

lemma adds_promote:
  assumes "promote_recovered_chunk i w idx = (Some p, w', idx')" and "sess_ok n w"
  shows "adds n [i] w w'"
proof -
  obtain e :: recovered_chunk_entry and w1 where w': "w' = delta_add_opt i (rc_stored_size e) (rc_pack_id e) (rc_pack_offset e) 1 w1"
    and w1: "ws_index_delta w1 = ws_index_delta w" "ws_tiered_dedup w1 \<noteq> None \<or> ws_dedup_index w1 \<noteq> None"
      "ws_data_pack_writer w1 = ws_data_pack_writer w" "ws_tree_pack_writer w1 = ws_tree_pack_writer w"
  proof -
    obtain e where e: "map_of (ws_recovered_chunks w) i = Some e"
      using assms(1) by (auto simp: promote_recovered_chunk_def split: option.splits)
    let ?w = "w\<lparr>ws_dump_tracker := map_option (\<lambda>t.
        t\<lparr>dt_promoted_recovered := dt_promoted_recovered t @ [(i, e)],
          dt_dedup_inserts := dt_dedup_inserts t @ [i]\<rparr>) (ws_dump_tracker w),
        ws_recovered_chunks := hm_remove i (ws_recovered_chunks w)\<rparr>"
    show thesis
    proof (cases "ws_tiered_dedup w")
      case None
      then obtain d where "ws_dedup_index w = Some d" using assms(2) by (auto simp: sess_ok_def)
      then show thesis using None e assms(1)
        by (intro that [of e "?w\<lparr>ws_dedup_index := Some (di_insert d i (rc_stored_size e))\<rparr>"])
          (simp_all add: promote_recovered_chunk_def Let_def)
    next
      case (Some t)
      then show thesis using e assms(1)
        by (intro that [of e "?w\<lparr>ws_tiered_dedup := Some (td_insert t i (rc_stored_size e))\<rparr>"])
          (simp_all add: promote_recovered_chunk_def Let_def)
    qed
  qed
  note add = delta_add_session [OF assms(2) _ w1, of 1]
  show ?thesis using add sess_ok_mono [of n w' "n + 1"] by (simp add: adds_def w')
qed

lemma promote_None: "promote_recovered_chunk i w idx = (None, w', idx') \<Longrightarrow> w' = w"
  by (auto simp: promote_recovered_chunk_def Let_def split: option.splits)

lemma adds_pending:
  assumes "bump_ref_pending_ws i w = (Some sz, w')" and "sess_ok n w" and "n + 1 < 2 ^ 32"
  shows "adds n [i] w w'"
proof -
  have ok: "writer_ok n (ws_data_pack_writer w)" "writer_ok n (ws_tree_pack_writer w)"
    using assms(2) by (auto simp: sess_ok_def)
  show ?thesis
  proof (cases "pw_get_pending_stored_size (ws_data_pack_writer w) i")
    case None
    then have t: "pw_get_pending_stored_size (ws_tree_pack_writer w) i \<noteq> None"
      and w': "w' = w\<lparr>ws_tree_pack_writer := pw_increment_pending (ws_tree_pack_writer w) i\<rparr>"
      using assms(1) by (auto simp: bump_ref_pending_ws_def split: option.splits)
    show ?thesis using writer_increment [OF ok(2) assms(3) t] writer_ok_mono [OF ok(1), of "n + 1"] assms(2)
      by (auto simp: adds_def w' sess_ok_def sess_refs_def)
  next
    case (Some z)
    then have t: "pw_get_pending_stored_size (ws_data_pack_writer w) i \<noteq> None"
      and w': "w' = w\<lparr>ws_data_pack_writer := pw_increment_pending (ws_data_pack_writer w) i\<rparr>"
      using assms(1) by (auto simp: bump_ref_pending_ws_def)
    show ?thesis using writer_increment [OF ok(1) assms(3) t] writer_ok_mono [OF ok(2), of "n + 1"] assms(2)
      by (auto simp: adds_def w' sess_ok_def sess_refs_def)
  qed
qed

lemma pending_None:
  "bump_ref_pending_ws i w = (None, w') \<Longrightarrow> w' = w
     \<and> pw_get_pending_stored_size (ws_data_pack_writer w) i = None
     \<and> pw_get_pending_stored_size (ws_tree_pack_writer w) i = None"
  by (auto simp: bump_ref_pending_ws_def split: option.splits)

lemmas repo_io_simps = need_ws_def put_ws_def with_ws_def get_ws_def modify_ws_def io_bind_def
  io_return_def io_fail_def draw_def

lemma ws_bind_simps [simp]:
  "rp_write_session r = Some w \<Longrightarrow> io_bind need_ws f (s, r) = f w (s, r)"
  "io_bind get_ws g (s, r) = g r (s, r)"
  "io_bind (put_ws w') h (s, r) = h () (s, r\<lparr>rp_write_session := Some w'\<rparr>)"
  "io_bind (modify_ws k) h (s, r) = h () (s, k r)"
  by (simp_all add: repo_io_simps)

text \<open>The outcome of a lookup: counted once, or nothing changed and the chunk is in no open pack.\<close>

definition bumped :: "nat \<Rightarrow> chunk_id \<Rightarrow> 'a option \<Rightarrow> write_session \<Rightarrow> repository \<Rightarrow> bool" where
  "bumped n i res w r' \<longleftrightarrow> (\<exists>w'. rp_write_session r' = Some w' \<and>
     (case res of Some _ \<Rightarrow> adds n [i] w w'
      | None \<Rightarrow> w' = w \<and> pw_get_pending_stored_size (ws_data_pack_writer w) i = None
                \<and> pw_get_pending_stored_size (ws_tree_pack_writer w) i = None))"

lemma bump_recovered_or_pending_session:
  assumes "bump_recovered_or_pending i (s, r) = (Inr res, (s', r'))"
    and w: "rp_write_session r = Some w" and ok: "sess_ok n w" and n: "n + 1 < 2 ^ 32"
  shows "bumped n i res w r'"
proof -
  obtain p w1 idx where p: "promote_recovered_chunk i w (rp_chunk_index r) = (p, w1, idx)"
    by (cases "promote_recovered_chunk i w (rp_chunk_index r)") auto
  show ?thesis
  proof (cases p)
    case None
    then have w1: "w1 = w" using promote_None p by blast
    obtain q w2 where q: "bump_ref_pending_ws i w = (q, w2)" by (cases "bump_ref_pending_ws i w") auto
    show ?thesis
      using assms(1) w p None w1 q adds_pending [OF _ ok n, of i _ w2] pending_None [of i w w2]
      by (cases q) (auto simp: bump_recovered_or_pending_def promote_recovered_def bump_ref_pending_def
          bumped_def repo_io_simps)
  next
    case (Some z)
    then show ?thesis
      using assms(1) w p adds_promote [OF _ ok, of i _ z w1 idx]
      by (auto simp: bump_recovered_or_pending_def promote_recovered_def bumped_def repo_io_simps)
  qed
qed

lemma bump_ref_if_exists_session:
  assumes "bump_ref_if_exists i (s, r) = (Inr res, (s', r'))"
    and w: "rp_write_session r = Some w" and ok: "sess_ok n w" and n: "n + 1 < 2 ^ 32"
  shows "bumped n i res w r'"
proof -
  have bump: "bumped n i (Some (sz :: u32)) w (r\<lparr>rp_write_session := Some (delta_bump_opt i w)\<rparr>)" for sz
    using adds_bump [OF ok] by (simp add: bumped_def)
  have pick: "bumped n i res w r'"
    if "(case found of Some sz \<Rightarrow> io_bind (put_ws (delta_bump_opt i w)) (\<lambda>_. io_return (Some sz))
         | None \<Rightarrow> bump_recovered_or_pending i) (s, r) = (Inr res, (s', r'))" for found
  proof (cases found)
    case None
    then show ?thesis using that bump_recovered_or_pending_session [OF _ w ok n, of i s res s' r'] by simp
  next
    case (Some sz)
    then have "res = Some sz" and "r' = r\<lparr>rp_write_session := Some (delta_bump_opt i w)\<rparr>"
      using that by (simp_all add: repo_io_simps)
    then show ?thesis using bump [of sz] by simp
  qed
  show ?thesis
  proof (cases "ws_tiered_dedup w")
    case None
    then obtain d where d: "ws_dedup_index w = Some d" using ok by (auto simp: sess_ok_def)
    show ?thesis
      by (rule pick [of "di_get_stored_size d i"])
        (use assms(1) w None d in \<open>simp add: bump_ref_if_exists_def Let_def\<close>)
  next
    case (Some t)
    show ?thesis
      by (rule pick [of "td_get_stored_size t i"])
        (use assms(1) w Some in \<open>simp add: bump_ref_if_exists_def Let_def\<close>)
  qed
qed

lemma set_target_size [simp]:
  "writer_ok n (pw_set_target_size pw k) = writer_ok n pw" "pend_refs (pw_set_target_size pw k) = pend_refs pw"
  by (simp_all add: writer_ok_def pw_rel_def pend_refs_def pw_set_target_size_def fun_eq_iff)

fun other_type :: "pack_type \<Rightarrow> pack_type" where
  "other_type Data = Tree"
| "other_type Tree = Data"

lemma sealed_session:
  assumes "sess_ok n w" and seal: "pw_seal b2 (writer_of ty w) = (Inr sp, pw)"
    and w2: "w2 = after_seal lib ty cfg sp (set_writer ty pw w)"
  shows "sess_ok n w2" and "sess_refs w2 c + entry_refs (sp_entries sp) c = sess_refs w c"
    and "pend_refs (writer_of ty w2) c = 0" and "writer_of (other_type ty) w2 = writer_of (other_type ty) w"
proof -
  have "writer_ok n (writer_of ty w)" using assms(1) by (cases ty) (auto simp: sess_ok_def writer_of_def)
  note ws = writer_seal [OF this seal]
  show "sess_ok n w2" "sess_refs w2 c + entry_refs (sp_entries sp) c = sess_refs w c"
    "pend_refs (writer_of ty w2) c = 0" "writer_of (other_type ty) w2 = writer_of (other_type ty) w"
    using assms(1) ws
    by (cases ty; simp add: w2 after_seal_def set_writer_def writer_of_def sess_ok_def sess_refs_def Let_def)+
qed

lemma with_ws_core:
  assumes "with_ws m (s, r) = (Inr a, (s', r'))" and "rp_write_session r = Some w" and "io_rel same_core m"
  obtains w' where "rp_write_session r' = Some w'" and "core w' = core w"
proof -
  obtain s1 w' where m: "m (s, w) = (Inr a, (s1, w'))" and r': "r' = r\<lparr>rp_write_session := Some w'\<rparr>"
    using assms(1,2) by (auto simp: with_ws_def split: prod.splits)
  have "core w' = core w" using io_relD [OF assms(3) m] by (simp add: same_core_def)
  then show thesis using r' by (intro that [of w']) simp_all
qed

lemma core_writer_of: "core w' = core w \<Longrightarrow> writer_of ty w' = writer_of ty w"
  by (cases ty) (auto simp: core_eq_iff writer_of_def)

lemma seal_and_queue_session:
  assumes run: "seal_and_queue lib ty (s, r) = (Inr u, (s', r'))"
    and w: "rp_write_session r = Some w" and ok: "sess_ok n w"
  obtains w' where "rp_write_session r' = Some w'" and "adds n [] w w'"
    and "\<And>c. pend_refs (writer_of ty w') c = 0"
    and "writer_of (other_type ty) w' = writer_of (other_type ty) w"
proof -
  obtain sp pw where seal: "pw_seal (rl_b2 lib) (writer_of ty w) = (Inr sp, pw)"
    using run w by (auto simp: seal_and_queue_def io_fail_def split: prod.splits sum.splits)
  define w2 where "w2 = after_seal lib ty (rp_config r) sp (set_writer ty pw w)"
  note sealed = sealed_session [OF ok seal w2_def]
  obtain dirty w3 idx where
    ap: "apply_sealed_entries (sp_pack_id sp) (sp_entries sp) w2 (rp_chunk_index r) = (dirty, w3, idx)"
    by (metis prod_cases3)
  have nz: "\<forall>(i, sz, off, rc) \<in> set (sp_entries sp). rc \<noteq> 0"
    using writer_seal(4) [OF _ seal, of n] ok by (cases ty) (auto simp: sess_ok_def writer_of_def)
  note app = apply_sealed_session [OF ap sealed(1) nz]
  define w' where "w' = w3\<lparr>ws_pending_uploads := ws_pending_uploads w3
      @ [(pack_storage_key (rl_hex lib) (sp_pack_id sp), sp_data sp)]\<rparr>"
  have "rp_write_session r' = Some w'"
    using run w seal ap
    by (auto simp: seal_and_queue_def repo_apply_sealed_entries_def repo_io_simps w2_def w'_def)
  moreover have "writer_of t w' = writer_of t w2" for t
    using app by (cases t) (simp_all add: writer_of_def w'_def)
  moreover have "core w' = core w3" by (simp add: core_def w'_def)
  ultimately show thesis
    using core_sess [of w' w3 n] app sealed(2-4) by (intro that [of w']) (simp_all add: adds_def)
qed

lemma flush_writer_session:
  assumes run: "flush_writer_async lib y ty (s, r) = (Inr u, (s', r'))"
    and w: "rp_write_session r = Some w" and ok: "sess_ok n w"
  obtains w' where "rp_write_session r' = Some w'" and "adds n [] w w'"
    and "\<And>c. pend_refs (writer_of ty w') c = 0"
    and "writer_of (other_type ty) w' = writer_of (other_type ty) w"
proof -
  obtain a s1 r1 where cap: "with_ws (cap_pending_uploads lib y) (s, r) = (Inr a, (s1, r1))"
    and rest: "seal_and_queue lib ty (s1, r1) = (Inr u, (s', r'))"
    using run by (auto simp: flush_writer_async_def io_bind_Inr_iff)
  obtain w1 where w1: "rp_write_session r1 = Some w1" "core w1 = core w"
    by (rule with_ws_core [OF cap w cap_core])
  have "sess_ok n w1" using core_sess [OF w1(2)] ok by blast
  then obtain w' where w': "rp_write_session r' = Some w'" "adds n [] w1 w'"
    "\<And>c. pend_refs (writer_of ty w') c = 0" "writer_of (other_type ty) w' = writer_of (other_type ty) w1"
    by (rule seal_and_queue_session [OF rest w1(1)]) blast
  have "adds n [] w w'" using w'(2) core_sess [OF w1(2), of n] by (simp add: adds_def)
  then show thesis using w' core_writer_of [OF w1(2)] by (intro that [of w']) simp_all
qed

lemma adds_add_blob:
  assumes "sess_ok n w" and "pw_add_blob now (writer_of ty w) i b = (res, pw)" and "length b < 2 ^ 32"
    and none: "pw_get_pending_stored_size (ws_data_pack_writer w) i = None"
      "pw_get_pending_stored_size (ws_tree_pack_writer w) i = None"
  shows "adds n [i] w (set_writer ty pw w)" and "\<exists>off. res = Inr off"
proof -
  have wo: "writer_ok n (writer_of ty w)" "pw_get_pending_stored_size (writer_of ty w) i = None"
    using assms(1) none by (cases ty; simp add: sess_ok_def writer_of_def)+
  note add = writer_add [OF wo assms(3,2)]
  show "\<exists>off. res = Inr off" by (rule add(3))
  have "writer_ok (n + 1) (writer_of (other_type ty) w)"
    using assms(1) writer_ok_mono [of n _ "n + 1"] by (cases ty) (auto simp: sess_ok_def writer_of_def)
  then show "adds n [i] w (set_writer ty pw w)"
    using assms(1) add(1,2)
    by (cases ty) (auto simp: adds_def sess_ok_def sess_refs_def set_writer_def writer_of_def)
qed

lemma commit_prepacked_session:
  assumes run: "commit_prepacked_chunk lib y i packed ty (s, r) = (Inr sz, (s', r'))"
    and w: "rp_write_session r = Some w" and ok: "sess_ok n w" and len: "length packed < 2 ^ 32"
    and none: "pw_get_pending_stored_size (ws_data_pack_writer w) i = None"
      "pw_get_pending_stored_size (ws_tree_pack_writer w) i = None"
  obtains w' where "rp_write_session r' = Some w'" and "adds n [i] w w'"
proof -
  obtain now s1 where s1: "sy_instant y s = (now, s1)" by fastforce
  obtain res pw where add: "pw_add_blob now (writer_of ty w) i packed = (res, pw)" by fastforce
  note adds = adds_add_blob [OF ok add len none]
  obtain off where off: "res = Inr off" using adds(2) by blast
  let ?r = "r\<lparr>rp_write_session := Some (set_writer ty pw w)\<rparr>"
  obtain now' s2 where s2: "sy_instant y s1 = (now', s2)" by fastforce
  have tail: "(if pw_should_flush now' pw then flush_writer_async lib y ty else io_return ()) (s2, ?r)
      = (Inr (), (s', r'))"
    using run w s1 s2 add off
    by (auto simp: commit_prepacked_chunk_def draw_def io_bind_def [of "\<lambda>(s, w). _ s w"] io_bind_Inr_iff
        io_return_def put_ws_def modify_ws_def need_ws_def)
  show thesis
  proof (cases "pw_should_flush now' pw")
    case True
    have "sess_ok (n + 1) (set_writer ty pw w)" using adds(1) by (simp add: adds_def)
    then obtain w' where "rp_write_session r' = Some w'" "adds (n + 1) [] (set_writer ty pw w) w'"
      by (rule flush_writer_session [of lib y ty s2 ?r "()" s' r' "set_writer ty pw w" "n + 1", rotated 2])
        (use tail True in simp_all)
    then show thesis using adds_trans [OF adds(1), of "[]" w'] by (intro that [of w']) simp_all
  next
    case False
    then show thesis using tail adds(1) by (intro that [of "set_writer ty pw w"]) (auto simp: io_return_def)
  qed
qed

text \<open>A stored object is shorter than \<open>2\<^sup>3\<^sup>2\<close> bytes, so that its length field does not wrap.\<close>

definition stores_small :: "repo_lib \<Rightarrow> bytes \<Rightarrow> compression \<Rightarrow> bool" where
  "stores_small lib data alg \<longleftrightarrow> (\<forall>compressed nonce packed.
     compress (rl_codec lib) alg data = Inr compressed \<longrightarrow>
     pack_object_with_context nonce ChunkData
       (chunk_bytes (chunk_id_compute (rl_b2 lib) (en_chunk_id_key (rl_crypto lib)) data))
       compressed (rl_crypto lib) = Inr packed \<longrightarrow> length packed < 2 ^ 32)"

lemma commit_inline_packed:
  assumes run: "commit_chunk_inline lib y i data alg ty (s, r) = (Inr sz, st)"
    and small: "stores_small lib data alg"
    and i: "i = chunk_id_compute (rl_b2 lib) (en_chunk_id_key (rl_crypto lib)) data"
  obtains packed s2 where "length packed < 2 ^ 32"
    and "commit_prepacked_chunk lib y i packed ty (s2, r) = (Inr sz, st)"
proof -
  obtain compressed where c: "compress (rl_codec lib) alg data = Inr compressed"
    using run by (auto simp: commit_chunk_inline_def io_fail_def split: sum.splits)
  obtain nonce s2 where d: "sy_nonce y s = (nonce, s2)" by fastforce
  obtain packed where p: "pack_object_with_context nonce ChunkData (chunk_bytes i) compressed (rl_crypto lib)
      = Inr packed"
    using run c d by (auto simp: commit_chunk_inline_def draw_def io_bind_def io_fail_def split: sum.splits)
  have "commit_prepacked_chunk lib y i packed ty (s2, r) = (Inr sz, st)"
    using run c d p by (simp add: commit_chunk_inline_def draw_def io_bind_def)
  moreover have "length packed < 2 ^ 32" using small c p unfolding stores_small_def i by blast
  ultimately show thesis by (intro that)
qed

lemma store_chunk_session:
  assumes run: "store_chunk lib y data alg ty (s, r) = (Inr (j, sz, new), (s', r'))"
    and w: "rp_write_session r = Some w" and ok: "sess_ok n w" and n: "n + 1 < 2 ^ 32"
    and small: "stores_small lib data alg"
  obtains w' where "rp_write_session r' = Some w'" and "adds n [j] w w'"
    and "j = chunk_id_compute (rl_b2 lib) (en_chunk_id_key (rl_crypto lib)) data"
proof -
  obtain i where i: "i = chunk_id_compute (rl_b2 lib) (en_chunk_id_key (rl_crypto lib)) data" by blast
  obtain res s1 r1 where bump: "bump_ref_if_exists i (s, r) = (Inr res, (s1, r1))"
    and rest: "(case res of Some sz \<Rightarrow> io_return (i, sz, False)
        | None \<Rightarrow> io_bind (commit_chunk_inline lib y i data alg ty) (\<lambda>sz. io_return (i, sz, True)))
        (s1, r1) = (Inr (j, sz, new), (s', r'))"
    using run unfolding store_chunk_def Let_def i [symmetric] io_bind_Inr_iff [of "bump_ref_if_exists i"] by auto
  note out = bump_ref_if_exists_session [OF bump w ok n]
  show thesis
  proof (cases res)
    case (Some z)
    then have "j = i" "r' = r1" using rest by (simp_all add: io_return_def)
    then show thesis using out Some that i by (auto simp: bumped_def)
  next
    case None
    then have w1: "rp_write_session r1 = Some w"
      "pw_get_pending_stored_size (ws_data_pack_writer w) i = None"
      "pw_get_pending_stored_size (ws_tree_pack_writer w) i = None" using out by (auto simp: bumped_def)
    have run1: "commit_chunk_inline lib y i data alg ty (s1, r1) = (Inr sz, (s', r'))" and j: "j = i"
      using rest None by (auto simp: io_bind_Inr_iff io_return_def)
    obtain packed s2 where len: "length packed < 2 ^ 32"
      and pre: "commit_prepacked_chunk lib y i packed ty (s2, r1) = (Inr sz, (s', r'))"
      by (rule commit_inline_packed [OF run1 small i])
    show thesis
      by (rule commit_prepacked_session [OF pre w1(1) ok len w1(2,3)]) (use that i j in blast)
  qed
qed

text \<open>
  A sequence of \<open>store_chunk\<close> calls, and the calls a backup makes from the start of its session
  to the flush (\<open>commands/backup/mod.rs\<close>, lines 338 to 476): a failed recovery is only logged.
\<close>

fun store_all ::
  "repo_lib \<Rightarrow> 's system \<Rightarrow> (bytes \<times> compression \<times> pack_type) list \<Rightarrow> ('s, chunk_id list) repo_io" where
  "store_all lib y [] = io_return []"
| "store_all lib y ((data, alg, ty) # ops) =
     io_bind (store_chunk lib y data alg ty) (\<lambda>(i, sz, new).
     io_bind (store_all lib y ops) (\<lambda>ids. io_return (i # ids)))"

definition store_session ::
  "repo_lib \<Rightarrow> 's system \<Rightarrow> string \<Rightarrow> nat \<Rightarrow> (bytes \<times> compression \<times> pack_type) list \<Rightarrow>
   ('s, chunk_id list) repo_io" where
  "store_session lib y sid uploads ops =
     io_bind (begin_write_session lib y) (\<lambda>_.
     io_bind (modify_ws (set_write_session_id sid)) (\<lambda>_.
     io_bind (io_try (repo_recover_pending_index lib y)) (\<lambda>_.
     io_bind (enable_tiered_dedup_mode lib y) (\<lambda>_.
     io_bind (set_max_in_flight_uploads uploads) (\<lambda>_.
     io_bind (store_all lib y ops) (\<lambda>ids.
     io_bind (flush_packs lib y) (\<lambda>_. io_return ids)))))))"

lemma store_all_session:
  assumes "store_all lib y ops (s, r) = (Inr ids, (s', r'))" and "rp_write_session r = Some w"
    and "sess_ok n w" and "n + length ops < 2 ^ 32" and "\<forall>op \<in> set ops. stores_small lib (fst op) (fst (snd op))"
  shows "(\<exists>w'. rp_write_session r' = Some w' \<and> adds n ids w w') \<and>
    ids = map (\<lambda>op. chunk_id_compute (rl_b2 lib) (en_chunk_id_key (rl_crypto lib)) (fst op)) ops"
  using assms
proof (induction ops arbitrary: s r w n ids)
  case Nil
  then show ?case using adds_core [of n w w] by (auto simp: io_return_def)
next
  case (Cons a ops)
  obtain data alg ty where a: "a = (data, alg, ty)" by (cases a) auto
  obtain j sz new s1 r1 js where st: "store_chunk lib y data alg ty (s, r) = (Inr (j, sz, new), (s1, r1))"
    and rest: "store_all lib y ops (s1, r1) = (Inr js, (s', r'))" and ids: "ids = j # js"
    using Cons.prems(1) by (auto simp: a io_bind_Inr_iff io_return_def)
  have n: "n + 1 < 2 ^ 32" "n + 1 + length ops < 2 ^ 32" and small: "stores_small lib data alg"
    using Cons.prems(4,5) by (auto simp: a)
  obtain w1 where w1: "rp_write_session r1 = Some w1" "adds n [j] w w1"
    "j = chunk_id_compute (rl_b2 lib) (en_chunk_id_key (rl_crypto lib)) data"
    by (rule store_chunk_session [OF st Cons.prems(2,3) n(1) small])
  have ok1: "sess_ok (n + 1) w1" using w1(2) by (simp add: adds_def)
  have IH: "(\<exists>w'. rp_write_session r' = Some w' \<and> adds (n + 1) js w1 w') \<and>
      js = map (\<lambda>op. chunk_id_compute (rl_b2 lib) (en_chunk_id_key (rl_crypto lib)) (fst op)) ops"
    by (rule Cons.IH [OF rest w1(1) ok1 n(2)]) (use Cons.prems(5) in simp)
  then obtain w' where "rp_write_session r' = Some w'" "adds n ids w w'"
    using adds_trans [OF w1(2), of js] by (auto simp: ids)
  then show ?case using IH by (simp add: a ids w1(3))
qed

lemma no_pending_refs:
  assumes "writer_ok n pw" and "\<not> pw_has_pending pw" shows "pend_refs pw c = 0"
  using assms by (auto simp: writer_ok_def pw_has_pending_def pw_rel_def pend_refs_def)

lemma flush_if_pending:
  assumes run: "(if pw_has_pending (writer_of ty w) then flush_writer_async lib y ty else io_return ()) (s, r)
      = (Inr u, (s', r'))"
    and w: "rp_write_session r = Some w" and ok: "sess_ok n w"
  obtains w' where "rp_write_session r' = Some w'" and "adds n [] w w'"
    and "\<And>c. pend_refs (writer_of ty w') c = 0"
    and "writer_of (other_type ty) w' = writer_of (other_type ty) w"
proof (cases "pw_has_pending (writer_of ty w)")
  case True
  then have "flush_writer_async lib y ty (s, r) = (Inr u, (s', r'))" using run by simp
  then show thesis by (rule flush_writer_session [OF _ w ok]) (rule that)
next
  case False
  have "writer_ok n (writer_of ty w)" using ok by (cases ty) (auto simp: sess_ok_def writer_of_def)
  then show thesis
    using run w False ok no_pending_refs [OF _ False] adds_core [of n w w]
    by (intro that [of w]) (auto simp: io_return_def)
qed

lemma flush_packs_session:
  assumes run: "flush_packs lib y (s, r) = (Inr u, (s', r'))"
    and w: "rp_write_session r = Some w" and ok: "sess_ok n w"
  obtains w' d where "rp_write_session r' = Some w'" and "ws_index_delta w' = Some d" and "delta_wf d"
    and "\<And>c. delta_refs d c = sess_refs w c"
proof -
  obtain s1 r1 s2 r2 where
    f1: "(if pw_has_pending (writer_of Data w) then flush_writer_async lib y Data else io_return ()) (s, r)
      = (Inr (), (s1, r1))"
    and f2: "(if pw_has_pending (writer_of Tree w) then flush_writer_async lib y Tree else io_return ()) (s1, r1)
      = (Inr (), (s2, r2))"
    and f3: "with_ws (wait_pending_uploads lib y) (s2, r2) = (Inr u, (s', r'))"
    using run w by (auto simp: flush_packs_def writer_of_def io_bind_Inr_iff [of "if _ then _ else _"])
  obtain w1 where w1: "rp_write_session r1 = Some w1" "adds n [] w w1"
    "\<And>c. pend_refs (writer_of Data w1) c = 0" "writer_of Tree w1 = writer_of Tree w"
    by (rule flush_if_pending [OF f1 w ok]) simp
  have ok1: "sess_ok n w1" using w1(2) by (simp add: adds_def)
  obtain w2 where w2: "rp_write_session r2 = Some w2" "adds n [] w1 w2"
    "\<And>c. pend_refs (writer_of Tree w2) c = 0" "writer_of Data w2 = writer_of Data w1"
    by (rule flush_if_pending [OF f2 [folded w1(4)] w1(1) ok1]) simp
  obtain w3 where w3: "rp_write_session r' = Some w3" "core w3 = core w2"
    by (rule with_ws_core [OF f3 w2(1) wait_core])
  obtain d where d: "ws_index_delta w2 = Some d" "delta_wf d"
    using w2(2) by (auto simp: adds_def sess_ok_def)
  have "delta_refs d c = sess_refs w c" for c
  proof -
    have "sess_refs w2 c = delta_refs d c"
      using w1(3) [of c] w2(3) [of c] d(1) w2(4) by (simp add: sess_refs_def writer_of_def)
    then show ?thesis using w1(2) w2(2) by (simp add: adds_def)
  qed
  then show thesis using w3 d by (intro that [of w3 d]) (simp_all add: core_eq_iff)
qed

text \<open>Recovery changes what the session knows of earlier sessions and nothing else.\<close>

definition unrecovered :: "'s \<times> write_session \<Rightarrow> 's \<times> write_session \<Rightarrow> bool" where
  "unrecovered st st' \<longleftrightarrow>
     (snd st')\<lparr>ws_recovered_chunks := [], ws_pending_journal := [], ws_recovered_index_keys := []\<rparr> =
     (snd st)\<lparr>ws_recovered_chunks := [], ws_pending_journal := [], ws_recovered_index_keys := []\<rparr>"

lemma unrecovered_rel [simp, intro]: "reflp unrecovered" "transp unrecovered"
  by (auto simp: unrecovered_def intro!: reflpI transpI)

lemma unrecovered_prims:
  "io_rel unrecovered (on_store m)" "io_rel unrecovered (draw d)" "io_rel unrecovered get_ws"
  "io_rel unrecovered (modify_ws (\<lambda>w. w\<lparr>ws_recovered_index_keys := f w\<rparr>))"
  by (auto simp: io_rel_def unrecovered_def on_store_def draw_def get_ws_def modify_ws_def split: prod.splits)

lemma recover_packs_frame:
  "recover_packs lib idx known es w n = (w', n') \<Longrightarrow> unrecovered (s, w) (s', w')"
  by (induction lib idx known es w n rule: recover_packs.induct)
    (auto simp: unrecovered_def split: if_splits prod.splits)

lemma recover_single_frame: "io_rel unrecovered (recover_single_index lib y idx key)"
  unfolding recover_single_index_def Let_def
  by (intro io_rel_intros unrecovered_rel unrecovered_prims)
    (auto intro!: io_relI intro: recover_packs_frame split: prod.splits)

lemma recover_indices_frame: "io_rel unrecovered (recover_indices lib y idx markers keys acc)"
proof (induction keys arbitrary: acc)
  case (Cons key keys)
  obtain k sid where key: "key = (k, sid)" by fastforce
  have "io_rel unrecovered (case r of
        Inr (RecoverOk n) \<Rightarrow>
          io_bind (modify_ws (\<lambda>w. w\<lparr>ws_recovered_index_keys := ws_recovered_index_keys w @ [k]\<rparr>)) (\<lambda>_.
            recover_indices lib y idx markers keys
              \<lparr>pr_recovered_chunks = pr_recovered_chunks acc + n, pr_recovered_sessions = pr_recovered_sessions acc @ [sid]\<rparr>)
      | Inr RecoverCorrupt \<Rightarrow>
          io_bind (io_try (on_store (be_delete (sy_storage y) k))) (\<lambda>_. recover_indices lib y idx markers keys acc)
      | _ \<Rightarrow> recover_indices lib y idx markers keys acc)" for r :: "vykar_error + recover_result"
    by (auto split: sum.splits recover_result.splits
        intro!: io_rel_bind io_rel_try unrecovered_rel unrecovered_prims Cons.IH)
  then show ?case
    unfolding key recover_indices.simps
    by (intro io_rel_if io_rel_bind io_rel_try unrecovered_rel recover_single_frame Cons.IH)
qed (auto intro: io_rel_return)

lemma recover_frame: "io_rel unrecovered (recover_pending_index lib y idx)"
  unfolding recover_pending_index_def Let_def
  by (intro io_rel_bind unrecovered_rel unrecovered_prims recover_indices_frame)

lemma unrecoveredD:
  assumes "unrecovered (s, w) (s', w')"
  shows "ws_data_pack_writer w' = ws_data_pack_writer w \<and> ws_tree_pack_writer w' = ws_tree_pack_writer w
    \<and> ws_dedup_index w' = ws_dedup_index w \<and> ws_tiered_dedup w' = ws_tiered_dedup w
    \<and> ws_index_delta w' = ws_index_delta w \<and> ws_pending_uploads w' = ws_pending_uploads w"
  using assms unfolding unrecovered_def by (cases w; cases w') simp

text \<open>A session in which nothing has been stored.\<close>

definition fresh_session :: "write_session \<Rightarrow> bool" where
  "fresh_session w \<longleftrightarrow> ws_tiered_dedup w = None \<and> ws_dedup_index w = None \<and> ws_index_delta w = None
     \<and> ws_pending_uploads w = []
     \<and> (\<exists>k. ws_data_pack_writer w = pw_new Data k) \<and> (\<exists>k. ws_tree_pack_writer w = pw_new Tree k)"

lemma fresh_session_new: "fresh_session ((ws_new data_target tree_target n now)\<lparr>ws_persisted_pack_count := p\<rparr>)"
  by (auto simp: fresh_session_def ws_new_def)

lemma begin_fresh:
  assumes "begin_write_session lib y (s, r) = (Inr u, (s1, r1))"
  obtains w where "rp_write_session r1 = Some w" and "fresh_session w" and "ws_recovered_chunks w = []"
    and "s1 = snd (sy_instant y s)"
  using assms fresh_session_new that
  by (fastforce simp: begin_write_session_def Let_def repo_io_simps ws_new_def split: if_splits prod.splits)

lemma recover_try:
  assumes "io_try (repo_recover_pending_index lib y) (s, r) = (Inr q, (s', r'))"
    and "rp_write_session r = Some w"
  obtains res w' where "recover_pending_index lib y (rp_chunk_index r) (s, w) = (res, (s', w'))"
    and "r' = r\<lparr>rp_write_session := Some w'\<rparr>"
  using assms
  by (auto simp: io_try_def repo_recover_pending_index_def with_ws_def split: prod.splits)

lemma enable_starts:
  assumes "enable_tiered_dedup_mode lib y (s, r) = (Inr v, (s', r'))"
    and "rp_write_session r = Some w" and "fresh_session w"
  obtains w' where "s' = s" and "rp_write_session r' = Some w'" and "ws_index_delta w' = Some delta_new"
    and "ws_tiered_dedup w' \<noteq> None \<or> ws_dedup_index w' \<noteq> None"
    and "ws_data_pack_writer w' = ws_data_pack_writer w" and "ws_tree_pack_writer w' = ws_tree_pack_writer w"
    and "ws_pending_uploads w' = []" and "ws_recovered_chunks w' = ws_recovered_chunks w"
  using assms
  by (auto simp: enable_tiered_dedup_mode_def read_cache_file_def draw_def enable_dedup_mode_def fresh_session_def repo_io_simps
      split: option.splits)

lemma started_session_ok:
  assumes "fresh_session w" and "ws_index_delta w' = Some delta_new"
    and "ws_tiered_dedup w' \<noteq> None \<or> ws_dedup_index w' \<noteq> None"
    and "ws_data_pack_writer w' = ws_data_pack_writer w" and "ws_tree_pack_writer w' = ws_tree_pack_writer w"
  shows "sess_ok 0 w'" and "sess_refs w' c = 0"
  using assms
  by (auto simp: fresh_session_def sess_ok_def sess_refs_def delta_wf_def delta_new_def delta_refs_def
      new_refs_def bump_of_def)

text \<open>The start of a session: what the stores begin with, and the recovery they build on.\<close>

lemma store_session_cases:
  assumes "store_session lib y sid uploads ops (s, r) = (Inr ids, (s', r'))"
  obtains s1 w1 res s2 w2 r3 w3 s4 r4 idx where
    "s1 = snd (sy_instant y s)" and "ws_recovered_chunks w1 = []"
    and "recover_pending_index lib y idx (s1, w1) = (res, (s2, w2))"
    and "rp_write_session r3 = Some w3" and "sess_ok 0 w3" and "\<And>c. sess_refs w3 c = 0"
    and "ws_index_delta w3 = Some delta_new" and "ws_pending_uploads w3 = []"
    and "ws_recovered_chunks w3 = ws_recovered_chunks w2"
    and "store_all lib y ops (s2, r3) = (Inr ids, (s4, r4))"
    and "flush_packs lib y (s4, r4) = (Inr (), (s', r'))"
proof -
  obtain u s1 r1 q s2 r2 v s2' r3 s3 r3' s4 r4 where
    b: "begin_write_session lib y (s, r) = (Inr u, (s1, r1))"
    and q: "io_try (repo_recover_pending_index lib y) (s1, set_write_session_id sid r1) =
      ((Inr q :: vykar_error + (vykar_error + pending_index_recovery)), (s2, r2))"
    and e: "enable_tiered_dedup_mode lib y (s2, r2) = (Inr v, (s2', r3))"
    and m: "set_max_in_flight_uploads uploads (s2', r3) = (Inr (), (s3, r3'))"
    and st: "store_all lib y ops (s3, r3') = (Inr ids, (s4, r4))"
    and fl: "flush_packs lib y (s4, r4) = (Inr (), (s', r'))"
    using assms unfolding store_session_def
    by (auto simp: io_bind_Inr_iff io_return_def modify_ws_def)
  obtain w0 where w0: "rp_write_session r1 = Some w0" "fresh_session w0" "ws_recovered_chunks w0 = []"
    "s1 = snd (sy_instant y s)" by (rule begin_fresh [OF b])
  let ?w1 = "w0\<lparr>ws_session_id := sid\<rparr>"
  have w1: "rp_write_session (set_write_session_id sid r1) = Some ?w1"
    using w0(1) by (simp add: set_write_session_id_def)
  obtain res w2 where rec: "recover_pending_index lib y (rp_chunk_index (set_write_session_id sid r1)) (s1, ?w1) = (res, (s2, w2))"
    and r2: "r2 = (set_write_session_id sid r1)\<lparr>rp_write_session := Some w2\<rparr>"
    by (rule recover_try [OF q w1])
  have f2: "fresh_session w2"
    using unrecoveredD [OF io_relD [OF recover_frame rec]] w0(2) by (simp add: fresh_session_def)
  have rw2: "rp_write_session r2 = Some w2" by (simp add: r2)
  obtain w3 where w3: "s2' = s2" "rp_write_session r3 = Some w3" "ws_index_delta w3 = Some delta_new"
    "ws_tiered_dedup w3 \<noteq> None \<or> ws_dedup_index w3 \<noteq> None" "ws_data_pack_writer w3 = ws_data_pack_writer w2"
    "ws_tree_pack_writer w3 = ws_tree_pack_writer w2" "ws_pending_uploads w3 = []"
    "ws_recovered_chunks w3 = ws_recovered_chunks w2" by (rule enable_starts [OF e rw2 f2])
  let ?w3 = "w3\<lparr>ws_max_in_flight_uploads := max uploads 1\<rparr>"
  have r3': "r3' = r3\<lparr>rp_write_session := Some ?w3\<rparr>" "s3 = s2"
    using m w3(1,2) by (simp_all add: set_max_in_flight_uploads_def put_ws_def modify_ws_def)
  note ok = started_session_ok [OF f2, of ?w3]
  show thesis
    by (rule that [OF w0(4) _ rec, of r3' ?w3 s4 r4]) (use ok w0 w3 r3' st fl in simp_all)
qed

section \<open>The blob cache stays bounded\<close>

definition bc_total :: "(chunk_id, bytes) hmap \<Rightarrow> nat" where
  "bc_total es = sum_list (map (length \<circ> snd) es)"

definition bc_wf :: "blob_cache \<Rightarrow> bool" where
  "bc_wf c \<longleftrightarrow> hm_wf (bc_entries c) \<and> fst ` set (bc_entries c) \<subseteq> set (bc_order c)
     \<and> bc_total (bc_entries c) \<le> bc_current_bytes c \<and> bc_total (bc_entries c) \<le> bc_max_bytes c"

lemma bc_total_remove:
  "hm_wf es \<Longrightarrow> map_of es i = Some d \<Longrightarrow> bc_total es = bc_total (hm_remove i es) + length d"
proof (induction es)
  case (Cons p es)
  then show ?case
  proof (cases "fst p = i")
    case True
    then have "\<forall>q \<in> set es. fst q \<noteq> i" using Cons.prems(1)
      by (auto simp: hm_wf_def intro: rev_image_eqI)
    then have "hm_remove i es = es" by (simp add: hm_remove_def)
    then show ?thesis using True Cons.prems(2) by (cases p) (simp add: bc_total_def hm_remove_def)
  next
    case False
    then show ?thesis using Cons by (cases p) (simp add: bc_total_def hm_remove_def hm_wf_def)
  qed
qed simp

lemma bc_total_insert: "bc_total (hm_insert i d es) \<le> bc_total es + length d"
  unfolding hm_insert_def bc_total_def by (induction es) auto

lemma bc_evict_wf:
  assumes "bc_evict m n es order cur = (es', order', cur')" and "hm_wf es" and "fst ` set es \<subseteq> set order"
    and "bc_total es \<le> cur" and "n \<le> m"
  shows "hm_wf es' \<and> fst ` set es' \<subseteq> set order' \<and> bc_total es' \<le> cur' \<and> bc_total es' + n \<le> m
    \<and> set es' \<subseteq> set es"
  using assms
proof (induction m n es order cur rule: bc_evict.induct)
  case (1 m n es cur)
  then show ?case by (auto simp: bc_total_def)
next
  case (2 m n es i order cur)
  show ?case
  proof (cases "m < cur + n")
    case False
    then show ?thesis using 2(3-) by auto
  next
    case True
    show ?thesis
    proof (cases "map_of es i")
      case None
      then have "i \<notin> fst ` set es" by (simp add: map_of_eq_None_iff)
      then show ?thesis using 2(1) [OF True None] 2(3-) None True by auto
    next
      case (Some d)
      have "bc_total (hm_remove i es) \<le> cur - length d"
        using bc_total_remove [OF 2(4) Some] 2(6) by linarith
      moreover have "fst ` set (hm_remove i es) \<subseteq> set order" and "hm_wf (hm_remove i es)"
        and "set (hm_remove i es) \<subseteq> set es"
        using 2(4,5) by (auto simp: hm_remove_def hm_wf_def distinct_map inj_on_def)
      ultimately show ?thesis using 2(2) [OF True Some] 2(3,7) True Some by auto
    qed
  qed
qed

lemma set_hm_insert: "set (hm_insert i d es) \<subseteq> insert (i, d) (set es)"
  unfolding hm_insert_def by (induction es) auto

lemma bc_insert_wf:
  assumes "bc_wf c"
  shows "bc_wf (bc_insert c i d) \<and> set (bc_entries (bc_insert c i d)) \<subseteq> insert (i, d) (set (bc_entries c))
    \<and> bc_max_bytes (bc_insert c i d) = bc_max_bytes c"
proof (cases "bc_max_bytes c < length d")
  case False
  obtain es order cur where
    ev: "bc_evict (bc_max_bytes c) (length d) (bc_entries c) (bc_order c) (bc_current_bytes c) = (es, order, cur)"
    by (metis prod_cases3)
  have "hm_wf es \<and> fst ` set es \<subseteq> set order \<and> bc_total es \<le> cur \<and> bc_total es + length d \<le> bc_max_bytes c
    \<and> set es \<subseteq> set (bc_entries c)"
    using bc_evict_wf [OF ev] assms False by (simp add: bc_wf_def)
  then show ?thesis
    using False ev bc_total_insert [of i d es] set_hm_insert [of i d es]
    by (auto simp: bc_insert_def bc_wf_def)
qed (use assms in \<open>auto simp: bc_insert_def\<close>)

lemma bc_inserts_wf:
  "bc_wf c \<Longrightarrow> bc_wf (fold (\<lambda>(i, d) c. bc_insert c i d) xs c)
    \<and> set (bc_entries (fold (\<lambda>(i, d) c. bc_insert c i d) xs c)) \<subseteq> set xs \<union> set (bc_entries c)
    \<and> bc_max_bytes (fold (\<lambda>(i, d) c. bc_insert c i d) xs c) = bc_max_bytes c"
proof (induction xs arbitrary: c)
  case (Cons x xs)
  then show ?case using bc_insert_wf [OF Cons.prems, of "fst x" "snd x"] by (cases x) fastforce
qed simp

text \<open>Inserting a chunk that is cached already counts its bytes twice: \<open>bc_current_bytes\<close> never
  comes down to what the cache holds, and the cache evicts earlier than its limit asks for.\<close>

lemma bc_reinsert_leaks:
  assumes "2 * length d \<le> m"
  shows "bc_total (bc_entries (bc_insert (bc_insert (bc_new m) i d) i d)) = length d
    \<and> bc_current_bytes (bc_insert (bc_insert (bc_new m) i d) i d) = 2 * length d"
  using assms by (auto simp: bc_insert_def bc_new_def bc_total_def hm_insert_def)

section \<open>Verification of packs before a commit\<close>

context storage_contract
begin

lemma require_pack_ok:
  assumes "require_pack lib b pid s = (Inr u, s')" and "valid_key (pack_storage_key (rl_hex lib) pid)"
  shows "contents s' = contents s \<and> contents s (pack_storage_key (rl_hex lib) pid) \<noteq> None"
  using assms exists_ok exists_frame
  by (fastforce simp: require_pack_def io_bind_Inr_iff io_return_def io_fail_def split: if_splits)

lemma list_shards_ok:
  assumes "list_shards b shards known fb s = (Inr (known', fb'), s')"
    and "\<forall>k \<in> set known. contents s k \<noteq> None"
  shows "contents s' = contents s \<and> (\<forall>k \<in> set known'. contents s k \<noteq> None)"
  using assms
proof (induction shards arbitrary: known fb s)
  case (Cons d shards)
  obtain q s1 where l: "be_list b d s = (q, s1)" by fastforce
  have f: "contents s1 = contents s" by (rule list_frame [OF l])
  show ?case
  proof (cases q)
    case (Inl e)
    then show ?thesis using Cons.prems l f Cons.IH [of known "List.insert d fb" s1]
      by (auto simp: io_bind_def io_try_def)
  next
    case (Inr ks)
    then show ?thesis using Cons.prems l f list_sound [of d s ks s1] Cons.IH [of "List.union ks known" fb s1]
      by (auto simp: io_bind_def io_try_def)
  qed
qed (auto simp: io_return_def)

lemma for_packs_ok:
  assumes "io_for pids f s = (Inr u, s')"
    and "\<And>pid s u s'. pid \<in> set pids \<Longrightarrow> contents s = c \<Longrightarrow> f pid s = (Inr u, s') \<Longrightarrow>
      contents s' = c \<and> c (key pid) \<noteq> None"
    and "contents s = c"
  shows "contents s' = c \<and> (\<forall>pid \<in> set pids. c (key pid) \<noteq> None)"
  using assms
proof (induction pids arbitrary: s)
  case (Cons p pids)
  obtain a s1 where f: "f p s = (Inr a, s1)" and rest: "io_for pids f s1 = (Inr u, s')"
    using Cons.prems(1) by (auto simp: io_bind_Inr_iff)
  have p: "contents s1 = c \<and> c (key p) \<noteq> None"
    by (rule Cons.prems(2) [OF _ Cons.prems(3) f]) simp
  have "contents s' = c \<and> (\<forall>pid \<in> set pids. c (key pid) \<noteq> None)"
  proof (rule Cons.IH [OF rest])
    fix pid s u s' assume "pid \<in> set pids" and "contents s = c" and "f pid s = (Inr u, s')"
    then show "contents s' = c \<and> c (key pid) \<noteq> None" by (intro Cons.prems(2) [of pid s u s']) simp_all
  qed (use p in simp)
  then show ?case using p by simp
qed (simp add: io_return_def)

lemma verify_packs_present:
  assumes "verify_delta_packs lib b delta s = (Inr u, s')"
    and keys: "\<And>e. e \<in> set (dl_new_entries delta) \<Longrightarrow> valid_key (pack_storage_key (rl_hex lib) (ne_pack_id e))"
  shows "contents s' = contents s \<and>
    (\<forall>e \<in> set (dl_new_entries delta). contents s (pack_storage_key (rl_hex lib) (ne_pack_id e)) \<noteq> None)"
proof -
  let ?pids = "remdups (map ne_pack_id (dl_new_entries delta))"
  let ?key = "pack_storage_key (rl_hex lib)"
  have valid: "valid_key (?key pid)" if "pid \<in> set ?pids" for pid using keys that by auto
  have "contents s' = contents s \<and> (\<forall>pid \<in> set ?pids. contents s (?key pid) \<noteq> None)"
  proof (cases "BATCH_VERIFY_THRESHOLD \<le> length ?pids \<and> length (remdups (map (shard_dir lib) ?pids)) < length ?pids")
    case True
    then obtain known fb s1 where ls: "list_shards b (remdups (map (shard_dir lib) ?pids)) [] [] s = (Inr (known, fb), s1)"
      and run: "io_for ?pids (\<lambda>pid. if shard_dir lib pid \<in> set fb then require_pack lib b pid
          else if ?key pid \<notin> set known then io_fail (missing_pack lib pid) else io_return ()) s1 = (Inr u, s')"
      using assms(1) by (auto simp: verify_delta_packs_def Let_def io_bind_Inr_iff)
    have l: "contents s1 = contents s" "\<forall>k \<in> set known. contents s k \<noteq> None"
      using list_shards_ok [OF ls] by auto
    show ?thesis
    proof (rule for_packs_ok [OF run _ l(1)])
      fix pid t u t' assume pid: "pid \<in> set ?pids" and t: "contents t = contents s"
        and f: "(if shard_dir lib pid \<in> set fb then require_pack lib b pid
          else if ?key pid \<notin> set known then io_fail (missing_pack lib pid) else io_return ()) t = (Inr u, t')"
      show "contents t' = contents s \<and> contents s (?key pid) \<noteq> None"
        using require_pack_ok [of lib pid t u t', OF _ valid [OF pid]] f t l(2)
        by (auto simp: io_fail_def io_return_def split: if_splits)
    qed
  next
    case False
    then have run: "io_for ?pids (require_pack lib b) s = (Inr u, s')"
      using assms(1) by (auto simp: verify_delta_packs_def Let_def)
    show ?thesis
    proof (rule for_packs_ok [OF run _ refl])
      fix pid t u t' assume pid: "pid \<in> set ?pids" and t: "contents t = contents s"
        and f: "require_pack lib b pid t = (Inr u, t')"
      show "contents t' = contents s \<and> contents s (?key pid) \<noteq> None"
        using require_pack_ok [OF f valid [OF pid]] t by simp
    qed
  qed
  then show ?thesis by auto
qed

end

section \<open>Properties\<close>

text \<open>C1: The index counts what a backup stored.  A session that begins as a backup
  does (recovery of interrupted sessions, tiered dedup mode), stores any
  sequence of chunks (known, recovered, pending or new, in either pack) and flushes its packs
  leaves a delta whose reconciliation with any fresh index adds to every chunk exactly the number
  of times the session stored it.\<close>

theorem backup_refcounts_exact:
  assumes "store_session lib y sid uploads ops (s, r) = (Inr ids, (s', r'))" and "length ops < 2 ^ 32"
    and "\<forall>op \<in> set ops. stores_small lib (fst op) (fst (snd op))"
  shows "ids = map (\<lambda>op. chunk_id_compute (rl_b2 lib) (en_chunk_id_key (rl_crypto lib)) (fst op)) ops \<and>
    (\<exists>w d. rp_write_session r' = Some w \<and> ws_index_delta w = Some d \<and>
      (\<forall>fresh d' c. delta_reconcile d fresh = Inr d' \<longrightarrow>
         rc_of (delta_apply_to d' fresh) c = rc_of fresh c + of_nat (count_list ids c)))"
  using assms(1)
proof (cases rule: store_session_cases)
  case (1 s1 w1 res s2 w2 r3 w s4 r4 idx)
  have len: "0 + length ops < 2 ^ 32" using assms(2) by simp
  obtain w1 where w1: "rp_write_session r4 = Some w1" "adds 0 ids w w1"
    and ids: "ids = map (\<lambda>op. chunk_id_compute (rl_b2 lib) (en_chunk_id_key (rl_crypto lib)) (fst op)) ops"
    using store_all_session [OF 1(10,4,5) len assms(3)] by blast
  have ok: "sess_ok (0 + length ids) w1" using w1(2) by (simp add: adds_def)
  obtain w2 d where w2: "rp_write_session r' = Some w2" "ws_index_delta w2 = Some d" "delta_wf d"
    "\<And>c. delta_refs d c = sess_refs w1 c"
    by (rule flush_packs_session [OF 1(11) w1(1) ok]) blast
  have "delta_refs d c = of_nat (count_list ids c)" for c
    using w2(4) w1(2) 1(6) by (simp add: adds_def)
  then show ?thesis using ids w2(1,2) reconcile_apply [OF w2(3)] by auto
qed

text \<open>A repository in memory without encryption, for the concrete instances.\<close>

definition wit_system :: "memory_state system" where
  "wit_system = \<lparr>sy_storage = memory_backend, sy_nonce = (\<lambda>s. (replicate 12 0, s)),
     sy_instant = (\<lambda>s. (0, s)), sy_utc = (\<lambda>s. (0, s)), sy_next_u64 = (\<lambda>s. (1, s)),
     sy_is_finished = (\<lambda>s. (True, s)), sy_cache_read = (\<lambda>_ _. None),
     sy_cache_write = (\<lambda>_ _. io_return ())\<rparr>"

definition wit_lib :: repo_lib where
  "wit_lib = \<lparr>rl_hex = lower_hex, rl_b2 = wit_b2, rl_codec = wit_codec, rl_crypto = plaintext_engine [],
     rl_locks = wit_lock_lib, rl_host = wit_host, rl_xor = wit_xor,
     rl_journal_to_vec = (\<lambda>_. Inr []), rl_journal_from_slice = (\<lambda>_. Inr []),
     rl_index_to_vec = (\<lambda>_. Inr []), rl_index_from_slice = (\<lambda>_. Inl (Other [])),
     rl_data_pack_target = (\<lambda>_ _ _. 1000)\<rparr>"

definition wit_repository :: repository where
  "wit_repository = \<lparr>rp_manifest = \<lparr>mf_version = 1, mf_timestamp = 0, mf_snapshots = []\<rparr>,
     rp_chunk_index = ci_new,
     rp_config = \<lparr>cf_version = 1, cf_id = [], cf_encryption = EncNone, cf_created = 0,
                  cf_min_pack_size = 1000, cf_max_pack_size = 1000\<rparr>,
     rp_blob_cache = bc_new BLOB_CACHE_MAX_BYTES, rp_index_generation = 0, rp_index_dirty = False,
     rp_rebuild_dedup_cache = False, rp_write_session = None, rp_lock_fence = None,
     rp_file_cache = file_cache_new, rp_file_cache_dirty = False\<rparr>"

definition wit_stores :: "(bytes \<times> compression \<times> pack_type) list" where
  "wit_stores = [([1, 2], CompNone, Data), ([3], Lz4, Tree), ([1, 2], CompNone, Data)]"

lemma wit_stores_small: "\<forall>op \<in> set wit_stores. stores_small wit_lib (fst op) (fst (snd op))"
  by (auto simp: wit_stores_def stores_small_def wit_lib_def wit_codec_def compress_def
      pack_object_with_context_def plaintext_engine_def rbind_def u32_to_le_bytes_def)

lemma wit_stores_run:
  "case store_session wit_lib wit_system ''s'' 4 wit_stores ([], wit_repository) of
     (Inl e, _) \<Rightarrow> False
   | (Inr ids, (s', r')) \<Rightarrow>
       count_list ids (chunk_id_compute wit_b2 [] [1, 2]) = 2 \<and>
       (case rp_write_session r' of None \<Rightarrow> False
        | Some w \<Rightarrow> (case ws_index_delta w of None \<Rightarrow> False
                     | Some d \<Rightarrow> (case delta_reconcile d ci_new of Inl _ \<Rightarrow> False | Inr _ \<Rightarrow> True)))"
  by code_simp

lemma backup_refcounts_exact_witness:
  "\<exists>ids s' r' w d d'. store_session wit_lib wit_system ''s'' 4 wit_stores ([], wit_repository) = (Inr ids, (s', r'))
     \<and> rp_write_session r' = Some w \<and> ws_index_delta w = Some d \<and> delta_reconcile d ci_new = Inr d'
     \<and> rc_of (delta_apply_to d' ci_new) (chunk_id_compute wit_b2 [] [1, 2]) = 2"
proof -
  obtain q s' r' where q: "store_session wit_lib wit_system ''s'' 4 wit_stores ([], wit_repository) = (q, (s', r'))"
    by (metis prod_cases3)
  obtain ids where ids: "q = Inr ids" using wit_stores_run q by (cases q) simp_all
  note run = q [unfolded ids]
  obtain w where w: "rp_write_session r' = Some w"
    using wit_stores_run run by (cases "rp_write_session r'") simp_all
  obtain d where d: "ws_index_delta w = Some d"
    using wit_stores_run run w by (cases "ws_index_delta w") simp_all
  obtain d' where "delta_reconcile d ci_new = Inr d'"
    using wit_stores_run run w d by (cases "delta_reconcile d ci_new") simp_all
  note st = w d this
  have cnt: "count_list ids (chunk_id_compute wit_b2 [] [1, 2]) = 2" using wit_stores_run run by simp
  have "length wit_stores < 2 ^ 32" by (simp add: wit_stores_def)
  from backup_refcounts_exact [OF run this wit_stores_small]
  have "rc_of (delta_apply_to d' ci_new) (chunk_id_compute wit_b2 [] [1, 2]) = rc_of ci_new (chunk_id_compute wit_b2 [] [1, 2]) + 2"
    using st cnt by simp
  moreover have "rc_of ci_new c = 0" for c by (simp add: rc_of_def ci_get_def ci_new_def)
  ultimately show ?thesis using run st by auto
qed

text \<open>C35: The blob cache is bounded.  After any sequence of insertions into a new cache the bytes
  it holds are at most its limit and at most its counter (so that the subtraction on eviction
  never goes below zero), every key is in the eviction order, and every entry is one that was
  inserted.\<close>

theorem blob_cache_bounded:
  "let c = fold (\<lambda>(i, d) c. bc_insert c i d) xs (bc_new m) in
     bc_total (bc_entries c) \<le> m \<and> bc_total (bc_entries c) \<le> bc_current_bytes c
     \<and> fst ` set (bc_entries c) \<subseteq> set (bc_order c) \<and> set (bc_entries c) \<subseteq> set xs"
  using bc_inserts_wf [of "bc_new m" xs]
  by (auto simp: bc_wf_def bc_new_def bc_total_def hm_wf_def Let_def)

text \<open>C13: A commit that passes the verification of its packs refers to packs that are in the
  storage: on both paths (one existence check per pack, or a listing per shard with the fallback
  for shards that could not be listed) success means that the pack of every new entry is there,
  and the check itself changes nothing.\<close>

theorem verified_packs_exist:
  assumes "storage_contract b contents valid_key"
    and "verify_delta_packs lib b delta s = (Inr u, s')"
    and "\<forall>e \<in> set (dl_new_entries delta). valid_key (pack_storage_key (rl_hex lib) (ne_pack_id e))"
  shows "contents s' = contents s \<and>
    (\<forall>e \<in> set (dl_new_entries delta). contents s (pack_storage_key (rl_hex lib) (ne_pack_id e)) \<noteq> None)"
  using storage_contract.verify_packs_present [OF assms(1,2)] assms(3) by blast

definition wit_packed_delta :: index_delta where
  "wit_packed_delta = delta_add_new_entry delta_new (wit_cid 1) 2 (wit_pid 1) 13 1"

definition wit_packed_store :: memory_state where
  "wit_packed_store = [(pack_storage_key lower_hex (wit_pid 1), [1, 2, 3])]"

lemma wit_packed_key: "plain_key (pack_storage_key lower_hex (wit_pid 1))"
  by code_simp

lemma verified_packs_exist_witness:
  "verify_delta_packs wit_lib memory_backend wit_packed_delta wit_packed_store = (Inr (), wit_packed_store)
   \<and> map_of wit_packed_store (pack_storage_key lower_hex (wit_pid 1)) \<noteq> None"
proof -
  have run: "verify_delta_packs wit_lib memory_backend wit_packed_delta wit_packed_store = (Inr (), wit_packed_store)"
    by (simp add: verify_delta_packs_def wit_packed_delta_def wit_packed_store_def delta_add_new_entry_def
        delta_new_def BATCH_VERIFY_THRESHOLD_def require_pack_def memory_backend_def mem_exists_def
        hm_contains_def io_bind_def io_return_def wit_lib_def)
  have "\<forall>e \<in> set (dl_new_entries wit_packed_delta).
      plain_key (pack_storage_key (rl_hex wit_lib) (ne_pack_id e))"
    using wit_packed_key by (simp add: wit_packed_delta_def delta_add_new_entry_def delta_new_def wit_lib_def)
  from verified_packs_exist [OF mem.storage_contract_axioms run this] show ?thesis
    using run by (simp add: wit_lib_def wit_packed_delta_def delta_add_new_entry_def delta_new_def)
qed

end
