(* ===== verification/Reading.thy ===== *)
theory Reading
  imports Repository
begin

text \<open>
  Reading many chunks at once (\<open>read_chunks_coalesced_into\<close> of
  \<open>vykar-core/src/repo/mod.rs\<close>): the misses of the blob cache are grouped by pack, sorted by
  offset and merged into range reads, and the plaintexts are emitted in the order of the request.
  The lemmas show that the optimised path emits what reading the chunks one by one would.
\<close>

section \<open>The reference\<close>

text \<open>The plaintext of one request, read straight from the contents of the storage.\<close>

fun chunk_plain :: "repo_lib \<Rightarrow> (string \<rightharpoonup> bytes) \<Rightarrow> chunk_request \<Rightarrow> bytes option" where
  "chunk_plain lib m (i, pid, off, sz) =
     (case m (pack_storage_key (rl_hex lib) pid) of
        None \<Rightarrow> None
      | Some d \<Rightarrow>
          if unat off + unat sz \<le> length d
          then (case decode_chunk lib i (take (unat sz) (drop (unat off) d)) of
                  Inl _ \<Rightarrow> None | Inr p \<Rightarrow> Some p)
          else None)"

definition blob_of :: "nat \<Rightarrow> chunk_request \<Rightarrow> pack_id \<times> coalesced_blob" where
  "blob_of k = (\<lambda>(i, pid, off, sz). (pid, \<lparr>cb_result_idx = k, cb_chunk_id = i, cb_pack_offset = off, cb_stored_size = sz\<rparr>))"

section \<open>Grouping\<close>

definition pack_pairs :: "(pack_id, coalesced_blob list) hmap \<Rightarrow> (pack_id \<times> coalesced_blob) set" where
  "pack_pairs packs = {(pid, b). \<exists>bs. map_of packs pid = Some bs \<and> b \<in> set bs}"

definition group_pairs :: "coalesced_group list \<Rightarrow> (pack_id \<times> coalesced_blob) set" where
  "group_pairs gs = {(cg_pack_id g, b) | g b. g \<in> set gs \<and> b \<in> set (cg_blobs g)}"

lemma group_pairs_Nil [simp]: "group_pairs [] = {}"
  and group_pairs_Cons [simp]: "group_pairs (g # gs) = {cg_pack_id g} \<times> set (cg_blobs g) \<union> group_pairs gs"
  and group_pairs_append [simp]: "group_pairs (gs @ gs') = group_pairs gs \<union> group_pairs gs'"
  and group_pairs_sort [simp]: "group_pairs (sort_key f gs) = group_pairs gs"
  by (auto simp: group_pairs_def)

lemma collect_less_Suc:
  "{f k | k. k < Suc n \<and> P k} = (if P 0 then {f 0} else {}) \<union> {f (Suc k) | k. k < n \<and> P (Suc k)}"
  by (auto simp: less_Suc_eq_0_disj)

lemma cache_scan_spec:
  assumes "cache_scan cache idx chunks packs = (slots, packs')" and "hm_wf packs"
  shows "hm_wf packs' \<and> slots = map (\<lambda>c. bc_get cache (fst c)) chunks \<and>
    pack_pairs packs' = pack_pairs packs \<union>
      {blob_of (idx + k) (chunks ! k) | k. k < length chunks \<and> bc_get cache (fst (chunks ! k)) = None}"
  using assms
proof (induction cache idx chunks packs arbitrary: slots rule: cache_scan.induct)
  case (2 cache idx i pid off sz chunks packs)
  have split: "{blob_of (idx + k) ((c # cs) ! k) | k. k < length (c # cs) \<and> bc_get cache (fst ((c # cs) ! k)) = None}
      = (if bc_get cache (fst c) = None then {blob_of idx c} else {}) \<union>
        {blob_of (idx + 1 + k) (cs ! k) | k. k < length cs \<and> bc_get cache (fst (cs ! k)) = None}"
    for c :: chunk_request and cs
    using collect_less_Suc [of "\<lambda>k. blob_of (idx + k) ((c # cs) ! k)" "length cs"
        "\<lambda>k. bc_get cache (fst ((c # cs) ! k)) = None"] by simp
  show ?case
  proof (cases "bc_get cache i")
    case (Some d)
    then obtain sl where "cache_scan cache (idx + 1) chunks packs = (sl, packs')" and "slots = Some d # sl"
      using 2(3) by (auto split: prod.splits)
    then show ?thesis using 2(2) [OF Some, of sl] 2(4) Some unfolding split by simp
  next
    case None
    let ?b = "\<lparr>cb_result_idx = idx, cb_chunk_id = i, cb_pack_offset = off, cb_stored_size = sz\<rparr>"
    let ?old = "case map_of packs pid of None \<Rightarrow> [] | Some bs \<Rightarrow> bs"
    obtain sl where sc: "cache_scan cache (idx + 1) chunks (hm_insert pid (?old @ [?b]) packs) = (sl, packs')"
      and slots: "slots = None # sl"
      using 2(3) None by (auto simp: Let_def split: prod.splits)
    have "pack_pairs (hm_insert pid (?old @ [?b]) packs) = insert (pid, ?b) (pack_pairs packs)"
      by (auto simp: pack_pairs_def split: option.splits if_splits)
    then show ?thesis
      using 2(1) [OF None refl refl sc] 2(4) None slots unfolding split by (auto simp: blob_of_def)
  qed
qed auto

lemma coalesce_loop_spec:
  assumes "\<forall>b \<in> set cur. st \<le> cb_pack_offset b" and "\<forall>b \<in> set bs. st \<le> cb_pack_offset b"
    and "sorted (map cb_pack_offset bs)"
  shows "group_pairs (coalesce_loop pid st en cur bs) = {pid} \<times> (set cur \<union> set bs) \<and>
    (\<forall>g \<in> set (coalesce_loop pid st en cur bs). \<forall>b \<in> set (cg_blobs g). cg_read_start g \<le> cb_pack_offset b)"
  using assms
proof (induction pid st en cur bs rule: coalesce_loop.induct)
  case (2 pid st en cur b bs)
  show ?case
  proof (cases "sat_sub_u64 (cb_pack_offset b) en \<le> COALESCE_GAP \<and> blob_end b - st \<le> COALESCE_MAX")
    case True
    then show ?thesis using 2(1) [OF refl refl True] 2(3-) by auto
  next
    case False
    then show ?thesis using 2(2) [OF refl refl False] 2(3-) by auto
  qed
qed auto

lemma coalesce_pack_spec:
  "group_pairs (coalesce_pack (pid, blobs)) = {pid} \<times> set blobs \<and>
   (\<forall>g \<in> set (coalesce_pack (pid, blobs)). \<forall>b \<in> set (cg_blobs g). cg_read_start g \<le> cb_pack_offset b)"
proof (cases "sort_key cb_pack_offset blobs")
  case Nil
  then have "set blobs = {}" by (metis set_sort set_empty list.set(1))
  then show ?thesis using Nil by simp
next
  case (Cons b bs)
  have s: "sorted (map cb_pack_offset (b # bs))" using sorted_sort_key [of cb_pack_offset blobs] Cons by simp
  have e: "set blobs = insert b (set bs)" using set_sort [of cb_pack_offset blobs] Cons by simp
  show ?thesis
    using coalesce_loop_spec [of "[b]" "cb_pack_offset b" bs pid "blob_end b"] s Cons e by auto
qed

lemma coalesce_groups_spec:
  assumes "hm_wf packs"
  shows "group_pairs (coalesce_groups packs) = pack_pairs packs"
    and "\<forall>g \<in> set (coalesce_groups packs). \<forall>b \<in> set (cg_blobs g). cg_read_start g \<le> cb_pack_offset b"
proof -
  have "group_pairs (concat (map coalesce_pack ps)) = {(pid, b). \<exists>bs. (pid, bs) \<in> set ps \<and> b \<in> set bs}" for ps
    using coalesce_pack_spec by (induction ps) auto
  then show "group_pairs (coalesce_groups packs) = pack_pairs packs"
    using assms by (auto simp: coalesce_groups_def pack_pairs_def hm_wf_def map_of_eq_Some_iff)
  show "\<forall>g \<in> set (coalesce_groups packs). \<forall>b \<in> set (cg_blobs g). cg_read_start g \<le> cb_pack_offset b"
    using coalesce_pack_spec by (fastforce simp: coalesce_groups_def)
qed

lemma coalesce_loop_nonempty:
  "cur \<noteq> [] \<Longrightarrow> g \<in> set (coalesce_loop pid st en cur bs) \<Longrightarrow> cg_blobs g \<noteq> []"
  by (induction pid st en cur bs rule: coalesce_loop.induct) (auto simp: Let_def split: if_splits)

lemma coalesce_groups_nonempty:
  "g \<in> set (coalesce_groups packs) \<Longrightarrow> \<exists>c. (cg_pack_id g, c) \<in> group_pairs (coalesce_groups packs)"
proof -
  assume g: "g \<in> set (coalesce_groups packs)"
  then have "cg_blobs g \<noteq> []"
    by (auto simp: coalesce_groups_def split: list.splits dest: coalesce_loop_nonempty [rotated])
  then show ?thesis using g by (cases "cg_blobs g") (fastforce simp: group_pairs_def)+
qed

section \<open>Emitting in order\<close>

text \<open>
  \<open>P k\<close> is the plaintext of request \<open>k\<close>; \<open>filled\<close> are the requests whose slot has been
  filled.  What has been emitted is the plaintext of the requests below the cursor.
\<close>

definition rd_inv :: "(nat \<Rightarrow> bytes) \<Rightarrow> nat \<Rightarrow> bytes \<Rightarrow> nat set \<Rightarrow> read_state \<Rightarrow> bool" where
  "rd_inv P n out filled st \<longleftrightarrow> length (rd_slots st) = n \<and> rd_next_emit st \<le> n
     \<and> rd_out st = out @ concat (map P [0..<rd_next_emit st])
     \<and> (\<forall>k. rd_next_emit st \<le> k \<longrightarrow> k < n \<longrightarrow> rd_slots st ! k = (if k \<in> filled then Some (P k) else None))"

lemma drain_ready_inv:
  assumes "rd_inv P n out filled \<lparr>rd_slots = slots, rd_next_emit = e, rd_out = o1\<rparr>"
    and "drain_ready slots e o1 = (slots', e', o2)"
  shows "rd_inv P n out filled \<lparr>rd_slots = slots', rd_next_emit = e', rd_out = o2\<rparr> \<and> (e' < n \<longrightarrow> e' \<notin> filled)"
  using assms
proof (induction slots e o1 rule: drain_ready.induct)
  case (1 slots e o1)
  show ?case
  proof (cases "e < length slots")
    case True
    then have at: "slots ! e = (if e \<in> filled then Some (P e) else None)" and e: "e < n"
      using 1(2) by (auto simp: rd_inv_def)
    show ?thesis
    proof (cases "e \<in> filled")
      case filled: True
      have "rd_inv P n out filled \<lparr>rd_slots = slots[e := None], rd_next_emit = e + 1, rd_out = o1 @ P e\<rparr>"
        using 1(2) e by (auto simp: rd_inv_def)
      moreover have "drain_ready (slots[e := None]) (e + 1) (o1 @ P e) = (slots', e', o2)"
        using 1(3) True filled at by (simp add: drain_ready.simps [of slots])
      ultimately show ?thesis using 1(1) [OF True, of "P e"] at filled by simp
    next
      case False
      then show ?thesis using 1(2,3) True at by (simp add: drain_ready.simps [of slots])
    qed
  next
    case False
    then show ?thesis using 1(2,3) by (auto simp: drain_ready.simps [of slots] rd_inv_def)
  qed
qed

lemma rd_drain_inv:
  assumes "rd_inv P n out filled st"
  shows "rd_inv P n out filled (rd_drain st)" and "rd_next_emit (rd_drain st) < n \<longrightarrow> rd_next_emit (rd_drain st) \<notin> filled"
proof -
  obtain sl e o2 where d: "drain_ready (rd_slots st) (rd_next_emit st) (rd_out st) = (sl, e, o2)"
    by (metis prod_cases3)
  have "rd_inv P n out filled \<lparr>rd_slots = rd_slots st, rd_next_emit = rd_next_emit st, rd_out = rd_out st\<rparr>"
    using assms by (simp add: rd_inv_def)
  from drain_ready_inv [OF this d]
  show "rd_inv P n out filled (rd_drain st)" and "rd_next_emit (rd_drain st) < n \<longrightarrow> rd_next_emit (rd_drain st) \<notin> filled"
    by (simp_all add: rd_drain_def d)
qed

lemma rd_fill_inv:
  assumes "rd_inv P n out filled st"
  shows "rd_inv P n out (insert k filled) (st\<lparr>rd_slots := (rd_slots st)[k := Some (P k)]\<rparr>)"
proof -
  have "(rd_slots st)[k := Some (P k)] ! j = (if j \<in> insert k filled then Some (P j) else None)"
    if "rd_next_emit st \<le> j" and "j < n" for j
    using assms that by (cases "j = k") (auto simp: rd_inv_def)
  then show ?thesis using assms by (simp add: rd_inv_def)
qed

lemma drained_all:
  assumes "rd_inv P n out filled st" and "\<forall>k < n. k \<in> filled"
  shows "rd_out (rd_drain st) = out @ concat (map P [0..<n])"
proof -
  have "rd_next_emit (rd_drain st) = n"
    using rd_drain_inv [OF assms(1)] assms(2) by (auto simp: rd_inv_def)
  then show ?thesis using rd_drain_inv(1) [OF assms(1)] by (simp add: rd_inv_def)
qed

text \<open>The blob of a request describes it.\<close>

definition request_of :: "pack_id \<times> coalesced_blob \<Rightarrow> chunk_request" where
  "request_of = (\<lambda>(pid, c). (cb_chunk_id c, pid, cb_pack_offset c, cb_stored_size c))"

lemma request_of_blob_of [simp]: "request_of (blob_of k c) = c" "cb_result_idx (snd (blob_of k c)) = k"
  by (auto simp: request_of_def blob_of_def split: prod.splits)

section \<open>Reading the groups\<close>

text \<open>A blob of a range read that starts at or before it is the slice of the pack the request names.\<close>

lemma blob_slice:
  assumes "raw = take len (drop (unat st) d)" and "unat st + len \<le> length d" and "st \<le> (off :: u64)"
    and "unat (off - st) + n \<le> length raw"
  shows "byte_slice raw (unat (off - st)) (unat (off - st) + n) = take n (drop (unat off) d)"
    and "unat off + n \<le> length d"
proof -
  have off: "unat st + unat (off - st) = unat off"
    using assms(3) by (simp add: unat_sub_if' word_le_nat_alt)
  have len: "unat (off - st) + n \<le> len" using assms(1,2,4) by simp
  show "unat off + n \<le> length d" using off len assms(2) by linarith
  have "n \<le> len - unat (off - st)" using len by simp
  then show "byte_slice raw (unat (off - st)) (unat (off - st) + n) = take n (drop (unat off) d)"
    by (simp add: byte_slice_def assms(1) drop_take off [symmetric] add.commute min_def)
qed

lemma read_group_blobs_inv:
  assumes "read_group_blobs lib pid start raw bs st (s, r) = (Inr st', (s', r'))"
    and "rd_inv P n out filled st"
    and "m (pack_storage_key (rl_hex lib) pid) = Some d" and "raw = take len (drop (unat start) d)"
    and "unat start + len \<le> length d" and "\<forall>b \<in> set bs. start \<le> cb_pack_offset b"
    and "\<forall>b \<in> set bs. \<forall>p. chunk_plain lib m (cb_chunk_id b, pid, cb_pack_offset b, cb_stored_size b) = Some p \<longrightarrow>
      P (cb_result_idx b) = p"
  shows "s' = s \<and> rd_inv P n out (filled \<union> cb_result_idx ` set bs) st' \<and>
    (\<forall>b \<in> set bs. chunk_plain lib m (cb_chunk_id b, pid, cb_pack_offset b, cb_stored_size b) \<noteq> None)"
  using assms
proof (induction bs arbitrary: st r filled)
  case (Cons b bs)
  let ?lo = "unat (cb_pack_offset b - start)"
  let ?sl = "byte_slice raw ?lo (?lo + unat (cb_stored_size b))"
  have fits: "?lo + unat (cb_stored_size b) \<le> length raw"
    using Cons.prems(1) by (auto simp: Let_def io_fail_def split: if_splits)
  obtain p where p: "decode_chunk lib (cb_chunk_id b) ?sl = Inr p"
    using Cons.prems(1) fits by (cases "decode_chunk lib (cb_chunk_id b) ?sl") (auto simp: Let_def io_fail_def)
  have rest: "read_group_blobs lib pid start raw bs
      (rd_drain (st\<lparr>rd_slots := (rd_slots st)[cb_result_idx b := Some p]\<rparr>))
      (s, r\<lparr>rp_blob_cache := bc_insert (rp_blob_cache r) (cb_chunk_id b) p\<rparr>) = (Inr st', (s', r'))"
    using Cons.prems(1) fits p by (simp add: Let_def cache_blob_def)
  have "start \<le> cb_pack_offset b" using Cons.prems(6) by simp
  note sl = blob_slice [OF Cons.prems(4,5) this fits]
  have plain: "chunk_plain lib m (cb_chunk_id b, pid, cb_pack_offset b, cb_stored_size b) = Some p"
    using Cons.prems(3) sl p by simp
  then have "P (cb_result_idx b) = p" using Cons.prems(7) by simp
  then have "rd_inv P n out (insert (cb_result_idx b) filled)
      (rd_drain (st\<lparr>rd_slots := (rd_slots st)[cb_result_idx b := Some p]\<rparr>))"
    using rd_drain_inv(1) [OF rd_fill_inv [OF Cons.prems(2), of "cb_result_idx b"]] by simp
  from Cons.IH [OF rest this Cons.prems(3-5)] Cons.prems(6,7) plain show ?case by simp
qed (simp add: io_return_def)

lemma on_store_bind_Inr:
  "io_bind (on_store m) f (s, r) = (Inr c, st) \<longleftrightarrow> (\<exists>a s1. m s = (Inr a, s1) \<and> f a (s1, r) = (Inr c, st))"
  by (auto simp: io_bind_Inr_iff on_store_def split: prod.splits)

context storage_contract
begin

lemma read_groups_inv:
  assumes "read_groups lib y gs st (s, r) = (Inr st', (s', r'))" and "sy_storage y = b"
    and "rd_inv P n out filled st"
    and "\<forall>g \<in> set gs. valid_key (pack_storage_key (rl_hex lib) (cg_pack_id g))"
    and "\<forall>g \<in> set gs. \<forall>c \<in> set (cg_blobs g). cg_read_start g \<le> cb_pack_offset c"
    and "\<forall>(pid, c) \<in> group_pairs gs. \<forall>p.
      chunk_plain lib (contents s) (cb_chunk_id c, pid, cb_pack_offset c, cb_stored_size c) = Some p \<longrightarrow>
      P (cb_result_idx c) = p"
  shows "contents s' = contents s \<and> rd_inv P n out (filled \<union> cb_result_idx ` snd ` group_pairs gs) st' \<and>
    (\<forall>(pid, c) \<in> group_pairs gs.
       chunk_plain lib (contents s) (cb_chunk_id c, pid, cb_pack_offset c, cb_stored_size c) \<noteq> None)"
  using assms
proof (induction gs arbitrary: st s r filled)
  case (Cons g gs)
  let ?key = "pack_storage_key (rl_hex lib) (cg_pack_id g)"
  let ?len = "cg_read_end g - cg_read_start g"
  obtain raw s1 where get: "be_get_range b ?key (cg_read_start g) ?len s = (Inr (Some raw), s1)"
    and run: "io_bind (read_group_blobs lib (cg_pack_id g) (cg_read_start g) raw (cg_blobs g) st)
           (read_groups lib y gs) (s1, r) = (Inr st', (s', r'))"
    using Cons.prems(1,2)
    by (auto simp: on_store_bind_Inr io_fail_def split: option.split_asm)
  have valid: "valid_key ?key" using Cons.prems(4) by simp
  obtain d where d: "contents s ?key = Some d" "unat (cg_read_start g) + unat ?len \<le> length d"
    "raw = take (unat ?len) (drop (unat (cg_read_start g)) d)"
    using get_range_ok [OF valid get] by (auto split: option.splits)
  obtain st1 s2 r1 where blobs: "read_group_blobs lib (cg_pack_id g) (cg_read_start g) raw (cg_blobs g) st (s1, r) = (Inr st1, (s2, r1))"
    and rest: "read_groups lib y gs st1 (s2, r1) = (Inr st', (s', r'))"
    using run by (auto simp: io_bind_Inr_iff)
  have step: "s2 = s1 \<and> rd_inv P n out (filled \<union> cb_result_idx ` set (cg_blobs g)) st1 \<and>
    (\<forall>c \<in> set (cg_blobs g).
       chunk_plain lib (contents s) (cb_chunk_id c, cg_pack_id g, cb_pack_offset c, cb_stored_size c) \<noteq> None)"
    by (rule read_group_blobs_inv [where m = "contents s", OF blobs Cons.prems(3) d(1,3,2)])
      (use Cons.prems(5,6) in auto)
  have c2: "contents s2 = contents s" using get_range_frame [OF get] step by simp
  have "contents s' = contents s2 \<and>
    rd_inv P n out (filled \<union> cb_result_idx ` set (cg_blobs g) \<union> cb_result_idx ` snd ` group_pairs gs) st' \<and>
    (\<forall>(pid, c) \<in> group_pairs gs.
       chunk_plain lib (contents s2) (cb_chunk_id c, pid, cb_pack_offset c, cb_stored_size c) \<noteq> None)"
    by (rule Cons.IH [OF rest Cons.prems(2)]) (use step Cons.prems(4-6) c2 in auto)
  moreover have "cb_result_idx ` snd ` group_pairs (g # gs) =
      cb_result_idx ` set (cg_blobs g) \<union> cb_result_idx ` snd ` group_pairs gs"
    by (auto simp: image_Un)
  ultimately show ?case using step c2 by (auto simp: Un_assoc)
qed (simp add: io_return_def)

lemma groups_fill:
  assumes rg: "read_groups lib y (coalesce_groups packs) st (s, r) = (Inr st', (s', r'))" and y: "sy_storage y = b"
    and wf: "hm_wf packs" and pairs: "pack_pairs packs = {blob_of k (chunks ! k) | k. k < n \<and> k \<notin> hits}"
    and inv: "rd_inv P n out hits st" and P: "\<And>k. P k = the (chunk_plain lib (contents s) (chunks ! k))"
    and valid: "\<forall>(i, pid, off, sz) \<in> set chunks. valid_key (pack_storage_key (rl_hex lib) pid)"
    and n: "n = length chunks"
  shows "contents s' = contents s" and "rd_inv P n out (hits \<union> {k. k < n \<and> k \<notin> hits}) st'"
    and "\<forall>k < n. k \<notin> hits \<longrightarrow> chunk_plain lib (contents s) (chunks ! k) = Some (P k)"
proof -
  note gs = coalesce_groups_spec [OF wf]
  let ?G = "group_pairs (coalesce_groups packs)"
  have G: "?G = (\<lambda>k. blob_of k (chunks ! k)) ` {k. k < n \<and> k \<notin> hits}" using gs(1) pairs by auto
  have v: "\<forall>g \<in> set (coalesce_groups packs). valid_key (pack_storage_key (rl_hex lib) (cg_pack_id g))"
  proof
    fix g assume "g \<in> set (coalesce_groups packs)"
    then obtain c where "(cg_pack_id g, c) \<in> ?G" using coalesce_groups_nonempty by blast
    then obtain k where "(cg_pack_id g, c) = blob_of k (chunks ! k)" and "k < n" unfolding G by auto
    then show "valid_key (pack_storage_key (rl_hex lib) (cg_pack_id g))"
      using valid n nth_mem [of k chunks] by (fastforce simp: blob_of_def split: prod.splits)
  qed
  have p: "\<forall>(pid, c) \<in> ?G. \<forall>p. chunk_plain lib (contents s) (cb_chunk_id c, pid, cb_pack_offset c, cb_stored_size c) = Some p
      \<longrightarrow> P (cb_result_idx c) = p"
  proof -
    have "\<forall>q \<in> ?G. \<forall>p. chunk_plain lib (contents s) (request_of q) = Some p \<longrightarrow> P (cb_result_idx (snd q)) = p"
      unfolding G by (auto simp: P simp del: chunk_plain.simps)
    then show ?thesis by (auto simp: request_of_def simp del: chunk_plain.simps)
  qed
  note res = read_groups_inv [OF rg y inv v gs(2) p]
  show "contents s' = contents s" using res by blast
  have "cb_result_idx ` snd ` ?G = {k. k < n \<and> k \<notin> hits}" unfolding G by (simp add: image_image)
  then show "rd_inv P n out (hits \<union> {k. k < n \<and> k \<notin> hits}) st'" using res by simp
  show "\<forall>k < n. k \<notin> hits \<longrightarrow> chunk_plain lib (contents s) (chunks ! k) = Some (P k)"
  proof -
    have "\<forall>q \<in> ?G. chunk_plain lib (contents s) (request_of q) \<noteq> None"
      using res by (auto simp: request_of_def simp del: chunk_plain.simps)
    then show ?thesis unfolding G by (auto simp: P simp del: chunk_plain.simps)
  qed
qed

lemma coalesced_emits_all:
  assumes run: "read_chunks_coalesced_into lib y chunks out (s, r) = (Inr out', (s', r'))"
    and y: "sy_storage y = b"
    and valid: "\<forall>(i, pid, off, sz) \<in> set chunks. valid_key (pack_storage_key (rl_hex lib) pid)"
    and cached: "\<forall>c \<in> set chunks. \<forall>d. bc_get (rp_blob_cache r) (fst c) = Some d \<longrightarrow>
      chunk_plain lib (contents s) c = Some d"
  shows "contents s' = contents s \<and>
    (\<exists>ds. map (chunk_plain lib (contents s)) chunks = map Some ds \<and> out' = out @ concat ds)"
proof (cases "chunks = []")
  case True
  then show ?thesis using run by (simp add: read_chunks_coalesced_into_def io_return_def)
next
  case nonempty: False
  define n where "n = length chunks"
  define P where "P k = the (chunk_plain lib (contents s) (chunks ! k))" for k
  define hits where "hits = {k. k < n \<and> bc_get (rp_blob_cache r) (fst (chunks ! k)) \<noteq> None}"
  obtain slots packs where scan: "cache_scan (rp_blob_cache r) 0 chunks [] = (slots, packs)" by fastforce
  let ?st = "\<lparr>rd_slots = slots, rd_next_emit = 0, rd_out = out\<rparr>"
  have wf: "hm_wf packs" and slots: "slots = map (\<lambda>c. bc_get (rp_blob_cache r) (fst c)) chunks"
    and pairs: "pack_pairs packs = {blob_of k (chunks ! k) | k. k < n \<and> k \<notin> hits}"
    using cache_scan_spec [OF scan] by (auto simp: pack_pairs_def hits_def n_def)
  have hit: "chunk_plain lib (contents s) (chunks ! k) = Some (P k)" if "k \<in> hits" for k
    using that cached by (force simp: hits_def n_def P_def)
  have "slots ! k = (if k \<in> hits then Some (P k) else None)" if "k < n" for k
    using that cached by (force simp: slots hits_def n_def P_def)
  then have inv: "rd_inv P n out hits ?st" by (simp add: rd_inv_def slots n_def)
  have "contents s' = contents s \<and> out' = out @ concat (map P [0..<n]) \<and>
    (\<forall>k < n. chunk_plain lib (contents s) (chunks ! k) = Some (P k))"
  proof (cases "packs = []")
    case True
    then have all: "\<forall>k < n. k \<in> hits" using pairs by (auto simp: pack_pairs_def) (metis surj_pair)
    then show ?thesis
      using run True nonempty scan drained_all [OF inv all] hit
      by (simp add: read_chunks_coalesced_into_def io_return_def Let_def)
  next
    case False
    then obtain st' where rg: "read_groups lib y (coalesce_groups packs) (rd_drain ?st) (s, r) = (Inr st', (s', r'))"
      and out: "out' = rd_out (rd_drain st')"
      using run nonempty scan by (auto simp: read_chunks_coalesced_into_def io_return_def Let_def io_bind_Inr_iff)
    note res = groups_fill [OF rg y wf pairs rd_drain_inv(1) [OF inv] P_def valid n_def]
    have "out' = out @ concat (map P [0..<n])" unfolding out by (rule drained_all [OF res(2)]) auto
    then show ?thesis using res(1,3) hit by blast
  qed
  then show ?thesis
    by (intro conjI exI [of _ "map P [0..<n]"]) (auto simp: n_def intro: nth_equalityI)
qed

end

section \<open>Properties\<close>

text \<open>C8: A coalesced read is the concatenation of the single reads.  When the range reads of
  \<open>read_chunks_coalesced_into\<close> succeed, every requested chunk lies in its pack and decodes, and
  what was appended is the plaintexts in the order of the request, whatever the order in which
  the packs and the merged ranges were read and whichever chunks the blob cache held.\<close>

theorem coalesced_read_equiv:
  assumes "storage_contract (sy_storage y) contents valid_key"
    and "\<forall>(i, pid, off, sz) \<in> set chunks. valid_key (pack_storage_key (rl_hex lib) pid)"
    and "\<forall>c \<in> set chunks. \<forall>d. bc_get (rp_blob_cache r) (fst c) = Some d \<longrightarrow>
      chunk_plain lib (contents s) c = Some d"
    and "read_chunks_coalesced_into lib y chunks out (s, r) = (Inr out', (s', r'))"
  shows "contents s' = contents s \<and>
    (\<exists>ds. map (chunk_plain lib (contents s)) chunks = map Some ds \<and> out' = out @ concat ds)"
  using storage_contract.coalesced_emits_all [OF assms(1,4) refl assms(2,3)] .

definition wit_pack_store :: memory_state where
  "wit_pack_store = [(pack_storage_key lower_hex (wit_pid 1),
     [object_tag ChunkData, TAG_NONE, 5, 6, 0, object_tag ChunkData, TAG_NONE, 7])]"

definition wit_requests :: "chunk_request list" where
  "wit_requests = [(wit_cid 2, wit_pid 1, 5, 3), (wit_cid 1, wit_pid 1, 0, 4)]"

lemma wit_requests_run:
  "fst (read_chunks_coalesced_into wit_lib wit_system wit_requests [9] (wit_pack_store, wit_repository)) = Inr [9, 7, 5, 6]"
  by code_simp

lemma coalesced_read_equiv_witness:
  "\<exists>st'. read_chunks_coalesced_into wit_lib wit_system wit_requests [9] (wit_pack_store, wit_repository) = (Inr [9, 7, 5, 6], st')
   \<and> (\<exists>ds. map (chunk_plain wit_lib (map_of wit_pack_store)) wit_requests = map Some ds \<and> [9, 7, 5, 6] = [9] @ concat ds)"
proof -
  obtain s' r' where run: "read_chunks_coalesced_into wit_lib wit_system wit_requests [9] (wit_pack_store, wit_repository)
      = (Inr [9, 7, 5, 6], (s', r'))"
    using wit_requests_run by (metis prod.collapse)
  have c: "storage_contract (sy_storage wit_system) map_of plain_key"
    using mem.storage_contract_axioms by (simp add: wit_system_def)
  have v: "\<forall>(i, pid, off, sz) \<in> set wit_requests. plain_key (pack_storage_key (rl_hex wit_lib) pid)"
    using wit_packed_key by (simp add: wit_requests_def wit_lib_def)
  have h: "\<forall>c \<in> set wit_requests. \<forall>d. bc_get (rp_blob_cache wit_repository) (fst c) = Some d \<longrightarrow>
      chunk_plain wit_lib (map_of wit_pack_store) c = Some d"
    by (simp add: wit_repository_def bc_get_def bc_new_def)
  from coalesced_read_equiv [OF c v h run] show ?thesis using run by blast
qed

end
