(* ===== verification/Recovery.thy ===== *)
theory Recovery
  imports Repository
begin

text \<open>
  Recovery of interrupted sessions (\<open>recover_pending_index\<close> of
  \<open>vykar-core/src/repo/write_session.rs\<close>): what a session takes over from the journals of
  sessions that ended without committing.
\<close>

section \<open>What recovery takes over\<close>

text \<open>Every recovered chunk is missing from the index and its pack is in the storage.\<close>

definition recovered_ok :: "repo_lib \<Rightarrow> chunk_index \<Rightarrow> (string \<rightharpoonup> bytes) \<Rightarrow> write_session \<Rightarrow> bool" where
  "recovered_ok lib idx m w \<longleftrightarrow> (\<forall>i e. map_of (ws_recovered_chunks w) i = Some e \<longrightarrow>
     \<not> ci_contains idx i \<and> m (pack_storage_key (rl_hex lib) (rc_pack_id e)) \<noteq> None)"

lemma recover_chunks_ok:
  assumes "recover_chunks idx pid cs rec n = (rec', n')" and "map_of rec' i = Some e"
  shows "map_of rec i = Some e \<or> \<not> ci_contains idx i \<and> rc_pack_id e = pid"
  using assms by (induction idx pid cs rec n rule: recover_chunks.induct) (auto split: if_splits)

lemma recover_packs_ok:
  assumes "recover_packs lib idx known es w n = (w', n')" and "recovered_ok lib idx m w"
    and "\<forall>k \<in> set known. m k \<noteq> None"
  shows "recovered_ok lib idx m w'"
  using assms
proof (induction lib idx known es w n rule: recover_packs.induct)
  case (2 lib idx known e es w n)
  show ?case
  proof (cases "pack_storage_key (rl_hex lib) (pp_pack_id e) \<in> set known")
    case True
    obtain rec n1 where rc: "recover_chunks idx (pp_pack_id e) (pp_chunks e) (ws_recovered_chunks w) n = (rec, n1)"
      by fastforce
    have "recovered_ok lib idx m (w\<lparr>ws_recovered_chunks := rec,
        ws_pending_journal := pj_record_pack (ws_pending_journal w) (pp_pack_id e) (pp_chunks e)\<rparr>)"
      using 2(4,5) True recover_chunks_ok [OF rc] by (fastforce simp: recovered_ok_def)
    then show ?thesis using 2(2) 2(3,5) True rc by simp
  qed (use 2(1,3-5) in simp)
qed simp

lemma recovered_ok_delete:
  "recovered_ok lib idx m w \<Longrightarrow> recovered_ok lib idx (m(session_index_key sid := None)) w"
  by (auto simp: recovered_ok_def pack_storage_key_def session_index_key_def SESSIONS_PREFIX_def)

lemma recovered_ok_keys [simp]:
  "recovered_ok lib idx m (w\<lparr>ws_recovered_index_keys := ks\<rparr>) = recovered_ok lib idx m w"
  by (simp add: recovered_ok_def)

section \<open>What recovery does not miss\<close>

definition journal_entry :: "pack_id \<Rightarrow> pending_chunk_entry \<Rightarrow> recovered_chunk_entry" where
  "journal_entry pid c = \<lparr>rc_stored_size = pc_stored_size c, rc_pack_id = pid, rc_pack_offset = pc_pack_offset c\<rparr>"

lemma recover_chunks_keeps:
  "recover_chunks idx pid cs rec n = (rec', n') \<Longrightarrow> map_of rec i \<noteq> None \<Longrightarrow> map_of rec' i \<noteq> None"
proof (induction cs arbitrary: rec n)
  case (Cons c cs)
  then show ?case by (cases "ci_contains idx (pc_chunk_id c)") fastforce+
qed simp

lemma recover_chunks_adds:
  assumes "recover_chunks idx pid cs rec n = (rec', n')" and "c \<in> set cs" and "\<not> ci_contains idx (pc_chunk_id c)"
  shows "map_of rec' (pc_chunk_id c) \<noteq> None"
  using assms(1,2)
proof (induction cs arbitrary: rec n)
  case (Cons x cs)
  show ?case
  proof (cases "x = c")
    case True
    then show ?thesis using Cons.prems(1) assms(3) recover_chunks_keeps [of idx pid cs _ _ rec' n' "pc_chunk_id c"] by auto
  next
    case False
    then show ?thesis using Cons by (cases "ci_contains idx (pc_chunk_id x)") auto
  qed
qed simp

lemma recover_chunks_names:
  "recover_chunks idx pid cs rec n = (rec', n') \<Longrightarrow> map_of rec' i = Some r \<Longrightarrow>
   map_of rec i = Some r \<or> (\<exists>c \<in> set cs. pc_chunk_id c = i \<and> r = journal_entry pid c)"
proof (induction cs arbitrary: rec n)
  case (Cons c cs)
  then show ?case by (cases "ci_contains idx (pc_chunk_id c)") (fastforce simp: journal_entry_def split: if_splits)+
qed simp

lemma recover_packs_cases:
  assumes "recover_packs lib idx known (e # es) w n = (w', n')"
  obtains (skip) "pack_storage_key (rl_hex lib) (pp_pack_id e) \<notin> set known" "recover_packs lib idx known es w n = (w', n')"
  | (take_over) rec n1 where "pack_storage_key (rl_hex lib) (pp_pack_id e) \<in> set known"
      "recover_chunks idx (pp_pack_id e) (pp_chunks e) (ws_recovered_chunks w) n = (rec, n1)"
      "recover_packs lib idx known es (w\<lparr>ws_recovered_chunks := rec,
         ws_pending_journal := pj_record_pack (ws_pending_journal w) (pp_pack_id e) (pp_chunks e)\<rparr>) n1 = (w', n')"
  using assms by (auto split: if_splits prod.splits)

lemma recover_packs_keeps:
  assumes "recover_packs lib idx known es w n = (w', n')"
  shows "map_of (ws_recovered_chunks w) i \<noteq> None \<Longrightarrow> map_of (ws_recovered_chunks w') i \<noteq> None"
    and "map_of (ws_pending_journal w) pid \<noteq> None \<Longrightarrow> map_of (ws_pending_journal w') pid \<noteq> None"
    and "ws_recovered_index_keys w' = ws_recovered_index_keys w \<and> ws_session_id w' = ws_session_id w"
  using assms
proof (atomize (full), induction es arbitrary: w n)
  case (Cons e es)
  from Cons.prems show ?case
  proof (cases rule: recover_packs_cases)
    case skip
    then show ?thesis using Cons.IH by simp
  next
    case (take_over rec n1)
    then show ?thesis
      using Cons.IH [OF take_over(3)] recover_chunks_keeps [OF take_over(2), of i] by (simp add: pj_record_pack_def)
  qed
qed simp

lemma recover_packs_adds:
  assumes "recover_packs lib idx known es w n = (w', n')"
    and "e \<in> set es" and "pack_storage_key (rl_hex lib) (pp_pack_id e) \<in> set known"
  shows "c \<in> set (pp_chunks e) \<Longrightarrow> \<not> ci_contains idx (pc_chunk_id c) \<Longrightarrow>
      map_of (ws_recovered_chunks w') (pc_chunk_id c) \<noteq> None"
    and "map_of (ws_pending_journal w') (pp_pack_id e) \<noteq> None"
  using assms(1,2)
proof (atomize (full), induction es arbitrary: w n)
  case (Cons x es)
  from Cons.prems(1) show ?case
  proof (cases rule: recover_packs_cases)
    case skip
    then show ?thesis using Cons.IH [OF skip(2)] Cons.prems(2) assms(3) by auto
  next
    case (take_over rec n1)
    show ?thesis
    proof (cases "e = x")
      case True
      then show ?thesis
        using recover_chunks_adds [OF take_over(2), of c] recover_packs_keeps(1) [OF take_over(3), of "pc_chunk_id c"]
          recover_packs_keeps(2) [OF take_over(3), of "pp_pack_id x"] by (simp add: pj_record_pack_def)
    qed (use Cons.IH [OF take_over(3)] Cons.prems(2) in simp)
  qed
qed simp

text \<open>A journal in the storage gives the place of a chunk.\<close>

definition journal_names ::
  "repo_lib \<Rightarrow> (string \<rightharpoonup> bytes) \<Rightarrow> chunk_id \<Rightarrow> recovered_chunk_entry \<Rightarrow> bool" where
  "journal_names lib m i r \<longleftrightarrow> (\<exists>k d wire e c. m k = Some d \<and> decode_journal lib d = Inr wire \<and> e \<in> set wire
     \<and> c \<in> set (pp_chunks e) \<and> pc_chunk_id c = i \<and> r = journal_entry (pp_pack_id e) c)"

lemma recover_packs_names:
  "recover_packs lib idx known es w n = (w', n') \<Longrightarrow> map_of (ws_recovered_chunks w') i = Some r \<Longrightarrow>
   map_of (ws_recovered_chunks w) i = Some r
   \<or> (\<exists>e \<in> set es. \<exists>c \<in> set (pp_chunks e). pc_chunk_id c = i \<and> r = journal_entry (pp_pack_id e) c)"
proof (induction es arbitrary: w n)
  case (Cons x es)
  from Cons.prems(1) show ?case
  proof (cases rule: recover_packs_cases)
    case skip
    then show ?thesis using Cons.IH [OF skip(2) Cons.prems(2)] by auto
  next
    case (take_over rec n1)
    then show ?thesis
      using Cons.IH [OF take_over(3) Cons.prems(2)] recover_chunks_names [OF take_over(2), of i r] by auto
  qed
qed simp

text \<open>Only journals that cannot be read are removed, and what was taken over is not given up again.\<close>

definition journals_shrink :: "repo_lib \<Rightarrow> (string \<rightharpoonup> bytes) \<Rightarrow> (string \<rightharpoonup> bytes) \<Rightarrow> bool" where
  "journals_shrink lib m m' \<longleftrightarrow> (\<forall>k. m' k = m k \<or> m' k = None
     \<and> (\<exists>sid d e. k = session_index_key sid \<and> m k = Some d \<and> decode_journal lib d = Inl e))"

definition recovery_grows :: "repo_lib \<Rightarrow> (string \<rightharpoonup> bytes) \<Rightarrow> write_session \<Rightarrow> write_session \<Rightarrow> bool" where
  "recovery_grows lib m w w' \<longleftrightarrow>
     dom (map_of (ws_recovered_chunks w)) \<subseteq> dom (map_of (ws_recovered_chunks w'))
     \<and> dom (map_of (ws_pending_journal w)) \<subseteq> dom (map_of (ws_pending_journal w'))
     \<and> set (ws_recovered_index_keys w) \<subseteq> set (ws_recovered_index_keys w')
     \<and> (\<forall>i e. map_of (ws_recovered_chunks w') i = Some e \<longrightarrow>
          map_of (ws_recovered_chunks w) i = Some e \<or> journal_names lib m i e)"

definition took_over ::
  "repo_lib \<Rightarrow> chunk_index \<Rightarrow> (string \<rightharpoonup> bytes) \<Rightarrow> pending_pack_entry list \<Rightarrow> write_session \<Rightarrow> bool" where
  "took_over lib idx m wire w \<longleftrightarrow> (\<forall>e \<in> set wire. m (pack_storage_key (rl_hex lib) (pp_pack_id e)) \<noteq> None \<longrightarrow>
     pp_pack_id e \<in> dom (map_of (ws_pending_journal w))
     \<and> (\<forall>c \<in> set (pp_chunks e). ci_contains idx (pc_chunk_id c) \<or> pc_chunk_id c \<in> dom (map_of (ws_recovered_chunks w))))"

lemma journals_shrink_refl [simp]: "journals_shrink lib m m"
  by (simp add: journals_shrink_def)

lemma journals_shrink_trans: "journals_shrink lib m m1 \<Longrightarrow> journals_shrink lib m1 m2 \<Longrightarrow> journals_shrink lib m m2"
  unfolding journals_shrink_def by (metis option.distinct(1))

lemma journals_shrink_packs:
  "journals_shrink lib m m' \<Longrightarrow> m' (pack_storage_key hx pid) = m (pack_storage_key hx pid)"
  by (auto simp: journals_shrink_def pack_storage_key_def session_index_key_def SESSIONS_PREFIX_def)

lemma journals_shrink_keeps:
  "journals_shrink lib m m' \<Longrightarrow> m k = Some d \<Longrightarrow> decode_journal lib d = Inr wire \<Longrightarrow> m' k = Some d"
  unfolding journals_shrink_def by (metis option.inject sum.distinct(1))

lemma journals_shrink_names: "journals_shrink lib m m' \<Longrightarrow> journal_names lib m' i e \<Longrightarrow> journal_names lib m i e"
  unfolding journals_shrink_def journal_names_def by (metis option.distinct(1))

lemma recovery_grows_refl [simp]: "recovery_grows lib m w w"
  by (simp add: recovery_grows_def)

lemma recovery_grows_trans:
  assumes "recovery_grows lib m w w1" and "journals_shrink lib m m1" and "recovery_grows lib m1 w1 w2"
  shows "recovery_grows lib m w w2"
  using assms(1,3) journals_shrink_names [OF assms(2)] unfolding recovery_grows_def by (meson subset_trans)

lemma took_over_mono:
  "took_over lib idx m wire w \<Longrightarrow> recovery_grows lib m' w w' \<Longrightarrow> took_over lib idx m wire w'"
  unfolding took_over_def recovery_grows_def by blast

text \<open>The encoding of journals is one that its decoder inverts.\<close>

definition journal_serde_ok :: "repo_lib \<Rightarrow> bool" where
  "journal_serde_ok lib \<longleftrightarrow> (\<forall>es v. rl_journal_to_vec lib es = Inr v \<longrightarrow> rl_journal_from_slice lib v = Inr es)"

text \<open>A storage whose reads do not fail.\<close>

definition reads_answer :: "'s storage_backend \<Rightarrow> bool" where
  "reads_answer b \<longleftrightarrow> (\<forall>k t e t'. be_get b k t \<noteq> (Inl e, t') \<and> be_exists b k t \<noteq> (Inl e, t'))"

text \<open>Journals of the library name packs whose storage keys the backend accepts.\<close>

definition journals_valid :: "repo_lib \<Rightarrow> (string \<Rightarrow> bool) \<Rightarrow> bool" where
  "journals_valid lib valid_key \<longleftrightarrow> (\<forall>d wire. rl_journal_from_slice lib d = Inr wire \<longrightarrow>
     (\<forall>e \<in> set wire. valid_key (pack_storage_key (rl_hex lib) (pp_pack_id e))))"

lemma decode_journal_valid:
  "journals_valid lib valid_key \<Longrightarrow> decode_journal lib d = Inr wire \<Longrightarrow> e \<in> set wire \<Longrightarrow>
   valid_key (pack_storage_key (rl_hex lib) (pp_pack_id e))"
  by (auto simp: journals_valid_def decode_journal_def rbind_Inr_iff)

context client_storage
begin

lemma check_packs_ok:
  assumes "check_packs_one_by_one lib b shard es known s = (r, s')"
    and "\<forall>e \<in> set es. valid_key (pack_storage_key (rl_hex lib) (pp_pack_id e))"
    and "\<forall>k \<in> set known. contents s k \<noteq> None"
  shows "contents s' = contents s \<and> (\<exists>known'. r = Inr known' \<and> (\<forall>k \<in> set known'. contents s k \<noteq> None))"
  using assms
proof (induction es arbitrary: known s)
  case (Cons e es)
  let ?key = "pack_storage_key (rl_hex lib) (pp_pack_id e)"
  show ?case
  proof (cases "shard_dir lib (pp_pack_id e) = shard")
    case True
    obtain q s1 where ex: "be_exists b ?key s = (q, s1)" by fastforce
    have f: "contents s1 = contents s" by (rule exists_frame [OF ex])
    have k: "\<forall>k \<in> set (if q = Inr True then List.insert ?key known else known). contents s1 k \<noteq> None"
      using exists_ok [of ?key s True s1] ex Cons.prems(2,3) f by auto
    show ?thesis
      using Cons.IH [OF _ _ k] Cons.prems(1,2) True ex f by (auto simp: Let_def io_bind_def io_try_def)
  qed (use Cons in \<open>simp add: Let_def\<close>)
qed (force simp: io_return_def)

lemma list_known_ok:
  assumes "list_known_packs lib b wire shards known s = (r, s')"
    and "\<forall>e \<in> set wire. valid_key (pack_storage_key (rl_hex lib) (pp_pack_id e))"
    and "\<forall>k \<in> set known. contents s k \<noteq> None"
  shows "contents s' = contents s \<and> (\<exists>known'. r = Inr known' \<and> (\<forall>k \<in> set known'. contents s k \<noteq> None))"
  using assms
proof (induction shards arbitrary: known s)
  case (Cons d shards)
  obtain q s1 where l: "be_list b d s = (q, s1)" by fastforce
  have f: "contents s1 = contents s" by (rule list_frame [OF l])
  show ?case
  proof (cases q)
    case (Inr ks)
    have "\<forall>k \<in> set (List.union ks known). contents s1 k \<noteq> None"
      using list_sound [of d s ks s1] l Inr Cons.prems(3) f by auto
    then show ?thesis
      using Cons.IH [of "List.union ks known" s1] Cons.prems(1,2) l Inr f by (auto simp: io_bind_def io_try_def)
  next
    case (Inl e)
    obtain q1 s2 where ch: "check_packs_one_by_one lib b d wire known s1 = (q1, s2)" by fastforce
    from check_packs_ok [OF ch Cons.prems(2)] Cons.prems(3) f
    obtain known1 where k1: "q1 = Inr known1" "\<forall>k \<in> set known1. contents s2 k \<noteq> None" "contents s2 = contents s"
      by auto
    show ?thesis
      using Cons.IH [of known1 s2] Cons.prems(1,2) l Inl ch k1 by (auto simp: io_bind_def io_try_def)
  qed
qed (force simp: io_return_def)

lemma recover_single_ok:
  assumes run: "recover_single_index lib y idx key (s, w) = (r, (s', w'))" and y: "sy_storage y = b"
    and jv: "journals_valid lib valid_key" and ok: "recovered_ok lib idx (contents s) w"
  shows "contents s' = contents s \<and> recovered_ok lib idx (contents s) w'"
proof -
  obtain got s1 where get: "be_get b key s = (got, s1)" by fastforce
  have f: "contents s1 = contents s" by (rule get_frame [OF get])
  show ?thesis
  proof (cases "\<exists>d wire. got = Inr (Some d) \<and> decode_journal lib d = Inr wire")
    case False
    then have "s' = s1" and "w' = w"
      using run y get
      by (auto simp: recover_single_index_def io_bind_def on_store_def io_return_def
          split: sum.splits option.splits)
    then show ?thesis using f ok by simp
  next
    case True
    then obtain d wire where d: "got = Inr (Some d)" "decode_journal lib d = Inr wire" by blast
    obtain q s2 where ls: "list_known_packs lib b wire (remdups (map (\<lambda>e. shard_dir lib (pp_pack_id e)) wire)) [] s1 = (q, s2)"
      by fastforce
    from list_known_ok [OF ls] decode_journal_valid [OF jv d(2)]
    obtain known where known: "q = Inr known" "\<forall>k \<in> set known. contents s1 k \<noteq> None" "contents s2 = contents s1"
      by auto
    obtain w2 n where rp: "recover_packs lib idx known wire w 0 = (w2, n)" by fastforce
    have "s' = s2" and "w' = w2"
      using run y get d ls known(1) rp by (auto simp: recover_single_index_def io_bind_def on_store_def)
    then show ?thesis using recover_packs_ok [OF rp ok] known f by simp
  qed
qed

lemma recover_indices_ok:
  assumes "recover_indices lib y idx markers keys acc (s, w) = (r, (s', w'))" and "sy_storage y = b"
    and "journals_valid lib valid_key" and "recovered_ok lib idx (contents s) w"
    and "\<forall>(k, sid) \<in> set keys. k = session_index_key sid"
  shows "recovered_ok lib idx (contents s') w'"
  using assms
proof (induction keys arbitrary: acc s w)
  case (Cons key keys)
  obtain sid where key: "key = (session_index_key sid, sid)" using Cons.prems(5) by (cases key) auto
  have rest: "\<forall>(k, sid) \<in> set keys. k = session_index_key sid" using Cons.prems(5) by simp
  show ?case
  proof (cases "map_of markers sid = None \<or> map_of markers sid = Some MarkerOld")
    case True
    obtain q s1 w1 where single: "recover_single_index lib y idx (session_index_key sid) (s, w) = (q, (s1, w1))"
      by (metis prod_cases3)
    have ok1: "recovered_ok lib idx (contents s1) w1"
      using recover_single_ok [OF single Cons.prems(2,3,4)] by simp
    obtain dq s2 where del: "be_delete b (session_index_key sid) s1 = (dq, s2)" by fastforce
    have ok2: "recovered_ok lib idx (contents s2) w1"
      using delete_contents [OF session_key_valid [OF index_key_is_session_key] del] ok1 recovered_ok_delete [OF ok1]
      by auto
    note IH = Cons.IH [OF _ Cons.prems(2,3) _ rest]
    show ?thesis
    proof (cases q)
      case (Inl e)
      then show ?thesis using Cons.prems(1) key True single IH [OF _ ok1, of acc]
        by (simp add: io_bind_def io_try_def)
    next
      case (Inr res)
      then show ?thesis
        using Cons.prems(1,2) key True single del IH [of acc s1 w1, OF _ ok1] IH [of acc s2 w1, OF _ ok2]
          IH [of "\<lparr>pr_recovered_chunks = _, pr_recovered_sessions = _\<rparr>" s1
            "w1\<lparr>ws_recovered_index_keys := ws_recovered_index_keys w1 @ [session_index_key sid]\<rparr>"] ok1
        by (cases res) (simp_all add: io_bind_def io_try_def on_store_def modify_ws_def)
    qed
  next
    case False
    then show ?thesis using Cons.prems(1) key Cons.IH [OF _ Cons.prems(2-4) rest] by auto
  qed
qed (simp add: io_return_def)

lemma read_markers_frame:
  "read_marker_states lk b now keys m s = (r, s') \<Longrightarrow> contents s' = contents s"
proof (induction keys arbitrary: m s)
  case (Cons k keys)
  obtain q s1 where get: "be_get b k s = (q, s1)" by fastforce
  show ?case
    using Cons.prems Cons.IH get get_frame [OF get]
    by (auto simp: io_bind_def io_try_def split: option.splits)
qed (simp add: io_return_def)

lemma recover_pending_ok:
  assumes run: "recover_pending_index lib y idx (s, w) = (r, (s', w'))" and y: "sy_storage y = b"
    and clock: "\<And>s. contents (snd (sy_utc y s)) = contents s"
    and jv: "journals_valid lib valid_key" and ok: "recovered_ok lib idx (contents s) w"
  shows "recovered_ok lib idx (contents s') w'"
proof -
  obtain q s1 where l: "be_list b SESSIONS_PREFIX s = (q, s1)" by fastforce
  have f1: "contents s1 = contents s" by (rule list_frame [OF l])
  show ?thesis
  proof (cases q)
    case (Inl e)
    then show ?thesis using run y l f1 ok by (simp add: recover_pending_index_def io_bind_def on_store_def)
  next
    case (Inr keys)
    obtain now s2 where u: "sy_utc y s1 = (now, s2)" by fastforce
    have f2: "contents s2 = contents s1" using clock [of s1] u by simp
    obtain mq s3 where m: "read_marker_states (rl_locks lib) b now keys [] s2 = (mq, s3)" by fastforce
    have ok3: "recovered_ok lib idx (contents s3) w" using read_markers_frame [OF m] f1 f2 ok by simp
    show ?thesis
    proof (cases mq)
      case (Inl e)
      then show ?thesis using run y l Inr u m ok3
        by (simp add: recover_pending_index_def io_bind_def on_store_def draw_def)
    next
      case (Inr markers)
      let ?ks = "filter (\<lambda>(key, sid). key \<noteq> pending_index_key w)
        (List.map_filter (\<lambda>key. map_option (\<lambda>sid. (key, sid)) (parse_index_id key)) keys)"
      have "recover_indices lib y idx markers ?ks \<lparr>pr_recovered_chunks = 0, pr_recovered_sessions = []\<rparr> (s3, w)
          = (r, (s', w'))"
        using run y l \<open>q = Inr keys\<close> u m Inr
        by (simp add: recover_pending_index_def io_bind_def on_store_def draw_def get_ws_def Let_def)
      moreover have "\<forall>(k, sid) \<in> set ?ks. k = session_index_key sid"
      proof -
        have [simp]: "parse_index_id (session_index_key sid) = Some sid" for sid by (simp add: parse_index_id_iff)
        show ?thesis by (auto simp: List.map_filter_def parse_index_id_iff)
      qed
      ultimately show ?thesis by (rule recover_indices_ok [OF _ y jv ok3])
    qed
  qed
qed

lemma check_packs_frame:
  "check_packs_one_by_one lib b shard es known s = (r, s') \<Longrightarrow> contents s' = contents s \<and> (\<exists>known'. r = Inr known')"
proof (induction es arbitrary: known s)
  case (Cons e es)
  then show ?case
    by (auto simp: Let_def io_bind_def io_try_def dest!: exists_frame split: prod.splits if_splits)
qed (auto simp: io_return_def)

text \<open>With a storage that answers, every pack in the storage is found.\<close>

lemma check_packs_complete:
  assumes "check_packs_one_by_one lib b shard es known s = (Inr known', s')"
    and "\<And>e. e \<in> set es \<Longrightarrow> valid_key (pack_storage_key (rl_hex lib) (pp_pack_id e))"
    and "\<And>k t e t'. be_exists b k t \<noteq> (Inl e, t')"
  shows "set known \<subseteq> set known' \<and> (\<forall>e \<in> set es. shard_dir lib (pp_pack_id e) = shard \<longrightarrow>
    contents s (pack_storage_key (rl_hex lib) (pp_pack_id e)) \<noteq> None \<longrightarrow>
    pack_storage_key (rl_hex lib) (pp_pack_id e) \<in> set known')"
  using assms(1,2)
proof (induction es arbitrary: known s)
  case (Cons e es)
  let ?key = "pack_storage_key (rl_hex lib) (pp_pack_id e)"
  show ?case
  proof (cases "shard_dir lib (pp_pack_id e) = shard")
    case True
    obtain q s1 where ex: "be_exists b ?key s = (q, s1)" by fastforce
    obtain found where q: "q = Inr found" using ex assms(3) by (cases q) auto
    have "found \<longleftrightarrow> contents s ?key \<noteq> None" using exists_ok [OF Cons.prems(2) ex [unfolded q]] by simp
    moreover have rest: "check_packs_one_by_one lib b shard es (if found then List.insert ?key known else known) s1
        = (Inr known', s')"
      using Cons.prems(1) True ex q by (simp add: Let_def io_bind_def io_try_def)
    ultimately show ?thesis
      using Cons.IH [OF rest Cons.prems(2)] exists_frame [OF ex] by (auto split: if_splits)
  next
    case False
    then show ?thesis using Cons.IH [of known s] Cons.prems by (simp add: Let_def)
  qed
qed (simp add: io_return_def)

lemma list_known_complete:
  assumes "list_known_packs lib b wire shards known s = (Inr known', s')"
    and "\<And>e. e \<in> set wire \<Longrightarrow> valid_key (pack_storage_key (rl_hex lib) (pp_pack_id e))"
    and "\<And>k t e t'. be_exists b k t \<noteq> (Inl e, t')"
  shows "set known \<subseteq> set known' \<and> (\<forall>e \<in> set wire. shard_dir lib (pp_pack_id e) \<in> set shards \<longrightarrow>
    contents s (pack_storage_key (rl_hex lib) (pp_pack_id e)) \<noteq> None \<longrightarrow>
    pack_storage_key (rl_hex lib) (pp_pack_id e) \<in> set known')"
  using assms(1)
proof (induction shards arbitrary: known s)
  case (Cons d shards)
  obtain q s1 where l: "be_list b d s = (q, s1)" by fastforce
  have f: "contents s1 = contents s" by (rule list_frame [OF l])
  show ?case
  proof (cases q)
    case (Inr ks)
    have "pack_storage_key (rl_hex lib) (pp_pack_id e) \<in> set ks"
      if "e \<in> set wire" "shard_dir lib (pp_pack_id e) = d"
        "contents s (pack_storage_key (rl_hex lib) (pp_pack_id e)) \<noteq> None" for e
      using that(2) by (intro list_complete [OF l [unfolded Inr] assms(2) [OF that(1)] that(3)])
        (auto simp: dir_prefix_def shard_dir_def pack_storage_key_def starts_with_iff)
    moreover have "list_known_packs lib b wire shards (List.union ks known) s1 = (Inr known', s')"
      using Cons.prems l Inr by (simp add: io_bind_def io_try_def)
    ultimately show ?thesis using Cons.IH [of "List.union ks known" s1] f by auto
  next
    case (Inl e)
    obtain q1 s2 where ch: "check_packs_one_by_one lib b d wire known s1 = (q1, s2)" by fastforce
    obtain known1 where k1: "q1 = Inr known1" "list_known_packs lib b wire shards known1 s2 = (Inr known', s')"
      using Cons.prems l Inl ch by (cases q1) (auto simp: io_bind_def io_try_def)
    have "contents s2 = contents s" using check_packs_frame [OF ch] f by simp
    then show ?thesis
      using check_packs_complete [OF ch [unfolded k1(1)] assms(2,3)] Cons.IH [OF k1(2)] f by auto
  qed
qed (simp add: io_return_def)

lemma list_known_frame:
  "list_known_packs lib b wire shards known s = (r, s') \<Longrightarrow> contents s' = contents s \<and> (\<exists>known'. r = Inr known')"
proof (induction shards arbitrary: known s)
  case (Cons d shards)
  obtain q s1 where l: "be_list b d s = (q, s1)" by fastforce
  obtain q1 s2 where ch: "check_packs_one_by_one lib b d wire known s1 = (q1, s2)" by fastforce
  then obtain known1 where "q1 = Inr known1" "contents s2 = contents s1" using check_packs_frame by blast
  then show ?case
    using Cons.prems Cons.IH [of _ s1] Cons.IH [of known1 s2] list_frame [OF l] l ch
    by (cases q) (auto simp: io_bind_def io_try_def)
qed (auto simp: io_return_def)

lemma recover_single_cases:
  assumes run: "recover_single_index lib y idx key (s, w) = (r, (s', w'))" and y: "sy_storage y = b" and key: "valid_key key"
  obtains (none) "w' = w" and "contents s' = contents s" and "(\<exists>e t. be_get b key s = (Inl e, t)) \<or> contents s key = None"
      and "r = Inr RecoverNotFound \<or> (\<exists>e. r = Inl e)"
  | (corrupt) d e where "w' = w" and "contents s' = contents s" and "contents s key = Some d"
      and "decode_journal lib d = Inl e" and "r = Inr RecoverCorrupt"
  | (took) d wire known n s1 where "contents s key = Some d" and "decode_journal lib d = Inr wire"
      and "list_known_packs lib b wire (remdups (map (\<lambda>e. shard_dir lib (pp_pack_id e)) wire)) [] s1 = (Inr known, s')"
      and "contents s1 = contents s" and "contents s' = contents s"
      and "recover_packs lib idx known wire w 0 = (w', n)" and "r = Inr (RecoverOk n)"
proof -
  obtain got s1 where get: "be_get b key s = (got, s1)" by fastforce
  note f = get_frame [OF get]
  show ?thesis
  proof (cases "\<exists>d. got = Inr (Some d)")
    case False
    then have "w' = w" "s' = s1" "r = Inr RecoverNotFound \<or> (\<exists>e. r = Inl e)"
      using run y get by (auto simp: recover_single_index_def io_bind_def on_store_def io_return_def
          split: sum.splits option.splits)
    moreover have "(\<exists>e t. be_get b key s = (Inl e, t)) \<or> contents s key = None"
      using False get get_ok [OF key] by (cases got) fastforce+
    ultimately show ?thesis using none f by blast
  next
    case True
    then obtain d where d: "got = Inr (Some d)" by blast
    have kd: "contents s key = Some d" using get_ok [OF key get [unfolded d]] by simp
    show ?thesis
    proof (cases "decode_journal lib d")
      case (Inl e)
      then have "w' = w" "s' = s1" "r = Inr RecoverCorrupt"
        using run y get d by (auto simp: recover_single_index_def io_bind_def on_store_def io_return_def)
      then show ?thesis using corrupt [OF _ _ kd Inl] f by simp
    next
      case (Inr wire)
      obtain q s2 where ls: "list_known_packs lib b wire (remdups (map (\<lambda>e. shard_dir lib (pp_pack_id e)) wire)) [] s1 = (q, s2)"
        by fastforce
      then obtain known where q: "q = Inr known" and f2: "contents s2 = contents s1" using list_known_frame by blast
      obtain w2 n where rp: "recover_packs lib idx known wire w 0 = (w2, n)" by fastforce
      have "s' = s2" "w' = w2" "r = Inr (RecoverOk n)"
        using run y get d Inr ls q rp by (auto simp: recover_single_index_def io_bind_def on_store_def)
      then show ?thesis using took [OF kd Inr _ f] ls q rp f f2 by simp
    qed
  qed
qed

lemma recover_single_grows:
  assumes "recover_single_index lib y idx key (s, w) = (r, (s', w'))" and "sy_storage y = b" and "valid_key key"
  shows "recovery_grows lib (contents s) w w'" and "contents s' = contents s"
proof -
  from assms have "recovery_grows lib (contents s) w w' \<and> contents s' = contents s"
  proof (cases rule: recover_single_cases)
    case (took d wire known n s1)
    have "map_of (ws_recovered_chunks w') i = Some e \<Longrightarrow>
        map_of (ws_recovered_chunks w) i = Some e \<or> journal_names lib (contents s) i e" for i e
      using recover_packs_names [OF took(6), of i e] took(1,2) unfolding journal_names_def by blast
    then show ?thesis
      using recover_packs_keeps [OF took(6)] took(5) unfolding recovery_grows_def dom_def by auto
  qed simp_all
  then show "recovery_grows lib (contents s) w w'" and "contents s' = contents s" by blast+
qed

lemma recover_single_takes:
  assumes "recover_single_index lib y idx key (s, w) = (r, (s', w'))" and "sy_storage y = b" and "valid_key key"
    and "journals_valid lib valid_key" and "contents s key = Some d" and "decode_journal lib d = Inr wire"
    and "reads_answer b"
  shows "(\<exists>n. r = Inr (RecoverOk n)) \<and> took_over lib idx (contents s) wire w'"
  using assms(1-3)
proof (cases rule: recover_single_cases)
  case (took d' wire' known n s1)
  have wire: "wire' = wire" using took(1,2) assms(5,6) by simp
  have known: "pack_storage_key (rl_hex lib) (pp_pack_id e) \<in> set known"
    if "e \<in> set wire" "contents s (pack_storage_key (rl_hex lib) (pp_pack_id e)) \<noteq> None" for e
    using list_known_complete [OF took(3)] assms(7) [unfolded reads_answer_def] decode_journal_valid [OF assms(4,6)] that took(4) wire by auto
  then show ?thesis
    using recover_packs_adds [OF took(6)] took(7) wire unfolding took_over_def dom_def by blast
qed (use assms(5,6,7) in \<open>auto simp: reads_answer_def\<close>)

lemma recover_indices_cases:
  assumes run: "recover_indices lib y idx markers ((session_index_key sid, sid) # keys) acc (s, w) = (r, (s', w'))"
    and y: "sy_storage y = b"
  obtains acc1 s1 w1 where "recover_indices lib y idx markers keys acc1 (s1, w1) = (r, (s', w'))"
    and "journals_shrink lib (contents s) (contents s1)" and "recovery_grows lib (contents s) w w1"
    and "\<And>d wire. map_of markers sid = None \<Longrightarrow> journals_valid lib valid_key \<Longrightarrow>
      contents s (session_index_key sid) = Some d \<Longrightarrow> decode_journal lib d = Inr wire \<Longrightarrow>
      reads_answer b \<Longrightarrow> took_over lib idx (contents s) wire w1 \<and> session_index_key sid \<in> set (ws_recovered_index_keys w1)"
proof (cases "map_of markers sid = None \<or> map_of markers sid = Some MarkerOld")
  case False
  then have "recover_indices lib y idx markers keys acc (s, w) = (r, (s', w'))" using run by auto
  then show ?thesis by (rule that) (use False in simp_all)
next
  case True
  let ?key = "session_index_key sid"
  have valid: "valid_key ?key" by (rule session_key_valid) simp
  obtain q s1 w1 where single: "recover_single_index lib y idx ?key (s, w) = (q, (s1, w1))" by (metis prod_cases3)
  note grows = recover_single_grows [OF single y valid]
  note takes = recover_single_takes [OF single y valid]
  show ?thesis
  proof (cases q)
    case (Inl e)
    then have "recover_indices lib y idx markers keys acc (s1, w1) = (r, (s', w'))"
      using run True single by (simp add: io_bind_def io_try_def)
    then show ?thesis by (rule that) (use grows takes Inl in auto)
  next
    case (Inr res)
    show ?thesis
    proof (cases res)
      case RecoverNotFound
      then have "recover_indices lib y idx markers keys acc (s1, w1) = (r, (s', w'))"
        using run True single Inr by (simp add: io_bind_def io_try_def)
      then show ?thesis by (rule that) (use grows takes Inr RecoverNotFound in auto)
    next
      case RecoverCorrupt
      obtain dq s2 where del: "be_delete b ?key s1 = (dq, s2)" by fastforce
      obtain d e where "contents s ?key = Some d" "decode_journal lib d = Inl e"
        using single y valid Inr RecoverCorrupt by (cases rule: recover_single_cases) auto
      then have shrink: "journals_shrink lib (contents s) (contents s2)"
        using delete_contents [OF valid del] grows(2) by (auto simp: journals_shrink_def split: if_splits)
      have "recover_indices lib y idx markers keys acc (s2, w1) = (r, (s', w'))"
        using run True single Inr RecoverCorrupt del y by (simp add: io_bind_def io_try_def on_store_def)
      then show ?thesis by (rule that) (use shrink grows takes Inr RecoverCorrupt in auto)
    next
      case (RecoverOk n)
      let ?w = "w1\<lparr>ws_recovered_index_keys := ws_recovered_index_keys w1 @ [?key]\<rparr>"
      have "recovery_grows lib (contents s) w ?w" "took_over lib idx m wire w1 \<Longrightarrow> took_over lib idx m wire ?w" for m wire
        using grows(1) by (auto simp: recovery_grows_def took_over_def)
      moreover have "recover_indices lib y idx markers keys \<lparr>pr_recovered_chunks = pr_recovered_chunks acc + n,
          pr_recovered_sessions = pr_recovered_sessions acc @ [sid]\<rparr> (s1, ?w) = (r, (s', w'))"
        using run True single Inr RecoverOk by (simp add: io_bind_def io_try_def modify_ws_def)
      ultimately show ?thesis using that grows(2) takes by simp
    qed
  qed
qed

lemma recover_indices_grows:
  assumes "recover_indices lib y idx markers keys acc (s, w) = (r, (s', w'))" and "sy_storage y = b"
    and "\<forall>(k, sid) \<in> set keys. k = session_index_key sid"
  shows "recovery_grows lib (contents s) w w' \<and> journals_shrink lib (contents s) (contents s')"
  using assms(1,3)
proof (induction keys arbitrary: acc s w)
  case (Cons key keys)
  obtain sid where key: "key = (session_index_key sid, sid)" using Cons.prems(2) by (cases key) auto
  have rest: "\<forall>(k, sid) \<in> set keys. k = session_index_key sid" using Cons.prems(2) by simp
  show ?case
  proof (rule recover_indices_cases [OF Cons.prems(1) [unfolded key] assms(2)])
    fix acc1 s1 w1
    assume step: "recover_indices lib y idx markers keys acc1 (s1, w1) = (r, (s', w'))"
      and shrink: "journals_shrink lib (contents s) (contents s1)" and grows: "recovery_grows lib (contents s) w w1"
    from Cons.IH [OF step rest] show ?thesis
      using recovery_grows_trans [OF grows shrink] journals_shrink_trans [OF shrink] by blast
  qed
qed (simp add: io_return_def)

lemma recover_indices_takes:
  assumes "recover_indices lib y idx markers keys acc (s, w) = (r, (s', w'))" and y: "sy_storage y = b"
    and "\<forall>(k, sid) \<in> set keys. k = session_index_key sid" and "(session_index_key sid, sid) \<in> set keys"
    and m: "map_of markers sid = None" and "contents s (session_index_key sid) = Some d"
    and wire: "decode_journal lib d = Inr wire" and jv: "journals_valid lib valid_key"
    and answer: "reads_answer b"
  shows "took_over lib idx (contents s) wire w' \<and> session_index_key sid \<in> set (ws_recovered_index_keys w')"
  using assms(1,3,4,6)
proof (induction keys arbitrary: acc s w)
  case (Cons key keys)
  obtain i where key: "key = (session_index_key i, i)" using Cons.prems(2) by (cases key) auto
  have rest: "\<forall>(k, sid) \<in> set keys. k = session_index_key sid" using Cons.prems(2) by simp
  show ?case
  proof (rule recover_indices_cases [OF Cons.prems(1) [unfolded key] y])
    fix acc1 s1 w1
    assume step: "recover_indices lib y idx markers keys acc1 (s1, w1) = (r, (s', w'))"
      and shrink: "journals_shrink lib (contents s) (contents s1)" and "recovery_grows lib (contents s) w w1"
      and takes: "\<And>d wire. map_of markers i = None \<Longrightarrow> journals_valid lib valid_key \<Longrightarrow>
        contents s (session_index_key i) = Some d \<Longrightarrow> decode_journal lib d = Inr wire \<Longrightarrow>
        reads_answer b \<Longrightarrow> took_over lib idx (contents s) wire w1 \<and> session_index_key i \<in> set (ws_recovered_index_keys w1)"
    note grows = recover_indices_grows [OF step y rest]
    show ?thesis
    proof (cases "i = sid")
      case True
      then have "took_over lib idx (contents s) wire w1 \<and> session_index_key sid \<in> set (ws_recovered_index_keys w1)"
        using takes [OF _ jv _ wire answer] m Cons.prems(4) by simp
      then show ?thesis using grows took_over_mono by (auto simp: recovery_grows_def)
    next
      case False
      then have "(session_index_key sid, sid) \<in> set keys" using Cons.prems(3) key by auto
      from Cons.IH [OF step rest this journals_shrink_keeps [OF shrink Cons.prems(4) wire]]
      show ?thesis using journals_shrink_packs [OF shrink] by (simp add: took_over_def)
    qed
  qed
qed simp

lemma read_markers_dom:
  "read_marker_states lk b now keys m s = (Inr ms, s') \<Longrightarrow> session_marker_key sid \<notin> set keys \<Longrightarrow>
   map_of ms sid = map_of m sid"
proof (induction keys arbitrary: m s)
  case (Cons k keys)
  obtain q s1 where get: "be_get b k s = (q, s1)" by fastforce
  have "parse_session_id k \<noteq> Some sid" using Cons.prems(2) by (auto simp: parse_session_id_iff)
  then show ?case
    using Cons.prems Cons.IH get by (cases "parse_session_id k") (auto simp: io_bind_def io_try_def)
qed (simp add: io_return_def)

lemma recover_pending_takes:
  assumes run: "recover_pending_index lib y idx (s, w) = (Inr pr, (s', w'))" and y: "sy_storage y = b"
    and clock: "\<And>s. contents (snd (sy_utc y s)) = contents s" and jv: "journals_valid lib valid_key"
    and answer: "reads_answer b" and other: "ws_session_id w \<noteq> sid"
    and nomark: "contents s (session_marker_key sid) = None"
    and d: "contents s (session_index_key sid) = Some d" and wire: "decode_journal lib d = Inr wire"
  shows "took_over lib idx (contents s) wire w' \<and> session_index_key sid \<in> set (ws_recovered_index_keys w')
    \<and> recovery_grows lib (contents s) w w' \<and> journals_shrink lib (contents s) (contents s')"
proof -
  obtain keys s1 where l: "be_list b SESSIONS_PREFIX s = (Inr keys, s1)"
    using run y by (cases "be_list b SESSIONS_PREFIX s"; cases "fst (be_list b SESSIONS_PREFIX s)")
      (auto simp: recover_pending_index_def io_bind_def on_store_def)
  obtain now s2 where u: "sy_utc y s1 = (now, s2)" by fastforce
  obtain mq s3 where m: "read_marker_states (rl_locks lib) b now keys [] s2 = (mq, s3)" by fastforce
  have c3: "contents s3 = contents s" using read_markers_frame [OF m] clock [of s1] u list_frame [OF l] by simp
  obtain markers where mq: "mq = Inr markers"
    using run y l u m by (cases mq) (auto simp: recover_pending_index_def io_bind_def on_store_def draw_def)
  let ?ks = "filter (\<lambda>(key, sid). key \<noteq> pending_index_key w)
    (List.map_filter (\<lambda>key. map_option (\<lambda>sid. (key, sid)) (parse_index_id key)) keys)"
  have loop: "recover_indices lib y idx markers ?ks \<lparr>pr_recovered_chunks = 0, pr_recovered_sessions = []\<rparr> (s3, w)
      = (Inr pr, (s', w'))"
    using run y l u m mq by (simp add: recover_pending_index_def io_bind_def on_store_def draw_def get_ws_def Let_def)
  have [simp]: "parse_index_id (session_index_key i) = Some i" for i by (simp add: parse_index_id_iff)
  have ks: "\<forall>(k, i) \<in> set ?ks. k = session_index_key i"
    by (auto simp: List.map_filter_def parse_index_id_iff)
  have "session_index_key sid \<in> set keys" using sessions_listed(2) [OF l] d by simp
  then have mem: "(session_index_key sid, sid) \<in> set ?ks"
    using other by (force simp: List.map_filter_def pending_index_key_def)
  have "session_marker_key sid \<notin> set keys" using list_sound [OF l] nomark by blast
  then have "map_of markers sid = None" using read_markers_dom [OF m [unfolded mq]] by simp
  from recover_indices_takes [OF loop y ks mem this _ wire jv answer] recover_indices_grows [OF loop y ks] d
  show ?thesis by (simp add: c3)
qed

lemma write_pending_stored:
  assumes run: "write_pending_index lib y (s, w) = (Inr (), (s', w'))" and y: "sy_storage y = b"
    and engine: "crypto_contract (rl_crypto lib)" and codec: "codec_ok (rl_codec lib)" and nonce: "\<And>s. length (fst (sy_nonce y s)) = 12"
    and serde: "journal_serde_ok lib"
    and small: "\<And>v. rl_journal_to_vec lib (pj_to_wire (ws_pending_journal w)) = Inr v \<Longrightarrow> length v \<le> MAX_METADATA_DECOMPRESS_SIZE"
  obtains d where "contents s' (pending_index_key w) = Some d"
    and "decode_journal lib d = Inr (pj_to_wire (ws_pending_journal w))"
proof -
  obtain v where v: "rl_journal_to_vec lib (pj_to_wire (ws_pending_journal w)) = Inr v"
    using run by (cases "rl_journal_to_vec lib (pj_to_wire (ws_pending_journal w))")
      (auto simp: write_pending_index_def io_bind_def get_ws_def io_fail_def)
  obtain c where c: "compress (rl_codec lib) (Zstd 3) v = Inr c"
    using run v by (cases "compress (rl_codec lib) (Zstd 3) v")
      (auto simp: write_pending_index_def io_bind_def get_ws_def io_fail_def)
  obtain nn s1 where n: "sy_nonce y s = (nn, s1)" by fastforce
  let ?pack = "pack_object_with_context nn PendingIndex PENDING_INDEX_OBJECT_CONTEXT c (rl_crypto lib)"
  obtain d where d: "?pack = Inr d"
    using run v c n by (cases ?pack) (auto simp: write_pending_index_def io_bind_def get_ws_def io_fail_def draw_def)
  have put: "be_put b (pending_index_key w) d s1 = (Inr (), s')"
    using run v c n d y
    by (auto simp: write_pending_index_def io_bind_def get_ws_def draw_def on_store_def split: prod.splits)
  have "valid_key (pending_index_key w)" by (rule session_key_valid) (simp add: pending_index_key_def)
  from put_ok [OF this put] have "contents s' (pending_index_key w) = Some d" by simp
  moreover have "decompress_metadata (rl_codec lib) c = Inr v"
    using c zstd_stream_ok [OF codec _ small [OF v]] by (cases rule: compress_cases) (auto simp: tag_defs)
  then have "decode_journal lib d = Inr (pj_to_wire (ws_pending_journal w))"
    using crypto_contract.unpack_packed_context [OF engine _ d] nonce [of s] n serde v
    by (simp add: journal_serde_ok_def decode_journal_def unpack_object_expect_with_context_def)
  ultimately show ?thesis by (rule that)
qed

end

section \<open>Properties\<close>

text \<open>C12: Recovery takes over only chunks that can be used.  Whatever the journals of interrupted
  sessions say and however the storage fails on the way, every chunk the session holds as
  recovered afterwards is missing from the index and its pack is in the storage.\<close>

theorem recovered_chunks_exist:
  assumes "client_storage (sy_storage y) contents valid_key"
    and "\<forall>s. contents (snd (sy_utc y s)) = contents s" and "journals_valid lib valid_key"
    and "ws_recovered_chunks w = []"
    and "recover_pending_index lib y idx (s, w) = (res, (s', w'))"
    and "map_of (ws_recovered_chunks w') i = Some e"
  shows "\<not> ci_contains idx i \<and> contents s' (pack_storage_key (rl_hex lib) (rc_pack_id e)) \<noteq> None"
proof -
  have "recovered_ok lib idx (contents s) w" using assms(4) by (simp add: recovered_ok_def)
  from client_storage.recover_pending_ok [OF assms(1,5) refl _ assms(3) this] assms(2,6)
  show ?thesis by (auto simp: recovered_ok_def)
qed

text \<open>An orphaned journal that names a pack that exists and one that does not.\<close>

definition wit_journal_lib :: repo_lib where
  "wit_journal_lib = wit_lib\<lparr>rl_journal_from_slice := (\<lambda>_. Inr
     [\<lparr>pp_pack_id = wit_pid 1, pp_chunks = [\<lparr>pc_chunk_id = wit_cid 1, pc_stored_size = 4, pc_pack_offset = 13\<rparr>]\<rparr>,
      \<lparr>pp_pack_id = wit_pid 2, pp_chunks = [\<lparr>pc_chunk_id = wit_cid 2, pc_stored_size = 4, pc_pack_offset = 13\<rparr>]\<rparr>])\<rparr>"

definition wit_journal_store :: memory_state where
  "wit_journal_store = [(session_index_key ''old'', [object_tag PendingIndex, TAG_NONE, 1]),
     (pack_storage_key lower_hex (wit_pid 1), [1, 2, 3])]"

lemma wit_recovered:
  "map_of (ws_recovered_chunks (snd (snd (recover_pending_index wit_journal_lib wit_system ci_new
     (wit_journal_store, ws_new 1000 1000 2 0))))) (wit_cid 1)
   = Some \<lparr>rc_stored_size = 4, rc_pack_id = wit_pid 1, rc_pack_offset = 13\<rparr>"
  by code_simp

lemma recovered_chunks_exist_witness:
  "\<exists>res s' w'. recover_pending_index wit_journal_lib wit_system ci_new (wit_journal_store, ws_new 1000 1000 2 0)
     = (res, (s', w')) \<and> \<not> ci_contains ci_new (wit_cid 1)
     \<and> map_of s' (pack_storage_key lower_hex (wit_pid 1)) \<noteq> None"
proof -
  obtain res s' w' where run: "recover_pending_index wit_journal_lib wit_system ci_new
      (wit_journal_store, ws_new 1000 1000 2 0) = (res, (s', w'))" by (metis prod_cases3)
  have e: "map_of (ws_recovered_chunks w') (wit_cid 1) = Some \<lparr>rc_stored_size = 4, rc_pack_id = wit_pid 1, rc_pack_offset = 13\<rparr>"
    using wit_recovered run by simp
  have c: "client_storage (sy_storage wit_system) map_of plain_key"
    using mem_client.client_storage_axioms mem.storage_contract_axioms
    by (simp add: wit_system_def client_storage_def)
  have u: "\<forall>s. map_of (snd (sy_utc wit_system s)) = map_of s" by (simp add: wit_system_def)
  have "plain_key (pack_storage_key lower_hex (wit_pid 2))" by code_simp
  then have j: "journals_valid wit_journal_lib plain_key"
    using wit_packed_key by (simp add: journals_valid_def wit_journal_lib_def wit_lib_def)
  have w: "ws_recovered_chunks (ws_new 1000 1000 2 0) = []" by (simp add: ws_new_def)
  from recovered_chunks_exist [OF c u j w run e] show ?thesis
    using run by (simp add: wit_journal_lib_def wit_lib_def)
qed









end
