(* ===== verification/Durability.thy ===== *)
theory Durability
  imports Recovery
begin

text \<open>
  Packs reach the storage before the index names them.  A pack that is sealed goes to the upload
  queue of the session, an upload that is joined puts it into the storage, and a flush joins all
  uploads: the lemmas follow a pack through \<open>write_session.rs\<close> and \<open>repo/mod.rs\<close>.
\<close>

section \<open>Operations that keep packs\<close>

text \<open>Clocks, random numbers and thread states do not touch the storage.\<close>

definition quiet :: "('s \<Rightarrow> string \<rightharpoonup> bytes) \<Rightarrow> 's system \<Rightarrow> bool" where
  "quiet contents y \<longleftrightarrow> (\<forall>s. contents (snd (sy_nonce y s)) = contents s
     \<and> contents (snd (sy_instant y s)) = contents s \<and> contents (snd (sy_utc y s)) = contents s
     \<and> contents (snd (sy_is_finished y s)) = contents s \<and> contents (snd (sy_next_u64 y s)) = contents s
     \<and> (\<forall>f d. contents (snd (sy_cache_write y f d s)) = contents s))"

text \<open>A key is on its way or in the storage.\<close>

definition covered :: "upload list \<Rightarrow> (string \<rightharpoonup> bytes) \<Rightarrow> string set" where
  "covered us m = fst ` set us \<union> dom m"

definition landed :: "('s \<Rightarrow> string \<rightharpoonup> bytes) \<Rightarrow> string \<Rightarrow> 's \<times> write_session \<Rightarrow> bool" where
  "landed contents k st \<longleftrightarrow> k \<in> covered (ws_pending_uploads (snd st)) (contents (fst st))"

definition queue_valid :: "(string \<Rightarrow> bool) \<Rightarrow> write_session \<Rightarrow> bool" where
  "queue_valid valid_key w \<longleftrightarrow> (\<forall>u \<in> set (ws_pending_uploads w). valid_key (fst u))"

definition keeps :: "('s \<Rightarrow> string \<rightharpoonup> bytes) \<Rightarrow> (string \<Rightarrow> bool) \<Rightarrow> 's \<times> write_session \<Rightarrow> 's \<times> write_session \<Rightarrow> bool" where
  "keeps contents valid_key st st' \<longleftrightarrow> (queue_valid valid_key (snd st) \<longrightarrow>
     queue_valid valid_key (snd st') \<and> (\<forall>k. landed contents k st \<longrightarrow> landed contents k st'))"

lemma keeps_rel [simp, intro]: "reflp (keeps c v)" "transp (keeps c v)"
  by (auto simp: keeps_def intro!: reflpI transpI)

text \<open>A relation kept by every run that succeeds.\<close>

definition ok_rel :: "('s \<Rightarrow> 's \<Rightarrow> bool) \<Rightarrow> ('s, 'e, 'a) io \<Rightarrow> bool" where
  "ok_rel R m \<longleftrightarrow> (\<forall>s a s'. m s = (Inr a, s') \<longrightarrow> R s s')"

lemma ok_relD: "ok_rel R m \<Longrightarrow> m s = (Inr a, s') \<Longrightarrow> R s s'"
  by (simp add: ok_rel_def)

lemma ok_rel_all: "io_rel R m \<Longrightarrow> ok_rel R m"
  by (simp add: ok_rel_def io_rel_def)

lemma ok_rel_bind:
  "transp R \<Longrightarrow> ok_rel R m \<Longrightarrow> (\<And>a. ok_rel R (f a)) \<Longrightarrow> ok_rel R (io_bind m f)"
  unfolding ok_rel_def io_bind_Inr_iff by (blast dest: transpD)

lemma ok_rel_if: "(P \<Longrightarrow> ok_rel R m) \<Longrightarrow> (\<not> P \<Longrightarrow> ok_rel R m') \<Longrightarrow> ok_rel R (if P then m else m')"
  by simp

section \<open>The upload queue\<close>

lemma set_swap_remove:
  assumes "i < length xs"
  shows "set (swap_remove i xs) \<subseteq> set xs" and "set xs \<subseteq> insert (xs ! i) (set (swap_remove i xs))"
proof -
  have nth: "swap_remove i xs ! j = (if j = i then last xs else xs ! j)" if "j < length xs - 1" for j
    using that assms by (simp add: swap_remove_def nth_butlast nth_list_update)
  have ne: "xs \<noteq> []" using assms by auto
  show "set (swap_remove i xs) \<subseteq> set xs"
  proof
    fix x assume "x \<in> set (swap_remove i xs)"
    then obtain j where "j < length xs - 1" "x = swap_remove i xs ! j" by (auto simp: in_set_conv_nth)
    then show "x \<in> set xs" using nth ne by (auto split: if_splits)
  qed
  show "set xs \<subseteq> insert (xs ! i) (set (swap_remove i xs))"
  proof
    fix x assume "x \<in> set xs"
    then obtain j where j: "j < length xs" "x = xs ! j" by (auto simp: in_set_conv_nth)
    consider "j = i" | "j \<noteq> i" "j < length xs - 1" | "j \<noteq> i" "j = length xs - 1" "i < length xs - 1"
      using j(1) assms by linarith
    then show "x \<in> insert (xs ! i) (set (swap_remove i xs))"
    proof cases
      case 2
      then show ?thesis using nth [of j] j nth_mem [of j "swap_remove i xs"] by simp
    next
      case 3
      then show ?thesis using nth [of i] j nth_mem [of i "swap_remove i xs"] ne by (simp add: last_conv_nth)
    qed (simp add: j)
  qed
qed

text \<open>Writing the journal leaves the queue as it is.\<close>

definition same_queue :: "'s \<times> write_session \<Rightarrow> 's \<times> write_session \<Rightarrow> bool" where
  "same_queue st st' \<longleftrightarrow> ws_pending_uploads (snd st') = ws_pending_uploads (snd st)"

lemma same_queue_rel [simp, intro]: "reflp same_queue" "transp same_queue"
  by (auto simp: same_queue_def intro!: reflpI transpI)

lemma same_queue_prims:
  "io_rel same_queue (on_store m)" "io_rel same_queue (draw d)" "io_rel same_queue get_ws"
  "(\<And>w. ws_pending_uploads (f w) = ws_pending_uploads w) \<Longrightarrow> io_rel same_queue (modify_ws f)"
  by (auto simp: io_rel_def same_queue_def on_store_def draw_def get_ws_def modify_ws_def split: prod.splits)

lemma journal_queue: "io_rel same_queue (write_pending_index_best_effort lib y)"
  unfolding write_pending_index_best_effort_def write_pending_index_def
  by (intro io_rel_intros same_queue_rel same_queue_prims) simp

context client_storage
begin

lemma put_keeps:
  assumes "valid_key k" and "be_put b k d s = (r, s')" and "contents s j \<noteq> None"
  shows "contents s' j \<noteq> None"
proof -
  have "contents s' = contents s \<or> contents s' = (contents s)(k \<mapsto> d)"
    using put_ok [OF assms(1)] put_err [OF assms(1)] assms(2) by (cases r) blast+
  then show ?thesis using assms(3) by auto
qed

lemma join_ok:
  assumes "join_upload y u s = (Inr a, s')" and "sy_storage y = b" and "valid_key (fst u)"
  shows "contents s' = (contents s)(fst u \<mapsto> snd u)"
  using assms put_owned_ok by (simp add: join_upload_def sealed_data_put_to_def)

lemma covered_join:
  assumes "i < length us"
  shows "covered us m \<subseteq> covered (swap_remove i us) (m(fst (us ! i) \<mapsto> snd (us ! i)))"
proof -
  have "fst ` set us \<subseteq> insert (fst (us ! i)) (fst ` set (swap_remove i us))"
    using image_mono [OF set_swap_remove(2) [OF assms], of fst] by simp
  then show ?thesis unfolding covered_def by auto
qed

lemma drain_loop_keeps:
  assumes "drain_loop y i us s = (Inr a, us', s')" and "sy_storage y = b" and "quiet contents y"
    and "\<forall>u \<in> set us. valid_key (fst u)"
  shows "set us' \<subseteq> set us \<and> covered us (contents s) \<subseteq> covered us' (contents s')"
  using assms
proof (induction y i us s rule: drain_loop.induct)
  case (1 y i us s)
  note unfold = drain_loop.simps [of y i us s]
  show ?case
  proof (cases "i < length us")
    case True
    obtain fin s1 where fin: "sy_is_finished y s = (fin, s1)" by fastforce
    have "contents (snd (sy_is_finished y s)) = contents s" using 1(5) unfolding quiet_def by blast
    then have c1: "contents s1 = contents s" using fin by simp
    show ?thesis
    proof (cases fin)
      case joined: True
      obtain q s2 where j: "join_upload y (us ! i) s1 = (q, s2)" by fastforce
      obtain a1 where q: "q = Inr a1" using 1(3) unfold True fin joined j by (cases q) simp_all
      have rest: "drain_loop y i (swap_remove i us) s2 = (Inr a, us', s')"
        using 1(3) unfold True fin joined j q by simp
      have v: "valid_key (fst (us ! i))" using 1(6) True by simp
      have c2: "contents s2 = (contents s)(fst (us ! i) \<mapsto> snd (us ! i))"
        using join_ok [OF j [unfolded q] 1(4) v] c1 by simp
      have "\<forall>u \<in> set (swap_remove i us). valid_key (fst u)" using set_swap_remove(1) [OF True] 1(6) by blast
      from 1(1) [OF True fin [symmetric] joined j [symmetric] q rest 1(4,5) this]
      show ?thesis using set_swap_remove(1) [OF True] covered_join [OF True, of "contents s", folded c2] by blast
    next
      case False
      have "drain_loop y (i + 1) us s1 = (Inr a, us', s')" using 1(3) unfold True fin False by simp
      from 1(2) [OF True fin [symmetric] False this 1(4-6)] show ?thesis using c1 by simp
    qed
  next
    case False
    then show ?thesis using 1(3) unfold by simp
  qed
qed

lemma join_all_lands:
  assumes "join_all y us s = (None, s')" and "sy_storage y = b" and "\<forall>u \<in> set us. valid_key (fst u)"
  shows "covered us (contents s) \<subseteq> dom (contents s')"
  using assms
proof (induction us arbitrary: s)
  case (Cons u us)
  obtain q s1 where j: "join_upload y u s = (q, s1)" by fastforce
  obtain e s2 where r: "join_all y us s1 = (e, s2)" by fastforce
  obtain a where q: "q = Inr a" using Cons.prems(1) j r by (cases q) simp_all
  have r': "join_all y us s1 = (None, s')" using Cons.prems(1) j r q by simp
  have "contents s1 = (contents s)(fst u \<mapsto> snd u)"
    using join_ok [OF j [unfolded q] Cons.prems(2)] Cons.prems(3) by simp
  then have "covered (u # us) (contents s) \<subseteq> covered us (contents s1)" by (auto simp: covered_def)
  also have "\<dots> \<subseteq> dom (contents s')" by (rule Cons.IH [OF r' Cons.prems(2)]) (use Cons.prems(3) in simp)
  finally show ?case .
qed (simp add: covered_def)

lemma keeps_prims:
  assumes "quiet contents y"
  shows "io_rel (keeps contents valid_key) (draw (sy_nonce y))" "io_rel (keeps contents valid_key) (draw (sy_instant y))"
    "io_rel (keeps contents valid_key) (draw (sy_utc y))" "io_rel (keeps contents valid_key) get_ws"
proof -
  have d: "io_rel (keeps contents valid_key) (draw f)" if "\<And>s. contents (snd (f s)) = contents s" for f :: "'s \<Rightarrow> 'x \<times> 's"
  proof (rule io_relI)
    fix st st' :: "'s \<times> write_session" and r assume "draw f st = ((r :: vykar_error + 'x), st')"
    then have "snd st' = snd st" and "contents (fst st') = contents (fst st)"
      using that [of "fst st"] by (auto simp: draw_def split: prod.splits)
    then show "keeps contents valid_key st st'" by (simp add: keeps_def landed_def)
  qed
  show "io_rel (keeps contents valid_key) (draw (sy_nonce y))" "io_rel (keeps contents valid_key) (draw (sy_instant y))"
    "io_rel (keeps contents valid_key) (draw (sy_utc y))"
    using assms by (auto intro!: d simp: quiet_def)
  show "io_rel (keeps contents valid_key) get_ws"
    by (auto intro!: io_relI simp: keeps_def get_ws_def)
qed

lemma keeps_store:
  assumes "\<And>s r s'. m s = (r, s') \<Longrightarrow> dom (contents s) \<subseteq> dom (contents s')"
  shows "io_rel (keeps contents valid_key) (on_store m)"
proof (rule io_relI)
  fix st st' :: "'s \<times> write_session" and r assume "on_store m st = (r, st')"
  then obtain s' where m: "m (fst st) = (r, s')" and st': "st' = (s', snd st)"
    by (cases st) (auto simp: on_store_def split: prod.splits)
  show "keeps contents valid_key st st'"
    using assms [OF m] by (auto simp: st' keeps_def landed_def covered_def)
qed

lemma keeps_modify:
  "(\<And>w. ws_pending_uploads (f w) = ws_pending_uploads w) \<Longrightarrow> io_rel (keeps contents valid_key) (modify_ws f)"
  by (auto intro!: io_relI simp: keeps_def landed_def queue_valid_def modify_ws_def)

lemma put_dom: "valid_key k \<Longrightarrow> be_put b k d s = (r, s') \<Longrightarrow> dom (contents s) \<subseteq> dom (contents s')"
  using put_keeps by blast

lemma refresh_dom:
  assumes "refresh_session lk h b sid now s = (r, s')" shows "dom (contents s) \<subseteq> dom (contents s')"
proof -
  obtain g s1 where g: "be_get b (session_marker_key sid) s = (g, s1)" by fastforce
  have v: "valid_key (session_marker_key sid)" by (rule session_key_valid) simp
  obtain e where "(case session_to_json lk e of Inl _ \<Rightarrow> io_return ()
      | Inr data \<Rightarrow> io_bind (io_try (be_put b (session_marker_key sid) data)) (\<lambda>_. io_return ())) s1 = (r, s')"
    using assms g by (auto simp: refresh_session_def Let_def io_bind_def [of "io_try (be_get _ _)"] io_try_def)
  then have "dom (contents s1) \<subseteq> dom (contents s')"
    using put_dom [OF v] by (auto simp: io_bind_def io_try_def io_return_def split: sum.splits prod.splits)
  then show ?thesis using get_frame [OF g] by simp
qed

lemma keeps_journal:
  assumes "quiet contents y" and "sy_storage y = b"
  shows "io_rel (keeps contents valid_key) (write_pending_index_best_effort lib y)"
    and "io_rel (keeps contents valid_key) (maybe_write_pending_index lib y)"
    and "io_rel (keeps contents valid_key) (maybe_refresh_session lib y)"
proof -
  have put: "io_rel (keeps contents valid_key) (on_store (be_put b (pending_index_key w) d))" for w d
    unfolding pending_index_key_def
    by (rule keeps_store) (rule put_dom [OF session_key_valid [OF index_key_is_session_key]])
  have wr: "io_rel (keeps contents valid_key) (write_pending_index lib y)"
    unfolding write_pending_index_def assms(2)
    by (intro io_rel_intros keeps_rel keeps_prims [OF assms(1)] put)
  show be: "io_rel (keeps contents valid_key) (write_pending_index_best_effort lib y)"
    unfolding write_pending_index_best_effort_def
    by (intro io_rel_intros keeps_rel keeps_prims [OF assms(1)] wr keeps_modify) simp_all
  show "io_rel (keeps contents valid_key) (maybe_write_pending_index lib y)"
    unfolding maybe_write_pending_index_def
    by (intro io_rel_intros keeps_rel keeps_prims [OF assms(1)] be)
  show "io_rel (keeps contents valid_key) (maybe_refresh_session lib y)"
    unfolding maybe_refresh_session_def assms(2)
    by (intro io_rel_intros keeps_rel keeps_prims [OF assms(1)] keeps_store keeps_modify)
      (auto dest: refresh_dom)
qed

lemma drain_keeps:
  assumes "quiet contents y" and "sy_storage y = b"
  shows "ok_rel (keeps contents valid_key) (drain_finished_uploads lib y)"
  unfolding drain_finished_uploads_def
proof (rule ok_rel_bind [OF keeps_rel(2)])
  show "ok_rel (keeps contents valid_key) (\<lambda>(s, w). case drain_loop y 0 (ws_pending_uploads w) s of
      (r, us, s') \<Rightarrow> (r, (s', w\<lparr>ws_pending_uploads := us\<rparr>)))"
    unfolding ok_rel_def
  proof clarify
    fix s a s' and w w' :: write_session
    assume "(case drain_loop y 0 (ws_pending_uploads w) s of (r, us, s') \<Rightarrow> (r, (s', w\<lparr>ws_pending_uploads := us\<rparr>)))
      = (Inr a, s', w')"
    then obtain us where l: "drain_loop y 0 (ws_pending_uploads w) s = (Inr a, us, s')"
      and w': "w' = w\<lparr>ws_pending_uploads := us\<rparr>" by (auto split: prod.splits)
    then show "keeps contents valid_key (s, w) (s', w')"
      using drain_loop_keeps [OF l assms(2,1)] by (auto simp: keeps_def landed_def queue_valid_def)
  qed
qed (rule ok_rel_all [OF keeps_journal(2) [OF assms]])

lemma join_first_keeps:
  fixes w :: write_session
  assumes "sy_storage y = b" and "ws_pending_uploads w \<noteq> []"
    and "join_upload y (hd (ws_pending_uploads w)) s = (Inr a, s')"
  shows "keeps contents valid_key (s, w) (s', w\<lparr>ws_pending_uploads := swap_remove 0 (ws_pending_uploads w)\<rparr>)"
proof -
  let ?us = "ws_pending_uploads w"
  have i: "0 < length ?us" and hd: "hd ?us = ?us ! 0" using assms(2) by (auto simp: hd_conv_nth)
  show ?thesis unfolding keeps_def
  proof
    assume v: "queue_valid valid_key (snd (s, w))"
    then have "contents s' = (contents s)(fst (?us ! 0) \<mapsto> snd (?us ! 0))"
      using join_ok [OF assms(3,1)] i hd by (simp add: queue_valid_def)
    then have "covered ?us (contents s) \<subseteq> covered (swap_remove 0 ?us) (contents s')"
      using covered_join [OF i, of "contents s"] by simp
    moreover have "\<forall>u \<in> set (swap_remove 0 ?us). valid_key (fst u)"
      using set_swap_remove(1) [OF i] v by (auto simp: queue_valid_def)
    ultimately show "queue_valid valid_key (snd (s', w\<lparr>ws_pending_uploads := swap_remove 0 ?us\<rparr>)) \<and>
      (\<forall>k. landed contents k (s, w) \<longrightarrow> landed contents k (s', w\<lparr>ws_pending_uploads := swap_remove 0 ?us\<rparr>))"
      by (auto simp: queue_valid_def landed_def)
  qed
qed

lemma block_keeps:
  assumes "quiet contents y" and "sy_storage y = b"
  shows "ok_rel (keeps contents valid_key) (block_on_upload lib y)"
  unfolding ok_rel_def
proof clarify
  fix s a s' and w w' :: write_session
  let ?w = "w\<lparr>ws_pending_uploads := swap_remove 0 (ws_pending_uploads w)\<rparr>"
  assume run: "block_on_upload lib y (s, w) = (Inr a, s', w')"
  note unfold = block_on_upload_def io_bind_def get_ws_def modify_ws_def on_store_def io_return_def
  show "keeps contents valid_key (s, w) (s', w')"
  proof (cases "ws_max_in_flight_uploads w + UPLOAD_QUEUE_HEADROOM \<le> length (ws_pending_uploads w)")
    case True
    then have ne: "ws_pending_uploads w \<noteq> []" by (auto simp: UPLOAD_QUEUE_HEADROOM_def)
    obtain q s1 where j: "join_upload y (hd (ws_pending_uploads w)) s = (q, s1)" by fastforce
    obtain c where q: "q = Inr c" using run True j by (cases q) (simp_all add: unfold)
    have "maybe_write_pending_index lib y (s1, ?w) = (Inr a, (s', w'))"
      using run True j q by (simp add: unfold)
    then have "keeps contents valid_key (s1, ?w) (s', w')" by (rule io_relD [OF keeps_journal(2) [OF assms]])
    then show ?thesis
      using join_first_keeps [OF assms(2) ne j [unfolded q]] transpD [OF keeps_rel(2)] by blast
  next
    case False
    then show ?thesis using run reflpD [OF keeps_rel(1)] by (simp add: unfold)
  qed
qed

lemma cap_keeps:
  assumes "quiet contents y" and "sy_storage y = b"
  shows "ok_rel (keeps contents valid_key) (cap_pending_uploads lib y)"
  unfolding cap_pending_uploads_def
  by (intro ok_rel_bind [OF keeps_rel(2)] drain_keeps [OF assms] block_keeps [OF assms]
      ok_rel_all [OF keeps_journal(3) [OF assms]])

text \<open>Waiting empties the queue whatever happens, and success means that everything is stored.\<close>

lemma wait_lands:
  fixes w :: write_session
  assumes "quiet contents y" and "sy_storage y = b" and "queue_valid valid_key w"
    and run: "wait_pending_uploads lib y (s, w) = (Inr a, (s', w'))" and k: "landed contents k (s, w)"
  shows "contents s' k \<noteq> None"
proof -
  let ?w = "w\<lparr>ws_pending_uploads := []\<rparr>"
  obtain e s1 where j: "join_all y (ws_pending_uploads w) s = (e, s1)" by fastforce
  let ?j = "if pj_is_empty (ws_pending_journal w) then io_return () else write_pending_index_best_effort lib y"
  obtain c s2 w2 where jr: "?j (s1, ?w) = (Inr c, (s2, w2))"
    and fin: "(case e of Some e \<Rightarrow> io_fail e | None \<Rightarrow> io_return ()) (s2, w2) = (Inr a, (s', w'))"
    using run j by (auto simp: wait_pending_uploads_def io_bind_def get_ws_def split: prod.splits sum.splits)
  have e: "e = None" and s2: "s2 = s'" and w2: "w2 = w'"
    using fin by (auto simp: io_fail_def io_return_def split: option.splits)
  have "k \<in> dom (contents s1)"
    using join_all_lands [OF j [unfolded e] assms(2)] assms(3) k by (auto simp: queue_valid_def landed_def)
  then have l: "landed contents k (s1, ?w)" by (simp add: landed_def covered_def)
  have "io_rel (keeps contents valid_key) ?j" by (intro io_rel_intros keeps_rel keeps_journal(1) [OF assms(1,2)])
  from io_relD [OF this jr] have "landed contents k (s', w')"
    using l by (simp add: keeps_def queue_valid_def s2 w2)
  moreover have sq: "io_rel same_queue ?j" by (intro io_rel_intros same_queue_rel journal_queue)
  have "ws_pending_uploads w' = []" using io_relD [OF sq jr] w2 by (simp add: same_queue_def)
  ultimately show ?thesis by (auto simp: landed_def covered_def)
qed

end

section \<open>The packs a session names\<close>

definition packs_of :: "write_session \<Rightarrow> pack_id set" where
  "packs_of w = (case ws_index_delta w of None \<Rightarrow> {} | Some d \<Rightarrow> ne_pack_id ` set (dl_new_entries d))
     \<union> rc_pack_id ` ran (map_of (ws_recovered_chunks w))"

text \<open>Every pack the session names is on its way or in the storage.\<close>

definition durable ::
  "repo_lib \<Rightarrow> ('s \<Rightarrow> string \<rightharpoonup> bytes) \<Rightarrow> (string \<Rightarrow> bool) \<Rightarrow> 's \<times> write_session \<Rightarrow> bool" where
  "durable lib contents valid_key st \<longleftrightarrow> queue_valid valid_key (snd st) \<and>
     (\<forall>p \<in> packs_of (snd st). landed contents (pack_storage_key (rl_hex lib) p) st)"

definition repo_durable ::
  "repo_lib \<Rightarrow> ('s \<Rightarrow> string \<rightharpoonup> bytes) \<Rightarrow> (string \<Rightarrow> bool) \<Rightarrow> 's \<times> repository \<Rightarrow> bool" where
  "repo_durable lib contents valid_key st \<longleftrightarrow>
     (\<exists>w. rp_write_session (snd st) = Some w \<and> durable lib contents valid_key (fst st, w))"

lemma packs_of_core: "core w' = core w \<Longrightarrow> packs_of w' = packs_of w"
  by (simp add: packs_of_def core_eq_iff)

lemma durable_keeps:
  "durable lib c v st \<Longrightarrow> keeps c v st st' \<Longrightarrow> core (snd st') = core (snd st) \<Longrightarrow> durable lib c v st'"
  using packs_of_core [of "snd st'" "snd st"] by (auto simp: durable_def keeps_def)

text \<open>Steps that touch neither the storage nor the queue and name no new pack.\<close>

definition names_less :: "write_session \<Rightarrow> write_session \<Rightarrow> bool" where
  "names_less w w' \<longleftrightarrow> ws_pending_uploads w' = ws_pending_uploads w \<and> packs_of w' \<subseteq> packs_of w"

lemma durable_less: "durable lib c v (s, w) \<Longrightarrow> names_less w w' \<Longrightarrow> durable lib c v (s, w')"
  by (auto simp: durable_def names_less_def landed_def queue_valid_def)

lemma names_less_bump: "names_less w (delta_bump_opt i w)"
  by (auto simp: names_less_def packs_of_def delta_bump_opt_def delta_bump_refcount_def split: option.splits)

lemma names_less_pending: "bump_ref_pending_ws i w = (res, w') \<Longrightarrow> names_less w w'"
  by (auto simp: names_less_def packs_of_def bump_ref_pending_ws_def split: option.splits)

lemma ran_hm_remove: "ran (map_of (hm_remove i m)) \<subseteq> ran (map_of m)"
  by (auto simp: ran_def split: if_splits)

lemma names_less_promote:
  assumes "promote_recovered_chunk i w idx = (res, w', idx')" shows "names_less w w'"
proof (cases "map_of (ws_recovered_chunks w) i")
  case None
  then show ?thesis using assms by (auto simp: promote_recovered_chunk_def names_less_def)
next
  case (Some e)
  have e: "rc_pack_id e \<in> rc_pack_id ` ran (map_of (ws_recovered_chunks w))" using Some by (auto intro: ranI)
  have "ws_recovered_chunks w' = hm_remove i (ws_recovered_chunks w)"
    and "ws_pending_uploads w' = ws_pending_uploads w"
    and "ws_index_delta w' = map_option (\<lambda>d. delta_add_new_entry d i (rc_stored_size e) (rc_pack_id e) (rc_pack_offset e) 1)
      (ws_index_delta w)"
    using assms Some by (auto simp: promote_recovered_chunk_def Let_def delta_add_opt_def split: option.splits)
  then show ?thesis
    using e ran_hm_remove [of i "ws_recovered_chunks w"]
    by (auto simp: names_less_def packs_of_def delta_add_new_entry_def split: option.splits)
qed

lemma bump_recovered_names:
  assumes "bump_recovered_or_pending i (s, r) = (Inr res, (s', r'))" and w: "rp_write_session r = Some w"
  shows "\<exists>w'. s' = s \<and> rp_write_session r' = Some w' \<and> names_less w w'"
proof -
  obtain p w1 idx where p: "promote_recovered_chunk i w (rp_chunk_index r) = (p, w1, idx)"
    by (cases "promote_recovered_chunk i w (rp_chunk_index r)") auto
  obtain q w2 where q: "bump_ref_pending_ws i w1 = (q, w2)" by (cases "bump_ref_pending_ws i w1") auto
  have "names_less w w2"
    using names_less_promote [OF p] names_less_pending [OF q] by (auto simp: names_less_def)
  then show ?thesis
    using assms p q names_less_promote [OF p]
    by (cases p) (auto simp: bump_recovered_or_pending_def promote_recovered_def bump_ref_pending_def repo_io_simps)
qed

lemma bump_names:
  assumes "bump_ref_if_exists i (s, r) = (Inr res, (s', r'))" and w: "rp_write_session r = Some w"
  shows "\<exists>w'. s' = s \<and> rp_write_session r' = Some w' \<and> names_less w w'"
proof -
  have pick: "\<exists>w'. s' = s \<and> rp_write_session r' = Some w' \<and> names_less w w'"
    if "(case found of Some sz \<Rightarrow> io_bind (put_ws (delta_bump_opt i w)) (\<lambda>_. io_return (Some sz))
         | None \<Rightarrow> bump_recovered_or_pending i) (s, r) = (Inr res, (s', r'))" for found :: "u32 option"
    using that bump_recovered_names [of i s r res s' r', OF _ w] names_less_bump [of w i]
    by (cases found) (auto simp: io_return_def)
  have "names_less w w" by (simp add: names_less_def)
  then show ?thesis
    using assms pick [of "case ws_tiered_dedup w of Some t \<Rightarrow> td_get_stored_size t i
        | None \<Rightarrow> (case ws_dedup_index w of Some d \<Rightarrow> di_get_stored_size d i | None \<Rightarrow> None)"]
    by (cases "ws_tiered_dedup w"; cases "ws_dedup_index w")
      (auto simp: bump_ref_if_exists_def Let_def io_return_def split: option.split_asm)
qed

lemma apply_sealed_names:
  assumes "apply_sealed_entries pid es w idx = (dirty, w', idx')"
  shows "packs_of w' \<subseteq> insert pid (packs_of w) \<and> ws_pending_uploads w' = ws_pending_uploads w"
  using assms
proof (induction pid es w idx rule: apply_sealed_entries.induct)
  case (2 pid i sz off rc es w idx)
  have add: "packs_of (track_insert i (delta_add_opt i sz pid off rc w1)) \<subseteq> insert pid (packs_of w)
      \<and> ws_pending_uploads (track_insert i (delta_add_opt i sz pid off rc w1)) = ws_pending_uploads w"
    if "ws_index_delta w1 = ws_index_delta w" and "ws_recovered_chunks w1 = ws_recovered_chunks w"
      and "ws_pending_uploads w1 = ws_pending_uploads w" for w1
    using that by (auto simp: packs_of_def track_insert_def delta_add_opt_def delta_add_new_entry_def split: option.splits)
  have tr: "packs_of (track_insert i w) = packs_of w \<and> ws_pending_uploads (track_insert i w) = ws_pending_uploads w"
    by (simp add: packs_of_def track_insert_def)
  show ?case
  proof (cases "ws_tiered_dedup w")
    case t: (Some t)
    show ?thesis using 2(3) [OF refl t] 2(4) t add [of "w\<lparr>ws_tiered_dedup := Some (td_insert t i sz)\<rparr>"] by auto
  next
    case t: None
    show ?thesis
    proof (cases "ws_dedup_index w")
      case (Some d)
      then show ?thesis using 2(2) [OF refl t Some] 2(4) t add [of "w\<lparr>ws_dedup_index := Some (di_insert d i sz)\<rparr>"] by auto
    next
      case None
      then show ?thesis using 2(1) [OF refl t None] 2(4) t tr by auto
    qed
  qed
qed auto

text \<open>The storage accepts the keys of the packs the session makes.\<close>

definition pack_keys_valid :: "repo_lib \<Rightarrow> (string \<Rightarrow> bool) \<Rightarrow> bool" where
  "pack_keys_valid lib valid_key \<longleftrightarrow>
     (\<forall>d. valid_key (pack_storage_key (rl_hex lib) (pack_id_compute (rl_b2 lib) d)))"

lemma seal_pack_id: "pw_seal b2 pw = (Inr sp, pw') \<Longrightarrow> sp_pack_id sp = pack_id_compute b2 (sp_data sp)"
  by (auto simp: pw_seal_def Let_def split: if_splits option.splits)

lemma durable_seal:
  assumes "durable lib c v (s, w)" and "packs_of w' \<subseteq> insert pid (packs_of w)"
    and "ws_pending_uploads w' = ws_pending_uploads w @ [(pack_storage_key (rl_hex lib) pid, d)]"
    and "v (pack_storage_key (rl_hex lib) pid)"
  shows "durable lib c v (s, w')"
  using assms by (auto simp: durable_def queue_valid_def landed_def covered_def)

lemma seal_and_queue_durable:
  assumes "pack_keys_valid lib v" and "seal_and_queue lib ty (s, r) = (Inr u, (s', r'))"
    and "repo_durable lib c v (s, r)"
  shows "repo_durable lib c v (s', r')"
proof -
  obtain w where w: "rp_write_session r = Some w" and d: "durable lib c v (s, w)"
    using assms(3) by (auto simp: repo_durable_def)
  obtain q pw where q: "pw_seal (rl_b2 lib) (writer_of ty w) = (q, pw)" by fastforce
  obtain sp where sp: "q = Inr sp" using assms(2) w q by (cases q) (simp_all add: seal_and_queue_def io_fail_def)
  define w2 where "w2 = after_seal lib ty (rp_config r) sp (set_writer ty pw w)"
  have w2: "packs_of w2 = packs_of w" "ws_pending_uploads w2 = ws_pending_uploads w"
    by (cases ty; simp add: w2_def after_seal_def set_writer_def packs_of_def Let_def)+
  obtain dirty w3 idx where
    ap: "apply_sealed_entries (sp_pack_id sp) (sp_entries sp) w2 (rp_chunk_index r) = (dirty, w3, idx)"
    by (metis prod_cases3)
  define w4 where "w4 = w3\<lparr>ws_pending_uploads := ws_pending_uploads w3
      @ [(pack_storage_key (rl_hex lib) (sp_pack_id sp), sp_data sp)]\<rparr>"
  have "rp_write_session r' = Some w4" and "s' = s"
    using assms(2) w q sp ap
    by (auto simp: seal_and_queue_def repo_apply_sealed_entries_def repo_io_simps w2_def w4_def)
  moreover have "durable lib c v (s, w4)"
  proof (rule durable_seal [OF d])
    show "packs_of w4 \<subseteq> insert (sp_pack_id sp) (packs_of w)"
      using apply_sealed_names [OF ap] w2 by (simp add: w4_def packs_of_def)
    show "ws_pending_uploads w4 = ws_pending_uploads w @ [(pack_storage_key (rl_hex lib) (sp_pack_id sp), sp_data sp)]"
      using apply_sealed_names [OF ap] w2 by (simp add: w4_def)
    show "v (pack_storage_key (rl_hex lib) (sp_pack_id sp))"
      using assms(1) seal_pack_id [OF q [unfolded sp]] by (simp add: pack_keys_valid_def)
  qed
  ultimately show ?thesis by (simp add: repo_durable_def)
qed

definition stays_durable ::
  "repo_lib \<Rightarrow> ('s \<Rightarrow> string \<rightharpoonup> bytes) \<Rightarrow> (string \<Rightarrow> bool) \<Rightarrow> 's \<times> repository \<Rightarrow> 's \<times> repository \<Rightarrow> bool" where
  "stays_durable lib c v st st' \<longleftrightarrow> repo_durable lib c v st \<longrightarrow> repo_durable lib c v st'"

lemma stays_durable_rel [simp, intro]: "transp (stays_durable lib c v)" "reflp (stays_durable lib c v)"
  by (auto simp: stays_durable_def intro!: transpI reflpI)

lemma durable_bump: "ok_rel (stays_durable lib c v) (bump_ref_if_exists i)"
proof -
  have "repo_durable lib c v (s', r')"
    if "bump_ref_if_exists i (s, r) = (Inr res, (s', r'))" and "repo_durable lib c v (s, r)" for s r res s' r'
    using that bump_names durable_less by (fastforce simp: repo_durable_def)
  then show ?thesis by (auto simp: ok_rel_def stays_durable_def)
qed

lemma durable_draw:
  "(\<And>s. c (snd (f s)) = c s) \<Longrightarrow> ok_rel (stays_durable lib c v) (draw f)"
  by (auto simp: ok_rel_def stays_durable_def repo_durable_def durable_def landed_def draw_def split: prod.splits)
    (metis snd_conv)+

context client_storage
begin

lemma durable_cap:
  assumes "quiet contents y" and "sy_storage y = b"
  shows "ok_rel (stays_durable lib contents valid_key) (with_ws (cap_pending_uploads lib y))"
proof -
  have "repo_durable lib contents valid_key (s', r')"
    if run: "with_ws (cap_pending_uploads lib y) (s, r) = (Inr u, (s', r'))"
      and d: "repo_durable lib contents valid_key (s, r)" for s r u s' r'
  proof -
    obtain w where w: "rp_write_session r = Some w" "durable lib contents valid_key (s, w)"
      using d by (auto simp: repo_durable_def)
    obtain w' where m: "cap_pending_uploads lib y (s, w) = (Inr u, (s', w'))"
      and r': "r' = r\<lparr>rp_write_session := Some w'\<rparr>"
      using run w(1) by (auto simp: with_ws_def split: prod.splits)
    have "core w' = core w" using io_relD [OF cap_core m] by (simp add: same_core_def)
    then have "durable lib contents valid_key (s', w')"
      using durable_keeps [OF w(2) ok_relD [OF cap_keeps [OF assms] m]] by simp
    then show ?thesis by (simp add: repo_durable_def r')
  qed
  then show ?thesis by (auto simp: ok_rel_def stays_durable_def)
qed

lemma durable_flush_writer:
  assumes "quiet contents y" and "sy_storage y = b" and "pack_keys_valid lib valid_key"
  shows "ok_rel (stays_durable lib contents valid_key) (flush_writer_async lib y ty)"
  unfolding flush_writer_async_def
proof (rule ok_rel_bind [OF stays_durable_rel(1) durable_cap [OF assms(1,2)]])
  show "ok_rel (stays_durable lib contents valid_key) (seal_and_queue lib ty)" for a :: unit
    using seal_and_queue_durable [OF assms(3)] by (auto simp: ok_rel_def stays_durable_def)
qed

lemma durable_commit:
  assumes "quiet contents y" and "sy_storage y = b" and "pack_keys_valid lib valid_key"
    and run: "commit_prepacked_chunk lib y i packed ty (s, r) = (Inr sz, (s', r'))"
    and d: "repo_durable lib contents valid_key (s, r)"
  shows "repo_durable lib contents valid_key (s', r')"
proof -
  obtain w where w: "rp_write_session r = Some w" "durable lib contents valid_key (s, w)"
    using d by (auto simp: repo_durable_def)
  obtain now s1 where s1: "sy_instant y s = (now, s1)" by fastforce
  obtain res pw where add: "pw_add_blob now (writer_of ty w) i packed = (res, pw)" by fastforce
  obtain off where off: "res = Inr off"
    using run w(1) s1 add by (cases res) (simp_all add: commit_prepacked_chunk_def repo_io_simps)
  obtain now' s2 where s2: "sy_instant y s1 = (now', s2)" by fastforce
  let ?r = "r\<lparr>rp_write_session := Some (set_writer ty pw w)\<rparr>"
  have tail: "(if pw_should_flush now' pw then flush_writer_async lib y ty else io_return ()) (s2, ?r)
      = (Inr (), (s', r'))"
    using run w(1) s1 s2 add off
    by (auto simp: commit_prepacked_chunk_def draw_def io_bind_def [of "\<lambda>(s, w). _ s w"] io_bind_Inr_iff
        io_return_def put_ws_def modify_ws_def need_ws_def)
  have c: "contents (snd (sy_instant y t)) = contents t" for t using assms(1) by (simp add: quiet_def)
  have "contents s2 = contents s" using c [of s] c [of s1] s1 s2 by simp
  moreover have "names_less w (set_writer ty pw w)" by (cases ty) (simp_all add: names_less_def set_writer_def packs_of_def)
  ultimately have "durable lib contents valid_key (s2, set_writer ty pw w)"
    using durable_less [OF w(2)] by (simp add: durable_def landed_def)
  then have "repo_durable lib contents valid_key (s2, ?r)" by (simp add: repo_durable_def)
  then show ?thesis
    using tail ok_relD [OF durable_flush_writer [OF assms(1-3)], of ty "(s2, ?r)"]
    by (auto simp: stays_durable_def io_return_def split: if_splits)
qed

lemma durable_store:
  assumes "quiet contents y" and "sy_storage y = b" and "pack_keys_valid lib valid_key"
  shows "ok_rel (stays_durable lib contents valid_key) (store_chunk lib y data alg ty)"
proof -
  have com: "ok_rel (stays_durable lib contents valid_key) (commit_prepacked_chunk lib y i packed ty)" for i packed
    using durable_commit [OF assms] by (auto simp: ok_rel_def stays_durable_def)
  have fl: "ok_rel R (io_fail e)" and ret: "ok_rel (stays_durable lib contents valid_key) (io_return a)" for R e a
    by (auto simp: ok_rel_def io_fail_def io_return_def stays_durable_def)
  have dr: "ok_rel (stays_durable lib contents valid_key) (draw (sy_nonce y))"
    by (rule durable_draw) (use assms(1) in \<open>simp add: quiet_def\<close>)
  have inl: "ok_rel (stays_durable lib contents valid_key) (commit_chunk_inline lib y i data alg ty)" for i
    unfolding commit_chunk_inline_def
    by (auto split: sum.splits intro!: ok_rel_bind [OF stays_durable_rel(1)] dr com fl)
  show ?thesis
    unfolding store_chunk_def Let_def
    by (auto split: option.splits intro!: ok_rel_bind [OF stays_durable_rel(1)] durable_bump inl ret)
qed

lemma durable_store_all:
  assumes "quiet contents y" and "sy_storage y = b" and "pack_keys_valid lib valid_key"
  shows "ok_rel (stays_durable lib contents valid_key) (store_all lib y ops)"
proof (induction ops)
  case Nil
  show ?case by (simp add: ok_rel_def io_return_def stays_durable_def)
next
  case (Cons op ops)
  have ret: "ok_rel (stays_durable lib contents valid_key) (io_return a)" for a
    by (auto simp: ok_rel_def io_return_def stays_durable_def)
  show ?case
    by (cases op) (auto intro!: ok_rel_bind [OF stays_durable_rel(1)] durable_store [OF assms] Cons.IH ret)
qed

lemma durable_flush_packs:
  assumes "quiet contents y" and "sy_storage y = b" and "pack_keys_valid lib valid_key"
    and run: "flush_packs lib y (s, r) = (Inr u, (s', r'))" and d: "repo_durable lib contents valid_key (s, r)"
    and w': "rp_write_session r' = Some w'" and p: "p \<in> packs_of w'"
  shows "contents s' (pack_storage_key (rl_hex lib) p) \<noteq> None"
proof -
  obtain w where w: "rp_write_session r = Some w" using d by (auto simp: repo_durable_def)
  have cond: "ok_rel (stays_durable lib contents valid_key) (if P then flush_writer_async lib y ty else io_return ())" for P ty
    using durable_flush_writer [OF assms(1-3), of ty] by (auto simp: ok_rel_def io_return_def stays_durable_def)
  obtain st1 st2 where
    f1: "(if pw_has_pending (ws_data_pack_writer w) then flush_writer_async lib y Data else io_return ()) (s, r) = (Inr (), st1)"
    and f2: "(if pw_has_pending (ws_tree_pack_writer w) then flush_writer_async lib y Tree else io_return ()) st1 = (Inr (), st2)"
    and f3: "with_ws (wait_pending_uploads lib y) st2 = (Inr u, (s', r'))"
    using run w by (auto simp: flush_packs_def io_bind_Inr_iff [of "if _ then _ else _"])
  have "repo_durable lib contents valid_key st2"
    using ok_relD [OF cond f1] ok_relD [OF cond f2] d by (simp add: stays_durable_def)
  then obtain w2 where w2: "rp_write_session (snd st2) = Some w2" "durable lib contents valid_key (fst st2, w2)"
    by (auto simp: repo_durable_def)
  have wait: "wait_pending_uploads lib y (fst st2, w2) = (Inr u, (s', w'))"
    using f3 w2(1) w' by (cases st2) (auto simp: with_ws_def split: prod.splits)
  have "core w' = core w2" using io_relD [OF wait_core wait] by (simp add: same_core_def)
  from packs_of_core [OF this] have "p \<in> packs_of w2" using p by simp
  then have "landed contents (pack_storage_key (rl_hex lib) p) (fst st2, w2)" and "queue_valid valid_key w2"
    using w2(2) by (auto simp: durable_def)
  then show ?thesis using wait_lands [OF assms(1,2) _ wait] by blast
qed

lemma session_durable:
  assumes "quiet contents y" and "sy_storage y = b" and "pack_keys_valid lib valid_key" and "journals_valid lib valid_key"
    and run: "store_session lib y sid uploads ops (s, r) = (Inr ids, (s', r'))"
    and w': "rp_write_session r' = Some w'" and p: "p \<in> packs_of w'"
  shows "contents s' (pack_storage_key (rl_hex lib) p) \<noteq> None"
  using run
proof (cases rule: store_session_cases)
  case (1 s1 w1 res s2 w2 r3 w3 s4 r4 idx)
  have q: "contents (snd (sy_utc y t)) = contents t" for t using assms(1) by (simp add: quiet_def)
  have "recovered_ok lib idx (contents s1) w1" using 1(2) by (simp add: recovered_ok_def)
  then have rec: "recovered_ok lib idx (contents s2) w2"
    by (rule recover_pending_ok [OF 1(3) assms(2) q assms(4)])
  have packs: "packs_of w3 = rc_pack_id ` ran (map_of (ws_recovered_chunks w2))"
    using 1(7,9) by (simp add: packs_of_def delta_new_def)
  have "landed contents (pack_storage_key (rl_hex lib) p) (s2, w3)" if pm: "p \<in> packs_of w3" for p
  proof -
    obtain i e where "map_of (ws_recovered_chunks w2) i = Some e" and "p = rc_pack_id e"
      using pm unfolding packs ran_def by blast
    then show ?thesis using rec by (auto simp: recovered_ok_def landed_def covered_def)
  qed
  moreover have "queue_valid valid_key w3" using 1(8) by (simp add: queue_valid_def)
  ultimately have "durable lib contents valid_key (s2, w3)" by (simp add: durable_def)
  then have "repo_durable lib contents valid_key (s2, r3)" using 1(4) by (simp add: repo_durable_def)
  then have "repo_durable lib contents valid_key (s4, r4)"
    using ok_relD [OF durable_store_all [OF assms(1-3)] 1(10)] by (simp add: stays_durable_def)
  then show ?thesis by (rule durable_flush_packs [OF assms(1-3) 1(11) _ w' p])
qed

end

section \<open>Properties\<close>

text \<open>C2: No index entry without its pack.  When a session has stored its chunks and flushed, every
  pack that its delta names, whether sealed in this session or taken over from an interrupted
  one, is in the storage: uploads run in the background, are joined in any order and may share
  the storage with journal and marker writes, and a failed upload makes the flush fail.\<close>

theorem flushed_packs_stored:
  assumes "client_storage (sy_storage y) contents valid_key" and "quiet contents y"
    and "pack_keys_valid lib valid_key" and "journals_valid lib valid_key"
    and "store_session lib y sid uploads ops (s, r) = (Inr ids, (s', r'))"
    and "rp_write_session r' = Some w" and "ws_index_delta w = Some d" and "e \<in> set (dl_new_entries d)"
  shows "contents s' (pack_storage_key (rl_hex lib) (ne_pack_id e)) \<noteq> None"
proof -
  have "ne_pack_id e \<in> packs_of w" using assms(7,8) by (simp add: packs_of_def)
  then show ?thesis by (rule client_storage.session_durable [OF assms(1,2) refl assms(3-6)])
qed

lemma wit_names_pack:
  "case store_session wit_lib wit_system ''s'' 4 wit_stores ([], wit_repository) of
     (Inl e, _) \<Rightarrow> False
   | (Inr ids, (s', r')) \<Rightarrow>
       (case rp_write_session r' of None \<Rightarrow> False
        | Some w \<Rightarrow> (case ws_index_delta w of None \<Rightarrow> False
                     | Some d \<Rightarrow> (case dl_new_entries d of [] \<Rightarrow> False | e # es \<Rightarrow> True)))"
  by code_simp

lemma flushed_packs_stored_witness:
  "\<exists>ids s' r' w d e. store_session wit_lib wit_system ''s'' 4 wit_stores ([], wit_repository) = (Inr ids, (s', r'))
     \<and> rp_write_session r' = Some w \<and> ws_index_delta w = Some d \<and> e \<in> set (dl_new_entries d)
     \<and> map_of s' (pack_storage_key lower_hex (ne_pack_id e)) \<noteq> None"
proof -
  obtain q s' r' where q: "store_session wit_lib wit_system ''s'' 4 wit_stores ([], wit_repository) = (q, (s', r'))"
    by (metis prod_cases3)
  obtain ids where ids: "q = Inr ids" using wit_names_pack q by (cases q) simp_all
  note run = q [unfolded ids]
  obtain w where w: "rp_write_session r' = Some w"
    using wit_names_pack run by (cases "rp_write_session r'") simp_all
  obtain d where d: "ws_index_delta w = Some d" using wit_names_pack run w by (cases "ws_index_delta w") simp_all
  obtain e es where "dl_new_entries d = e # es" using wit_names_pack run w d by (cases "dl_new_entries d") simp_all
  then have e: "e \<in> set (dl_new_entries d)" by simp
  have c: "client_storage (sy_storage wit_system) map_of plain_key"
    using mem_client.client_storage_axioms mem.storage_contract_axioms by (simp add: wit_system_def client_storage_def)
  have y: "quiet map_of wit_system" by (simp add: quiet_def wit_system_def io_return_def)
  have p: "pack_keys_valid wit_lib plain_key"
    using pack_key_plain by (auto simp: pack_keys_valid_def wit_lib_def pack_id_compute_def wit_b2_def)
  have j: "journals_valid wit_lib plain_key" by (simp add: journals_valid_def wit_lib_def)
  from flushed_packs_stored [OF c y p j run w d e] show ?thesis using run w d e by (auto simp: wit_lib_def)
qed

end
