(* ===== verification/Commit.thy ===== *)
theory Commit
  imports Reading Durability
begin

text \<open>
  The list of snapshots and the commit of a session: the local snapshot list cache
  (\<open>vykar-core/src/repo/snapshot_cache.rs\<close>) and, of \<open>repo/mod.rs\<close>, the local caches derived from
  the index, \<open>save_state\<close>, and \<open>commit_concurrent_session\<close> with its fast path through the local
  copy of the index.

  The stages of a commit are reported to a progress callback and timed for the log; both are left
  out.  The encodings of \<open>rmp_serde\<close> are the fields of \<open>snap_lib\<close>.
\<close>

section \<open>Snapshots\<close>

record snapshot_stats =
  ss_nfiles :: u64
  ss_original_size :: u64
  ss_compressed_size :: u64
  ss_deduplicated_size :: u64
  ss_errors :: u64

record chunker_config =
  ck_min_size :: u32
  ck_avg_size :: u32
  ck_max_size :: u32

record snapshot_meta =
  sm_name :: string
  sm_hostname :: string
  sm_username :: string
  sm_time :: int
  sm_time_end :: int
  sm_chunker_params :: chunker_config
  sm_comment :: string
  sm_item_ptrs :: "chunk_id list"
  sm_stats :: snapshot_stats
  sm_source_label :: string
  sm_source_paths :: "string list"
  sm_label :: string

record snap_lib =
  sb_meta_from_slice :: "bytes \<Rightarrow> snapshot_meta result"
  sb_next_item :: "bytes \<Rightarrow> (item \<times> bytes) result"
  sb_list_to_vec :: "(string, snapshot_entry) hmap \<Rightarrow> bytes result"
  sb_list_from_slice :: "bytes \<Rightarrow> (string, snapshot_entry) hmap result"
  sb_files_to_vec :: "file_cache \<Rightarrow> bytes result"

section \<open>The snapshot list cache\<close>

definition SNAPSHOT_CACHE_CONTEXT :: bytes where
  "SNAPSHOT_CACHE_CONTEXT = str_bytes ''snapshot_cache''"

type_synonym snapshot_list_cache = "(string, snapshot_entry) hmap"

definition snapshot_cache_load :: "repo_lib \<Rightarrow> snap_lib \<Rightarrow> bytes option \<Rightarrow> snapshot_list_cache" where
  "snapshot_cache_load lib sn file =
     (case file of
        None \<Rightarrow> []
      | Some d \<Rightarrow>
          (case unpack_object_expect_with_context d SnapshotCache SNAPSHOT_CACHE_CONTEXT (rl_crypto lib) of
             Inl _ \<Rightarrow> []
           | Inr plaintext \<Rightarrow>
               (case sb_list_from_slice sn plaintext of Inl _ \<Rightarrow> [] | Inr cache \<Rightarrow> cache)))"

definition snapshot_cache_save ::
  "repo_lib \<Rightarrow> snap_lib \<Rightarrow> 's system \<Rightarrow> snapshot_list_cache \<Rightarrow> ('s, unit) repo_io" where
  "snapshot_cache_save lib sn y cache =
     (case sb_list_to_vec sn cache of
        Inl e \<Rightarrow> io_fail e
      | Inr plaintext \<Rightarrow>
          io_bind (draw (sy_nonce y)) (\<lambda>nonce.
            case pack_object_with_context nonce SnapshotCache SNAPSHOT_CACHE_CONTEXT plaintext (rl_crypto lib) of
              Inl e \<Rightarrow> io_fail e
            | Inr packed \<Rightarrow> on_store (sy_cache_write y ''snapshot_list'' packed)))"

definition cache_to_entries :: "snapshot_list_cache \<Rightarrow> snapshot_entry list" where
  "cache_to_entries cache = sort_key sn_time (map snd cache)"

definition remote_snapshot_ids :: "string list \<Rightarrow> (string, string) hmap" where
  "remote_snapshot_ids remote_keys =
     hm_collect (List.map_filter (\<lambda>key.
       case strip_prefix_str key ''snapshots/'' of
         None \<Rightarrow> None | Some id_hex \<Rightarrow> if id_hex = [] then None else Some (id_hex, key)) remote_keys)"

definition meta_entry :: "snapshot_id \<Rightarrow> snapshot_meta \<Rightarrow> snapshot_entry" where
  "meta_entry i m =
     \<lparr>sn_name = sm_name m, sn_id = i, sn_time = sm_time m, sn_source_label = sm_source_label m,
      sn_label = sm_label m, sn_source_paths = sm_source_paths m, sn_hostname = sm_hostname m\<rparr>"

definition decode_snapshot_meta :: "repo_lib \<Rightarrow> snap_lib \<Rightarrow> snapshot_id \<Rightarrow> bytes \<Rightarrow> snapshot_meta result" where
  "decode_snapshot_meta lib sn i blob =
     rbind (unpack_object_expect_with_context blob SnapshotMeta (snapshot_bytes i) (rl_crypto lib))
       (\<lambda>meta_bytes. sb_meta_from_slice sn meta_bytes)"

text \<open>One snapshot on the storage that is not in the cache.  Messages leave out the text of the error
  they wrap.\<close>

definition load_new_entry ::
  "repo_lib \<Rightarrow> snap_lib \<Rightarrow> 's storage_backend \<Rightarrow> bool \<Rightarrow> string \<Rightarrow> string \<Rightarrow> snapshot_list_cache \<Rightarrow>
   ('s, vykar_error, snapshot_list_cache) io" where
  "load_new_entry lib sn b strict_io id_hex storage_key cache =
     (case snapshot_id_from_hex (rl_hex lib) id_hex of
        Inl _ \<Rightarrow> io_return cache
      | Inr snapshot_id \<Rightarrow>
          io_bind (io_try (be_get b storage_key)) (\<lambda>got.
            case got of
              Inr (Some blob) \<Rightarrow>
                (case decode_snapshot_meta lib sn snapshot_id blob of
                   Inl _ \<Rightarrow> io_return cache
                 | Inr meta \<Rightarrow> io_return (hm_insert id_hex (meta_entry snapshot_id meta) cache))
            | Inr None \<Rightarrow>
                if strict_io then io_fail (Other (''snapshot '' @ id_hex @ '' listed but not found (strict I/O mode)''))
                else io_return cache
            | Inl e \<Rightarrow>
                if strict_io then io_fail (Other (''failed to fetch snapshot '' @ id_hex @ '': (strict I/O mode)''))
                else io_return cache))"

fun load_new_entries ::
  "repo_lib \<Rightarrow> snap_lib \<Rightarrow> 's storage_backend \<Rightarrow> bool \<Rightarrow> (string \<times> string) list \<Rightarrow> snapshot_list_cache \<Rightarrow>
   ('s, vykar_error, snapshot_list_cache) io" where
  "load_new_entries lib sn b strict_io [] cache = io_return cache"
| "load_new_entries lib sn b strict_io ((id_hex, key) # ids) cache =
     (if hm_contains cache id_hex then load_new_entries lib sn b strict_io ids cache
      else io_bind (load_new_entry lib sn b strict_io id_hex key cache)
             (load_new_entries lib sn b strict_io ids))"

definition refresh_snapshot_cache ::
  "repo_lib \<Rightarrow> snap_lib \<Rightarrow> 's system \<Rightarrow> bool \<Rightarrow> ('s, snapshot_entry list) repo_io" where
  "refresh_snapshot_cache lib sn y strict_io =
     io_bind (read_cache_file y ''snapshot_list'') (\<lambda>file.
     io_bind (on_store (be_list (sy_storage y) ''snapshots/'')) (\<lambda>remote_keys.
       let remote_ids = remote_snapshot_ids remote_keys;
           cached = hm_retain (\<lambda>id_hex _. hm_contains remote_ids id_hex) (snapshot_cache_load lib sn file)
       in io_bind (on_store (load_new_entries lib sn (sy_storage y) strict_io remote_ids cached)) (\<lambda>cache.
          io_bind (io_try (snapshot_cache_save lib sn y cache)) (\<lambda>_.
            io_return (cache_to_entries cache)))))"

definition refresh_snapshot_list :: "repo_lib \<Rightarrow> snap_lib \<Rightarrow> 's system \<Rightarrow> ('s, unit) repo_io" where
  "refresh_snapshot_list lib sn y =
     io_bind (refresh_snapshot_cache lib sn y True) (\<lambda>entries.
     io_bind (draw (sy_utc y)) (\<lambda>now.
       modify_ws (\<lambda>r. r\<lparr>rp_manifest := from_snapshot_entries now entries\<rparr>)))"

section \<open>Local caches\<close>

definition save_file_cache_if_dirty :: "repo_lib \<Rightarrow> snap_lib \<Rightarrow> 's system \<Rightarrow> ('s, unit) repo_io" where
  "save_file_cache_if_dirty lib sn y =
     io_bind get_ws (\<lambda>r.
       if \<not> rp_file_cache_dirty r then io_return ()
       else io_bind (draw (sy_nonce y)) (\<lambda>nonce.
         case file_cache_save (sb_files_to_vec sn) (rl_crypto lib) nonce (rp_file_cache r) of
           Inl e \<Rightarrow> io_fail e
         | Inr packed \<Rightarrow>
             io_bind (on_store (sy_cache_write y ''filecache'' packed)) (\<lambda>_.
               modify_ws (\<lambda>r. r\<lparr>rp_file_cache_dirty := False\<rparr>))))"

text \<open>A cache that is built from the full cache of the current generation.\<close>

definition derive_cache ::
  "'s system \<Rightarrow> (bytes option \<Rightarrow> u64 \<Rightarrow> bytes result) \<Rightarrow> string \<Rightarrow> u64 \<Rightarrow> ('s, unit) repo_io" where
  "derive_cache y build file generation =
     io_bind (read_cache_file y ''full_index_cache'') (\<lambda>full.
       case build full generation of
         Inl e \<Rightarrow> io_fail e
       | Inr data \<Rightarrow> on_store (sy_cache_write y file data))"

definition rebuild_local_caches :: "'s system \<Rightarrow> bool \<Rightarrow> ('s, unit) repo_io" where
  "rebuild_local_caches y full_cache_fresh =
     io_bind get_ws (\<lambda>r.
     io_bind (if full_cache_fresh then io_return ()
              else try_unit (on_store (sy_cache_write y ''full_index_cache''
                     (build_full_index_cache_to_path (rp_chunk_index r) (rp_index_generation r))))) (\<lambda>_.
     io_bind (try_unit (derive_cache y build_dedup_cache_from_full_cache ''dedup_cache''
                (rp_index_generation r))) (\<lambda>_.
       try_unit (derive_cache y build_restore_cache_from_full_cache ''restore_cache''
                (rp_index_generation r)))))"

text \<open>The index from the local full cache, or else from the storage.\<close>

definition hydrate_chunk_index :: "repo_lib \<Rightarrow> 's system \<Rightarrow> ('s, unit) repo_io" where
  "hydrate_chunk_index lib y =
     io_bind get_ws (\<lambda>r.
     io_bind (read_cache_file y ''full_index_cache'') (\<lambda>full.
     io_bind (case load_chunk_index_from_full_cache_path full (rp_index_generation r) of
                Inr idx \<Rightarrow> io_return idx
              | Inl _ \<Rightarrow> reload_full_index lib y) (\<lambda>idx.
       modify_ws (\<lambda>r. r\<lparr>rp_chunk_index := idx\<rparr>))))"

section \<open>Saving without a concurrent session\<close>

text \<open>Taking the delta out of the session; the deduplication structures go with it.\<close>

definition take_delta :: "write_session \<Rightarrow> index_delta option \<times> write_session" where
  "take_delta w =
     (ws_index_delta w,
      w\<lparr>ws_tiered_dedup := None, ws_index_delta := None,
        ws_dedup_index := (if ws_index_delta w = None then ws_dedup_index w else None)\<rparr>)"

definition rebuild_from_full_cache :: "'s system \<Rightarrow> ('s, bool) repo_io" where
  "rebuild_from_full_cache y =
     io_bind get_ws (\<lambda>r.
     io_bind (read_cache_file y ''full_index_cache'') (\<lambda>full.
       if mmap_full_open_path full (rp_index_generation r) = None then io_return False
       else
         io_bind (io_try (derive_cache y build_dedup_cache_from_full_cache ''dedup_cache'' (rp_index_generation r)))
           (\<lambda>dedup_ok.
         io_bind (io_try (derive_cache y build_restore_cache_from_full_cache ''restore_cache'' (rp_index_generation r)))
           (\<lambda>restore_ok.
           if isl dedup_ok \<or> isl restore_ok then io_return False
           else io_bind (modify_ws (\<lambda>r. r\<lparr>rp_rebuild_dedup_cache := False\<rparr>)) (\<lambda>_. io_return True)))))"

definition apply_write_session :: "repo_lib \<Rightarrow> 's system \<Rightarrow> ('s, bool) repo_io" where
  "apply_write_session lib y =
     io_bind (flush_packs lib y) (\<lambda>_.
     io_bind need_ws (\<lambda>w.
       case take_delta w of (delta, w') \<Rightarrow>
         io_bind (put_ws w') (\<lambda>_.
           case delta of
             None \<Rightarrow> io_return False
           | Some d \<Rightarrow>
               if \<not> delta_is_empty d then
                 io_bind (reload_full_index lib y) (\<lambda>full_index.
                 io_bind (modify_ws (\<lambda>r. r\<lparr>rp_chunk_index := delta_apply_to d full_index,
                    rp_index_dirty := True\<rparr>)) (\<lambda>_. io_return False))
               else io_bind get_ws (\<lambda>r.
                 if rp_rebuild_dedup_cache r then
                   io_bind (rebuild_from_full_cache y) (\<lambda>rebuilt.
                     if rebuilt then io_return True
                     else io_bind (reload_full_index lib y) (\<lambda>idx.
                       io_bind (modify_ws (\<lambda>r. r\<lparr>rp_chunk_index := idx\<rparr>)) (\<lambda>_. io_return False)))
                 else io_return True))))"

definition save_state :: "repo_lib \<Rightarrow> snap_lib \<Rightarrow> 's system \<Rightarrow> ('s, unit) repo_io" where
  "save_state lib sn y =
     io_bind get_ws (\<lambda>r.
     io_bind (if rp_write_session r \<noteq> None then apply_write_session lib y else io_return False) (\<lambda>deferred.
     io_bind get_ws (\<lambda>r1.
     io_bind (if rp_index_dirty r1
              then io_bind (draw (sy_next_u64 y)) (\<lambda>g.
                   io_bind (modify_ws (\<lambda>r. r\<lparr>rp_index_generation := g\<rparr>)) (\<lambda>_. persist_index lib y))
              else io_return ()) (\<lambda>_.
     io_bind get_ws (\<lambda>r2.
     io_bind (if rp_rebuild_dedup_cache r2
              then io_bind (rebuild_local_caches y False) (\<lambda>_.
                   modify_ws (\<lambda>r. r\<lparr>rp_rebuild_dedup_cache := False\<rparr>))
              else io_return ()) (\<lambda>_.
     io_bind (io_try (save_file_cache_if_dirty lib sn y)) (\<lambda>fc_result.
     io_bind (if deferred then hydrate_chunk_index lib y else io_return ()) (\<lambda>_.
       case fc_result of
         Inl e \<Rightarrow> io_fail e
       | Inr _ \<Rightarrow> modify_ws (\<lambda>r. r\<lparr>rp_write_session := None\<rparr>)))))))))"

section \<open>The commit of a concurrent session\<close>

definition serialize_full_cache_as_index_blob ::
  "repo_lib \<Rightarrow> bytes \<Rightarrow> mmap_full_index_cache \<Rightarrow> u64 \<Rightarrow> bytes result" where
  "serialize_full_cache_as_index_blob lib nonce cache generation =
     pack_object_streaming_with_context nonce ChunkIndexObj INDEX_OBJECT_CONTEXT (rl_crypto lib)
       (write_index_plaintext lib \<lparr>ib_generation = generation, ib_chunks = full_cache_index cache\<rparr>)"

text \<open>The part of the fast path after its checks: merge, reopen, serialise and write.\<close>

definition merge_and_write ::
  "repo_lib \<Rightarrow> 's system \<Rightarrow> mmap_full_index_cache \<Rightarrow> index_delta \<Rightarrow> ('s, unit) repo_io" where
  "merge_and_write lib y old_cache delta =
     io_bind (draw (sy_next_u64 y)) (\<lambda>g.
     io_bind (modify_ws (\<lambda>r. r\<lparr>rp_index_generation := g\<rparr>)) (\<lambda>_.
     io_bind (on_store (sy_cache_write y ''full_index_cache'' (merge_full_index_cache old_cache delta g))) (\<lambda>_.
     io_bind (read_cache_file y ''full_index_cache'') (\<lambda>full.
       case mmap_full_open_path full g of
         None \<Rightarrow> io_fail (Other ''failed to reopen merged cache'')
       | Some merged \<Rightarrow>
           io_bind (draw (sy_nonce y)) (\<lambda>nonce.
             case serialize_full_cache_as_index_blob lib nonce merged g of
               Inl e \<Rightarrow> io_fail e
             | Inr index_packed \<Rightarrow>
                 io_bind (check_lock_fence lib y) (\<lambda>_.
                 io_bind (on_store (be_put (sy_storage y) ''index'' index_packed)) (\<lambda>_.
                 io_bind (io_try (on_store (be_put (sy_storage y) ''index.gen'' (u64_to_le_bytes g)))) (\<lambda>_.
                 io_bind (modify_ws (\<lambda>r. r\<lparr>rp_index_dirty := False\<rparr>)) (\<lambda>_.
                   try_unit (on_store (sy_cache_write y ''index_blob'' (index_blob_file index_packed g)))))))))))) "

definition try_fast_path_commit ::
  "repo_lib \<Rightarrow> 's system \<Rightarrow> bytes \<Rightarrow> index_delta \<Rightarrow> ('s, bool) repo_io" where
  "try_fast_path_commit lib y raw_blob delta =
     io_bind get_ws (\<lambda>r.
     io_bind (read_cache_file y ''index_blob'') (\<lambda>blob_file.
       case read_index_blob_cache blob_file (rp_index_generation r) of
         None \<Rightarrow> io_return False
       | Some cached_blob \<Rightarrow>
           if raw_blob \<noteq> cached_blob then io_return False
           else io_bind (read_cache_file y ''full_index_cache'') (\<lambda>full.
             case mmap_full_open_path full (rp_index_generation r) of
               None \<Rightarrow> io_return False
             | Some old_cache \<Rightarrow>
                 io_bind (on_store (verify_delta_packs lib (sy_storage y) delta)) (\<lambda>_.
                 io_bind (merge_and_write lib y old_cache delta) (\<lambda>_. io_return True)))))"

text \<open>The slow path: decode the index just fetched, reconcile, verify, apply and write.\<close>

definition slow_path_commit ::
  "repo_lib \<Rightarrow> 's system \<Rightarrow> bytes option \<Rightarrow> index_delta \<Rightarrow> ('s, unit) repo_io" where
  "slow_path_commit lib y raw_blob delta =
     (case (case raw_blob of
              Some raw \<Rightarrow> rbind (decode_index_blob_full lib raw) (\<lambda>blob. Inr (ib_chunks blob))
            | None \<Rightarrow> Inr ci_new) of
        Inl e \<Rightarrow> io_fail e
      | Inr fresh_index \<Rightarrow>
          (case delta_reconcile delta fresh_index of
             Inl e \<Rightarrow> io_fail e
           | Inr reconciled \<Rightarrow>
               io_bind (on_store (verify_delta_packs lib (sy_storage y) reconciled)) (\<lambda>_.
               io_bind (modify_ws (\<lambda>r. r\<lparr>rp_chunk_index := delta_apply_to reconciled fresh_index,
                  rp_index_dirty := True\<rparr>)) (\<lambda>_.
               io_bind (draw (sy_next_u64 y)) (\<lambda>g.
               io_bind (modify_ws (\<lambda>r. r\<lparr>rp_index_generation := g\<rparr>)) (\<lambda>_.
                 persist_index lib y))))))"

text \<open>Step 5; the result tells whether the index in memory is loaded after the commit point.\<close>

definition commit_delta :: "repo_lib \<Rightarrow> 's system \<Rightarrow> index_delta option \<Rightarrow> ('s, bool) repo_io" where
  "commit_delta lib y delta =
     (case delta of
        None \<Rightarrow> io_return False
      | Some d \<Rightarrow>
          if \<not> delta_is_empty d then
            io_bind (on_store (be_get (sy_storage y) ''index'')) (\<lambda>raw_blob.
            io_bind (case raw_blob of
                       Some raw_data \<Rightarrow> try_fast_path_commit lib y raw_data d
                     | None \<Rightarrow> io_return False) (\<lambda>fast.
              if fast then io_return True
              else io_bind (slow_path_commit lib y raw_blob d) (\<lambda>_. io_return False)))
          else io_bind get_ws (\<lambda>r.
            if rp_rebuild_dedup_cache r then
              io_bind (reload_full_index lib y) (\<lambda>idx.
              io_bind (modify_ws (\<lambda>r. r\<lparr>rp_chunk_index := idx\<rparr>)) (\<lambda>_. io_return False))
            else io_return False))"

definition merge_file_cache :: "file_cache \<Rightarrow> repository \<Rightarrow> repository" where
  "merge_file_cache new_file_cache r =
     (let sections = fst (take_active_sections new_file_cache) in
      if sections = [] then r
      else r\<lparr>rp_file_cache := fold (\<lambda>(k, s) c. merge_section k s c) sections (rp_file_cache r),
             rp_file_cache_dirty := True\<rparr>)"

text \<open>Step 7 and 8: nothing after the commit point but the index in memory can fail.\<close>

definition after_commit_point ::
  "repo_lib \<Rightarrow> snap_lib \<Rightarrow> 's system \<Rightarrow> snapshot_entry \<Rightarrow> file_cache \<Rightarrow> bool \<Rightarrow> ('s, unit) repo_io" where
  "after_commit_point lib sn y snapshot_entry new_file_cache deferred =
     io_bind (draw (sy_utc y)) (\<lambda>now.
     io_bind (modify_ws (\<lambda>r. r\<lparr>rp_manifest := (rp_manifest r)\<lparr>mf_timestamp := now,
                mf_snapshots := mf_snapshots (rp_manifest r) @ [snapshot_entry]\<rparr>\<rparr>)) (\<lambda>_.
     io_bind (if deferred then hydrate_chunk_index lib y else io_return ()) (\<lambda>_.
     io_bind (modify_ws (merge_file_cache new_file_cache)) (\<lambda>_.
     io_bind (try_unit (save_file_cache_if_dirty lib sn y)) (\<lambda>_.
     io_bind get_ws (\<lambda>r.
     io_bind (if rp_rebuild_dedup_cache r
              then io_bind (rebuild_local_caches y deferred) (\<lambda>_.
                   modify_ws (\<lambda>r. r\<lparr>rp_rebuild_dedup_cache := False\<rparr>))
              else io_return ()) (\<lambda>_.
     io_bind (with_ws (cleanup_recovered_indices y)) (\<lambda>_.
       modify_ws (\<lambda>r. r\<lparr>rp_write_session := None\<rparr>)))))))))"

definition commit_concurrent_session ::
  "repo_lib \<Rightarrow> snap_lib \<Rightarrow> 's system \<Rightarrow> snapshot_entry \<Rightarrow> bytes \<Rightarrow> file_cache \<Rightarrow> ('s, unit) repo_io" where
  "commit_concurrent_session lib sn y snapshot_entry snapshot_packed new_file_cache =
     io_bind (flush_packs lib y) (\<lambda>_.
     io_bind need_ws (\<lambda>w.
       case take_delta w of (delta, w') \<Rightarrow>
         io_bind (put_ws w') (\<lambda>_.
         io_bind (refresh_snapshot_list lib sn y) (\<lambda>_.
         io_bind get_ws (\<lambda>r.
           if find_snapshot (rp_manifest r) (sn_name snapshot_entry) \<noteq> None
           then io_fail (SnapshotAlreadyExists (sn_name snapshot_entry))
           else
             io_bind (commit_delta lib y delta) (\<lambda>deferred.
             io_bind get_ws (\<lambda>r1.
             io_bind (if rp_index_dirty r1
                      then io_bind (draw (sy_next_u64 y)) (\<lambda>g.
                           io_bind (modify_ws (\<lambda>r. r\<lparr>rp_index_generation := g\<rparr>)) (\<lambda>_. persist_index lib y))
                      else io_return ()) (\<lambda>_.
             io_bind (check_lock_fence lib y) (\<lambda>_.
             io_bind (on_store (be_put (sy_storage y)
                        (snapshot_storage_key (rl_hex lib) (sn_id snapshot_entry)) snapshot_packed)) (\<lambda>_.
               after_commit_point lib sn y snapshot_entry new_file_cache deferred))))))))))"

end
