(* ===== verification/Persistence.thy ===== *)
theory Persistence
  imports Commit
begin

text \<open>
  What saving a repository leaves in the storage.  \<open>stored_index\<close> is the index a client that opens
  the repository would decode, \<open>chunk_blob\<close> the bytes such a client would read for a chunk.  The
  locale \<open>repo_machine\<close> collects what the commands rely on: the storage contract, keys of a
  repository that are valid for the backend, an encryption engine and encodings that read back what
  they wrote.  \<open>save_outcomes\<close> describes \<open>save_state\<close> for every way it can end.
\<close>

section \<open>What a client reads\<close>

definition stored_index :: "repo_lib \<Rightarrow> (string \<rightharpoonup> bytes) \<Rightarrow> (chunk_id \<rightharpoonup> chunk_index_entry) option" where
  "stored_index lib m =
     (case m ''index'' of
        None \<Rightarrow> Some Map.empty
      | Some d \<Rightarrow> (case decode_index_blob_full lib d of Inl _ \<Rightarrow> None | Inr blob \<Rightarrow> Some (map_of (ib_chunks blob))))"

definition located :: "repo_lib \<Rightarrow> (string \<rightharpoonup> bytes) \<Rightarrow> chunk_index_entry \<Rightarrow> bytes option" where
  "located lib m e =
     (case m (pack_storage_key (rl_hex lib) (ce_pack_id e)) of
        None \<Rightarrow> None
      | Some d \<Rightarrow>
          if unat (ce_pack_offset e) + unat (ce_stored_size e) \<le> length d
          then Some (take (unat (ce_stored_size e)) (drop (unat (ce_pack_offset e)) d)) else None)"

definition chunk_blob ::
  "repo_lib \<Rightarrow> (string \<rightharpoonup> bytes) \<Rightarrow> (chunk_id \<rightharpoonup> chunk_index_entry) \<Rightarrow> chunk_id \<Rightarrow> bytes option" where
  "chunk_blob lib m f i = (case f i of None \<Rightarrow> None | Some e \<Rightarrow> located lib m e)"

definition MAX_INDEX_ENTRIES :: nat where "MAX_INDEX_ENTRIES = 2 ^ 25"

text \<open>The fence of a maintenance command watches a lock object.\<close>

definition fence_ok :: "repository \<Rightarrow> bool" where
  "fence_ok r = (case rp_lock_fence r of None \<Rightarrow> True | Some (k, _) \<Rightarrow> is_lock_key k)"

text \<open>Steps that change at most the objects under \<open>K\<close> and nothing the commands decide by.\<close>

definition frame ::
  "string set \<Rightarrow> ('s \<Rightarrow> string \<rightharpoonup> bytes) \<Rightarrow> 's \<times> repository \<Rightarrow> 's \<times> repository \<Rightarrow> bool" where
  "frame K c st st' \<longleftrightarrow> (fence_ok (snd st) \<longrightarrow> fence_ok (snd st')
     \<and> (\<forall>k. k \<notin> K \<longrightarrow> c (fst st') k = c (fst st) k)
     \<and> rp_chunk_index (snd st') = rp_chunk_index (snd st) \<and> rp_write_session (snd st') = rp_write_session (snd st)
     \<and> rp_config (snd st') = rp_config (snd st) \<and> rp_manifest (snd st') = rp_manifest (snd st)
     \<and> rp_index_dirty (snd st') = rp_index_dirty (snd st))"

lemma frame_order [simp, intro]: "reflp (frame K c)" "transp (frame K c)"
  by (auto simp: frame_def intro!: reflpI transpI)

lemma frame_mono: "io_rel (frame K c) m \<Longrightarrow> K \<subseteq> K' \<Longrightarrow> io_rel (frame K' c) m"
  unfolding io_rel_def frame_def by blast

lemma frame_prims:
  "io_rel (frame K c) get_ws"
  "(\<And>s. c (snd (f s)) = c s) \<Longrightarrow> io_rel (frame K c) (draw f)"
  "(\<And>s r s' k. m s = (r, s') \<Longrightarrow> k \<notin> K \<Longrightarrow> c s' k = c s k) \<Longrightarrow> io_rel (frame K c) (on_store m)"
  "(\<And>r. fence_ok r \<Longrightarrow> fence_ok (g r) \<and> rp_chunk_index (g r) = rp_chunk_index r \<and> rp_write_session (g r) = rp_write_session r
     \<and> rp_config (g r) = rp_config r \<and> rp_manifest (g r) = rp_manifest r \<and> rp_index_dirty (g r) = rp_index_dirty r)
   \<Longrightarrow> io_rel (frame K c) (modify_ws g)"
proof -
  show "io_rel (frame K c) (draw f)" if "\<And>s. c (snd (f s)) = c s" for f :: "'a \<Rightarrow> 'b \<times> 'a"
  proof (rule io_relI)
    fix st st' :: "'a \<times> repository" and r assume "draw f st = ((r :: vykar_error + 'b), st')"
    then have "snd st' = snd st" and "c (fst st') = c (fst st)"
      using that [of "fst st"] by (auto simp: draw_def split: prod.splits)
    then show "frame K c st st'" by (simp add: frame_def)
  qed
qed (auto simp: io_rel_def frame_def get_ws_def on_store_def modify_ws_def split: prod.splits)

lemma frame_try_unit: "io_rel (frame K c) m \<Longrightarrow> io_rel (frame K c) (try_unit m)"
  unfolding try_unit_def by (intro io_rel_intros frame_order)

lemma frame_reader:
  "io_rel (frame K c) (read_cache_file y file)"
  unfolding read_cache_file_def by (rule frame_prims(2)) simp

text \<open>Running a computation one call at a time.\<close>

lemma run_bind_simps:
  "io_bind (draw f) g (s, w) = (case f s of (a, s1) \<Rightarrow> g a (s1, w))"
  "io_bind (on_store m) k (s, w) = (case m s of (Inl e, s1) \<Rightarrow> (Inl e, (s1, w)) | (Inr a, s1) \<Rightarrow> k a (s1, w))"
  "io_bind (io_try (on_store m)) h (s, w) = (case m s of (q, s1) \<Rightarrow> h q (s1, w))"
  by (simp_all add: io_bind_def draw_def on_store_def io_try_def split: prod.splits sum.splits)

lemma io_bind_assoc: "io_bind (io_bind m f) g = io_bind m (\<lambda>a. io_bind (f a) g)"
  by (auto simp: io_bind_def fun_eq_iff split: prod.splits sum.splits)

lemma run_bind:
  "m st = (Inr a, st') \<Longrightarrow> io_bind m f st = f a st'"
  "m st = (Inl e, st') \<Longrightarrow> io_bind m f st = (Inl e, st')"
  by (simp_all add: io_bind_def)

lemma index_not_lock: "\<not> is_lock_key ''index''" "\<not> is_lock_key ''index.gen''"
  by (simp_all add: is_lock_key_def starts_with_def LOCKS_PREFIX_def)

section \<open>A repository on a machine\<close>

locale repo_machine = client_storage b contents valid_key
  for b :: "'s storage_backend" and contents valid_key +
  fixes lib :: repo_lib and y :: "'s system"
  assumes storage_is: "sy_storage y = b"
    and quiet_machine: "quiet contents y"
    and nonce_length: "length (fst (sy_nonce y s)) = 12"
    and index_key_valid: "valid_key ''index''" "valid_key ''index.gen''"
    and pack_key_valid: "length (pack_bytes p) = 32 \<Longrightarrow> valid_key (pack_storage_key (rl_hex lib) p)"
    and hash_length: "length (blake2b_256 (rl_b2 lib) d) = 32"
    and snapshot_key_valid: "length (snapshot_bytes i) = 32 \<Longrightarrow> valid_key (snapshot_storage_key (rl_hex lib) i)"
    and hex_ok: "hex_codec (rl_hex lib)"
    and engine_ok: "crypto_contract (rl_crypto lib)"
    and codecs_ok: "codec_ok (rl_codec lib)"
    and index_serde: "rl_index_to_vec lib blob = Inr v \<Longrightarrow> \<exists>blob'. rl_index_from_slice lib v = Inr blob'
      \<and> ib_generation blob' = ib_generation blob \<and> map_of (ib_chunks blob') = map_of (ib_chunks blob)"
    and index_size: "rl_index_to_vec lib blob = Inr v \<Longrightarrow> length (ib_chunks blob) < MAX_INDEX_ENTRIES \<Longrightarrow>
      length v \<le> MAX_METADATA_DECOMPRESS_SIZE"
begin

lemma draws_quiet:
  "contents (snd (sy_nonce y s)) = contents s" "contents (snd (sy_instant y s)) = contents s"
  "contents (snd (sy_utc y s)) = contents s" "contents (snd (sy_next_u64 y s)) = contents s"
  "contents (snd (sy_cache_write y f d s)) = contents s"
  using quiet_machine by (simp_all add: quiet_def)

lemma draw_frames:
  "io_rel (frame K contents) (draw (sy_nonce y))" "io_rel (frame K contents) (draw (sy_instant y))"
  "io_rel (frame K contents) (draw (sy_utc y))" "io_rel (frame K contents) (draw (sy_next_u64 y))"
  by (rule frame_prims(2), rule draws_quiet)+

lemma cache_write_frame: "io_rel (frame K contents) (on_store (sy_cache_write y f d))"
  by (rule frame_prims(3)) (metis draws_quiet(5) snd_conv)

lemma put_frame: "valid_key k \<Longrightarrow> io_rel (frame {k} contents) (on_store (be_put b k d))"
  by (rule frame_prims(3)) (use put_other in blast)

lemma frame_derive: "io_rel (frame K contents) (derive_cache y build file g)"
  unfolding derive_cache_def by (intro io_rel_intros frame_order frame_reader cache_write_frame)

lemma frame_rebuild: "io_rel (frame K contents) (rebuild_local_caches y fresh)"
  unfolding rebuild_local_caches_def
  by (intro io_rel_intros frame_order frame_prims(1) frame_try_unit frame_derive cache_write_frame)

lemma frame_file_cache: "io_rel (frame K contents) (save_file_cache_if_dirty lib sn y)"
  unfolding save_file_cache_if_dirty_def
  by (intro io_rel_intros frame_order frame_prims(1) draw_frames(1) cache_write_frame frame_prims(4))
     (simp add: fence_ok_def)

lemma validity_frame: "verify_lock_validity b k t now s = (r, s') \<Longrightarrow> contents s' = contents s"
  by (auto simp: verify_lock_validity_def io_bind_def io_return_def io_fail_def Let_def
      split: prod.splits sum.splits if_splits dest: exists_frame)

lemma fence_frame_store:
  assumes "lock_fence lk h b key t fr s = (r, s')" and "is_lock_key key" and "k \<noteq> key"
  shows "contents s' k = contents s k"
proof -
  obtain q s1 where q: "verify_lock_validity b key t (fr_verify fr) s = (q, s1)" by fastforce
  have s1: "contents s1 = contents s" by (rule validity_frame [OF q])
  have put: "contents s2 k = contents s1 k" if "be_put b key d s1 = (p, s2)" for d p s2
    by (rule put_other [OF lock_key_valid [OF assms(2)] that assms(3)])
  show ?thesis
    using assms(1) q s1
    by (auto simp: lock_fence_def Let_def io_bind_def io_try_def io_return_def
        split: sum.splits if_splits prod.splits dest: put)
qed

lemma frame_fence: "io_rel (frame {k. is_lock_key k} contents) (check_lock_fence lib y)"
proof (rule io_relI)
  fix st st' :: "'s \<times> repository" and r assume run: "check_lock_fence lib y st = (r, st')"
  obtain s r0 where st: "st = (s, r0)" by (cases st)
  show "frame {k. is_lock_key k} contents st st'"
  proof (cases "rp_lock_fence r0")
    case None
    then show ?thesis using run by (simp add: st check_lock_fence_def io_return_def frame_def)
  next
    case (Some f)
    obtain key t where f: "f = (key, t)" by (cases f)
    obtain t1 s1 t2 s2 t3 s3 where d: "sy_utc y s = (t1, s1)" "sy_utc y s1 = (t2, s2)" "sy_utc y s2 = (t3, s3)"
      by (metis surj_pair)
    have c3: "contents s3 = contents s" using draws_quiet(3) d by (metis snd_conv)
    obtain q s4 where q: "lock_fence (rl_locks lib) (rl_host lib) b key t
        \<lparr>fr_verify = t1, fr_now = t2, fr_utc = t3\<rparr> s3 = (q, s4)" by fastforce
    have fin: "st' = (s4, case q of Inl _ \<Rightarrow> r0 | Inr t' \<Rightarrow> r0\<lparr>rp_lock_fence := Some (key, t')\<rparr>)"
      using run Some d q by (cases q) (auto simp: st f check_lock_fence_def storage_is on_store_def draw_def
          io_bind_def get_ws_def modify_ws_def)
    show ?thesis unfolding frame_def
    proof
      assume "fence_ok (snd st)"
      then have key: "is_lock_key key" by (simp add: st fence_ok_def Some f)
      have "contents s4 k = contents s k" if "\<not> is_lock_key k" for k
        using fence_frame_store [OF q key, of k] that key c3 by auto
      then show "fence_ok (snd st') \<and> (\<forall>k. k \<notin> {k. is_lock_key k} \<longrightarrow> contents (fst st') k = contents (fst st) k)
        \<and> rp_chunk_index (snd st') = rp_chunk_index (snd st) \<and> rp_write_session (snd st') = rp_write_session (snd st)
        \<and> rp_config (snd st') = rp_config (snd st) \<and> rp_manifest (snd st') = rp_manifest (snd st)
        \<and> rp_index_dirty (snd st') = rp_index_dirty (snd st)"
        using key Some f by (cases q) (simp_all add: fin st fence_ok_def)
    qed
  qed
qed

text \<open>The object \<open>persist_index\<close> writes decodes to the index it was made from.\<close>

lemma packed_index_decodes:
  assumes "length nonce = 12" and "length idx < MAX_INDEX_ENTRIES"
    and "pack_object_streaming_with_context nonce ChunkIndexObj INDEX_OBJECT_CONTEXT (rl_crypto lib)
      (write_index_plaintext lib \<lparr>ib_generation = g, ib_chunks = idx\<rparr>) = Inr obj"
  shows "\<exists>blob. decode_index_blob_full lib obj = Inr blob \<and> ib_generation blob = g \<and> map_of (ib_chunks blob) = map_of idx"
proof -
  let ?blob = "\<lparr>ib_generation = g, ib_chunks = idx\<rparr>"
  have "\<exists>buf out. write_index_plaintext lib ?blob buf = Inr out"
    using assms(3) by (auto simp: pack_object_streaming_with_context_def stream_object_def rbind_Inr_iff split: if_splits)
  then obtain v c where v: "rl_index_to_vec lib ?blob = Inr v" and n: "zstd_compressor_new (rl_codec lib) 3 = None"
    and c: "zstd_compress (rl_codec lib) 3 v = Inr c"
    by (auto simp: write_index_plaintext_def rbind_Inr_iff split: option.splits sum.splits)
  have wp: "write_index_plaintext lib ?blob buf = Inr (buf @ (TAG_ZSTD # c))" for buf
    by (simp add: write_index_plaintext_def v n c)
  have "length v \<le> MAX_METADATA_DECOMPRESS_SIZE" using index_size [OF v] assms(2) by simp
  then have dec: "decompress_metadata (rl_codec lib) (TAG_ZSTD # c) = Inr v"
    using zstd_stream_ok [OF codecs_ok c] by (simp add: TAG_ZSTD_def TAG_NONE_def TAG_LZ4_def)
  obtain blob' where "rl_index_from_slice lib v = Inr blob'" "ib_generation blob' = g"
    "map_of (ib_chunks blob') = map_of idx" using index_serde [OF v] by auto
  moreover have "unpack_object_expect_with_context obj ChunkIndexObj INDEX_OBJECT_CONTEXT (rl_crypto lib) = Inr (TAG_ZSTD # c)"
    using crypto_contract.unpack_streamed_context [OF engine_ok assms(1) wp assms(3)]
    by (simp add: unpack_object_expect_with_context_def)
  ultimately show ?thesis by (simp add: decode_index_blob_full_def dec del: decompress_metadata.simps)
qed

text \<open>Every way \<open>persist_index\<close> can end.\<close>

lemma persist_outcomes:
  assumes run: "persist_index lib y (s, r) = (res, (s', r'))" and fence: "fence_ok r"
    and len: "length (rp_chunk_index r) < MAX_INDEX_ENTRIES"
  shows "(\<forall>k. k \<notin> {''index'', ''index.gen''} \<and> \<not> is_lock_key k \<longrightarrow> contents s' k = contents s k)
    \<and> (stored_index lib (contents s') = stored_index lib (contents s)
        \<or> stored_index lib (contents s') = Some (map_of (rp_chunk_index r)))
    \<and> (\<not> isl res \<longrightarrow> stored_index lib (contents s') = Some (map_of (rp_chunk_index r)) \<and> \<not> rp_index_dirty r')
    \<and> fence_ok r' \<and> rp_chunk_index r' = rp_chunk_index r \<and> rp_write_session r' = rp_write_session r
    \<and> rp_config r' = rp_config r \<and> rp_manifest r' = rp_manifest r"
proof -
  let ?idx = "rp_chunk_index r" and ?g = "rp_index_generation r"
  obtain nonce s1 where n: "sy_nonce y s = (nonce, s1)" by fastforce
  have c1: "contents s1 = contents s" and l: "length nonce = 12"
    using draws_quiet(1) [of s] nonce_length [of s] by (simp_all add: n)
  let ?p = "pack_object_streaming_with_context nonce ChunkIndexObj INDEX_OBJECT_CONTEXT (rl_crypto lib)
      (write_index_plaintext lib \<lparr>ib_generation = ?g, ib_chunks = ?idx\<rparr>)"
  have keep: "stored_index lib m = stored_index lib m'" if "m ''index'' = m' ''index''" for m m' :: "string \<rightharpoonup> bytes"
    by (simp add: stored_index_def that)
  show ?thesis
  proof (cases ?p)
    case (Inl e)
    then have "res = Inl e" "s' = s1" "r' = r"
      using run by (simp_all add: persist_index_def run_bind_simps n io_fail_def)
    then show ?thesis using c1 fence by simp
  next
    case (Inr obj)
    obtain q s2 r2 where q: "check_lock_fence lib y (s1, r) = (q, (s2, r2))" by (metis prod_cases3)
    have f2: "frame {k. is_lock_key k} contents (s1, r) (s2, r2)" by (rule io_relD [OF frame_fence q])
    then have same2: "contents s2 ''index'' = contents s ''index''"
      using fence index_not_lock c1 by (simp add: frame_def)
    show ?thesis
    proof (cases q)
      case (Inl e)
      then have "res = Inl e" "s' = s2" "r' = r2"
        using run q Inr by (simp_all add: persist_index_def run_bind_simps n run_bind)
      then show ?thesis using f2 fence c1 keep [of "contents s2" "contents s"] same2 by (simp add: frame_def)
    next
      case ok: (Inr u)
      obtain p s3 where p: "be_put b ''index'' obj s2 = (p, s3)" by fastforce
      have rest: "contents s3 k = contents s2 k" if "k \<noteq> ''index''" for k
        by (rule put_other [OF index_key_valid(1) p that])
      have dec: "stored_index lib m = Some (map_of ?idx)" if "m ''index'' = Some obj" for m
        using packed_index_decodes [OF l len Inr] that by (auto simp: stored_index_def)
      have f3: "fence_ok r2 \<and> rp_chunk_index r2 = ?idx \<and> rp_write_session r2 = rp_write_session r
          \<and> rp_config r2 = rp_config r \<and> rp_manifest r2 = rp_manifest r
          \<and> (\<forall>k. \<not> is_lock_key k \<longrightarrow> contents s2 k = contents s k)"
        using f2 fence c1 by (simp add: frame_def)
      note unf = persist_index_def run_bind_simps n run_bind(1) [where m = "check_lock_fence lib y", OF q [unfolded ok]] storage_is
      show ?thesis
      proof (cases p)
        case (Inl e)
        then have fin: "res = Inl e" "s' = s3" "r' = r2" using run q Inr ok p by (simp_all add: unf)
        have "contents s3 = contents s2 \<or> contents s3 = (contents s2)(''index'' \<mapsto> obj)"
          using put_err [OF index_key_valid(1)] p Inl by blast
        then have "stored_index lib (contents s3) = stored_index lib (contents s)
            \<or> stored_index lib (contents s3) = Some (map_of ?idx)"
          using keep [of "contents s2" "contents s"] same2 dec [of "contents s3"] by auto
        then show ?thesis using f3 rest by (simp add: fin)
      next
        case pok: (Inr u')
        obtain p4 s4 where p4: "be_put b ''index.gen'' (u64_to_le_bytes ?g) s3 = (p4, s4)" by fastforce
        obtain p5 s5 where p5: "sy_cache_write y ''index_blob'' (index_blob_file obj ?g) s4 = (p5, s5)" by fastforce
        have c5: "contents s5 = contents s4" using draws_quiet(5) p5 by (metis snd_conv)
        have r4: "contents s4 k = contents s3 k" if "k \<noteq> ''index.gen''" for k
          by (rule put_other [OF index_key_valid(2) p4 that])
        have fin: "res = Inr ()" "s' = s5" "r' = r2\<lparr>rp_index_dirty := False\<rparr>"
          using run q Inr ok p pok p4 p5
          by (simp_all add: unf io_return_def)
        have "contents s3 ''index'' = Some obj" using put_ok [OF index_key_valid(1)] p pok by fastforce
        then have "stored_index lib (contents s5) = Some (map_of ?idx)" by (intro dec) (simp add: c5 r4)
        then show ?thesis using f3 rest r4 by (simp add: fin c5 fence_ok_def)
      qed
    qed
  qed
qed

text \<open>Every way \<open>save_state\<close> can end outside a write session.\<close>

lemma save_outcomes:
  assumes run: "save_state lib sn y (s, r) = (res, (s', r'))" and ws: "rp_write_session r = None"
    and fence: "fence_ok r" and len: "length (rp_chunk_index r) < MAX_INDEX_ENTRIES"
  shows "(\<forall>k. k \<notin> {''index'', ''index.gen''} \<and> \<not> is_lock_key k \<longrightarrow> contents s' k = contents s k)
    \<and> (stored_index lib (contents s') = stored_index lib (contents s)
        \<or> stored_index lib (contents s') = Some (map_of (rp_chunk_index r)))
    \<and> (\<not> isl res \<and> rp_index_dirty r \<longrightarrow> stored_index lib (contents s') = Some (map_of (rp_chunk_index r)))
    \<and> (\<not> isl res \<longrightarrow> \<not> rp_index_dirty r')
    \<and> fence_ok r' \<and> rp_chunk_index r' = rp_chunk_index r \<and> rp_write_session r' = None
    \<and> rp_config r' = rp_config r \<and> rp_manifest r' = rp_manifest r"
proof -
  define save where "save = (if rp_index_dirty r
      then io_bind (draw (sy_next_u64 y)) (\<lambda>g. io_bind (modify_ws (\<lambda>r. r\<lparr>rp_index_generation := g\<rparr>)) (\<lambda>_. persist_index lib y))
      else io_return ())"
  define caches where "caches r2 = io_bind (if rp_rebuild_dedup_cache r2
      then io_bind (rebuild_local_caches y False) (\<lambda>_. modify_ws (\<lambda>r. r\<lparr>rp_rebuild_dedup_cache := False\<rparr>))
      else io_return ()) (\<lambda>_. io_try (save_file_cache_if_dirty lib sn y))" for r2 :: repository
  obtain q s1 r1 where q: "save (s, r) = (q, (s1, r1))" by (metis prod_cases3)
  have out: "(\<forall>k. k \<notin> {''index'', ''index.gen''} \<and> \<not> is_lock_key k \<longrightarrow> contents s1 k = contents s k)
    \<and> (stored_index lib (contents s1) = stored_index lib (contents s)
        \<or> stored_index lib (contents s1) = Some (map_of (rp_chunk_index r)))
    \<and> (\<not> isl q \<and> rp_index_dirty r \<longrightarrow> stored_index lib (contents s1) = Some (map_of (rp_chunk_index r)))
    \<and> (\<not> isl q \<longrightarrow> \<not> rp_index_dirty r1)
    \<and> fence_ok r1 \<and> rp_chunk_index r1 = rp_chunk_index r \<and> rp_write_session r1 = None
    \<and> rp_config r1 = rp_config r \<and> rp_manifest r1 = rp_manifest r"
  proof (cases "rp_index_dirty r")
    case True
    obtain g s0 where g: "sy_next_u64 y s = (g, s0)" by fastforce
    have c0: "contents s0 = contents s" using draws_quiet(4) [of s] by (simp add: g)
    have "persist_index lib y (s0, r\<lparr>rp_index_generation := g\<rparr>) = (q, (s1, r1))"
      using q True by (simp add: save_def run_bind_simps g)
    from persist_outcomes [OF this] show ?thesis using fence len ws c0 by (simp add: fence_ok_def)
  next
    case False
    then show ?thesis using q fence ws by (simp add: save_def io_return_def)
  qed
  have save_eq: "save_state lib sn y (s, r) = (case q of Inl e \<Rightarrow> (Inl e, (s1, r1))
      | Inr _ \<Rightarrow> io_bind (caches r1) (\<lambda>fc. case fc of Inl e \<Rightarrow> io_fail e
          | Inr _ \<Rightarrow> modify_ws (\<lambda>r. r\<lparr>rp_write_session := None\<rparr>)) (s1, r1))"
  proof -
    have "save_state lib sn y (s, r) = io_bind save (\<lambda>_. io_bind get_ws (\<lambda>r2. io_bind (caches r2) (\<lambda>fc.
        case fc of Inl e \<Rightarrow> io_fail e | Inr _ \<Rightarrow> modify_ws (\<lambda>r. r\<lparr>rp_write_session := None\<rparr>)))) (s, r)"
      unfolding save_state_def caches_def io_bind_assoc save_def using ws by (simp add: io_bind_return)
    then show ?thesis
      by (cases q) (simp_all add: q io_bind_def [of save])
  qed
  show ?thesis
  proof (cases q)
    case (Inl e)
    then have "res = Inl e" "s' = s1" "r' = r1" using run save_eq by simp_all
    then show ?thesis using out by simp
  next
    case ok: (Inr u)
    have "io_rel (frame {} contents) (caches r1)"
      unfolding caches_def
      by (intro io_rel_intros frame_order frame_rebuild frame_file_cache frame_prims(4)) (simp add: fence_ok_def)
    moreover obtain f s2 r2 where f: "caches r1 (s1, r1) = (f, (s2, r2))" by (metis prod_cases3)
    ultimately have fr: "frame {} contents (s1, r1) (s2, r2)" by (rule io_relD)
    have f1: "fence_ok r1" using out by (elim conjE)
    then have same: "contents s2 = contents s1" using fr by (auto simp: frame_def)
    have fin: "s' = s2 \<and> (r' = r2 \<or> r' = r2\<lparr>rp_write_session := None\<rparr>)"
      using run f unfolding save_eq ok by (cases f) (auto simp: io_bind_def io_fail_def modify_ws_def split: sum.splits)
    have "fence_ok r2 \<and> rp_chunk_index r2 = rp_chunk_index r1 \<and> rp_write_session r2 = rp_write_session r1
        \<and> rp_config r2 = rp_config r1 \<and> rp_manifest r2 = rp_manifest r1 \<and> rp_index_dirty r2 = rp_index_dirty r1"
      using fr f1 by (simp add: frame_def)
    then have "fence_ok r' \<and> rp_chunk_index r' = rp_chunk_index r1 \<and> (rp_write_session r1 = None \<longrightarrow> rp_write_session r' = None)
        \<and> rp_config r' = rp_config r1 \<and> rp_manifest r' = rp_manifest r1 \<and> rp_index_dirty r' = rp_index_dirty r1"
      using fin by (elim conjE disjE) (simp_all add: fence_ok_def)
    then show ?thesis using out by (simp add: ok fin same)
  qed
qed

end

section \<open>The machine of the in-memory backend\<close>

text \<open>An encoding of the index for evaluated runs: the layout of the full index cache.\<close>

definition wit_index_to_vec :: "index_blob \<Rightarrow> bytes result" where
  "wit_index_to_vec blob =
     (if list_all (\<lambda>p. fc_ok (fc_of p)) (ib_chunks blob) \<and> length (ib_chunks blob) < 2 ^ 32
      then Inr (full_file (ib_generation blob) (map fc_of (ib_chunks blob)))
      else Inl (Other ''index does not fit the cache layout''))"

definition wit_index_from_slice :: "bytes \<Rightarrow> index_blob result" where
  "wit_index_from_slice v =
     Inr \<lparr>ib_generation = u64_from_le_bytes (byte_slice v 12 20),
          ib_chunks = map (\<lambda>e. (fc_chunk_id e, fc_entry e))
            (mmap_full_iter \<lparr>mf_mmap = v, mf_entry_count = u32_from_le_bytes (byte_slice v 20 24)\<rparr>)\<rparr>"

definition wit_index_lib :: repo_lib where
  "wit_index_lib = wit_lib\<lparr>rl_index_to_vec := wit_index_to_vec, rl_index_from_slice := wit_index_from_slice\<rparr>"

lemma wit_index_roundtrip:
  assumes "wit_index_to_vec blob = Inr v"
  shows "wit_index_from_slice v = Inr blob"
proof -
  let ?es = "map fc_of (ib_chunks blob)"
  have ok: "\<forall>e \<in> set ?es. fc_ok e" and n: "length ?es < 2 ^ 32" and v: "v = full_file (ib_generation blob) ?es"
    using assms by (auto simp: wit_index_to_vec_def list_all_iff split: if_splits)
  have hd: "byte_slice v 12 20 = u64_to_le_bytes (ib_generation blob)"
    "byte_slice v 20 24 = u32_to_le_bytes (of_nat (length ?es))"
    by (simp_all add: v full_file_def write_full_header_def cache_header_def byte_slice_def FULL_MAGIC_def str_bytes_def)
  have same: "map (\<lambda>e. (fc_chunk_id e, fc_entry e)) ?es = ib_chunks blob"
    by (auto simp: fc_of_def fc_entry_def intro!: map_idI)
  show ?thesis
    using full_iter [OF ok n, of "ib_generation blob"] same
    unfolding wit_index_from_slice_def hd by (simp add: v)
qed

interpretation mem_repo: repo_machine memory_backend map_of plain_key wit_index_lib wit_system
proof (intro repo_machine.intro repo_machine_axioms.intro)
  show "client_storage memory_backend map_of plain_key" by (rule mem_client.client_storage_axioms)
  show "sy_storage wit_system = memory_backend" by (simp add: wit_system_def)
  show "quiet map_of wit_system" by (simp add: quiet_def wit_system_def io_return_def)
  show "length (fst (sy_nonce wit_system s)) = 12" for s by (simp add: wit_system_def)
  show "plain_key ''index''" "plain_key ''index.gen''" by code_simp+
  have hx: "\<not> ends_with (pre @ hex_encode lower_hex bs) ''/''" if "bs \<noteq> []" for pre bs
  proof -
    have "hex_encode lower_hex bs \<noteq> []" using lower_hex.hex_length [of bs] that by auto
    then have "last (pre @ hex_encode lower_hex bs) \<in> set (hex_encode lower_hex bs)" by simp
    then show ?thesis using lower_hex.slash_not_in_hex [of bs] by (auto simp: ends_with_iff)
  qed
  show "plain_key (pack_storage_key (rl_hex wit_index_lib) p)" if "length (pack_bytes p) = 32" for p
    using hx [of "pack_bytes p" "''packs/'' @ pack_id_shard_prefix lower_hex p @ ''/''"] that
    by (cases "pack_bytes p") (auto simp: plain_key_def pack_storage_key_def pack_id_to_hex_def wit_index_lib_def wit_lib_def)
  show "length (blake2b_256 (rl_b2 wit_index_lib) d) = 32" for d
    by (simp add: wit_index_lib_def wit_lib_def wit_b2_def)
  show "plain_key (snapshot_storage_key (rl_hex wit_index_lib) i)" if "length (snapshot_bytes i) = 32" for i
    using hx [of "snapshot_bytes i" "''snapshots/''"] that
    by (cases "snapshot_bytes i") (auto simp: plain_key_def snapshot_storage_key_def snapshot_id_to_hex_def wit_index_lib_def wit_lib_def)
  show "hex_codec (rl_hex wit_index_lib)"
    by (simp add: wit_index_lib_def wit_lib_def lower_hex.hex_codec_axioms)
  show "crypto_contract (rl_crypto wit_index_lib)"
    by (simp add: wit_index_lib_def wit_lib_def plaintext.crypto_contract_axioms)
  show "codec_ok (rl_codec wit_index_lib)" by (simp add: wit_index_lib_def wit_lib_def wit_codec_ok)
  show "\<exists>blob'. rl_index_from_slice wit_index_lib v = Inr blob' \<and> ib_generation blob' = ib_generation blob
      \<and> map_of (ib_chunks blob') = map_of (ib_chunks blob)" if "rl_index_to_vec wit_index_lib blob = Inr v" for blob v
    using that wit_index_roundtrip [of blob v] by (auto simp: wit_index_lib_def)
  show "length v \<le> MAX_METADATA_DECOMPRESS_SIZE"
    if "rl_index_to_vec wit_index_lib blob = Inr v" and "length (ib_chunks blob) < MAX_INDEX_ENTRIES" for blob v
  proof -
    have "v = full_file (ib_generation blob) (map fc_of (ib_chunks blob))"
      and ok: "\<forall>e \<in> set (map fc_of (ib_chunks blob)). length (write_full_entry e) = 80"
      using that(1) length_write_full_entry
      by (auto simp: wit_index_lib_def wit_index_to_vec_def list_all_iff split: if_splits)
    then have "length v = 28 + length (ib_chunks blob) * 80"
      using length_concat_fixed [OF ok] by (simp add: full_file_def write_full_header_def length_cache_header)
    then show ?thesis using that(2) by (simp add: MAX_INDEX_ENTRIES_def MAX_METADATA_DECOMPRESS_SIZE_def)
  qed
qed

end
