(* ===== verification/Maintenance.thy ===== *)
theory Maintenance
  imports Persistence
begin

text \<open>
  Commands that change a repository under the exclusive lock: reading the items of a snapshot
  (\<open>vykar-core/src/commands/list.rs\<close>), the references a snapshot holds (\<open>snapshot_ops.rs\<close>), deleting
  one snapshot (\<open>delete.rs\<close>), pruning by the retention policy (\<open>prune.rs\<close>), and the lock they run
  under (\<open>util.rs\<close>).  A shutdown request is observed through \<open>shutdown\<close>, one reading per check.
\<close>

section \<open>Items of a snapshot\<close>

definition load_snapshot_meta :: "repo_lib \<Rightarrow> snap_lib \<Rightarrow> 's system \<Rightarrow> string \<Rightarrow> ('s, snapshot_meta) repo_io" where
  "load_snapshot_meta lib sn y snapshot_name =
     io_bind get_ws (\<lambda>r.
       case find_snapshot (rp_manifest r) snapshot_name of
         None \<Rightarrow> io_fail (SnapshotNotFound snapshot_name)
       | Some entry \<Rightarrow>
           io_bind (on_store (be_get (sy_storage y) (snapshot_storage_key (rl_hex lib) (sn_id entry)))) (\<lambda>got.
             case got of
               None \<Rightarrow> io_fail (SnapshotNotFound snapshot_name)
             | Some meta_data \<Rightarrow>
                 (case decode_snapshot_meta lib sn (sn_id entry) meta_data of
                    Inl e \<Rightarrow> io_fail e | Inr meta \<Rightarrow> io_return meta)))"

fun resolve_chunks :: "repo_lib \<Rightarrow> chunk_index \<Rightarrow> chunk_id list \<Rightarrow> chunk_request list result" where
  "resolve_chunks lib idx [] = Inr []"
| "resolve_chunks lib idx (i # ids) =
     (case ci_get idx i of
        None \<Rightarrow> Inl (Other (''chunk not found: '' @ chunk_id_display (rl_hex lib) i))
      | Some e \<Rightarrow> rbind (resolve_chunks lib idx ids) (\<lambda>rest.
          Inr ((i, ce_pack_id e, ce_pack_offset e, ce_stored_size e) # rest)))"

definition load_item_stream_from_ptrs :: "repo_lib \<Rightarrow> 's system \<Rightarrow> chunk_id list \<Rightarrow> ('s, bytes) repo_io" where
  "load_item_stream_from_ptrs lib y item_ptrs =
     io_bind get_ws (\<lambda>r.
       case resolve_chunks lib (rp_chunk_index r) item_ptrs of
         Inl e \<Rightarrow> io_fail e
       | Inr chunks \<Rightarrow> read_chunks_coalesced_into lib y chunks [])"

definition load_snapshot_item_stream :: "repo_lib \<Rightarrow> snap_lib \<Rightarrow> 's system \<Rightarrow> string \<Rightarrow> ('s, bytes) repo_io" where
  "load_snapshot_item_stream lib sn y snapshot_name =
     io_bind (load_snapshot_meta lib sn y snapshot_name) (\<lambda>meta.
       load_item_stream_from_ptrs lib y (sm_item_ptrs meta))"

text \<open>
  The decoding loop: the items before the end of the stream or the first error, and that error.
  The deserialiser consumes at least one byte per item; one that consumed none would make the loop
  run forever, and is an error here.
\<close>

function decode_items :: "(bytes \<Rightarrow> (item \<times> bytes) result) \<Rightarrow> bytes \<Rightarrow> item list \<times> vykar_error option" where
  "decode_items next_item stream =
     (if stream = [] then ([], None)
      else case next_item stream of
        Inl e \<Rightarrow> ([], Some e)
      | Inr (it, rest) \<Rightarrow>
          if length rest < length stream
          then (case decode_items next_item rest of (its, err) \<Rightarrow> (it # its, err))
          else ([it], Some (Panicked ''the deserialiser made no progress'')))"
  by pat_completeness auto
termination by (relation "measure (\<lambda>(f, stream). length stream)") auto

declare decode_items.simps [simp del]

section \<open>The references of a snapshot\<close>

record snapshot_chunk_impact =
  im_chunks_deleted :: u64
  im_space_freed :: u64

definition no_impact :: snapshot_chunk_impact where
  "no_impact = \<lparr>im_chunks_deleted = 0, im_space_freed = 0\<rparr>"

definition add_impact :: "u32 \<Rightarrow> snapshot_chunk_impact \<Rightarrow> snapshot_chunk_impact" where
  "add_impact sz im =
     \<lparr>im_chunks_deleted = im_chunks_deleted im + 1, im_space_freed = im_space_freed im + ucast sz\<rparr>"

definition item_chunk_ids :: "item list \<Rightarrow> chunk_id list" where
  "item_chunk_ids its = concat (map (\<lambda>it. map cr_id (it_chunks it)) its)"

definition count_chunk :: "chunk_index \<Rightarrow> chunk_id \<Rightarrow> snapshot_chunk_impact \<Rightarrow> snapshot_chunk_impact" where
  "count_chunk idx i im =
     (case ci_get idx i of
        Some e \<Rightarrow> if ce_refcount e = 1 then add_impact (ce_stored_size e) im else im
      | None \<Rightarrow> im)"

definition count_snapshot_chunk_impact ::
  "snap_lib \<Rightarrow> chunk_index \<Rightarrow> bytes \<Rightarrow> chunk_id list \<Rightarrow> snapshot_chunk_impact result" where
  "count_snapshot_chunk_impact sn idx items_stream item_ptrs =
     (case decode_items (sb_next_item sn) items_stream of
        (_, Some e) \<Rightarrow> Inl e
      | (its, None) \<Rightarrow> Inr (fold (count_chunk idx) (item_chunk_ids its @ item_ptrs) no_impact))"

fun decrement_chunk :: "chunk_id \<Rightarrow> chunk_index \<times> snapshot_chunk_impact \<Rightarrow> chunk_index \<times> snapshot_chunk_impact" where
  "decrement_chunk i (idx, im) =
     (case ci_decrement idx i of
        (Some (rc, sz), idx') \<Rightarrow> (idx', if rc = 0 then add_impact sz im else im)
      | (None, idx') \<Rightarrow> (idx', im))"

definition decrement_snapshot_chunk_refs ::
  "snap_lib \<Rightarrow> bytes \<Rightarrow> chunk_id list \<Rightarrow> ('s, snapshot_chunk_impact) repo_io" where
  "decrement_snapshot_chunk_refs sn items_stream item_ptrs =
     io_bind get_ws (\<lambda>r.
       case decode_items (sb_next_item sn) items_stream of (its, err) \<Rightarrow>
         (let ids = item_chunk_ids its @ (if err = None then item_ptrs else []);
              res = fold decrement_chunk ids (rp_chunk_index r, no_impact)
          in io_bind (modify_ws (\<lambda>r. if ids = [] then r else r\<lparr>rp_chunk_index := fst res, rp_index_dirty := True\<rparr>)) (\<lambda>_.
               case err of Some e \<Rightarrow> io_fail e | None \<Rightarrow> io_return (snd res))))"

section \<open>Deleting a snapshot\<close>

record delete_stats =
  ds_snapshot_name :: string
  ds_chunks_deleted :: u64
  ds_space_freed :: u64

definition delete_snapshot ::
  "repo_lib \<Rightarrow> snap_lib \<Rightarrow> 's system \<Rightarrow> string \<Rightarrow> bool \<Rightarrow> ('s, delete_stats) repo_io" where
  "delete_snapshot lib sn y snapshot_name dry_run =
     io_bind get_ws (\<lambda>r.
       case find_snapshot (rp_manifest r) snapshot_name of
         None \<Rightarrow> io_fail (SnapshotNotFound snapshot_name)
       | Some entry \<Rightarrow>
           io_bind (load_snapshot_meta lib sn y snapshot_name) (\<lambda>meta.
           io_bind (load_snapshot_item_stream lib sn y snapshot_name) (\<lambda>items_stream.
             if dry_run then
               io_bind get_ws (\<lambda>r1.
                 case count_snapshot_chunk_impact sn (rp_chunk_index r1) items_stream (sm_item_ptrs meta) of
                   Inl e \<Rightarrow> io_fail e
                 | Inr impact \<Rightarrow>
                     io_return \<lparr>ds_snapshot_name = snapshot_name, ds_chunks_deleted = im_chunks_deleted impact,
                       ds_space_freed = im_space_freed impact\<rparr>)
             else
               io_bind (check_lock_fence lib y) (\<lambda>_.
               io_bind (on_store (be_delete (sy_storage y) (snapshot_storage_key (rl_hex lib) (sn_id entry)))) (\<lambda>_.
               io_bind (modify_ws (\<lambda>r. r\<lparr>rp_manifest := snd (remove_snapshot snapshot_name (rp_manifest r))\<rparr>)) (\<lambda>_.
               io_bind (decrement_snapshot_chunk_refs sn items_stream (sm_item_ptrs meta)) (\<lambda>impact.
               io_bind (save_state lib sn y) (\<lambda>_.
                 io_return \<lparr>ds_snapshot_name = snapshot_name, ds_chunks_deleted = im_chunks_deleted impact,
                   ds_space_freed = im_space_freed impact\<rparr>))))))))"

section \<open>Pruning\<close>

record prune_stats =
  ps_kept :: nat
  ps_pruned :: nat
  ps_chunks_deleted :: u64
  ps_space_freed :: u64

record prune_list_entry =
  ple_action :: string
  ple_snapshot_name :: string
  ple_reasons :: "string list"

record source_entry =
  sc_label :: string
  sc_retention :: "retention_config option"

definition check_interrupted :: "('s \<Rightarrow> bool \<times> 's) \<Rightarrow> ('s, unit) repo_io" where
  "check_interrupted shutdown =
     io_bind (draw shutdown) (\<lambda>stop. if stop then io_fail vykar_error.Interrupted else io_return ())"

definition prune_decisions ::
  "calendar \<Rightarrow> retention_config \<Rightarrow> source_entry list \<Rightarrow> string list \<Rightarrow> int \<Rightarrow> snapshot_entry list \<Rightarrow>
   prune_entry list result" where
  "prune_decisions cal retention sources source_filter now snapshots =
     (let target_snapshots = (if source_filter = [] then snapshots
            else filter (\<lambda>e. sn_source_label e \<in> set source_filter) snapshots);
          source_retentions = hm_collect (List.map_filter
            (\<lambda>s. map_option (\<lambda>p. (sc_label s, p)) (sc_retention s)) sources)
      in if sources \<noteq> [] then
           if \<not> has_any_rule retention \<and> list_all (\<lambda>(_, p). \<not> has_any_rule p) source_retentions
           then Inl (Config ''no retention rules configured - set at least one keep_* option in the retention section or per-source'')
           else apply_policy_by_label cal target_snapshots retention source_retentions now
         else if \<not> has_any_rule retention
           then Inl (Config ''no retention rules configured - set at least one keep_* option in the retention section'')
         else apply_policy cal target_snapshots retention now)"

definition pruned_names :: "prune_entry list \<Rightarrow> string list" where
  "pruned_names decisions = map pe_snapshot_name (filter (\<lambda>e. pe_decision e = Prune) decisions)"

definition list_entry :: "prune_entry \<Rightarrow> prune_list_entry" where
  "list_entry e =
     (case pe_decision e of
        Keep reasons \<Rightarrow> \<lparr>ple_action = ''keep'', ple_snapshot_name = pe_snapshot_name e, ple_reasons = reasons\<rparr>
      | Prune \<Rightarrow> \<lparr>ple_action = ''prune'', ple_snapshot_name = pe_snapshot_name e, ple_reasons = []\<rparr>)"

type_synonym prune_target = "string \<times> string \<times> chunk_id list"

text \<open>Phase 1: the key and the item pointers of every snapshot to prune.\<close>

fun prune_targets ::
  "repo_lib \<Rightarrow> snap_lib \<Rightarrow> 's system \<Rightarrow> ('s \<Rightarrow> bool \<times> 's) \<Rightarrow> string list \<Rightarrow> ('s, prune_target list) repo_io" where
  "prune_targets lib sn y shutdown [] = io_return []"
| "prune_targets lib sn y shutdown (name # names) =
     io_bind (check_interrupted shutdown) (\<lambda>_.
     io_bind get_ws (\<lambda>r.
       case find_snapshot (rp_manifest r) name of
         None \<Rightarrow> io_fail (SnapshotNotFound name)
       | Some e \<Rightarrow>
           io_bind (load_snapshot_meta lib sn y name) (\<lambda>meta.
           io_bind (prune_targets lib sn y shutdown names) (\<lambda>rest.
             io_return ((name, snapshot_storage_key (rl_hex lib) (sn_id e), sm_item_ptrs meta) # rest)))))"

text \<open>Phase 2: the objects of the snapshots go first.\<close>

definition prune_delete ::
  "repo_lib \<Rightarrow> 's system \<Rightarrow> ('s \<Rightarrow> bool \<times> 's) \<Rightarrow> prune_target list \<Rightarrow> ('s, unit) repo_io" where
  "prune_delete lib y shutdown targets =
     io_for targets (\<lambda>(name, key, ptrs).
       io_bind (check_interrupted shutdown) (\<lambda>_.
       io_bind (check_lock_fence lib y) (\<lambda>_.
       io_bind (io_try (on_store (be_delete (sy_storage y) key))) (\<lambda>res.
         case res of
           Inl e \<Rightarrow> io_fail (Other (''failed to delete snapshot object '' @ name))
         | Inr _ \<Rightarrow> io_return ()))))"

text \<open>Phase 3: the references, one item stream at a time.\<close>

fun prune_decrement ::
  "repo_lib \<Rightarrow> snap_lib \<Rightarrow> 's system \<Rightarrow> prune_target list \<Rightarrow> snapshot_chunk_impact \<Rightarrow>
   ('s, snapshot_chunk_impact) repo_io" where
  "prune_decrement lib sn y [] total' = io_return total'"
| "prune_decrement lib sn y ((name, key, ptrs) # targets) total' =
     io_bind (load_item_stream_from_ptrs lib y ptrs) (\<lambda>items_stream.
     io_bind (decrement_snapshot_chunk_refs sn items_stream ptrs) (\<lambda>impact.
     io_bind (modify_ws (\<lambda>r. r\<lparr>rp_manifest := snd (remove_snapshot name (rp_manifest r))\<rparr>)) (\<lambda>_.
       prune_decrement lib sn y targets
         \<lparr>im_chunks_deleted = im_chunks_deleted total' + im_chunks_deleted impact,
          im_space_freed = im_space_freed total' + im_space_freed impact\<rparr>)))"

definition prune_run ::
  "repo_lib \<Rightarrow> snap_lib \<Rightarrow> 's system \<Rightarrow> calendar \<Rightarrow> ('s \<Rightarrow> bool \<times> 's) \<Rightarrow> retention_config \<Rightarrow> source_entry list \<Rightarrow>
   string list \<Rightarrow> bool \<Rightarrow> bool \<Rightarrow> ('s, prune_stats \<times> prune_list_entry list) repo_io" where
  "prune_run lib sn y cal shutdown retention sources source_filter dry_run list_output =
     io_bind (draw (sy_utc y)) (\<lambda>now.
     io_bind get_ws (\<lambda>r.
       case prune_decisions cal retention sources source_filter now (mf_snapshots (rp_manifest r)) of
         Inl e \<Rightarrow> io_fail e
       | Inr decisions \<Rightarrow>
           (let kept = length (filter (\<lambda>e. pe_decision e \<noteq> Prune) decisions);
                to_prune = pruned_names decisions;
                entries = (if list_output \<or> dry_run then map list_entry decisions else [])
            in if dry_run
               then io_return (\<lparr>ps_kept = kept, ps_pruned = length to_prune, ps_chunks_deleted = 0,
                                ps_space_freed = 0\<rparr>, entries)
               else io_bind (prune_targets lib sn y shutdown (rev to_prune)) (\<lambda>targets.
                    io_bind (prune_delete lib y shutdown targets) (\<lambda>_.
                    io_bind (prune_decrement lib sn y targets no_impact) (\<lambda>total'.
                    io_bind (save_state lib sn y) (\<lambda>_.
                      io_return (\<lparr>ps_kept = kept, ps_pruned = length to_prune,
                        ps_chunks_deleted = im_chunks_deleted total',
                        ps_space_freed = im_space_freed total'\<rparr>, entries))))))))"

section \<open>The maintenance lock\<close>

text \<open>What the command reads from the machine: the readings of the lock, the time of the session
  cleanup, and which processes of this host are alive.\<close>

record maintenance_readings =
  mn_lock :: lock_readings
  mn_sessions_now :: int
  mn_pid_alive :: "u32 \<Rightarrow> bool"

definition with_maintenance_lock ::
  "repo_lib \<Rightarrow> 's system \<Rightarrow> maintenance_readings \<Rightarrow> ('s, 'a) repo_io \<Rightarrow> ('s, 'a) repo_io" where
  "with_maintenance_lock lib y rd action =
     io_bind (on_store (acquire_lock (rl_locks lib) (rl_host lib) (sy_storage y) (mn_lock rd))) (\<lambda>guard.
     io_bind (io_try (on_store (cleanup_stale_sessions (rl_locks lib) (sy_storage y)
                (duration_seconds DEFAULT_STALE_SESSION_SECS) (hi_hostname (rl_host lib))
                (mn_pid_alive rd) (mn_sessions_now rd)))) (\<lambda>_.
     io_bind (io_try (on_store (list_sessions (sy_storage y)))) (\<lambda>sessions.
     let release = on_store (release_lock (sy_storage y) guard) in
       case sessions of
         Inl e \<Rightarrow> io_bind (io_try release) (\<lambda>_. io_fail (Other (''cannot verify no active backup sessions; ''
                     @ ''refusing maintenance to avoid data loss'')))
       | Inr (sid # sids) \<Rightarrow> io_bind (io_try release) (\<lambda>_. io_fail (ActiveSessions (sid # sids)))
       | Inr [] \<Rightarrow>
           io_bind (modify_ws (\<lambda>r. r\<lparr>rp_lock_fence := Some (lg_key guard, build_lock_fence guard)\<rparr>)) (\<lambda>_.
           io_bind (io_try action) (\<lambda>res.
           io_bind (if isl res then flush_on_abort lib y else io_return ()) (\<lambda>_.
           io_bind (modify_ws (\<lambda>r. r\<lparr>rp_lock_fence := None\<rparr>)) (\<lambda>_.
           io_bind (io_try release) (\<lambda>released.
             case (res, released) of
               (Inl e, _) \<Rightarrow> io_fail e
             | (Inr a, Inl e) \<Rightarrow> io_fail e
             | (Inr a, Inr _) \<Rightarrow> io_return a))))))))"

section \<open>What a deletion does to the index\<close>

text \<open>The index after the references \<open>ids\<close> are gone: a chunk whose last reference went is no
  longer listed.\<close>

definition drop_refs ::
  "chunk_id list \<Rightarrow> (chunk_id \<rightharpoonup> chunk_index_entry) \<Rightarrow> (chunk_id \<rightharpoonup> chunk_index_entry)" where
  "drop_refs ids f = (\<lambda>c.
     case f c of
       None \<Rightarrow> None
     | Some e \<Rightarrow>
         if c \<in> set ids \<and> unat (ce_refcount e) \<le> count_list ids c then None
         else Some (e\<lparr>ce_refcount := ce_refcount e - of_nat (count_list ids c)\<rparr>))"

lemma drop_refs_Nil [simp]: "drop_refs [] f = f"
  by (auto simp: drop_refs_def fun_eq_iff split: option.splits)

lemma drop_refs_Cons:
  "drop_refs (i # ids) f = drop_refs ids (f(i := (case f i of
     None \<Rightarrow> None
   | Some e \<Rightarrow> if sat_sub_u32 (ce_refcount e) 1 = 0 then None else Some (e\<lparr>ce_refcount := sat_sub_u32 (ce_refcount e) 1\<rparr>))))"
proof
  fix c
  show "drop_refs (i # ids) f c = drop_refs ids (f(i := (case f i of None \<Rightarrow> None
      | Some e \<Rightarrow> if sat_sub_u32 (ce_refcount e) 1 = 0 then None else Some (e\<lparr>ce_refcount := sat_sub_u32 (ce_refcount e) 1\<rparr>)))) c"
  proof (cases "c = i")
    case True
    show ?thesis
    proof (cases "f i")
      case (Some e)
      have z: "sat_sub_u32 (ce_refcount e) 1 = 0 \<longleftrightarrow> unat (ce_refcount e) \<le> 1"
        by (auto simp: sat_sub_u32_def word_le_nat_alt)
      have m: "unat (ce_refcount e - 1) = unat (ce_refcount e) - 1" if "\<not> unat (ce_refcount e) \<le> 1"
        using that by unat_arith
      have s: "sat_sub_u32 (ce_refcount e) 1 = ce_refcount e - 1" if "\<not> unat (ce_refcount e) \<le> 1"
        using that by (simp add: sat_sub_u32_def word_le_nat_alt)
      show ?thesis
      proof (cases "unat (ce_refcount e) \<le> 1")
        case False
        let ?n = "count_list ids i"
        have gone: "(i \<in> set ids \<and> unat (ce_refcount e - 1) \<le> ?n) = (unat (ce_refcount e) \<le> Suc ?n)"
        proof (cases "i \<in> set ids")
          case True
          then show ?thesis unfolding m [OF False] using False by simp arith
        next
          case no: False
          then have "?n = 0" by (simp add: count_list_0_iff)
          then show ?thesis using no False by simp
        qed
        have "drop_refs (i # ids) f i =
            (if unat (ce_refcount e) \<le> Suc ?n then None else Some (e\<lparr>ce_refcount := ce_refcount e - of_nat (Suc ?n)\<rparr>))"
          by (simp add: drop_refs_def Some)
        also have "ce_refcount e - of_nat (Suc ?n) = ce_refcount e - 1 - of_nat ?n" by simp
        finally show ?thesis
          unfolding gone [symmetric] using z False by (simp add: True Some drop_refs_def s [OF False])
      qed (simp add: Some True z drop_refs_def)
    qed (simp add: True drop_refs_def)
  qed (cases "f c"; simp add: drop_refs_def)
qed

lemma length_update_present: "k \<in> fst ` set m \<Longrightarrow> length (AList.update k v m) = length m"
  by (induction m) auto

lemma decrement_fold:
  assumes "fold decrement_chunk ids (idx, im) = (idx', im')"
  shows "map_of idx' = drop_refs ids (map_of idx) \<and> length idx' \<le> length idx"
  using assms
proof (induction ids arbitrary: idx im)
  case (Cons i ids)
  obtain idx1 im1 where d: "decrement_chunk i (idx, im) = (idx1, im1)" by fastforce
  then have idx1: "idx1 = snd (ci_decrement idx i)" by (auto split: prod.splits option.splits)
  have "length idx1 \<le> length idx"
  proof (cases "map_of idx i")
    case (Some e)
    then have "i \<in> fst ` set idx" by (force dest: map_of_SomeD)
    then show ?thesis
      by (simp add: idx1 ci_decrement_def Some Let_def hm_insert_def hm_remove_def length_update_present)
  qed (simp add: idx1 ci_decrement_def)
  moreover have "map_of idx' = drop_refs ids (map_of idx1) \<and> length idx' \<le> length idx1"
    by (rule Cons.IH [of _ im1]) (use Cons.prems d in simp)
  ultimately show ?case
    by (simp add: drop_refs_Cons ci_get_decrement idx1 cong: option.case_cong) 
qed simp

text \<open>The references a stored snapshot holds: the chunks of its items and those of its item stream.\<close>

definition snapshot_refs ::
  "repo_lib \<Rightarrow> snap_lib \<Rightarrow> (string \<rightharpoonup> bytes) \<Rightarrow> chunk_index \<Rightarrow> snapshot_id \<Rightarrow> chunk_id list option" where
  "snapshot_refs lib sn m idx i =
     (case m (snapshot_storage_key (rl_hex lib) i) of
        None \<Rightarrow> None
      | Some d \<Rightarrow>
          (case decode_snapshot_meta lib sn i d of
             Inl _ \<Rightarrow> None
           | Inr meta \<Rightarrow>
               (case resolve_chunks lib idx (sm_item_ptrs meta) of
                  Inl _ \<Rightarrow> None
                | Inr reqs \<Rightarrow>
                    if list_all (\<lambda>q. chunk_plain lib m q \<noteq> None) reqs
                    then (case decode_items (sb_next_item sn) (concat (map (the \<circ> chunk_plain lib m) reqs)) of
                            (its, None) \<Rightarrow> Some (item_chunk_ids its @ sm_item_ptrs meta)
                          | (_, Some _) \<Rightarrow> None)
                    else None)))"

text \<open>A repository that agrees with the storage: no session is open, the index in memory is the stored
  one, and cached chunks are those in the packs.\<close>

definition synced :: "repo_lib \<Rightarrow> ('s \<Rightarrow> string \<rightharpoonup> bytes) \<Rightarrow> 's \<Rightarrow> repository \<Rightarrow> bool" where
  "synced lib c s r \<longleftrightarrow> rp_write_session r = None \<and> fence_ok r \<and> length (rp_chunk_index r) < MAX_INDEX_ENTRIES
     \<and> stored_index lib (c s) = Some (map_of (rp_chunk_index r))
     \<and> (\<forall>i e. map_of (rp_chunk_index r) i = Some e \<longrightarrow> length (pack_bytes (ce_pack_id e)) = 32
         \<and> (\<forall>d. bc_get (rp_blob_cache r) i = Some d \<longrightarrow>
             chunk_plain lib (c s) (i, ce_pack_id e, ce_pack_offset e, ce_stored_size e) = Some d))"

lemma resolve_in_index:
  "resolve_chunks lib idx ids = Inr reqs \<Longrightarrow> (i, pid, off, sz) \<in> set reqs \<Longrightarrow>
   \<exists>e. map_of idx i = Some e \<and> pid = ce_pack_id e \<and> off = ce_pack_offset e \<and> sz = ce_stored_size e"
  by (induction ids arbitrary: reqs) (auto simp: ci_get_def rbind_Inr_iff split: option.splits)

lemma snapshot_key_other:
  "snapshot_storage_key hx i \<noteq> ''index''" "snapshot_storage_key hx i \<noteq> ''index.gen''"
  "\<not> is_lock_key (snapshot_storage_key hx i)"
  by (simp_all add: snapshot_storage_key_def is_lock_key_def starts_with_def LOCKS_PREFIX_def)

text \<open>What a deletion may have done to the storage \<open>m\<close>: no other object is touched; while the object of
  the snapshot is stored, so are its references; the stored index is the old one or the one without the
  references of the snapshot.\<close>

definition deletion_ok ::
  "repo_lib \<Rightarrow> snap_lib \<Rightarrow> (string \<rightharpoonup> bytes) \<Rightarrow> chunk_index \<Rightarrow> snapshot_id \<Rightarrow> (string \<rightharpoonup> bytes) \<Rightarrow> bool" where
  "deletion_ok lib sn m idx i m' \<longleftrightarrow>
     (let key = snapshot_storage_key (rl_hex lib) i in
      (\<forall>k. k \<notin> {key, ''index'', ''index.gen''} \<and> \<not> is_lock_key k \<longrightarrow> m' k = m k)
      \<and> (m' key \<noteq> None \<longrightarrow> m' key = m key \<and> stored_index lib m' = stored_index lib m)
      \<and> (stored_index lib m' = stored_index lib m
         \<or> (\<exists>ids. snapshot_refs lib sn m idx i = Some ids \<and> stored_index lib m' = Some (drop_refs ids (map_of idx)))))"

lemma stored_index_cong: "m' ''index'' = m ''index'' \<Longrightarrow> stored_index lib m' = stored_index lib m"
  by (simp add: stored_index_def)

lemma deletion_ok_locks:
  "(\<And>k. \<not> is_lock_key k \<Longrightarrow> m' k = m k) \<Longrightarrow> deletion_ok lib sn m idx i m'"
  using stored_index_cong [of m' m] snapshot_key_other(3) index_not_lock(1)
  by (simp add: deletion_ok_def Let_def)

lemma deletion_ok_gone:
  "(\<And>k. \<not> is_lock_key k \<Longrightarrow> k \<noteq> snapshot_storage_key (rl_hex lib) i \<Longrightarrow> m' k = m k) \<Longrightarrow>
   m' (snapshot_storage_key (rl_hex lib) i) = None \<Longrightarrow> deletion_ok lib sn m idx i m'"
  using stored_index_cong [of m' m] snapshot_key_other(1) [of "rl_hex lib" i] index_not_lock(1)
  by (simp add: deletion_ok_def Let_def)

context repo_machine
begin

lemma load_meta_run:
  assumes "load_snapshot_meta lib sn y name (s, r) = (res, (s', r'))"
    and "find_snapshot (rp_manifest r) name = Some e" and "length (snapshot_bytes (sn_id e)) = 32"
  shows "r' = r \<and> contents s' = contents s \<and> (\<forall>meta. res = Inr meta \<longrightarrow>
    (\<exists>d. contents s (snapshot_storage_key (rl_hex lib) (sn_id e)) = Some d \<and> decode_snapshot_meta lib sn (sn_id e) d = Inr meta))"
proof -
  obtain q s1 where q: "be_get b (snapshot_storage_key (rl_hex lib) (sn_id e)) s = (q, s1)" by fastforce
  have c: "contents s1 = contents s" by (rule get_frame [OF q])
  have v: "v = contents s (snapshot_storage_key (rl_hex lib) (sn_id e))" if "q = Inr v" for v
    using get_ok [OF snapshot_key_valid [OF assms(3)]] q that by blast
  show ?thesis
    using assms(1,2) q c v
    by (cases q) (auto simp: load_snapshot_meta_def run_bind_simps storage_is io_fail_def io_return_def
        split: option.splits sum.splits)
qed

lemma frame_blobs: "io_rel (frame K contents) (read_group_blobs lib pid start raw bs st)"
  by (induction bs arbitrary: st)
     (auto simp: Let_def cache_blob_def fence_ok_def intro!: io_rel_intros frame_order frame_prims(4) split: sum.splits)

lemma frame_groups: "io_rel (frame K contents) (read_groups lib y gs st)"
proof (induction gs arbitrary: st)
  case (Cons g gs)
  have "io_rel (frame K contents) (on_store (be_get_range (sy_storage y) k off n))" for k off n
    by (rule frame_prims(3)) (use get_range_frame storage_is in metis)
  then show ?case by (auto intro!: io_rel_intros frame_order frame_blobs Cons.IH)
qed (auto intro: io_rel_intros)

lemma frame_item_stream: "io_rel (frame K contents) (load_item_stream_from_ptrs lib y ptrs)"
  unfolding load_item_stream_from_ptrs_def read_chunks_coalesced_into_def Let_def
  by (auto intro!: io_rel_intros frame_order frame_prims(1) frame_groups split: prod.splits)

lemma item_stream_ok:
  assumes run: "load_item_stream_from_ptrs lib y ptrs (s, r) = (Inr stream, (s', r'))" and "synced lib contents s r"
  shows "\<exists>reqs. resolve_chunks lib (rp_chunk_index r) ptrs = Inr reqs
    \<and> list_all (\<lambda>q. chunk_plain lib (contents s) q \<noteq> None) reqs
    \<and> stream = concat (map (the \<circ> chunk_plain lib (contents s)) reqs)"
proof -
  obtain reqs where reqs: "resolve_chunks lib (rp_chunk_index r) ptrs = Inr reqs"
    and rd: "read_chunks_coalesced_into lib y reqs [] (s, r) = (Inr stream, (s', r'))"
    using run by (auto simp: load_item_stream_from_ptrs_def io_fail_def split: sum.splits)
  have valid: "\<forall>(i, pid, off, sz) \<in> set reqs. valid_key (pack_storage_key (rl_hex lib) pid)"
    using resolve_in_index [OF reqs] assms(2) pack_key_valid by (fastforce simp: synced_def)
  have cached: "\<forall>c \<in> set reqs. \<forall>d. bc_get (rp_blob_cache r) (fst c) = Some d \<longrightarrow> chunk_plain lib (contents s) c = Some d"
    using resolve_in_index [OF reqs] assms(2) by (fastforce simp: synced_def simp del: chunk_plain.simps)
  obtain ds where ds: "map (chunk_plain lib (contents s)) reqs = map Some ds" "stream = concat ds"
    using coalesced_emits_all [OF rd storage_is valid cached] by auto
  have "\<forall>c \<in> set reqs. chunk_plain lib (contents s) c \<noteq> None"
    using arg_cong [where f = set, OF ds(1)] by (force simp del: chunk_plain.simps)
  moreover have "ds = map (the \<circ> chunk_plain lib (contents s)) reqs"
    using arg_cong [where f = "map the", OF ds(1)] by (simp add: comp_def del: chunk_plain.simps)
  ultimately show ?thesis using reqs ds(2) by (simp add: list_all_iff del: chunk_plain.simps)
qed

text \<open>The references of a snapshot leave the index in memory; nothing is written yet.\<close>

lemma decrement_run:
  assumes "decrement_snapshot_chunk_refs sn stream ptrs (s, r) = (res, (s', r'))"
  shows "s' = s \<and> fence_ok r' = fence_ok r \<and> rp_write_session r' = rp_write_session r \<and> rp_manifest r' = rp_manifest r
    \<and> length (rp_chunk_index r') \<le> length (rp_chunk_index r)
    \<and> (rp_index_dirty r' \<or> rp_chunk_index r' = rp_chunk_index r)
    \<and> (\<forall>im. res = Inr im \<longrightarrow> (\<exists>its. decode_items (sb_next_item sn) stream = (its, None)
        \<and> map_of (rp_chunk_index r') = drop_refs (item_chunk_ids its @ ptrs) (map_of (rp_chunk_index r))))"
proof -
  obtain its err where dec: "decode_items (sb_next_item sn) stream = (its, err)" by fastforce
  define ids where "ids = item_chunk_ids its @ (if err = None then ptrs else [])"
  obtain idx' im' where f: "fold decrement_chunk ids (rp_chunk_index r, no_impact) = (idx', im')" by fastforce
  have "decrement_snapshot_chunk_refs sn stream ptrs (s, r) =
      (case err of Some e \<Rightarrow> Inl e | None \<Rightarrow> Inr im', (s, if ids = [] then r else r\<lparr>rp_chunk_index := idx', rp_index_dirty := True\<rparr>))"
    using f unfolding decrement_snapshot_chunk_refs_def ids_def
    by (cases err) (simp_all add: dec Let_def io_fail_def io_return_def del: fold_append append_is_Nil_conv)
  then have r': "r' = (if ids = [] then r else r\<lparr>rp_chunk_index := idx', rp_index_dirty := True\<rparr>)" and s': "s' = s"
    and res: "res = (case err of Some e \<Rightarrow> Inl e | None \<Rightarrow> Inr im')" using assms by simp_all
  have ok: "\<exists>its. decode_items (sb_next_item sn) stream = (its, None)
      \<and> map_of idx' = drop_refs (item_chunk_ids its @ ptrs) (map_of (rp_chunk_index r))" if "res = Inr im" for im
    using decrement_fold [OF f] that res dec by (auto simp: ids_def split: option.splits)
  show ?thesis
  proof (cases "ids = []")
    case True
    then have "idx' = rp_chunk_index r" "r' = r" using f r' by simp_all
    then show ?thesis using ok s' by simp
  next
    case False
    then have "r' = r\<lparr>rp_chunk_index := idx', rp_index_dirty := True\<rparr>" unfolding r' by simp
    then show ?thesis using decrement_fold [OF f] ok s' by (simp add: fence_ok_def)
  qed
qed

text \<open>The last two steps of a deletion: the references, then the index.\<close>

lemma delete_saves:
  assumes run: "io_bind (decrement_snapshot_chunk_refs sn stream ptrs) (\<lambda>impact.
      io_bind (save_state lib sn y) (\<lambda>_. io_return (f impact))) (s, r) = (res, (s', r'))"
    and sy: "rp_write_session r = None" "fence_ok r" "length (rp_chunk_index r) < MAX_INDEX_ENTRIES"
      "stored_index lib (contents s) = Some (map_of (rp_chunk_index r))"
  shows "(\<forall>k. k \<notin> {''index'', ''index.gen''} \<and> \<not> is_lock_key k \<longrightarrow> contents s' k = contents s k)
    \<and> (stored_index lib (contents s') = stored_index lib (contents s)
      \<or> (\<exists>its. decode_items (sb_next_item sn) stream = (its, None)
           \<and> stored_index lib (contents s') = Some (drop_refs (item_chunk_ids its @ ptrs) (map_of (rp_chunk_index r)))))
    \<and> (\<not> isl res \<longrightarrow> rp_manifest r' = rp_manifest r \<and> (\<exists>its. decode_items (sb_next_item sn) stream = (its, None)
           \<and> stored_index lib (contents s') = Some (drop_refs (item_chunk_ids its @ ptrs) (map_of (rp_chunk_index r)))))"
proof -
  obtain q s1 r1 where q: "decrement_snapshot_chunk_refs sn stream ptrs (s, r) = (q, (s1, r1))" by (metis prod_cases3)
  note d = decrement_run [OF q]
  show ?thesis
  proof (cases q)
    case (Inl e)
    then have "res = Inl e" "s' = s1" using run q by (simp_all add: run_bind(2))
    then show ?thesis using d by simp
  next
    case (Inr im)
    obtain p s2 r2 where p: "save_state lib sn y (s1, r1) = (p, (s2, r2))" by (metis prod_cases3)
    obtain its where its: "decode_items (sb_next_item sn) stream = (its, None)"
      "map_of (rp_chunk_index r1) = drop_refs (item_chunk_ids its @ ptrs) (map_of (rp_chunk_index r))" "s1 = s"
      using d Inr by blast
    have pre: "rp_write_session r1 = None" "fence_ok r1" "length (rp_chunk_index r1) < MAX_INDEX_ENTRIES" using d sy by simp_all
    note sv = save_outcomes [OF p pre]
    have "res = (case p of Inl e \<Rightarrow> Inl e | Inr _ \<Rightarrow> Inr (f im)) \<and> s' = s2 \<and> r' = r2"
      using run unfolding run_bind(1) [where m = "decrement_snapshot_chunk_refs sn stream ptrs", OF q [unfolded Inr]]
      by (cases p) (simp_all add: p io_bind_def io_return_def)
    then have fin: "s' = s2" "r' = r2" "isl res = isl p" by (simp_all split: sum.splits)
    have new: "stored_index lib (contents s2) = Some (map_of (rp_chunk_index r1))" if "\<not> isl p"
    proof (cases "rp_index_dirty r1")
      case False
      then have "map_of (rp_chunk_index r1) = map_of (rp_chunk_index r)" using d by simp
      then show ?thesis using sv sy(4) its(3) by auto
    qed (use sv that in blast)
    show ?thesis
    proof (intro conjI)
      show "\<forall>k. k \<notin> {''index'', ''index.gen''} \<and> \<not> is_lock_key k \<longrightarrow> contents s' k = contents s k"
        using sv its(3) fin(1) by blast
      show "stored_index lib (contents s') = stored_index lib (contents s)
        \<or> (\<exists>its. decode_items (sb_next_item sn) stream = (its, None)
             \<and> stored_index lib (contents s') = Some (drop_refs (item_chunk_ids its @ ptrs) (map_of (rp_chunk_index r))))"
        using sv its fin(1) by metis
      show "\<not> isl res \<longrightarrow> rp_manifest r' = rp_manifest r \<and> (\<exists>its. decode_items (sb_next_item sn) stream = (its, None)
             \<and> stored_index lib (contents s') = Some (drop_refs (item_chunk_ids its @ ptrs) (map_of (rp_chunk_index r))))"
        using sv d new its fin by metis
    qed
  qed
qed

lemma delete_contents_fence:
  assumes "check_lock_fence lib y (s, r) = (res, (s', r'))" and "fence_ok r"
  shows "fence_ok r' \<and> (\<forall>k. \<not> is_lock_key k \<longrightarrow> contents s' k = contents s k) \<and> rp_chunk_index r' = rp_chunk_index r
    \<and> rp_write_session r' = rp_write_session r \<and> rp_manifest r' = rp_manifest r"
  using io_relD [OF frame_fence assms(1)] assms(2) by (simp add: frame_def)

text \<open>From the deletion of the object on.\<close>

lemma delete_removes:
  assumes run: "io_bind (on_store (be_delete (sy_storage y) (snapshot_storage_key (rl_hex lib) (sn_id e)))) (\<lambda>_.
      io_bind (modify_ws (\<lambda>r. r\<lparr>rp_manifest := snd (remove_snapshot name (rp_manifest r))\<rparr>)) (\<lambda>_.
      io_bind (decrement_snapshot_chunk_refs sn stream ptrs) (\<lambda>impact.
      io_bind (save_state lib sn y) (\<lambda>_. io_return (f impact))))) (s, r) = (res, (s', r'))"
    and sy: "rp_write_session r = None" "fence_ok r" "length (rp_chunk_index r) < MAX_INDEX_ENTRIES"
      "stored_index lib (contents s) = Some (map_of (rp_chunk_index r))"
    and id: "length (snapshot_bytes (sn_id e)) = 32"
    and same: "\<And>k. \<not> is_lock_key k \<Longrightarrow> contents s k = m k" and idx: "rp_chunk_index r = idx"
    and refs: "\<And>its. decode_items (sb_next_item sn) stream = (its, None) \<Longrightarrow>
      snapshot_refs lib sn m idx (sn_id e) = Some (item_chunk_ids its @ ptrs)"
  shows "deletion_ok lib sn m idx (sn_id e) (contents s')
    \<and> (\<not> isl res \<longrightarrow> contents s' (snapshot_storage_key (rl_hex lib) (sn_id e)) = None
        \<and> rp_manifest r' = snd (remove_snapshot name (rp_manifest r))
        \<and> (\<exists>ids. snapshot_refs lib sn m idx (sn_id e) = Some ids
            \<and> stored_index lib (contents s') = Some (drop_refs ids (map_of idx))))"
proof -
  let ?key = "snapshot_storage_key (rl_hex lib) (sn_id e)"
  obtain q s1 where q: "be_delete b ?key s = (q, s1)" by fastforce
  note valid = snapshot_key_valid [OF id]
  show ?thesis
  proof (cases q)
    case (Inl err)
    then have fin: "s' = s1" "res = Inl err" using run q by (simp_all add: run_bind_simps storage_is)
    consider "contents s1 = contents s" | "contents s1 = (contents s)(?key := None)"
      using delete_err [OF valid] q Inl by blast
    then show ?thesis
    proof cases
      case 1
      then show ?thesis using deletion_ok_locks [of "contents s'" m] same fin by simp
    next
      case 2
      then show ?thesis using deletion_ok_gone [of lib "sn_id e" "contents s'" m] same fin by simp
    qed
  next
    case (Inr u)
    let ?r = "r\<lparr>rp_manifest := snd (remove_snapshot name (rp_manifest r))\<rparr>"
    have c1: "contents s1 = (contents s)(?key := None)" using delete_ok [OF valid] q Inr by blast
    have tail: "io_bind (decrement_snapshot_chunk_refs sn stream ptrs) (\<lambda>impact.
        io_bind (save_state lib sn y) (\<lambda>_. io_return (f impact))) (s1, ?r) = (res, (s', r'))"
      using run q Inr by (simp add: run_bind_simps storage_is)
    have si: "stored_index lib (contents s1) = stored_index lib (contents s)"
      by (rule stored_index_cong) (use snapshot_key_other(1) [of "rl_hex lib" "sn_id e"] in \<open>simp add: c1\<close>)
    have sm: "stored_index lib (contents s) = stored_index lib m"
      by (rule stored_index_cong) (rule same, rule index_not_lock)
    have "fence_ok ?r" using sy(2) by (simp add: fence_ok_def)
    note sv = delete_saves [OF tail, simplified, OF sy(1) this sy(3) si [unfolded sy(4)]]
    have old: "contents s' k = m k" if "k \<notin> {?key, ''index'', ''index.gen''}" "\<not> is_lock_key k" for k
      using sv that c1 same by auto
    have gone: "contents s' ?key = None" using sv c1 snapshot_key_other [of "rl_hex lib" "sn_id e"] by auto
    have "stored_index lib (contents s') = stored_index lib m
        \<or> (\<exists>ids. snapshot_refs lib sn m idx (sn_id e) = Some ids \<and> stored_index lib (contents s') = Some (drop_refs ids (map_of idx)))"
      using sv refs si sm sy(4) idx by metis
    then have "deletion_ok lib sn m idx (sn_id e) (contents s')" using old gone by (simp add: deletion_ok_def Let_def)
    moreover have "\<exists>ids. snapshot_refs lib sn m idx (sn_id e) = Some ids
        \<and> stored_index lib (contents s') = Some (drop_refs ids (map_of idx))" if "\<not> isl res"
      using sv refs that si sy(4) idx by metis
    ultimately show ?thesis using gone sv si sy(4) by simp
  qed
qed

text \<open>The reads before a deletion change nothing and tell the references of the snapshot.\<close>

lemma snapshot_stream_run:
  assumes run: "load_snapshot_item_stream lib sn y name (s, r) = (res, (s', r'))"
    and e: "find_snapshot (rp_manifest r) name = Some e" "length (snapshot_bytes (sn_id e)) = 32"
    and sy: "synced lib contents s r"
  shows "contents s' = contents s \<and> fence_ok r' \<and> rp_chunk_index r' = rp_chunk_index r
    \<and> rp_write_session r' = rp_write_session r \<and> rp_manifest r' = rp_manifest r
    \<and> (\<forall>stream its meta d. res = Inr stream \<longrightarrow> decode_items (sb_next_item sn) stream = (its, None) \<longrightarrow>
        contents s (snapshot_storage_key (rl_hex lib) (sn_id e)) = Some d \<longrightarrow> decode_snapshot_meta lib sn (sn_id e) d = Inr meta \<longrightarrow>
        snapshot_refs lib sn (contents s) (rp_chunk_index r) (sn_id e) = Some (item_chunk_ids its @ sm_item_ptrs meta))"
  using run unfolding load_snapshot_item_stream_def
proof (cases rule: io_bind_cases)
  case (fail err)
  then show ?thesis using load_meta_run [OF fail(1) e] sy by (simp add: synced_def)
next
  case (ok meta st1)
  obtain s1 r1 where st1: "st1 = (s1, r1)" by (cases st1)
  note m = load_meta_run [OF ok(1) [unfolded st1] e]
  have ptrs: "load_item_stream_from_ptrs lib y (sm_item_ptrs meta) (s1, r) = (res, (s', r'))" using ok(2) m st1 by simp
  have sy1: "synced lib contents s1 r" using sy m by (simp add: synced_def)
  have "frame {} contents (s1, r) (s', r')" by (rule io_relD [OF frame_item_stream ptrs])
  then have fr: "contents s' = contents s \<and> fence_ok r' \<and> rp_chunk_index r' = rp_chunk_index r
    \<and> rp_write_session r' = rp_write_session r \<and> rp_manifest r' = rp_manifest r"
    using m sy by (auto simp: frame_def synced_def)
  have "snapshot_refs lib sn (contents s) (rp_chunk_index r) (sn_id e) = Some (item_chunk_ids its @ sm_item_ptrs meta')"
    if "res = Inr stream" "decode_items (sb_next_item sn) stream = (its, None)"
      "contents s (snapshot_storage_key (rl_hex lib) (sn_id e)) = Some d" "decode_snapshot_meta lib sn (sn_id e) d = Inr meta'"
    for stream its meta' d
  proof -
    have "meta' = meta" using m that(3,4) by simp
    then show ?thesis
      using item_stream_ok [OF ptrs [unfolded that(1)] sy1] m that(2-4)
      by (auto simp: snapshot_refs_def simp del: chunk_plain.simps)
  qed
  then show ?thesis using fr by blast
qed

lemma delete_outcomes:
  assumes run: "delete_snapshot lib sn y name False (s, r) = (res, (s', r'))" and sy: "synced lib contents s r"
    and e: "find_snapshot (rp_manifest r) name = Some e" "length (snapshot_bytes (sn_id e)) = 32"
  shows "deletion_ok lib sn (contents s) (rp_chunk_index r) (sn_id e) (contents s')
    \<and> (\<not> isl res \<longrightarrow> contents s' (snapshot_storage_key (rl_hex lib) (sn_id e)) = None
        \<and> rp_manifest r' = snd (remove_snapshot name (rp_manifest r))
        \<and> (\<exists>ids. snapshot_refs lib sn (contents s) (rp_chunk_index r) (sn_id e) = Some ids
            \<and> stored_index lib (contents s') = Some (drop_refs ids (map_of (rp_chunk_index r)))))"
proof -
  have keep: ?thesis if "\<And>k. \<not> is_lock_key k \<Longrightarrow> contents s' k = contents s k" "isl res"
    using that deletion_ok_locks [of "contents s'" "contents s"] by simp
  have "io_bind (load_snapshot_meta lib sn y name) (\<lambda>meta. io_bind (load_snapshot_item_stream lib sn y name) (\<lambda>stream.
      io_bind (check_lock_fence lib y) (\<lambda>_.
      io_bind (on_store (be_delete (sy_storage y) (snapshot_storage_key (rl_hex lib) (sn_id e)))) (\<lambda>_.
      io_bind (modify_ws (\<lambda>r. r\<lparr>rp_manifest := snd (remove_snapshot name (rp_manifest r))\<rparr>)) (\<lambda>_.
      io_bind (decrement_snapshot_chunk_refs sn stream (sm_item_ptrs meta)) (\<lambda>impact.
      io_bind (save_state lib sn y) (\<lambda>_. io_return \<lparr>ds_snapshot_name = name,
        ds_chunks_deleted = im_chunks_deleted impact, ds_space_freed = im_space_freed impact\<rparr>))))))) (s, r) = (res, (s', r'))"
    using run e(1) by (simp add: delete_snapshot_def)
  then show ?thesis
  proof (cases rule: io_bind_cases)
    case (fail err)
    then show ?thesis using load_meta_run [OF fail(1) e] keep by simp
  next
    case (ok meta st1)
    obtain s1 where st1: "st1 = (s1, r)" and c1: "contents s1 = contents s"
      and meta: "\<exists>d. contents s (snapshot_storage_key (rl_hex lib) (sn_id e)) = Some d \<and> decode_snapshot_meta lib sn (sn_id e) d = Inr meta"
      using load_meta_run [of sn name s r _ "fst st1" "snd st1", OF _ e] ok(1) by (metis prod.collapse)
    have sy1: "synced lib contents s1 r" using sy c1 by (simp add: synced_def)
    from ok(2) [unfolded st1] show ?thesis
    proof (cases rule: io_bind_cases)
      case (fail err)
      then show ?thesis using snapshot_stream_run [OF fail(1) e sy1] keep c1 by simp
    next
      case (ok stream st2)
      obtain s2 r2 where st2: "st2 = (s2, r2)" by (cases st2)
      note str = snapshot_stream_run [OF ok(1) [unfolded st2] e sy1, unfolded c1]
      from ok(2) [unfolded st2] show ?thesis
      proof (cases rule: io_bind_cases)
        case (fail err)
        then show ?thesis using delete_contents_fence [OF fail(1)] str keep by simp
      next
        case (ok u st3)
        obtain s3 r3 where st3: "st3 = (s3, r3)" by (cases st3)
        have f: "fence_ok r3 \<and> (\<forall>k. \<not> is_lock_key k \<longrightarrow> contents s3 k = contents s k) \<and> rp_chunk_index r3 = rp_chunk_index r
            \<and> rp_write_session r3 = rp_write_session r \<and> rp_manifest r3 = rp_manifest r"
          using delete_contents_fence [OF ok(1) [unfolded st3]] str by simp
        then have "stored_index lib (contents s3) = Some (map_of (rp_chunk_index r))"
          using stored_index_cong [of "contents s3" "contents s"] index_not_lock(1) sy by (simp add: synced_def)
        then show ?thesis
          using delete_removes [OF ok(2) [unfolded st3], where m = "contents s" and idx = "rp_chunk_index r"] f sy e(2) str meta
          by (auto simp: synced_def)
      qed
    qed
  qed
qed

end

section \<open>Properties\<close>

text \<open>C5: Deleting a snapshot never takes a reference away from a snapshot that is still stored, and
  accounts for exactly its own references.  However \<open>delete_snapshot\<close> ends - a refused lock, a failing
  storage operation, an undecodable item stream - only the object of that snapshot and the index change;
  as long as the object is there the stored index still counts its references; and the stored index is
  the old one or the one in which every chunk lost as many references as the snapshot had to it, a chunk
  without references being dropped.  When the command succeeds the object is gone, the snapshot is off
  the list and the stored index is the reduced one.\<close>

theorem delete_snapshot_accounting:
  assumes "repo_machine b contents valid_key lib y" and "synced lib contents s r"
    and "find_snapshot (rp_manifest r) name = Some e" and "length (snapshot_bytes (sn_id e)) = 32"
    and "delete_snapshot lib sn y name False (s, r) = (res, (s', r'))"
  shows "deletion_ok lib sn (contents s) (rp_chunk_index r) (sn_id e) (contents s')
    \<and> (\<not> isl res \<longrightarrow> contents s' (snapshot_storage_key (rl_hex lib) (sn_id e)) = None
        \<and> rp_manifest r' = snd (remove_snapshot name (rp_manifest r))
        \<and> (\<exists>ids. snapshot_refs lib sn (contents s) (rp_chunk_index r) (sn_id e) = Some ids
            \<and> stored_index lib (contents s') = Some (drop_refs ids (map_of (rp_chunk_index r)))))"
  by (rule repo_machine.delete_outcomes [OF assms(1,5,2,3,4)])

text \<open>A repository with one snapshot of one file: two references to the chunk 1, and the item stream in
  the chunk 2; the chunk 1 has a third reference from elsewhere.\<close>

definition wit_item :: item where
  "wit_item = \<lparr>it_path = ''f'', it_entry_type = RegularFile, it_mode = 0, it_uid = 0, it_gid = 0,
     it_user = None, it_group = None, it_mtime = 0, it_atime = None, it_ctime = None, it_size = 4,
     it_chunks = [\<lparr>cr_id = wit_cid 1, cr_size = 2, cr_csize = 4\<rparr>, \<lparr>cr_id = wit_cid 1, cr_size = 2, cr_csize = 4\<rparr>],
     it_link_target = None, it_xattrs = None\<rparr>"

definition wit_meta :: snapshot_meta where
  "wit_meta = \<lparr>sm_name = ''a'', sm_hostname = [], sm_username = [], sm_time = 0, sm_time_end = 0,
     sm_chunker_params = \<lparr>ck_min_size = 0, ck_avg_size = 0, ck_max_size = 0\<rparr>, sm_comment = [],
     sm_item_ptrs = [wit_cid 2],
     sm_stats = \<lparr>ss_nfiles = 1, ss_original_size = 4, ss_compressed_size = 4, ss_deduplicated_size = 4, ss_errors = 0\<rparr>,
     sm_source_label = [], sm_source_paths = [], sm_label = []\<rparr>"

definition wit_snap_lib :: snap_lib where
  "wit_snap_lib = \<lparr>sb_meta_from_slice = (\<lambda>_. Inr wit_meta), sb_next_item = (\<lambda>d. Inr (wit_item, tl d)),
     sb_list_to_vec = (\<lambda>_. Inr []), sb_list_from_slice = (\<lambda>_. Inr []), sb_files_to_vec = (\<lambda>_. Inr [])\<rparr>"

definition wit_sid :: snapshot_id where "wit_sid = SnapshotId (replicate 32 9)"

definition wit_chunks :: chunk_index where
  "wit_chunks =
     [(wit_cid 1, \<lparr>ce_refcount = 3, ce_stored_size = 4, ce_pack_id = wit_pid 1, ce_pack_offset = 0\<rparr>),
      (wit_cid 2, \<lparr>ce_refcount = 1, ce_stored_size = 3, ce_pack_id = wit_pid 1, ce_pack_offset = 5\<rparr>)]"

definition wit_index_object :: "chunk_index \<Rightarrow> bytes" where
  "wit_index_object idx =
     (case pack_object_streaming_with_context (replicate 12 0) ChunkIndexObj INDEX_OBJECT_CONTEXT (rl_crypto wit_index_lib)
         (write_index_plaintext wit_index_lib \<lparr>ib_generation = 7, ib_chunks = idx\<rparr>) of
        Inl _ \<Rightarrow> [] | Inr d \<Rightarrow> d)"

definition wit_snap_store :: memory_state where
  "wit_snap_store =
     [(snapshot_storage_key lower_hex wit_sid, [object_tag SnapshotMeta]),
      (''index'', wit_index_object wit_chunks)] @ wit_pack_store"

definition wit_snap_repo :: repository where
  "wit_snap_repo = wit_repository\<lparr>rp_chunk_index := wit_chunks, rp_manifest :=
     \<lparr>mf_version = 1, mf_timestamp = 0, mf_snapshots = [(wit_snap ''a'' 0)\<lparr>sn_id := wit_sid\<rparr>]\<rparr>\<rparr>"

lemma wit_delete_run:
  "\<not> isl (fst (delete_snapshot wit_index_lib wit_snap_lib wit_system ''a'' False (wit_snap_store, wit_snap_repo)))"
  by code_simp

lemma wit_index_stored:
  "decode_index_blob_full wit_index_lib (wit_index_object wit_chunks) = Inr \<lparr>ib_generation = 7, ib_chunks = wit_chunks\<rparr>"
  by code_simp

lemma wit_synced: "synced wit_index_lib map_of wit_snap_store wit_snap_repo"
proof -
  have "map_of wit_snap_store ''index'' = Some (wit_index_object wit_chunks)"
    by (simp add: wit_snap_store_def snapshot_storage_key_def)
  then have "stored_index wit_index_lib (map_of wit_snap_store) = Some (map_of wit_chunks)"
    by (simp add: stored_index_def wit_index_stored)
  then show ?thesis
    by (auto simp: synced_def wit_snap_repo_def wit_repository_def fence_ok_def MAX_INDEX_ENTRIES_def wit_chunks_def
        wit_pid_def bc_get_def bc_new_def split: if_splits)
qed

lemma delete_snapshot_accounting_witness:
  "\<exists>s' r' d ids. delete_snapshot wit_index_lib wit_snap_lib wit_system ''a'' False (wit_snap_store, wit_snap_repo) = (Inr d, (s', r'))
    \<and> map_of s' (snapshot_storage_key lower_hex wit_sid) = None
    \<and> snapshot_refs wit_index_lib wit_snap_lib (map_of wit_snap_store) wit_chunks wit_sid = Some ids
    \<and> stored_index wit_index_lib (map_of s') = Some (drop_refs ids (map_of wit_chunks))"
proof -
  obtain res s' r' where run: "delete_snapshot wit_index_lib wit_snap_lib wit_system ''a'' False (wit_snap_store, wit_snap_repo) = (res, (s', r'))"
    by (metis prod_cases3)
  then obtain d where d: "res = Inr d" using wit_delete_run by (cases res) auto
  have e: "find_snapshot (rp_manifest wit_snap_repo) ''a'' = Some ((wit_snap ''a'' 0)\<lparr>sn_id := wit_sid\<rparr>)"
    by (simp add: find_snapshot_def wit_snap_repo_def wit_snap_def)
  have "length (snapshot_bytes (sn_id ((wit_snap ''a'' 0)\<lparr>sn_id := wit_sid\<rparr>))) = 32" by (simp add: wit_sid_def)
  from delete_snapshot_accounting [OF mem_repo.repo_machine_axioms wit_synced e this run]
  show ?thesis using run by (auto simp: d wit_snap_repo_def wit_index_lib_def wit_lib_def)
qed

end
