(* ===== verification/Compact.thy ===== *)
theory Compact
  imports Maintenance
begin

text \<open>
  Compaction (\<open>vykar-core/src/commands/compact.rs\<close>): the analysis of live and dead space, the
  selection of packs, and the two ways to repack, on the server or pack by pack through the
  client.  The packs are analysed by several threads; their order only decides the order of packs
  with equally many dead bytes, and the model takes the order of the listing.  The comparison of
  the unused share with the threshold is floating-point arithmetic and a parameter,
  \<open>over_threshold dead payload\<close>.
\<close>

section \<open>Analysis\<close>

record compact_stats =
  ct_packs_total :: u64
  ct_packs_repacked :: u64
  ct_packs_deleted_empty :: u64
  ct_blobs_live :: u64
  ct_space_freed :: u64
  ct_packs_corrupt :: u64
  ct_packs_orphan :: u64

definition compact_stats_default :: compact_stats where
  "compact_stats_default = \<lparr>ct_packs_total = 0, ct_packs_repacked = 0, ct_packs_deleted_empty = 0,
     ct_blobs_live = 0, ct_space_freed = 0, ct_packs_corrupt = 0, ct_packs_orphan = 0\<rparr>"

record live_entry =
  le_chunk_id :: chunk_id
  le_offset :: u64
  le_length :: u32

record pack_analysis =
  pa_pack_id :: pack_id
  pa_storage_key :: string
  pa_live_entries :: "live_entry list"
  pa_total_bytes :: u64
  pa_dead_bytes :: u64

text \<open>The entries of the index that lie in a pack.\<close>

definition per_pack_lookup :: "chunk_index \<Rightarrow> pack_id \<Rightarrow> live_entry list" where
  "per_pack_lookup idx pid =
     map (\<lambda>(i, e). \<lparr>le_chunk_id = i, le_offset = ce_pack_offset e, le_length = ce_stored_size e\<rparr>)
       (filter (\<lambda>(i, e). ce_pack_id e = pid) idx)"

definition shard_prefixes :: "string list" where
  "shard_prefixes = map (\<lambda>n. ''packs/'' @ [hex_digit (n div 16), hex_digit (n mod 16)] @ ''/'') [0..<256]"

definition listed_packs :: "repo_lib \<Rightarrow> string list \<Rightarrow> (string \<times> pack_id) list" where
  "listed_packs lib keys = List.map_filter (\<lambda>key.
     if ends_with key ''/'' then None
     else case pack_id_from_storage_key (rl_hex lib) key of Inl _ \<Rightarrow> None | Inr pid \<Rightarrow> Some (key, pid)) keys"

fun list_pack_shards ::
  "repo_lib \<Rightarrow> 's storage_backend \<Rightarrow> string list \<Rightarrow> (string \<times> pack_id) list \<Rightarrow> vykar_error list \<Rightarrow>
   ('s, vykar_error, (string \<times> pack_id) list) io" where
  "list_pack_shards lib b [] results errors =
     (case errors of [] \<Rightarrow> io_return results | e # _ \<Rightarrow> io_fail e)"
| "list_pack_shards lib b (pre # shards) results errors =
     io_bind (io_try (be_list b pre)) (\<lambda>r.
       case r of
         Inl e \<Rightarrow> list_pack_shards lib b shards results (errors @ [e])
       | Inr keys \<Rightarrow> list_pack_shards lib b shards (results @ listed_packs lib keys) errors)"

definition parallel_list_packs :: "repo_lib \<Rightarrow> 's storage_backend \<Rightarrow> ('s, vykar_error, (string \<times> pack_id) list) io" where
  "parallel_list_packs lib b = list_pack_shards lib b shard_prefixes [] []"

definition live_bytes_of :: "live_entry list \<Rightarrow> u64" where
  "live_bytes_of es = sum_list (map (\<lambda>e. 4 + ucast (le_length e)) es)"

text \<open>What the size of a pack and the index tell about it.\<close>

definition analyze_pack ::
  "(u64 \<Rightarrow> u64 \<Rightarrow> bool) \<Rightarrow> chunk_index \<Rightarrow> string \<times> pack_id \<Rightarrow> u64 \<Rightarrow> compact_stats \<times> pack_analysis list \<Rightarrow>
   compact_stats \<times> pack_analysis list" where
  "analyze_pack over_threshold idx kp pack_size acc =
     (case (kp, acc) of ((key, pid), (stats, analyses)) \<Rightarrow>
       let es = per_pack_lookup idx pid; header = of_nat PACK_HEADER_SIZE in
       if es \<noteq> [] then
         let live_bytes = live_bytes_of es in
         if pack_size < header \<or> live_bytes > pack_size - header
         then (stats\<lparr>ct_packs_corrupt := ct_packs_corrupt stats + 1\<rparr>, analyses)
         else
           let payload = pack_size - header; dead_bytes = payload - live_bytes;
               stats' = stats\<lparr>ct_blobs_live := ct_blobs_live stats + of_nat (length es)\<rparr>
           in if dead_bytes = 0 \<or> \<not> over_threshold dead_bytes payload then (stats', analyses)
              else (stats', analyses @ [\<lparr>pa_pack_id = pid, pa_storage_key = key,
                      pa_live_entries = sort_key le_offset es, pa_total_bytes = payload,
                      pa_dead_bytes = dead_bytes\<rparr>])
       else
         let stats' = stats\<lparr>ct_packs_orphan := ct_packs_orphan stats + 1\<rparr>;
             payload = sat_sub_u64 pack_size header
         in if payload > 0
            then (stats', analyses @ [\<lparr>pa_pack_id = pid, pa_storage_key = key, pa_live_entries = [],
                    pa_total_bytes = payload, pa_dead_bytes = payload\<rparr>])
            else (stats', analyses))"

fun analyze_packs ::
  "'s storage_backend \<Rightarrow> (u64 \<Rightarrow> u64 \<Rightarrow> bool) \<Rightarrow> ('s \<Rightarrow> bool \<times> 's) \<Rightarrow> chunk_index \<Rightarrow> (string \<times> pack_id) list \<Rightarrow>
   compact_stats \<times> pack_analysis list \<Rightarrow> ('s, vykar_error, compact_stats \<times> pack_analysis list) io" where
  "analyze_packs b over_threshold shutdown idx [] acc = io_return acc"
| "analyze_packs b over_threshold shutdown idx (kp # kps) acc = (\<lambda>s.
     case shutdown s of (stop, s1) \<Rightarrow>
       if stop then (Inr acc, s1)
       else io_bind (io_try (be_size b (fst kp))) (\<lambda>sz.
         let stats = (fst acc)\<lparr>ct_packs_total := ct_packs_total (fst acc) + 1\<rparr> in
         analyze_packs b over_threshold shutdown idx kps
           (case sz of
              Inr (Some pack_size) \<Rightarrow> analyze_pack over_threshold idx kp pack_size (stats, snd acc)
            | _ \<Rightarrow> (stats\<lparr>ct_packs_corrupt := ct_packs_corrupt stats + 1\<rparr>, snd acc))) s1)"

fun select_loop :: "u64 option \<Rightarrow> u64 \<Rightarrow> pack_analysis list \<Rightarrow> pack_analysis list" where
  "select_loop cap total' [] = []"
| "select_loop cap total' (a # as) =
     (if (case cap of Some c \<Rightarrow> total' \<ge> c | None \<Rightarrow> False) then []
      else a # select_loop cap (sat_add_u64 total' (pa_total_bytes a)) as)"

definition select_analyses_by_cap :: "pack_analysis list \<Rightarrow> u64 option \<Rightarrow> pack_analysis list" where
  "select_analyses_by_cap analyses max_repack_size = select_loop max_repack_size 0 analyses"

text \<open>Most wasteful first.\<close>

definition by_dead_bytes :: "pack_analysis list \<Rightarrow> pack_analysis list" where
  "by_dead_bytes as = sort_key (\<lambda>a. - int (unat (pa_dead_bytes a))) as"

definition dry_run_stats :: "pack_analysis \<Rightarrow> compact_stats \<Rightarrow> compact_stats" where
  "dry_run_stats a stats =
     (let stats' = (if pa_live_entries a = []
                    then stats\<lparr>ct_packs_deleted_empty := ct_packs_deleted_empty stats + 1\<rparr>
                    else stats\<lparr>ct_packs_repacked := ct_packs_repacked stats + 1\<rparr>)
      in stats'\<lparr>ct_space_freed := ct_space_freed stats' + pa_dead_bytes a\<rparr>)"

section \<open>Repacking on the server\<close>

definition repack_request :: "pack_analysis \<Rightarrow> repack_operation_request" where
  "repack_request a =
     \<lparr>ro_source_pack = pa_storage_key a,
      ro_keep_blobs = map (\<lambda>e. \<lparr>rb_offset = le_offset e, rb_length = ucast (le_length e)\<rparr>) (pa_live_entries a),
      ro_delete_after = True\<rparr>"

text \<open>Moving index entries; \<open>chunk_index_mut\<close> marks the index as changed.\<close>

definition relocate :: "pack_id \<Rightarrow> (chunk_id \<times> u32 \<times> u64) list \<Rightarrow> repository \<Rightarrow> repository" where
  "relocate pid moves r =
     (if moves = [] then r
      else r\<lparr>rp_chunk_index := fold (\<lambda>(i, sz, off) idx. snd (ci_update_location idx i pid off sz)) moves (rp_chunk_index r),
             rp_index_dirty := True\<rparr>)"

fun apply_repack_results ::
  "repo_lib \<Rightarrow> pack_analysis list \<Rightarrow> (string, repack_operation_result) hmap \<Rightarrow> compact_stats \<Rightarrow>
   ('s, compact_stats) repo_io" where
  "apply_repack_results lib [] completed stats = io_return stats"
| "apply_repack_results lib (a # as) completed stats =
     (case map_of completed (pa_storage_key a) of
        None \<Rightarrow> io_fail (Other (''server repack response missing operation for '' @ pa_storage_key a))
      | Some result \<Rightarrow>
          let completed' = hm_remove (pa_storage_key a) completed in
          if pa_live_entries a = [] then
            apply_repack_results lib as completed'
              (if rr_deleted result
               then stats\<lparr>ct_packs_deleted_empty := ct_packs_deleted_empty stats + 1,
                          ct_space_freed := ct_space_freed stats + pa_total_bytes a\<rparr>
               else stats)
          else case rr_new_pack result of
            None \<Rightarrow> io_fail (Other (''server repack did not return new pack for '' @ pa_storage_key a))
          | Some new_pack_key \<Rightarrow>
              (case pack_id_from_storage_key (rl_hex lib) new_pack_key of
                 Inl e \<Rightarrow> io_fail (Other (''server repack returned invalid pack key '' @ new_pack_key))
               | Inr new_pack_id \<Rightarrow>
                   if length (rr_new_offsets result) \<noteq> length (pa_live_entries a)
                   then io_fail (Other (''server repack offsets mismatch for '' @ pa_storage_key a))
                   else
                     io_bind (modify_ws (relocate new_pack_id
                       (map (\<lambda>(e, off). (le_chunk_id e, le_length e, off))
                         (zip (pa_live_entries a) (rr_new_offsets result))))) (\<lambda>_.
                     apply_repack_results lib as completed'
                       (stats\<lparr>ct_packs_repacked := ct_packs_repacked stats + 1,
                          ct_space_freed := (if rr_deleted result then ct_space_freed stats + pa_dead_bytes a
                            else ct_space_freed stats)\<rparr>))))"

definition try_server_side_repack ::
  "repo_lib \<Rightarrow> snap_lib \<Rightarrow> 's system \<Rightarrow> pack_analysis list \<Rightarrow> compact_stats \<Rightarrow> ('s, compact_stats option) repo_io" where
  "try_server_side_repack lib sn y analyses stats =
     (if analyses = [] then io_return (Some stats)
      else
        let plan = \<lparr>rp_operations = map repack_request analyses, rp_protocol_version = PROTOCOL_VERSION\<rparr> in
        io_bind (io_try (on_store (be_server_repack (sy_storage y) plan))) (\<lambda>response.
          case response of
            Inl (UnsupportedBackend _) \<Rightarrow> io_return None
          | Inl e \<Rightarrow> io_fail e
          | Inr resp \<Rightarrow>
              io_bind (apply_repack_results lib analyses
                (hm_collect (map (\<lambda>op. (rr_source_pack op, op)) (rr_completed resp))) stats) (\<lambda>stats'.
              io_bind (save_state lib sn y) (\<lambda>_. io_return (Some stats')))))"

section \<open>Repacking through the client\<close>

definition header_accepted :: "bytes \<Rightarrow> bool" where
  "header_accepted header \<longleftrightarrow> length header = PACK_HEADER_SIZE \<and> take 8 header = PACK_MAGIC
     \<and> header ! 8 \<ge> PACK_VERSION_MIN \<and> header ! 8 \<le> PACK_VERSION_MAX"

text \<open>A blob together with its length prefix, cross-checked with the index.\<close>

definition read_live_blob ::
  "repo_lib \<Rightarrow> 's storage_backend \<Rightarrow> pack_analysis \<Rightarrow> live_entry \<Rightarrow> ('s, vykar_error, bytes) io" where
  "read_live_blob lib b a e =
     (case checked_sub_u64 (le_offset e) 4 of
        None \<Rightarrow> io_fail (Other (''pack '' @ pack_id_display (rl_hex lib) (pa_pack_id a) @ '': blob at offset ''
                  @ show_nat (unat (le_offset e)) @ '' has no room for length prefix''))
      | Some prefix_offset \<Rightarrow>
          let read_len = 4 + ucast (le_length e) :: u64 in
          io_bind (be_get_range b (pa_storage_key a) prefix_offset read_len) (\<lambda>got.
            case got of
              None \<Rightarrow> io_fail (Other (''pack not found: '' @ pack_id_display (rl_hex lib) (pa_pack_id a)))
            | Some combined \<Rightarrow>
                if length combined \<noteq> unat read_len
                then io_fail (Other (''short read from pack '' @ pack_id_display (rl_hex lib) (pa_pack_id a)))
                else if u32_from_le_bytes (take 4 combined) \<noteq> le_length e
                then io_fail (Other (''pack '' @ pack_id_display (rl_hex lib) (pa_pack_id a)
                       @ '': on-disk length differs from the index''))
                else io_return (drop 4 combined)))"

fun copy_live_blobs ::
  "repo_lib \<Rightarrow> 's system \<Rightarrow> pack_analysis \<Rightarrow> live_entry list \<Rightarrow> pack_writer \<Rightarrow> ('s, pack_writer) repo_io" where
  "copy_live_blobs lib y a [] w = io_return w"
| "copy_live_blobs lib y a (e # es) w =
     io_bind (on_store (read_live_blob lib (sy_storage y) a e)) (\<lambda>blob_data.
     io_bind (draw (sy_instant y)) (\<lambda>now.
       case pw_add_blob now w (le_chunk_id e) blob_data of
         (Inl err, _) \<Rightarrow> io_fail err
       | (Inr _, w') \<Rightarrow> copy_live_blobs lib y a es w'))"

definition flush_copy ::
  "repo_lib \<Rightarrow> 's system \<Rightarrow> pack_writer \<Rightarrow> ('s, pack_id \<times> packed_chunk_entry list) repo_io" where
  "flush_copy lib y w = on_store (\<lambda>s.
     case pw_flush (rl_b2 lib) (rl_hex lib) (sy_storage y) w s of (res, _, s') \<Rightarrow> (res, s'))"

text \<open>Copy the live blobs, save the index, and only then delete the old pack.\<close>

definition repack_one :: "repo_lib \<Rightarrow> snap_lib \<Rightarrow> 's system \<Rightarrow> pack_analysis \<Rightarrow> ('s, bool) repo_io" where
  "repack_one lib sn y a =
     io_bind (on_store (be_get_range (sy_storage y) (pa_storage_key a) 0 (of_nat PACK_HEADER_SIZE))) (\<lambda>got.
       case got of
         None \<Rightarrow> io_fail (Other (''pack '' @ pack_id_display (rl_hex lib) (pa_pack_id a)
                    @ '' disappeared during repack''))
       | Some header \<Rightarrow>
           if \<not> header_accepted header then io_return False
           else
             io_bind get_ws (\<lambda>r.
             io_bind (copy_live_blobs lib y a (pa_live_entries a)
                        (pw_new Data (unat (cf_min_pack_size (rp_config r))))) (\<lambda>w.
             io_bind (flush_copy lib y w) (\<lambda>(new_pack_id, new_entries).
             io_bind (modify_ws (relocate new_pack_id (map (\<lambda>(i, sz, off, rc). (i, sz, off)) new_entries))) (\<lambda>_.
             io_bind (save_state lib sn y) (\<lambda>_.
             io_bind (on_store (be_delete (sy_storage y) (pa_storage_key a))) (\<lambda>_.
               io_return True)))))))"

fun repack_loop ::
  "repo_lib \<Rightarrow> snap_lib \<Rightarrow> 's system \<Rightarrow> ('s \<Rightarrow> bool \<times> 's) \<Rightarrow> u64 option \<Rightarrow> pack_analysis list \<Rightarrow> u64 \<Rightarrow>
   compact_stats \<Rightarrow> ('s, compact_stats) repo_io" where
  "repack_loop lib sn y shutdown cap [] repacked stats = io_return stats"
| "repack_loop lib sn y shutdown cap (a # as) repacked stats =
     io_bind (check_interrupted shutdown) (\<lambda>_.
       if (case cap of Some c \<Rightarrow> repacked \<ge> c | None \<Rightarrow> False) then io_return stats
       else if pa_live_entries a = [] then
         io_bind (on_store (be_delete (sy_storage y) (pa_storage_key a))) (\<lambda>_.
           repack_loop lib sn y shutdown cap as repacked
             (stats\<lparr>ct_packs_deleted_empty := ct_packs_deleted_empty stats + 1,
                    ct_space_freed := ct_space_freed stats + pa_total_bytes a\<rparr>))
       else
         io_bind (repack_one lib sn y a) (\<lambda>moved.
           if moved
           then repack_loop lib sn y shutdown cap as (repacked + pa_total_bytes a)
                  (stats\<lparr>ct_packs_repacked := ct_packs_repacked stats + 1,
                         ct_space_freed := ct_space_freed stats + pa_dead_bytes a\<rparr>)
           else repack_loop lib sn y shutdown cap as repacked
                  (stats\<lparr>ct_packs_corrupt := ct_packs_corrupt stats + 1\<rparr>)))"

definition compact_repo ::
  "repo_lib \<Rightarrow> snap_lib \<Rightarrow> 's system \<Rightarrow> (u64 \<Rightarrow> u64 \<Rightarrow> bool) \<Rightarrow> ('s \<Rightarrow> bool \<times> 's) \<Rightarrow> u64 option \<Rightarrow> bool \<Rightarrow>
   ('s, compact_stats) repo_io" where
  "compact_repo lib sn y over_threshold shutdown max_repack_size dry_run =
     io_bind get_ws (\<lambda>r.
     io_bind (on_store (parallel_list_packs lib (sy_storage y))) (\<lambda>discovered.
     io_bind (on_store (analyze_packs (sy_storage y) over_threshold shutdown (rp_chunk_index r) discovered
                (compact_stats_default, []))) (\<lambda>(stats, analyses).
     io_bind (check_interrupted shutdown) (\<lambda>_.
       let selected = select_analyses_by_cap (by_dead_bytes analyses) max_repack_size in
       if dry_run then io_return (fold dry_run_stats selected stats)
       else
         io_bind (try_server_side_repack lib sn y selected stats) (\<lambda>on_server.
           case on_server of
             Some stats' \<Rightarrow> io_return stats'
           | None \<Rightarrow>
               io_bind (check_lock_fence lib y) (\<lambda>_.
               io_bind (repack_loop lib sn y shutdown max_repack_size selected 0 stats) (\<lambda>stats'.
               io_bind (if ct_packs_repacked stats' > 0 \<or> ct_packs_deleted_empty stats' > 0
                        then save_state lib sn y else io_return ()) (\<lambda>_.
                 io_return stats'))))))))"

end
