(* ===== verification/Compact_Safety.thy ===== *)
theory Compact_Safety
  imports Compact "HOL-Library.Multiset"
begin

text \<open>
  Compaction through the client never loses a chunk.  The invariant of the repack loop: the stored
  index is the one in memory, every chunk that could be read before the command can be read through
  it, its entries are those of the first index or point to packs this run wrote, and a pack that is
  still to be handled is as it was or gone.  Each step - a read, an upload, a saved index, a deletion -
  keeps it or ends the command in a state from which every chunk can still be read.
\<close>

section \<open>What is relied on\<close>

definition live_of :: "chunk_index \<Rightarrow> pack_id \<Rightarrow> live_entry list" where
  "live_of idx pid = sort_key le_offset (per_pack_lookup idx pid)"

definition live_blob :: "bytes \<Rightarrow> live_entry \<Rightarrow> bytes" where
  "live_blob d e = take (unat (le_length e)) (drop (unat (le_offset e)) d)"

text \<open>The pack that the live blobs of a pack make up.\<close>

definition repacked :: "repo_lib \<Rightarrow> (string \<rightharpoonup> bytes) \<Rightarrow> chunk_index \<Rightarrow> pack_id \<Rightarrow> bytes" where
  "repacked lib m idx pid =
     pack_image (map (live_blob (the (m (pack_storage_key (rl_hex lib) pid)))) (live_of idx pid))"

definition repack_key :: "repo_lib \<Rightarrow> (string \<rightharpoonup> bytes) \<Rightarrow> chunk_index \<Rightarrow> pack_id \<Rightarrow> string" where
  "repack_key lib m idx pid = pack_storage_key (rl_hex lib) (pack_id_compute (rl_b2 lib) (repacked lib m idx pid))"

text \<open>A pack with dead space: its live blobs make up another pack.\<close>

definition shrinks :: "repo_lib \<Rightarrow> (string \<rightharpoonup> bytes) \<Rightarrow> chunk_index \<Rightarrow> pack_id \<Rightarrow> bool" where
  "shrinks lib m idx pid \<longleftrightarrow> live_of idx pid \<noteq> []
     \<and> (\<exists>d. m (pack_storage_key (rl_hex lib) pid) = Some d \<and> d \<noteq> repacked lib m idx pid)"

text \<open>No pack a repack writes is in the storage already, and equal names mean equal contents.\<close>

definition repacks_fresh :: "repo_lib \<Rightarrow> (string \<rightharpoonup> bytes) \<Rightarrow> chunk_index \<Rightarrow> bool" where
  "repacks_fresh lib m idx \<longleftrightarrow>
     (\<forall>p. shrinks lib m idx p \<longrightarrow> m (repack_key lib m idx p) = None)
     \<and> (\<forall>p q. shrinks lib m idx p \<longrightarrow> shrinks lib m idx q \<longrightarrow> repack_key lib m idx p = repack_key lib m idx q \<longrightarrow>
          repacked lib m idx p = repacked lib m idx q)"

text \<open>Every pack lies under the key that belongs to its name.\<close>

definition canonical_packs :: "repo_lib \<Rightarrow> (string \<rightharpoonup> bytes) \<Rightarrow> bool" where
  "canonical_packs lib m \<longleftrightarrow> (\<forall>k p. m k \<noteq> None \<longrightarrow> starts_with k ''packs/'' \<longrightarrow>
     pack_id_from_storage_key (rl_hex lib) k = Inr p \<longrightarrow> k = pack_storage_key (rl_hex lib) p)"

text \<open>Every chunk of the index \<open>idx\<close> that is readable from \<open>m\<close> is readable from \<open>m'\<close> by \<open>f\<close>.\<close>

definition keeps_chunks ::
  "repo_lib \<Rightarrow> (string \<rightharpoonup> bytes) \<Rightarrow> chunk_index \<Rightarrow> (string \<rightharpoonup> bytes) \<Rightarrow> (chunk_id \<rightharpoonup> chunk_index_entry) \<Rightarrow> bool" where
  "keeps_chunks lib m idx m' f \<longleftrightarrow>
     (\<forall>c d. chunk_blob lib m (map_of idx) c = Some d \<longrightarrow> chunk_blob lib m' f c = Some d)"

section \<open>Lemmas\<close>

lemma set_live_of:
  "hm_wf idx \<Longrightarrow> e \<in> set (live_of idx pid) \<longleftrightarrow>
   (\<exists>x. map_of idx (le_chunk_id e) = Some x \<and> ce_pack_id x = pid \<and> ce_pack_offset x = le_offset e \<and> ce_stored_size x = le_length e)"
proof -
  assume wf: "hm_wf idx"
  have "e \<in> set (live_of idx pid) \<longleftrightarrow> (\<exists>i x. (i, x) \<in> set idx \<and> ce_pack_id x = pid
      \<and> e = \<lparr>le_chunk_id = i, le_offset = ce_pack_offset x, le_length = ce_stored_size x\<rparr>)"
    by (auto simp: live_of_def per_pack_lookup_def)
  then show ?thesis
    using wf by (cases e) (auto simp: hm_wf_def map_of_eq_Some_iff)
qed

lemma distinct_live_of:
  assumes "hm_wf idx"
  shows "distinct (map le_chunk_id (live_of idx pid))"
proof -
  have eq: "map le_chunk_id (per_pack_lookup idx pid) = map fst (filter (\<lambda>(i, e). ce_pack_id e = pid) idx)"
    by (simp add: per_pack_lookup_def comp_def case_prod_beta)
  have "distinct (map le_chunk_id (per_pack_lookup idx pid))"
    unfolding eq using assms by (simp add: hm_wf_def distinct_map_filter)
  then have "distinct (per_pack_lookup idx pid) \<and> inj_on le_chunk_id (set (per_pack_lookup idx pid))"
    by (simp add: distinct_map)
  then show ?thesis by (simp add: live_of_def distinct_map distinct_sort)
qed

lemma length_live_of: "length (live_of idx pid) \<le> length idx"
  by (simp add: live_of_def per_pack_lookup_def)

text \<open>Moving entries.\<close>

lemma ci_get_update:
  "map_of (snd (ci_update_location idx i pid off sz)) =
     (map_of idx)(i := map_option (\<lambda>e. e\<lparr>ce_pack_id := pid, ce_pack_offset := off, ce_stored_size := sz\<rparr>) (map_of idx i))"
  by (auto simp: ci_update_location_def fun_eq_iff split: option.splits)

lemma length_update_location: "length (snd (ci_update_location idx i pid off sz)) = length idx"
proof (cases "map_of idx i")
  case (Some e)
  then have "i \<in> fst ` set idx" by (force dest: map_of_SomeD)
  then show ?thesis by (simp add: ci_update_location_def Some hm_insert_def length_update_present)
qed (simp add: ci_update_location_def)

lemma relocate_spec:
  assumes "distinct (map fst moves)" and "moves \<noteq> []"
  shows "map_of (rp_chunk_index (relocate pid moves r)) c =
    (case map_of moves c of
       None \<Rightarrow> map_of (rp_chunk_index r) c
     | Some (sz, off) \<Rightarrow> map_option (\<lambda>e. e\<lparr>ce_pack_id := pid, ce_pack_offset := off, ce_stored_size := sz\<rparr>)
         (map_of (rp_chunk_index r) c))"
    and "length (rp_chunk_index (relocate pid moves r)) = length (rp_chunk_index r)"
    and "rp_index_dirty (relocate pid moves r)" and "rp_write_session (relocate pid moves r) = rp_write_session r"
    and "fence_ok (relocate pid moves r) = fence_ok r"
proof -
  let ?f = "\<lambda>(i, sz, off) idx. snd (ci_update_location idx i pid off sz)"
  have "map_of (fold ?f moves idx) c = (case map_of moves c of None \<Rightarrow> map_of idx c
     | Some (sz, off) \<Rightarrow> map_option (\<lambda>e. e\<lparr>ce_pack_id := pid, ce_pack_offset := off, ce_stored_size := sz\<rparr>) (map_of idx c))
     \<and> length (fold ?f moves idx) = length idx" for idx
    using assms(1)
  proof (induction moves arbitrary: idx)
    case (Cons mv moves)
    obtain i sz off where mv: "mv = (i, sz, off)" by (metis prod_cases3)
    have none: "map_of moves i = None" using Cons.prems mv by (simp add: map_of_eq_None_iff)
    from Cons.IH [of "snd (ci_update_location idx i pid off sz)"] Cons.prems show ?case
      by (cases "c = i"; cases "map_of moves c") (auto simp: mv ci_get_update length_update_location none)
  qed simp
  then show "map_of (rp_chunk_index (relocate pid moves r)) c =
    (case map_of moves c of
       None \<Rightarrow> map_of (rp_chunk_index r) c
     | Some (sz, off) \<Rightarrow> map_option (\<lambda>e. e\<lparr>ce_pack_id := pid, ce_pack_offset := off, ce_stored_size := sz\<rparr>)
         (map_of (rp_chunk_index r) c))"
    and "length (rp_chunk_index (relocate pid moves r)) = length (rp_chunk_index r)"
    using assms(2) by (simp_all add: relocate_def)
qed (use assms(2) in \<open>simp_all add: relocate_def fence_ok_def\<close>)

text \<open>What the analysis says of a pack.\<close>

definition sound_analysis :: "repo_lib \<Rightarrow> (string \<rightharpoonup> bytes) \<Rightarrow> chunk_index \<Rightarrow> pack_analysis \<Rightarrow> bool" where
  "sound_analysis lib m idx a \<longleftrightarrow> pa_storage_key a = pack_storage_key (rl_hex lib) (pa_pack_id a)
     \<and> length (pack_bytes (pa_pack_id a)) = 32 \<and> pa_live_entries a = live_of idx (pa_pack_id a)
     \<and> (\<exists>d. m (pa_storage_key a) = Some d
         \<and> (pa_live_entries a \<noteq> [] \<longrightarrow> of_nat (length d) \<noteq> of_nat PACK_HEADER_SIZE + live_bytes_of (pa_live_entries a)))"

lemma live_bytes_perm: "mset xs = mset ys \<Longrightarrow> live_bytes_of xs = live_bytes_of ys"
proof -
  assume "mset xs = mset ys"
  then have "mset (map (\<lambda>e. 4 + ucast (le_length e) :: u64) xs) = mset (map (\<lambda>e. 4 + ucast (le_length e)) ys)" by simp
  then show ?thesis unfolding live_bytes_of_def by (metis sum_mset_sum_list)
qed

lemma analyze_pack_sound:
  assumes "\<forall>a \<in> set as. sound_analysis lib m idx a" and "key = pack_storage_key (rl_hex lib) pid"
    and "length (pack_bytes pid) = 32" and "m key = Some d"
    and "analyze_pack over idx (key, pid) (of_nat (length d)) (st, as) = (st', as')"
  shows "\<forall>a \<in> set as'. sound_analysis lib m idx a"
proof -
  let ?es = "per_pack_lookup idx pid"
  have lb: "live_bytes_of (live_of idx pid) = live_bytes_of ?es" by (rule live_bytes_perm) (simp add: live_of_def)
  have nil: "live_of idx pid = [] \<longleftrightarrow> ?es = []" by (simp add: live_of_def flip: length_0_conv)
  have "set as' \<subseteq> set as \<or> (\<exists>a. as' = as @ [a] \<and> sound_analysis lib m idx a)"
    using assms(5) assms(2-4) lb nil
    by (auto simp: analyze_pack_def Let_def sound_analysis_def live_of_def [symmetric] algebra_simps split: if_splits)
  then show ?thesis using assms(1) by auto
qed

section \<open>The invariant\<close>

text \<open>An index during the command: no chunk is lost, and every entry is as in the first index or in a
  pack that this run wrote.\<close>

definition moved ::
  "repo_lib \<Rightarrow> (string \<rightharpoonup> bytes) \<Rightarrow> chunk_index \<Rightarrow> (string \<rightharpoonup> bytes) \<Rightarrow> (chunk_id \<rightharpoonup> chunk_index_entry) \<Rightarrow> bool" where
  "moved lib m0 idx0 m f \<longleftrightarrow> dom f = dom (map_of idx0) \<and> keeps_chunks lib m0 idx0 m f
     \<and> (\<forall>c e. f c = Some e \<longrightarrow> map_of idx0 c = Some e
         \<or> (\<exists>p. shrinks lib m0 idx0 p \<and> pack_storage_key (rl_hex lib) (ce_pack_id e) = repack_key lib m0 idx0 p
              \<and> m (repack_key lib m0 idx0 p) = Some (repacked lib m0 idx0 p)))"

definition loop_inv ::
  "repo_lib \<Rightarrow> (string \<rightharpoonup> bytes) \<Rightarrow> chunk_index \<Rightarrow> pack_analysis list \<Rightarrow> (string \<rightharpoonup> bytes) \<Rightarrow> repository \<Rightarrow> bool" where
  "loop_inv lib m0 idx0 as m r \<longleftrightarrow> rp_write_session r = None \<and> fence_ok r
     \<and> length (rp_chunk_index r) < MAX_INDEX_ENTRIES
     \<and> stored_index lib m = Some (map_of (rp_chunk_index r)) \<and> moved lib m0 idx0 m (map_of (rp_chunk_index r))
     \<and> (\<forall>a \<in> set as. m (pa_storage_key a) = m0 (pa_storage_key a) \<or> m (pa_storage_key a) = None)"

text \<open>However the command ends, the stored index finds every chunk.\<close>

definition chunks_safe :: "repo_lib \<Rightarrow> (string \<rightharpoonup> bytes) \<Rightarrow> chunk_index \<Rightarrow> (string \<rightharpoonup> bytes) \<Rightarrow> bool" where
  "chunks_safe lib m0 idx0 m \<longleftrightarrow> (\<exists>f. stored_index lib m = Some f \<and> keeps_chunks lib m0 idx0 m f)"

lemma loop_inv_safe: "loop_inv lib m0 idx0 as m r \<Longrightarrow> chunks_safe lib m0 idx0 m"
  by (auto simp: loop_inv_def chunks_safe_def moved_def)

lemma pack_key_packs: "starts_with (pack_storage_key hx p) ''packs/''"
  by (simp add: pack_storage_key_def starts_with_def)

lemma packs_other: "\<not> starts_with ''index'' ''packs/''" "\<not> starts_with ''index.gen'' ''packs/''"
  "is_lock_key k \<Longrightarrow> \<not> starts_with k ''packs/''"
  by (auto simp: is_lock_key_def starts_with_def LOCKS_PREFIX_def)

lemma chunk_blob_cong:
  "(\<And>p. m' (pack_storage_key (rl_hex lib) p) = m (pack_storage_key (rl_hex lib) p)) \<Longrightarrow> chunk_blob lib m' f c = chunk_blob lib m f c"
  by (auto simp: chunk_blob_def located_def split: option.splits)

lemma moved_entry:
  assumes "moved lib m0 idx0 m f" and "f c = Some e" and "map_of idx0 c \<noteq> Some e"
  obtains p where "shrinks lib m0 idx0 p" and "pack_storage_key (rl_hex lib) (ce_pack_id e) = repack_key lib m0 idx0 p"
    and "m (repack_key lib m0 idx0 p) = Some (repacked lib m0 idx0 p)"
  using assms unfolding moved_def by blast

text \<open>An index stays in order when the storage keeps the packs it names.\<close>

lemma movedI:
  assumes "moved lib m0 idx0 m f" and "keeps_chunks lib m0 idx0 m' f"
    and "\<And>p. shrinks lib m0 idx0 p \<Longrightarrow> m (repack_key lib m0 idx0 p) = Some (repacked lib m0 idx0 p) \<Longrightarrow>
      m' (repack_key lib m0 idx0 p) = Some (repacked lib m0 idx0 p)"
  shows "moved lib m0 idx0 m' f"
  unfolding moved_def
proof (intro conjI allI impI)
  show "dom f = dom (map_of idx0)" using assms(1) by (simp add: moved_def)
  fix c e assume e: "f c = Some e"
  show "map_of idx0 c = Some e \<or> (\<exists>p. shrinks lib m0 idx0 p \<and> pack_storage_key (rl_hex lib) (ce_pack_id e) = repack_key lib m0 idx0 p
      \<and> m' (repack_key lib m0 idx0 p) = Some (repacked lib m0 idx0 p))"
    using moved_entry [OF assms(1) e] assms(3) by metis
qed (rule assms(2))

lemma moved_cong:
  assumes "moved lib m0 idx0 m f" and "\<And>k. starts_with k ''packs/'' \<Longrightarrow> m' k = m k"
  shows "moved lib m0 idx0 m' f"
proof -
  have k: "m' (pack_storage_key hx p) = m (pack_storage_key hx p)" for hx p by (rule assms(2)) (rule pack_key_packs)
  have "m' (repack_key lib m0 idx0 p) = m (repack_key lib m0 idx0 p)" for p unfolding repack_key_def by (rule k)
  moreover have "keeps_chunks lib m0 idx0 m' f"
    using assms(1) chunk_blob_cong [of m' lib m f, OF k] by (simp add: moved_def keeps_chunks_def)
  ultimately show ?thesis by (intro movedI [OF assms(1)]) simp_all
qed

text \<open>A chunk that was readable at first lies in a pack of the first storage.\<close>

lemma first_pack:
  "chunk_blob lib m0 (map_of idx0) c = Some d \<Longrightarrow> map_of idx0 c = Some e \<Longrightarrow> m0 (pack_storage_key (rl_hex lib) (ce_pack_id e)) \<noteq> None"
  by (auto simp: chunk_blob_def located_def split: option.splits)

lemma moved_put:
  assumes mv: "moved lib m0 idx0 m f" and fresh: "repacks_fresh lib m0 idx0" and p: "shrinks lib m0 idx0 p"
  shows "moved lib m0 idx0 (m(repack_key lib m0 idx0 p \<mapsto> repacked lib m0 idx0 p)) f"
proof -
  let ?k = "repack_key lib m0 idx0 p" and ?m = "m(repack_key lib m0 idx0 p \<mapsto> repacked lib m0 idx0 p)"
  have new: "m0 ?k = None" using fresh p by (simp add: repacks_fresh_def)
  have same: "?m (repack_key lib m0 idx0 q) = Some (repacked lib m0 idx0 q)"
    if "shrinks lib m0 idx0 q" "m (repack_key lib m0 idx0 q) = Some (repacked lib m0 idx0 q)" for q
  proof (cases "repack_key lib m0 idx0 p = repack_key lib m0 idx0 q")
    case True
    then have "repacked lib m0 idx0 p = repacked lib m0 idx0 q" using fresh p that(1) unfolding repacks_fresh_def by blast
    then show ?thesis using True by (simp only: fun_upd_same)
  next
    case False
    then show ?thesis using that(2) by (simp only: fun_upd_other [OF False [symmetric]])
  qed
  have "chunk_blob lib ?m f c = Some d" if c: "chunk_blob lib m0 (map_of idx0) c = Some d" for c d
  proof -
    have old: "chunk_blob lib m f c = Some d" using mv c by (simp add: moved_def keeps_chunks_def)
    then obtain e where e: "f c = Some e" "located lib m e = Some d" by (auto simp: chunk_blob_def split: option.splits)
    let ?ke = "pack_storage_key (rl_hex lib) (ce_pack_id e)"
    have "?m ?ke = m ?ke"
    proof (cases "map_of idx0 c = Some e")
      case True
      then have "m0 ?ke \<noteq> None" by (rule first_pack [OF c])
      then have "?ke \<noteq> ?k" using new by metis
      then show ?thesis by (rule fun_upd_other)
    next
      case False
      then obtain q where "shrinks lib m0 idx0 q" "?ke = repack_key lib m0 idx0 q"
        "m (repack_key lib m0 idx0 q) = Some (repacked lib m0 idx0 q)" using moved_entry [OF mv e(1)] by metis
      then show ?thesis using same [of q] by (simp only:)
    qed
    then have "located lib ?m e = located lib m e" unfolding located_def by (simp only:)
    then show ?thesis using e unfolding chunk_blob_def by (simp only: option.case)
  qed
  then have "keeps_chunks lib m0 idx0 ?m f" by (simp add: keeps_chunks_def)
  then show ?thesis by (rule movedI [OF mv]) (rule same)
qed

lemma moved_delete:
  assumes mv: "moved lib m0 idx0 m f" and fresh: "repacks_fresh lib m0 idx0" and k: "m0 k \<noteq> None"
    and unused: "\<And>c e. f c = Some e \<Longrightarrow> map_of idx0 c = Some e \<Longrightarrow> pack_storage_key (rl_hex lib) (ce_pack_id e) \<noteq> k"
  shows "moved lib m0 idx0 (m(k := None)) f"
proof -
  have ne: "repack_key lib m0 idx0 q \<noteq> k" if "shrinks lib m0 idx0 q" for q
    using fresh that k by (auto simp: repacks_fresh_def)
  have "chunk_blob lib (m(k := None)) f c = Some d" if c: "chunk_blob lib m0 (map_of idx0) c = Some d" for c d
  proof -
    have "chunk_blob lib m f c = Some d" using mv c by (simp add: moved_def keeps_chunks_def)
    then obtain e where e: "f c = Some e" "located lib m e = Some d" by (auto simp: chunk_blob_def split: option.splits)
    have "pack_storage_key (rl_hex lib) (ce_pack_id e) \<noteq> k"
    proof (cases "map_of idx0 c = Some e")
      case False
      then obtain q where "shrinks lib m0 idx0 q" "pack_storage_key (rl_hex lib) (ce_pack_id e) = repack_key lib m0 idx0 q"
        using moved_entry [OF mv e(1)] by metis
      then show ?thesis using ne by simp
    qed (rule unused [OF e(1)])
    then show ?thesis using e by (simp add: chunk_blob_def located_def)
  qed
  then have "keeps_chunks lib m0 idx0 (m(k := None)) f" by (simp add: keeps_chunks_def)
  then show ?thesis by (rule movedI [OF mv]) (simp add: ne)
qed

text \<open>The live entries of a pack move to the pack that was made from them.\<close>

definition relocated ::
  "pack_id \<Rightarrow> (chunk_id \<times> u32 \<times> u64) list \<Rightarrow> (chunk_id \<rightharpoonup> chunk_index_entry) \<Rightarrow> (chunk_id \<rightharpoonup> chunk_index_entry)" where
  "relocated pid moves f = (\<lambda>c. case map_of moves c of
       None \<Rightarrow> f c
     | Some (sz, off) \<Rightarrow> map_option (\<lambda>e. e\<lparr>ce_pack_id := pid, ce_pack_offset := off, ce_stored_size := sz\<rparr>) (f c))"

definition moves_ok :: "bytes \<Rightarrow> bytes \<Rightarrow> live_entry list \<Rightarrow> (chunk_id \<times> u32 \<times> u64) list \<Rightarrow> bool" where
  "moves_ok d img es moves \<longleftrightarrow> map fst moves = map le_chunk_id es
     \<and> (\<forall>(i, sz, off) \<in> set moves. \<exists>e \<in> set es. le_chunk_id e = i \<and> unat off + unat sz \<le> length img
          \<and> take (unat sz) (drop (unat off) img) = live_blob d e)"

lemma moves_of_entries:
  assumes "list_all2 (\<lambda>(i, sz, off, r) (j, b, r'). i = j \<and> r = r' \<and> unat off + unat sz \<le> length img \<and>
      take (unat sz) (drop (unat off) img) = b) entries (map (\<lambda>e. (le_chunk_id e, live_blob d e, 1 :: u32)) es)"
  shows "moves_ok d img es (map (\<lambda>(i, sz, off, rc). (i, sz, off)) entries)"
  using assms
proof (induction es arbitrary: entries)
  case (Cons e es)
  then show ?case by (fastforce simp: moves_ok_def list_all2_Cons2)
qed (simp add: moves_ok_def)

lemma relocated_moved:
  assumes mv: "moved lib m0 idx0 m f" and wf: "hm_wf idx0" and p: "shrinks lib m0 idx0 pid"
    and stored: "m (repack_key lib m0 idx0 pid) = Some (repacked lib m0 idx0 pid)"
    and d: "m0 (pack_storage_key (rl_hex lib) pid) = Some d"
    and moves: "moves_ok d (repacked lib m0 idx0 pid) (live_of idx0 pid) moves"
  shows "moved lib m0 idx0 m (relocated (pack_id_compute (rl_b2 lib) (repacked lib m0 idx0 pid)) moves f)"
proof -
  let ?new = "pack_id_compute (rl_b2 lib) (repacked lib m0 idx0 pid)" and ?img = "repacked lib m0 idx0 pid"
  let ?f = "relocated ?new moves f"
  have key: "pack_storage_key (rl_hex lib) ?new = repack_key lib m0 idx0 pid" by (simp add: repack_key_def)
  have dom: "dom ?f = dom (map_of idx0)"
    using mv by (auto simp: moved_def relocated_def dom_def split: option.splits prod.splits)
  have keep: "chunk_blob lib m ?f c = Some blob" if c: "chunk_blob lib m0 (map_of idx0) c = Some blob" for c blob
  proof (cases "map_of moves c")
    case None
    then show ?thesis using mv c by (simp add: moved_def keeps_chunks_def chunk_blob_def relocated_def)
  next
    case (Some x)
    obtain sz off where x: "x = (sz, off)" by (cases x)
    obtain e where e: "e \<in> set (live_of idx0 pid)" "le_chunk_id e = c" "unat off + unat sz \<le> length ?img"
      "take (unat sz) (drop (unat off) ?img) = live_blob d e"
      using moves map_of_SomeD [OF Some] by (auto simp: moves_ok_def x)
    obtain y0 where y0: "map_of idx0 c = Some y0" "ce_pack_id y0 = pid" "ce_pack_offset y0 = le_offset e" "ce_stored_size y0 = le_length e"
      using set_live_of [OF wf] e(1,2) by auto
    then have "blob = live_blob d e"
      using c d by (auto simp: chunk_blob_def located_def live_blob_def split: if_splits)
    moreover have "c \<in> dom f" using mv y0(1) unfolding moved_def by blast
    then obtain x0 where "f c = Some x0" by blast
    ultimately show ?thesis using Some x e(3,4) stored key by (simp add: chunk_blob_def located_def relocated_def)
  qed
  show ?thesis unfolding moved_def
  proof (intro conjI allI impI dom)
    show "keeps_chunks lib m0 idx0 m ?f" using keep by (simp add: keeps_chunks_def)
    fix c e assume e: "?f c = Some e"
    show "map_of idx0 c = Some e \<or> (\<exists>p. shrinks lib m0 idx0 p \<and> pack_storage_key (rl_hex lib) (ce_pack_id e) = repack_key lib m0 idx0 p
        \<and> m (repack_key lib m0 idx0 p) = Some (repacked lib m0 idx0 p))"
    proof (cases "map_of moves c")
      case None
      then have "f c = Some e" using e by (simp add: relocated_def)
      then show ?thesis using moved_entry [OF mv] by metis
    next
      case (Some x)
      then have "ce_pack_id e = ?new" using e by (auto simp: relocated_def split: prod.splits)
      then show ?thesis using p stored key by metis
    qed
  qed
qed

lemma relocated_leaves:
  assumes wf: "hm_wf idx0" and p: "shrinks lib m0 idx0 pid" and fresh: "repacks_fresh lib m0 idx0"
    and moves: "moves_ok d img (live_of idx0 pid) moves"
    and e: "relocated (pack_id_compute (rl_b2 lib) (repacked lib m0 idx0 pid)) moves f c = Some e" "map_of idx0 c = Some e"
  shows "ce_pack_id e \<noteq> pid"
proof
  assume pid: "ce_pack_id e = pid"
  let ?l = "\<lparr>le_chunk_id = c, le_offset = ce_pack_offset e, le_length = ce_stored_size e\<rparr>"
  have "?l \<in> set (live_of idx0 pid)" using set_live_of [OF wf, of ?l pid] e(2) pid by simp
  then have "c \<in> set (map le_chunk_id (live_of idx0 pid))" by (metis image_eqI list.set_map live_entry.select_convs(1))
  moreover have "map fst moves = map le_chunk_id (live_of idx0 pid)" using moves by (simp add: moves_ok_def)
  ultimately have "c \<in> fst ` set moves" by (metis list.set_map)
  then obtain x where "map_of moves c = Some x" by (metis map_of_eq_None_iff not_None_eq)
  then have "ce_pack_id e = pack_id_compute (rl_b2 lib) (repacked lib m0 idx0 pid)"
    using e(1) by (auto simp: relocated_def split: prod.splits)
  then have "pack_storage_key (rl_hex lib) pid = repack_key lib m0 idx0 pid" using pid by (simp add: repack_key_def)
  then show False using fresh p by (auto simp: repacks_fresh_def shrinks_def)
qed

text \<open>The size of a repacked pack.\<close>

lemma length_image: "length (pack_image bs) = PACK_HEADER_SIZE + sum_list (map (\<lambda>b. 4 + length b) bs)"
  by (induction bs) (simp_all add: pack_image_def blob_frame_def PACK_HEADER_SIZE_def)

lemma live_blob_length: "unat (le_offset e) + unat (le_length e) \<le> length d \<Longrightarrow> length (live_blob d e) = unat (le_length e)"
  by (simp add: live_blob_def)

lemma live_bytes_word:
  "(of_nat (sum_list (map (\<lambda>e. 4 + unat (le_length e)) es)) :: u64) = live_bytes_of es"
  by (induction es) (simp_all add: live_bytes_of_def)

lemma image_sizes:
  assumes "\<forall>e \<in> set es. unat (le_offset e) + unat (le_length e) \<le> length d"
  shows "(of_nat (length (pack_image (map (live_blob d) es))) :: u64) = of_nat PACK_HEADER_SIZE + live_bytes_of es"
    and "length es < MAX_INDEX_ENTRIES \<Longrightarrow> length (pack_image (map (live_blob d) es)) < 2 ^ 64"
proof -
  have len: "length (pack_image (map (live_blob d) es)) = PACK_HEADER_SIZE + sum_list (map (\<lambda>e. 4 + unat (le_length e)) es)"
    unfolding length_image map_map using assms
    by (simp add: live_blob_length cong: map_cong)
  show "(of_nat (length (pack_image (map (live_blob d) es))) :: u64) = of_nat PACK_HEADER_SIZE + live_bytes_of es"
    unfolding len of_nat_add live_bytes_word ..
  have "sum_list (map (\<lambda>e. 4 + unat (le_length e)) es) \<le> length es * (4 + 2 ^ 32)"
  proof (induction es)
    case (Cons e es)
    then show ?case using unsigned_less [of "le_length e", where 'a = nat] by simp
  qed simp
  also have "\<dots> \<le> MAX_INDEX_ENTRIES * (4 + 2 ^ 32)" if "length es < MAX_INDEX_ENTRIES" using that by simp
  finally show "length (pack_image (map (live_blob d) es)) < 2 ^ 64" if "length es < MAX_INDEX_ENTRIES"
    unfolding len using that by (simp add: MAX_INDEX_ENTRIES_def PACK_HEADER_SIZE_def)
qed

lemma put_inv:
  assumes inv: "loop_inv lib m0 idx0 as m r" and fresh: "repacks_fresh lib m0 idx0" and p: "shrinks lib m0 idx0 p"
    and so: "\<forall>a \<in> set as. sound_analysis lib m0 idx0 a"
  shows "loop_inv lib m0 idx0 as (m(repack_key lib m0 idx0 p \<mapsto> repacked lib m0 idx0 p)) r"
proof -
  let ?k = "repack_key lib m0 idx0 p" and ?m = "m(repack_key lib m0 idx0 p \<mapsto> repacked lib m0 idx0 p)"
  have new: "m0 ?k = None" using fresh p by (simp add: repacks_fresh_def)
  have "?k \<noteq> ''index''" using packs_other(1) pack_key_packs unfolding repack_key_def by metis
  then have "stored_index lib ?m = stored_index lib m" by (intro stored_index_cong) simp
  moreover have "?m (pa_storage_key a) = m (pa_storage_key a)" if "a \<in> set as" for a
  proof -
    have "m0 (pa_storage_key a) \<noteq> None" using so that by (auto simp: sound_analysis_def)
    then have "pa_storage_key a \<noteq> ?k" using new by metis
    then show ?thesis by (rule fun_upd_other)
  qed
  moreover have "moved lib m0 idx0 ?m (map_of (rp_chunk_index r))"
    using moved_put [OF _ fresh p] inv by (simp add: loop_inv_def)
  ultimately show ?thesis using inv unfolding loop_inv_def by (metis (no_types, lifting))
qed

lemma loop_inv_start:
  assumes "rp_write_session r = None" and "fence_ok r" and "length (rp_chunk_index r) < MAX_INDEX_ENTRIES"
    and "stored_index lib m = Some (map_of (rp_chunk_index r))"
    and "\<And>k. starts_with k ''packs/'' \<Longrightarrow> m k = m0 k" and "\<forall>a \<in> set as. sound_analysis lib m0 (rp_chunk_index r) a"
  shows "loop_inv lib m0 (rp_chunk_index r) as m r"
proof -
  have "moved lib m0 (rp_chunk_index r) m0 (map_of (rp_chunk_index r))" by (simp add: moved_def keeps_chunks_def)
  then have "moved lib m0 (rp_chunk_index r) m (map_of (rp_chunk_index r))" using assms(5) by (rule moved_cong)
  moreover have "m (pa_storage_key a) = m0 (pa_storage_key a)" if "a \<in> set as" for a
    using assms(5,6) that pack_key_packs by (simp add: sound_analysis_def)
  ultimately show ?thesis using assms(1-4) by (simp add: loop_inv_def)
qed

lemma selected_subset: "set (select_analyses_by_cap (by_dead_bytes as) cap) \<subseteq> set as"
proof -
  have "set (select_loop cap n xs) \<subseteq> set xs" for n xs by (induction xs arbitrary: n) (auto split: option.splits)
  from this [of 0 "by_dead_bytes as"] show ?thesis by (simp add: select_analyses_by_cap_def by_dead_bytes_def)
qed

context repo_machine
begin

lemma list_shards_run:
  assumes "list_pack_shards lib b shards results errors s = (res, s')"
    and "\<forall>p \<in> set shards. starts_with p ''packs/''"
  shows "contents s' = contents s \<and> (\<forall>ps. res = Inr ps \<longrightarrow> (\<forall>(k, p) \<in> set ps. (k, p) \<in> set results \<or>
    (contents s k \<noteq> None \<and> starts_with k ''packs/'' \<and> pack_id_from_storage_key (rl_hex lib) k = Inr p)))"
  using assms
proof (induction shards arbitrary: results errors s)
  case Nil
  then show ?case by (auto simp: io_return_def io_fail_def split: list.splits)
next
  case (Cons pre shards)
  obtain q s1 where q: "be_list b pre s = (q, s1)" by fastforce
  have c1: "contents s1 = contents s" by (rule list_frame [OF q])
  have under: "starts_with k ''packs/''" if "starts_with k pre" for k
    using that Cons.prems(2) by (auto simp: starts_with_iff)
  show ?case
  proof (cases q)
    case (Inl e)
    then have "list_pack_shards lib b shards results (errors @ [e]) s1 = (res, s')"
      using Cons.prems(1) q by (simp add: io_bind_def io_try_def)
    from Cons.IH [OF this] Cons.prems(2) c1 show ?thesis by simp
  next
    case (Inr ks)
    then have "list_pack_shards lib b shards (results @ listed_packs lib ks) errors s1 = (res, s')"
      using Cons.prems(1) q by (simp add: io_bind_def io_try_def)
    note IH = Cons.IH [OF this]
    have "contents s k \<noteq> None \<and> starts_with k ''packs/'' \<and> pack_id_from_storage_key (rl_hex lib) k = Inr p"
      if "(k, p) \<in> set (listed_packs lib ks)" for k p
      using that list_sound [OF q [unfolded Inr]] under
      by (auto simp: listed_packs_def map_filter_def split: if_splits sum.splits)
    then show ?thesis using IH Cons.prems(2) c1 by (fastforce split: prod.splits)
  qed
qed

lemma list_packs_run:
  assumes "parallel_list_packs lib b s = (res, s')"
  shows "contents s' = contents s \<and> (\<forall>ps. res = Inr ps \<longrightarrow> (\<forall>(k, p) \<in> set ps.
    contents s k \<noteq> None \<and> starts_with k ''packs/'' \<and> pack_id_from_storage_key (rl_hex lib) k = Inr p))"
proof -
  have "\<forall>p \<in> set shard_prefixes. starts_with p ''packs/''" by (simp add: shard_prefixes_def starts_with_def)
  from list_shards_run [OF assms [unfolded parallel_list_packs_def] this] show ?thesis by auto
qed

lemma analyze_run:
  assumes "analyze_packs b over shutdown idx kps acc s = (res, s')"
    and "\<And>s. contents (snd (shutdown s)) = contents s"
    and "\<forall>(k, p) \<in> set kps. contents s k \<noteq> None \<and> k = pack_storage_key (rl_hex lib) p \<and> length (pack_bytes p) = 32"
    and "\<forall>a \<in> set (snd acc). sound_analysis lib (contents s) idx a"
  shows "contents s' = contents s \<and> (\<forall>st as. res = Inr (st, as) \<longrightarrow> (\<forall>a \<in> set as. sound_analysis lib (contents s) idx a))"
  using assms(1,3,4)
proof (induction kps arbitrary: acc s)
  case Nil
  then show ?case by (auto simp: io_return_def)
next
  case (Cons kp kps)
  obtain k p where kp: "kp = (k, p)" by (cases kp)
  obtain stop s1 where sh: "shutdown s = (stop, s1)" by fastforce
  have c1: "contents s1 = contents s" using assms(2) [of s] by (simp add: sh)
  obtain q s2 where q: "be_size b k s1 = (q, s2)" by fastforce
  have c2: "contents s2 = contents s" using size_frame [OF q] c1 by simp
  obtain d where d: "contents s k = Some d" and k: "k = pack_storage_key (rl_hex lib) p" "length (pack_bytes p) = 32"
    using Cons.prems(2) kp by auto
  show ?case
  proof (cases stop)
    case True
    then show ?thesis using Cons.prems sh c1 by auto
  next
    case False
    let ?st = "(fst acc)\<lparr>ct_packs_total := ct_packs_total (fst acc) + 1\<rparr>"
    define acc' where "acc' = (case q of Inr (Some n) \<Rightarrow> analyze_pack over idx (k, p) n (?st, snd acc)
        | _ \<Rightarrow> (?st\<lparr>ct_packs_corrupt := ct_packs_corrupt ?st + 1\<rparr>, snd acc))"
    have run: "analyze_packs b over shutdown idx kps acc' s2 = (res, s')"
      using Cons.prems(1) sh False q by (simp add: kp acc'_def io_bind_def io_try_def Let_def)
    have "\<forall>a \<in> set (snd acc'). sound_analysis lib (contents s) idx a"
    proof (cases "\<exists>n. q = Inr (Some n)")
      case True
      then obtain n where n: "q = Inr (Some n)" by blast
      then have "n = of_nat (length d)" using size_ok [OF pack_key_valid [OF k(2)]] q k(1) d c1 by fastforce
      moreover obtain st' as' where r: "analyze_pack over idx (k, p) n (?st, snd acc) = (st', as')" by fastforce
      ultimately have "\<forall>a \<in> set as'. sound_analysis lib (contents s) idx a"
        using analyze_pack_sound [OF Cons.prems(3) k d] by blast
      then show ?thesis by (simp add: acc'_def n r)
    next
      case False
      then have "snd acc' = snd acc" by (auto simp: acc'_def split: sum.splits option.splits)
      then show ?thesis using Cons.prems(3) by simp
    qed
    from Cons.IH [OF run] this Cons.prems(2) c2 show ?thesis by simp
  qed
qed

text \<open>Copying the live blobs of a pack into a new one.\<close>

lemma read_live_blob_run:
  assumes "read_live_blob lib b a e s = (res, s')" and "valid_key (pa_storage_key a)"
  shows "contents s' = contents s \<and> (\<forall>blob. res = Inr blob \<longrightarrow> (\<exists>d. contents s (pa_storage_key a) = Some d
    \<and> unat (le_offset e) + unat (le_length e) \<le> length d \<and> blob = live_blob d e))"
proof (cases "4 \<le> le_offset e")
  case True
  let ?o = "le_offset e - 4" and ?n = "4 + ucast (le_length e) :: u64"
  have o: "unat ?o = unat (le_offset e) - 4" "4 \<le> unat (le_offset e)"
    using True by (simp_all add: unat_sub word_le_nat_alt)
  have n: "unat ?n = 4 + unat (le_length e)"
    using unsigned_less [of "le_length e", where 'a = nat] by (simp add: unat_word_ariths unsigned_ucast_eq take_bit_eq_mod)
  obtain q s1 where q: "be_get_range b (pa_storage_key a) ?o ?n s = (q, s1)" by fastforce
  have c: "contents s1 = contents s" by (rule get_range_frame [OF q])
  have "s' = s1 \<and> (\<forall>blob. res = Inr blob \<longrightarrow> (\<exists>v. q = Inr (Some v) \<and> blob = drop 4 v))"
    using assms(1) q True
    by (auto simp: read_live_blob_def checked_sub_u64_def Let_def io_bind_def io_fail_def io_return_def
        split: sum.splits option.splits if_splits)
  moreover have "\<exists>d. contents s (pa_storage_key a) = Some d \<and> unat (le_offset e) + unat (le_length e) \<le> length d
      \<and> drop 4 v = live_blob d e" if "q = Inr (Some v)" for v
  proof -
    have got: "be_get_range b (pa_storage_key a) ?o ?n s = (Inr (Some v), s1)" using q that by simp
    obtain d where d: "contents s (pa_storage_key a) = Some d" "unat ?o + unat ?n \<le> length d"
      "v = take (unat ?n) (drop (unat ?o) d)"
      using get_range_ok [OF assms(2) got] by (auto split: option.splits)
    have "drop 4 v = live_blob d e" using o by (simp add: d(3) n live_blob_def drop_take)
    then show ?thesis using d(1,2) o n by auto
  qed
  ultimately show ?thesis using c by metis
next
  case False
  then show ?thesis using assms(1) by (auto simp: read_live_blob_def checked_sub_u64_def io_fail_def)
qed

lemma copy_run:
  assumes "copy_live_blobs lib y a es w (s, r) = (res, (s', r'))" and "valid_key (pa_storage_key a)"
    and "pw_rel w xs" and "distinct (map fst xs @ map le_chunk_id es)"
  shows "r' = r \<and> contents s' = contents s \<and> (\<forall>w'. res = Inr w' \<longrightarrow>
    pw_rel w' (xs @ map (\<lambda>e. (le_chunk_id e, live_blob (the (contents s (pa_storage_key a))) e, 1)) es)
    \<and> (\<forall>e \<in> set es. \<exists>d. contents s (pa_storage_key a) = Some d \<and> unat (le_offset e) + unat (le_length e) \<le> length d))"
  using assms(1,3,4)
proof (induction es arbitrary: w s xs)
  case Nil
  then show ?case by (auto simp: io_return_def)
next
  case (Cons e es)
  obtain q s1 where q: "read_live_blob lib b a e s = (q, s1)" by fastforce
  note rd = read_live_blob_run [OF q assms(2)]
  show ?case
  proof (cases q)
    case (Inl err)
    then show ?thesis using Cons.prems(1) q rd by (auto simp: run_bind_simps storage_is)
  next
    case (Inr blob)
    obtain d where d: "contents s (pa_storage_key a) = Some d" "unat (le_offset e) + unat (le_length e) \<le> length d"
      "blob = live_blob d e" using rd Inr by blast
    obtain now s2 where now: "sy_instant y s1 = (now, s2)" by fastforce
    have c2: "contents s2 = contents s" using draws_quiet(2) [of s1] now rd by simp
    have len: "length blob < 2 ^ 32"
      using unsigned_less [of "le_length e", where 'a = nat] by (simp add: d(3) live_blob_def)
    have "le_chunk_id e \<notin> fst ` set xs" using Cons.prems(3) by auto
    note add = pw_rel_add [OF Cons.prems(2) this len]
    obtain off w1 where w1: "pw_add_blob now w (le_chunk_id e) blob = (Inr off, w1)"
      using add(2) [of now] by (metis prod.collapse)
    have rest: "copy_live_blobs lib y a es w1 (s2, r) = (res, (s', r'))"
      using Cons.prems(1) q Inr now w1 by (simp add: run_bind_simps storage_is)
    have "pw_rel w1 (xs @ [(le_chunk_id e, blob, 1)])" using add(1) [of now] w1 by (simp add: abs_add_def)
    from Cons.IH [OF rest this] Cons.prems(3) c2 d show ?thesis by auto
  qed
qed

lemma flush_copy_run:
  assumes "flush_copy lib y w (s, r) = (res, (s', r'))" and "pw_rel w xs" and "xs \<noteq> []"
  defines "img \<equiv> pack_image (abs_blobs xs)"
  shows "r' = r \<and> (contents s' = contents s \<or>
      contents s' = (contents s)(pack_storage_key (rl_hex lib) (pack_id_compute (rl_b2 lib) img) \<mapsto> img))
    \<and> (\<forall>pid es. res = Inr (pid, es) \<longrightarrow> pid = pack_id_compute (rl_b2 lib) img
        \<and> contents s' = (contents s)(pack_storage_key (rl_hex lib) pid \<mapsto> img)
        \<and> es = map2 (\<lambda>(i, b, r) (off, sz). (i, sz, off, r)) xs (blob_locs PACK_HEADER_SIZE (abs_blobs xs)))"
proof -
  obtain sp w' where sp: "pw_seal (rl_b2 lib) w = (Inr sp, w')" "pw_rel w' []" "sp_data sp = img"
    "sp_pack_id sp = pack_id_compute (rl_b2 lib) img"
    "sp_entries sp = map2 (\<lambda>(i, b, r) (off, sz). (i, sz, off, r)) xs (blob_locs PACK_HEADER_SIZE (abs_blobs xs))"
    unfolding img_def by (rule pw_seal_rel [OF assms(2,3), of "rl_b2 lib"])
  have "length (pack_bytes (sp_pack_id sp)) = 32" by (simp add: sp(4) pack_id_compute_def hash_length)
  note valid = pack_key_valid [OF this]
  obtain q s1 where q: "be_put b (pack_storage_key (rl_hex lib) (sp_pack_id sp)) img s = (q, s1)" by fastforce
  show ?thesis
  proof (cases q)
    case (Inl e)
    then have "res = Inl e" "s' = s1" "r' = r"
      using assms(1) q by (auto simp: flush_copy_def on_store_def pw_flush_def sp(1,3) storage_is)
    then show ?thesis using put_err [OF valid q [unfolded Inl]] by (simp add: sp(4))
  next
    case (Inr u)
    then have "res = Inr (sp_pack_id sp, sp_entries sp)" "s' = s1" "r' = r"
      using assms(1) q by (auto simp: flush_copy_def on_store_def pw_flush_def sp(1,3) storage_is)
    then show ?thesis using put_ok [OF valid q [unfolded Inr]] by (simp add: sp(4,5))
  qed
qed

text \<open>Deleting a pack the index no longer names.\<close>

lemma delete_pack_run:
  assumes del: "be_delete b (pa_storage_key a) s = (res, s')" and so: "sound_analysis lib m0 idx0 a"
    and inv: "loop_inv lib m0 idx0 as (contents s) r" and fresh: "repacks_fresh lib m0 idx0"
    and unused: "\<And>c e. map_of (rp_chunk_index r) c = Some e \<Longrightarrow> map_of idx0 c = Some e \<Longrightarrow> ce_pack_id e \<noteq> pa_pack_id a"
  shows "loop_inv lib m0 idx0 as (contents s') r"
proof -
  have key: "pa_storage_key a = pack_storage_key (rl_hex lib) (pa_pack_id a)" "length (pack_bytes (pa_pack_id a)) = 32"
    "m0 (pa_storage_key a) \<noteq> None" using so by (auto simp: sound_analysis_def)
  consider "contents s' = contents s" | "contents s' = (contents s)(pa_storage_key a := None)"
    using delete_contents [OF _ del] pack_key_valid [OF key(2)] key(1) by auto
  then show ?thesis
  proof cases
    case 2
    have mv: "moved lib m0 idx0 (contents s) (map_of (rp_chunk_index r))" using inv by (simp add: loop_inv_def)
    have "pack_storage_key (rl_hex lib) (ce_pack_id e) \<noteq> pa_storage_key a"
      if "map_of (rp_chunk_index r) c = Some e" "map_of idx0 c = Some e" for c e
      using unused [OF that] hex_codec.pack_storage_key_inject [OF hex_ok] key(1) by simp
    then have "moved lib m0 idx0 (contents s') (map_of (rp_chunk_index r))"
      unfolding 2 by (rule moved_delete [OF mv fresh key(3)])
    moreover have "pa_storage_key a \<noteq> ''index''" using packs_other(1) pack_key_packs [of "rl_hex lib" "pa_pack_id a"] key(1) by metis
    then have "stored_index lib (contents s') = stored_index lib (contents s)" by (intro stored_index_cong) (simp add: 2)
    moreover have "contents s' (pa_storage_key x) = m0 (pa_storage_key x) \<or> contents s' (pa_storage_key x) = None" if "x \<in> set as" for x
      using inv that by (simp add: loop_inv_def 2)
    ultimately show ?thesis using inv by (simp add: loop_inv_def)
  qed (use inv in simp)
qed

text \<open>The index with the moved entries is saved, or not; the packs stay.\<close>

lemma save_moved:
  assumes run: "save_state lib sn y (s, r) = (res, (s', r'))" and ws: "rp_write_session r = None" "fence_ok r"
    and len: "length (rp_chunk_index r) < MAX_INDEX_ENTRIES" and mv: "moved lib m0 idx0 (contents s) (map_of (rp_chunk_index r))"
    and old: "stored_index lib (contents s) = Some f" "keeps_chunks lib m0 idx0 (contents s) f"
  shows "chunks_safe lib m0 idx0 (contents s') \<and> (\<forall>k. starts_with k ''packs/'' \<longrightarrow> contents s' k = contents s k)
    \<and> rp_write_session r' = None \<and> fence_ok r' \<and> rp_chunk_index r' = rp_chunk_index r
    \<and> moved lib m0 idx0 (contents s') (map_of (rp_chunk_index r))
    \<and> (\<not> isl res \<and> (rp_index_dirty r \<or> f = map_of (rp_chunk_index r)) \<longrightarrow>
         stored_index lib (contents s') = Some (map_of (rp_chunk_index r)))"
proof -
  note sv = save_outcomes [OF run ws len]
  have packs: "contents s' k = contents s k" if "starts_with k ''packs/''" for k
  proof -
    have "k \<noteq> ''index''" "k \<noteq> ''index.gen''" "\<not> is_lock_key k" using that packs_other by auto
    then show ?thesis using sv by blast
  qed
  have mv': "moved lib m0 idx0 (contents s') (map_of (rp_chunk_index r))" by (rule moved_cong [OF mv packs])
  have "keeps_chunks lib m0 idx0 (contents s') f"
    using old(2) chunk_blob_cong [of "contents s'" lib "contents s" f] packs pack_key_packs by (simp add: keeps_chunks_def)
  then have "chunks_safe lib m0 idx0 (contents s')"
    using sv old(1) mv' unfolding chunks_safe_def moved_def by metis
  then show ?thesis using packs mv' sv old(1) by metis
qed

text \<open>From the moved entries on: the index is saved before the old pack is deleted.\<close>

lemma repack_switch:
  assumes run: "io_bind (modify_ws (relocate new moves)) (\<lambda>_. io_bind (save_state lib sn y) (\<lambda>_.
      io_bind (on_store (be_delete (sy_storage y) (pa_storage_key a))) (\<lambda>_. io_return True))) (s, r) = (res, (s', r'))"
    and inv: "loop_inv lib m0 idx0 as (contents s) r" and wf: "hm_wf idx0" and fresh: "repacks_fresh lib m0 idx0"
    and so: "sound_analysis lib m0 idx0 a" "\<forall>x \<in> set as. sound_analysis lib m0 idx0 x" and p: "shrinks lib m0 idx0 (pa_pack_id a)"
    and new: "new = pack_id_compute (rl_b2 lib) (repacked lib m0 idx0 (pa_pack_id a))"
    and stored: "contents s (repack_key lib m0 idx0 (pa_pack_id a)) = Some (repacked lib m0 idx0 (pa_pack_id a))"
    and d: "m0 (pack_storage_key (rl_hex lib) (pa_pack_id a)) = Some d"
    and moves: "moves_ok d (repacked lib m0 idx0 (pa_pack_id a)) (live_of idx0 (pa_pack_id a)) moves"
  shows "chunks_safe lib m0 idx0 (contents s') \<and> (\<not> isl res \<longrightarrow> loop_inv lib m0 idx0 as (contents s') r')"
proof -
  let ?r = "relocate new moves r"
  have ids: "map fst moves = map le_chunk_id (live_of idx0 (pa_pack_id a))" using moves by (simp add: moves_ok_def)
  have "live_of idx0 (pa_pack_id a) \<noteq> []" using p by (simp add: shrinks_def)
  then have ne: "moves \<noteq> []" using ids by (metis list.map_disc_iff)
  have dist: "distinct (map fst moves)" unfolding ids by (rule distinct_live_of [OF wf])
  note rel = relocate_spec [OF dist ne, of new r]
  have idx: "map_of (rp_chunk_index ?r) = relocated new moves (map_of (rp_chunk_index r))"
    using rel(1) by (simp add: relocated_def fun_eq_iff)
  have mv: "moved lib m0 idx0 (contents s) (map_of (rp_chunk_index ?r))"
    using relocated_moved [of lib m0 idx0 "contents s" "map_of (rp_chunk_index r)", OF _ wf p stored d moves] inv
    unfolding idx by (simp add: loop_inv_def new)
  obtain q s1 r1 where q: "save_state lib sn y (s, ?r) = (q, (s1, r1))" by (metis prod_cases3)
  have pre: "rp_write_session ?r = None" "fence_ok ?r" "length (rp_chunk_index ?r) < MAX_INDEX_ENTRIES"
    "stored_index lib (contents s) = Some (map_of (rp_chunk_index r))"
    "keeps_chunks lib m0 idx0 (contents s) (map_of (rp_chunk_index r))"
    using inv rel(2,4,5) by (simp_all add: loop_inv_def moved_def)
  note sv = save_moved [OF q pre(1-3) mv pre(4,5)]
  show ?thesis
  proof (cases q)
    case (Inl e)
    then have "s' = s1 \<and> res = Inl e" using run q by (simp add: io_bind_def modify_ws_def)
    then show ?thesis using sv by simp
  next
    case (Inr u)
    obtain x s2 where x: "be_delete b (pa_storage_key a) s1 = (x, s2)" by fastforce
    have fin: "s' = s2" "r' = r1" using run q Inr x
      by (cases x; simp add: io_bind_def modify_ws_def on_store_def storage_is io_return_def)+
    have "contents s1 (pa_storage_key x) = contents s (pa_storage_key x)" if "x \<in> set as" for x
      using sv so(2) that pack_key_packs by (simp add: sound_analysis_def)
    then have inv1: "loop_inv lib m0 idx0 as (contents s1) r1"
      using sv inv rel(2,3) Inr by (simp add: loop_inv_def)
    have "ce_pack_id e \<noteq> pa_pack_id a" if "map_of (rp_chunk_index r1) c = Some e" "map_of idx0 c = Some e" for c e
      using relocated_leaves [OF wf p fresh moves, of "map_of (rp_chunk_index r)" c e] that sv idx new by simp
    from delete_pack_run [OF x so(1) inv1 fresh this] have "loop_inv lib m0 idx0 as (contents s2) r1" .
    then show ?thesis using fin loop_inv_safe by blast
  qed
qed

text \<open>The new pack is uploaded; then the entries move.\<close>

lemma repack_write:
  assumes run: "io_bind (flush_copy lib y w) (\<lambda>(new_pack_id, new_entries).
      io_bind (modify_ws (relocate new_pack_id (map (\<lambda>(i, sz, off, rc). (i, sz, off)) new_entries))) (\<lambda>_.
      io_bind (save_state lib sn y) (\<lambda>_.
      io_bind (on_store (be_delete (sy_storage y) (pa_storage_key a))) (\<lambda>_. io_return True)))) (s, r) = (res, (s', r'))"
    and inv: "loop_inv lib m0 idx0 as (contents s) r" and wf: "hm_wf idx0" "length idx0 < MAX_INDEX_ENTRIES"
    and fresh: "repacks_fresh lib m0 idx0"
    and so: "sound_analysis lib m0 idx0 a" "\<forall>x \<in> set as. sound_analysis lib m0 idx0 x" and p: "shrinks lib m0 idx0 (pa_pack_id a)"
    and d: "m0 (pack_storage_key (rl_hex lib) (pa_pack_id a)) = Some d"
    and bounds: "\<forall>e \<in> set (live_of idx0 (pa_pack_id a)). unat (le_offset e) + unat (le_length e) \<le> length d"
    and w: "pw_rel w (map (\<lambda>e. (le_chunk_id e, live_blob d e, 1)) (live_of idx0 (pa_pack_id a)))"
  shows "chunks_safe lib m0 idx0 (contents s') \<and> (\<not> isl res \<longrightarrow> loop_inv lib m0 idx0 as (contents s') r')"
proof -
  let ?live = "live_of idx0 (pa_pack_id a)" and ?img = "repacked lib m0 idx0 (pa_pack_id a)"
  let ?xs = "map (\<lambda>e. (le_chunk_id e, live_blob d e, 1 :: u32)) ?live"
  have img: "pack_image (abs_blobs ?xs) = ?img" by (simp add: repacked_def d comp_def)
  have ne: "?xs \<noteq> []" using p by (simp add: shrinks_def)
  have "length ?live < MAX_INDEX_ENTRIES" using length_live_of [of idx0 "pa_pack_id a"] wf(2) by simp
  then have small: "length (pack_image (abs_blobs ?xs)) < 2 ^ 64" using image_sizes(2) [OF bounds] by (simp add: comp_def)
  obtain q s1 r1 where q: "flush_copy lib y w (s, r) = (q, (s1, r1))" by (metis prod_cases3)
  note fl = flush_copy_run [OF q w ne, unfolded img]
  note put = put_inv [OF inv fresh p so(2)]
  show ?thesis
  proof (cases q)
    case (Inl e)
    then have "s' = s1" "res = Inl e" using run q by (simp_all add: io_bind_def [of "flush_copy lib y w"])
    moreover have "contents s1 = contents s \<or> contents s1 = (contents s)(repack_key lib m0 idx0 (pa_pack_id a) \<mapsto> ?img)"
      using fl by (simp add: repack_key_def)
    ultimately show ?thesis using loop_inv_safe [OF inv] loop_inv_safe [OF put] by auto
  next
    case (Inr pe)
    obtain pid es where pe: "pe = (pid, es)" by (cases pe)
    have pid: "pid = pack_id_compute (rl_b2 lib) ?img" "r1 = r"
      and c1: "contents s1 = (contents s)(repack_key lib m0 idx0 (pa_pack_id a) \<mapsto> ?img)"
      and es: "es = map2 (\<lambda>(i, b, r) (off, sz). (i, sz, off, r)) ?xs (blob_locs PACK_HEADER_SIZE (abs_blobs ?xs))"
      using fl Inr pe by (simp_all add: repack_key_def)
    have moves: "moves_ok d ?img ?live (map (\<lambda>(i, sz, off, rc). (i, sz, off)) es)"
      unfolding es using sealed_entries_read [OF w small] unfolding img by (rule moves_of_entries)
    have rest: "io_bind (modify_ws (relocate pid (map (\<lambda>(i, sz, off, rc). (i, sz, off)) es))) (\<lambda>_.
      io_bind (save_state lib sn y) (\<lambda>_.
      io_bind (on_store (be_delete (sy_storage y) (pa_storage_key a))) (\<lambda>_. io_return True))) (s1, r) = (res, (s', r'))"
      using run q Inr pe pid(2) by (simp add: io_bind_def [of "flush_copy lib y w"])
    show ?thesis
      by (rule repack_switch [OF rest put [folded c1] wf(1) fresh so p pid(1) _ d moves]) (simp add: c1)
  qed
qed

text \<open>One pack.\<close>

lemma repack_one_run:
  assumes run: "repack_one lib sn y a (s, r) = (res, (s', r'))" and inv: "loop_inv lib m0 idx0 (a # as) (contents s) r"
    and wf: "hm_wf idx0" "length idx0 < MAX_INDEX_ENTRIES" and fresh: "repacks_fresh lib m0 idx0"
    and so: "sound_analysis lib m0 idx0 a" "\<forall>x \<in> set as. sound_analysis lib m0 idx0 x" and live: "pa_live_entries a \<noteq> []"
  shows "chunks_safe lib m0 idx0 (contents s') \<and> (\<not> isl res \<longrightarrow> loop_inv lib m0 idx0 as (contents s') r')"
proof -
  let ?key = "pa_storage_key a" and ?p = "pa_pack_id a"
  have key: "?key = pack_storage_key (rl_hex lib) ?p" "pa_live_entries a = live_of idx0 ?p"
    using so(1) by (auto simp: sound_analysis_def)
  have valid: "valid_key ?key" using so(1) pack_key_valid by (auto simp: sound_analysis_def)
  obtain d where d: "m0 ?key = Some d" "of_nat (length d) \<noteq> (of_nat PACK_HEADER_SIZE + live_bytes_of (live_of idx0 ?p) :: u64)"
    using so(1) live by (auto simp: sound_analysis_def)
  have keep: ?thesis if "contents s' = contents s" "r' = r"
    using that inv loop_inv_safe [OF inv] by (simp add: loop_inv_def)
  obtain g s1 where g: "be_get_range b ?key 0 (of_nat PACK_HEADER_SIZE) s = (g, s1)" by fastforce
  have c1: "contents s1 = contents s" by (rule get_range_frame [OF g])
  show ?thesis
  proof (cases "\<exists>h. g = Inr (Some h) \<and> header_accepted h")
    case False
    then have "s' = s1 \<and> r' = r"
      using run g by (cases g) (auto simp: repack_one_def run_bind_simps storage_is io_fail_def io_return_def split: option.splits if_splits)
    then show ?thesis using keep c1 by simp
  next
    case True
    define w0 where "w0 = pw_new Data (unat (cf_min_pack_size (rp_config r)))"
    obtain q s2 r2 where q: "copy_live_blobs lib y a (live_of idx0 ?p) w0 (s1, r) = (q, (s2, r2))" by (metis prod_cases3)
    have cp: "r2 = r \<and> contents s2 = contents s \<and> (\<forall>w'. q = Inr w' \<longrightarrow>
        pw_rel w' (map (\<lambda>e. (le_chunk_id e, live_blob (the (contents s ?key)) e, 1)) (live_of idx0 ?p))
        \<and> (\<forall>e \<in> set (live_of idx0 ?p). \<exists>d. contents s ?key = Some d \<and> unat (le_offset e) + unat (le_length e) \<le> length d))"
      using copy_run [OF q valid, of "[]"] distinct_live_of [OF wf(1)] c1 by (simp add: w0_def)
    show ?thesis
    proof (cases q)
      case (Inl e)
      then have "s' = s2 \<and> r' = r2"
        using run g True q by (auto simp: repack_one_def run_bind_simps storage_is key(2) w0_def [symmetric] io_bind_def [of "copy_live_blobs lib y a (live_of idx0 ?p) w0"])
      then show ?thesis using keep cp by simp
    next
      case (Inr w)
      have "live_of idx0 ?p \<noteq> []" using live key(2) by simp
      then obtain e0 where "e0 \<in> set (live_of idx0 ?p)" by (meson last_in_set)
      then have "contents s ?key \<noteq> None" using cp Inr by fastforce
      then have D: "contents s ?key = Some d" using inv d(1) by (auto simp: loop_inv_def)
      have bounds: "\<forall>e \<in> set (live_of idx0 ?p). unat (le_offset e) + unat (le_length e) \<le> length d" using cp Inr D by fastforce
      have img: "repacked lib m0 idx0 ?p = pack_image (map (live_blob d) (live_of idx0 ?p))"
        using d(1) key(1) by (simp add: repacked_def)
      have p: "shrinks lib m0 idx0 ?p"
        using d key image_sizes(1) [OF bounds] live img by (auto simp: shrinks_def)
      have rest: "io_bind (flush_copy lib y w) (\<lambda>(new_pack_id, new_entries).
          io_bind (modify_ws (relocate new_pack_id (map (\<lambda>(i, sz, off, rc). (i, sz, off)) new_entries))) (\<lambda>_.
          io_bind (save_state lib sn y) (\<lambda>_.
          io_bind (on_store (be_delete (sy_storage y) ?key)) (\<lambda>_. io_return True)))) (s2, r) = (res, (s', r'))"
        using run g True q Inr cp by (auto simp: repack_one_def run_bind_simps storage_is key(2) w0_def [symmetric] io_bind_def [of "copy_live_blobs lib y a (live_of idx0 ?p) w0"])
      have "loop_inv lib m0 idx0 as (contents s2) r" using inv cp by (simp add: loop_inv_def)
      then show ?thesis
        using repack_write [OF rest _ wf fresh so p _ bounds] d(1) key(1) cp Inr D by simp
    qed
  qed
qed

lemma interrupted_run:
  assumes "check_interrupted shutdown (s, r) = (res, (s', r'))" and "\<And>s. contents (snd (shutdown s)) = contents s"
  shows "contents s' = contents s \<and> r' = r"
proof -
  obtain stop s1 where sh: "shutdown s = (stop, s1)" by fastforce
  have "contents s1 = contents s" using assms(2) [of s] by (simp add: sh)
  then show ?thesis using assms(1)
    by (auto simp: check_interrupted_def run_bind_simps sh io_fail_def io_return_def split: if_splits)
qed

lemma repack_loop_cases:
  assumes run: "repack_loop lib sn y shutdown cap (a # as) n stats (s, r) = (res, (s', r'))"
    and quiet: "\<And>s. contents (snd (shutdown s)) = contents s"
  obtains (stop) "contents s' = contents s" and "r' = r"
  | (orphan) s1 x s2 where "pa_live_entries a = []" and "contents s1 = contents s" and "be_delete b (pa_storage_key a) s1 = (x, s2)"
      and "(\<exists>n' stats'. repack_loop lib sn y shutdown cap as n' stats' (s2, r) = (res, (s', r'))) \<or> (s' = s2 \<and> isl res)"
  | (live) s1 x s2 r2 where "pa_live_entries a \<noteq> []" and "contents s1 = contents s" and "repack_one lib sn y a (s1, r) = (x, (s2, r2))"
      and "(\<not> isl x \<and> (\<exists>n' stats'. repack_loop lib sn y shutdown cap as n' stats' (s2, r2) = (res, (s', r')))) \<or> (s' = s2 \<and> isl res)"
  using run [unfolded repack_loop.simps]
proof (cases rule: io_bind_cases)
  case (fail e)
  then show ?thesis using interrupted_run [OF fail(1) quiet] stop by simp
next
  case (ok u st1)
  obtain s1 where st1: "st1 = (s1, r)" and c1: "contents s1 = contents s"
    using interrupted_run [of shutdown s r _ "fst st1" "snd st1", OF _ quiet] ok(1) by (metis prod.collapse)
  show ?thesis
  proof (cases "case cap of Some c \<Rightarrow> n \<ge> c | None \<Rightarrow> False")
    case True
    then have "s' = s1" "r' = r" using ok(2) st1 by (auto simp: io_return_def split: option.splits)
    then show ?thesis using stop c1 by simp
  next
    case go: False
    show ?thesis
    proof (cases "pa_live_entries a = []")
      case True
      obtain x s2 where x: "be_delete b (pa_storage_key a) s1 = (x, s2)" by fastforce
      show ?thesis
        by (rule orphan [OF True c1 x]) (use ok(2) st1 go True x in \<open>cases x; auto simp: run_bind_simps storage_is\<close>)
    next
      case False
      obtain x s2 r2 where x: "repack_one lib sn y a (s1, r) = (x, (s2, r2))" by (metis prod_cases3)
      show ?thesis
        by (rule live [OF False c1 x]) (use ok(2) st1 go False x in \<open>cases x; auto simp: io_bind_def split: if_splits\<close>)
    qed
  qed
qed

lemma repack_loop_run:
  assumes "repack_loop lib sn y shutdown cap as n stats (s, r) = (res, (s', r'))"
    and "loop_inv lib m0 idx0 as (contents s) r" and "\<forall>a \<in> set as. sound_analysis lib m0 idx0 a"
    and wf: "hm_wf idx0" "length idx0 < MAX_INDEX_ENTRIES" and fresh: "repacks_fresh lib m0 idx0"
    and quiet: "\<And>s. contents (snd (shutdown s)) = contents s"
  shows "chunks_safe lib m0 idx0 (contents s') \<and> (\<not> isl res \<longrightarrow> loop_inv lib m0 idx0 [] (contents s') r')"
  using assms(1-3)
proof (induction as arbitrary: n stats s r)
  case Nil
  then show ?case using loop_inv_safe by (fastforce simp: io_return_def)
next
  case (Cons a as)
  have so: "sound_analysis lib m0 idx0 a" "\<forall>x \<in> set as. sound_analysis lib m0 idx0 x" using Cons.prems(3) by simp_all
  have inv: "loop_inv lib m0 idx0 as (contents s) r" "loop_inv lib m0 idx0 [] (contents s) r"
    using Cons.prems(2) by (simp_all add: loop_inv_def)
  from Cons.prems(1) quiet show ?case
  proof (cases rule: repack_loop_cases)
    case stop
    then show ?thesis using inv(2) loop_inv_safe by simp
  next
    case (orphan s1 x s2)
    have none: "ce_pack_id e \<noteq> pa_pack_id a" if "map_of idx0 c = Some e" for c e
      using set_live_of [OF wf(1), of "\<lparr>le_chunk_id = c, le_offset = ce_pack_offset e, le_length = ce_stored_size e\<rparr>" "pa_pack_id a"]
        orphan(1) so(1) that by (auto simp: sound_analysis_def)
    have inv2: "loop_inv lib m0 idx0 as (contents s2) r"
      by (rule delete_pack_run [OF orphan(3) so(1) _ fresh]) (use inv(1) orphan(2) none in simp_all)
    show ?thesis using orphan(4) Cons.IH [OF _ inv2 so(2)] loop_inv_safe [OF inv2] by blast
  next
    case (live s1 x s2 r2)
    have "loop_inv lib m0 idx0 (a # as) (contents s1) r" using Cons.prems(2) live(2) by simp
    from repack_one_run [OF live(3) this wf fresh so live(1)] show ?thesis
      using live(4) Cons.IH [OF _ _ so(2)] by blast
  qed
qed

text \<open>The client part of the command, after the analysis.\<close>

lemma compact_client_run:
  assumes run: "io_bind (check_lock_fence lib y) (\<lambda>_.
      io_bind (repack_loop lib sn y shutdown cap sel 0 stats) (\<lambda>stats'.
      io_bind (if ct_packs_repacked stats' > 0 \<or> ct_packs_deleted_empty stats' > 0
               then save_state lib sn y else io_return ()) (\<lambda>_. io_return stats'))) (s, r) = (res, (s', r'))"
    and r: "rp_write_session r = None" "fence_ok r" "length (rp_chunk_index r) < MAX_INDEX_ENTRIES"
      "stored_index lib (contents s) = Some (map_of (rp_chunk_index r))" "hm_wf (rp_chunk_index r)"
    and so: "\<forall>a \<in> set sel. sound_analysis lib (contents s) (rp_chunk_index r) a"
    and fresh: "repacks_fresh lib (contents s) (rp_chunk_index r)"
    and quiet: "\<And>s. contents (snd (shutdown s)) = contents s"
  shows "chunks_safe lib (contents s) (rp_chunk_index r) (contents s')"
  using run
proof (cases rule: io_bind_cases)
  case (fail e)
  note f = delete_contents_fence [OF fail(1) r(2)]
  have "stored_index lib (contents s') = stored_index lib (contents s)"
    using f index_not_lock(1) by (intro stored_index_cong) simp
  moreover have "chunk_blob lib (contents s') f c = chunk_blob lib (contents s) f c" for f c
    by (rule chunk_blob_cong) (use f packs_other(3) pack_key_packs in blast)
  ultimately show ?thesis using r(4) by (simp add: chunks_safe_def keeps_chunks_def)
next
  case (ok u st1)
  obtain s1 r1 where st1: "st1 = (s1, r1)" by (cases st1)
  note f = delete_contents_fence [OF ok(1) [unfolded st1] r(2)]
  have idx: "rp_chunk_index r1 = rp_chunk_index r" using f by simp
  have "stored_index lib (contents s1) = stored_index lib (contents s)"
    using f index_not_lock(1) by (intro stored_index_cong) simp
  then have inv: "loop_inv lib (contents s) (rp_chunk_index r) sel (contents s1) r1"
    using loop_inv_start [of r1 lib "contents s1" "contents s" sel] f r so packs_other(3) by (metis idx)
  from ok(2) [unfolded st1] show ?thesis
  proof (cases rule: io_bind_cases)
    case (fail e)
    then show ?thesis using repack_loop_run [OF fail(1) inv so r(5,3) fresh quiet] by simp
  next
    case (ok stats' st2)
    obtain s2 r2 where st2: "st2 = (s2, r2)" by (cases st2)
    have inv2: "loop_inv lib (contents s) (rp_chunk_index r) [] (contents s2) r2"
      using repack_loop_run [OF ok(1) [unfolded st2] inv so r(5,3) fresh quiet] by simp
    from ok(2) [unfolded st2] show ?thesis
    proof (cases rule: io_bind_cases)
      case (fail e)
      then have "save_state lib sn y (s2, r2) = (Inl e, (s', r'))" by (auto simp: io_return_def split: if_splits)
      then show ?thesis using save_moved inv2 by (simp add: loop_inv_def moved_def)
    next
      case save: (ok v st3)
      show ?thesis
      proof (cases "ct_packs_repacked stats' > 0 \<or> ct_packs_deleted_empty stats' > 0")
        case True
        then have "save_state lib sn y (s2, r2) = (Inr v, (s', r'))" using save by (simp add: io_return_def)
        then show ?thesis using save_moved inv2 by (simp add: loop_inv_def moved_def)
      next
        case False
        then have "s' = s2" using save by (simp add: io_return_def)
        then show ?thesis using loop_inv_safe [OF inv2] by simp
      qed
    qed
  qed
qed

lemma unchanged_safe:
  assumes "synced lib contents s r" and "contents s' = contents s"
  shows "chunks_safe lib (contents s) (rp_chunk_index r) (contents s')"
  using assms by (simp add: synced_def chunks_safe_def keeps_chunks_def)

lemma listed_canonical:
  assumes "parallel_list_packs lib b s = (Inr kps, s1)" and "canonical_packs lib (contents s)"
  shows "\<forall>(k, p) \<in> set kps. contents s1 k \<noteq> None \<and> k = pack_storage_key (rl_hex lib) p \<and> length (pack_bytes p) = 32"
proof (clarify)
  note ls = list_packs_run [OF assms(1)]
  fix k p assume "(k, p) \<in> set kps"
  then have k: "contents s k \<noteq> None" "starts_with k ''packs/''" "pack_id_from_storage_key (rl_hex lib) k = Inr p"
    using ls by auto
  moreover have "length (pack_bytes p) = 32"
    using k(3) pack_id_from_hex_wf by (auto simp: pack_id_from_storage_key_def rbind_Inr_iff wf_pack_id_def)
  ultimately show "contents s1 k \<noteq> None \<and> k = pack_storage_key (rl_hex lib) p \<and> length (pack_bytes p) = 32"
    using assms(2) ls by (auto simp: canonical_packs_def)
qed

lemma compact_selected_run:
  assumes run: "io_bind (check_interrupted shutdown) (\<lambda>_.
      if dry_run then io_return (fold dry_run_stats sel st)
      else io_bind (try_server_side_repack lib sn y sel st) (\<lambda>on_server.
        case on_server of Some stats' \<Rightarrow> io_return stats'
        | None \<Rightarrow> io_bind (check_lock_fence lib y) (\<lambda>_.
            io_bind (repack_loop lib sn y shutdown cap sel 0 st) (\<lambda>stats'.
            io_bind (if ct_packs_repacked stats' > 0 \<or> ct_packs_deleted_empty stats' > 0
                     then save_state lib sn y else io_return ()) (\<lambda>_. io_return stats'))))) (t, r) = (res, (s', r'))"
    and sy: "synced lib contents s r" and wf: "hm_wf (rp_chunk_index r)"
    and fresh: "repacks_fresh lib (contents s) (rp_chunk_index r)" and c2: "contents t = contents s"
    and so: "\<forall>a \<in> set sel. sound_analysis lib (contents s) (rp_chunk_index r) a"
    and quiet: "\<And>s. contents (snd (shutdown s)) = contents s"
    and server: "\<And>plan s. \<exists>msg s'. be_server_repack b plan s = (Inl (UnsupportedBackend msg), s') \<and> contents s' = contents s"
  shows "chunks_safe lib (contents s) (rp_chunk_index r) (contents s')"
  using run
proof (cases rule: io_bind_cases)
  case (fail e)
  then show ?thesis using interrupted_run [OF fail(1) quiet] c2 unchanged_safe [OF sy] by simp
next
  case (ok u st3)
  obtain s3 where st3: "st3 = (s3, r)" and c3: "contents s3 = contents s"
    using interrupted_run [of shutdown t r _ "fst st3" "snd st3", OF _ quiet] ok(1) c2 by (metis prod.collapse)
  obtain msg s4 where s4: "be_server_repack b \<lparr>rp_operations = map repack_request sel, rp_protocol_version = PROTOCOL_VERSION\<rparr> s3
      = (Inl (UnsupportedBackend msg), s4)" "contents s4 = contents s" using server c3 by metis
  show ?thesis
  proof (cases "dry_run \<or> sel = []")
    case True
    then have "s' = s3" using ok(2) st3 by (auto simp: try_server_side_repack_def io_return_def io_bind_def split: if_splits)
    then show ?thesis using c3 unchanged_safe [OF sy] by simp
  next
    case False
    then have go: "io_bind (check_lock_fence lib y) (\<lambda>_.
        io_bind (repack_loop lib sn y shutdown cap sel 0 st) (\<lambda>stats'.
        io_bind (if ct_packs_repacked stats' > 0 \<or> ct_packs_deleted_empty stats' > 0
                 then save_state lib sn y else io_return ()) (\<lambda>_. io_return stats'))) (s4, r) = (res, (s', r'))"
      using ok(2) st3 s4(1) by (simp add: try_server_side_repack_def Let_def run_bind_simps storage_is io_return_def io_bind_assoc)
    from compact_client_run [OF go] sy wf so fresh quiet s4(2) show ?thesis by (simp add: synced_def)
  qed
qed

lemma compact_run:
  assumes run: "compact_repo lib sn y over shutdown cap dry_run (s, r) = (res, (s', r'))"
    and sy: "synced lib contents s r" and wf: "hm_wf (rp_chunk_index r)"
    and canon: "canonical_packs lib (contents s)" and fresh: "repacks_fresh lib (contents s) (rp_chunk_index r)"
    and quiet: "\<And>s. contents (snd (shutdown s)) = contents s"
    and server: "\<And>plan s. \<exists>msg s'. be_server_repack b plan s = (Inl (UnsupportedBackend msg), s') \<and> contents s' = contents s"
  shows "chunks_safe lib (contents s) (rp_chunk_index r) (contents s')"
proof -
  note same = unchanged_safe [OF sy]
  obtain q s1 where q: "parallel_list_packs lib b s = (q, s1)" by fastforce
  note ls = list_packs_run [OF q]
  show ?thesis
  proof (cases q)
    case (Inl e)
    then have "s' = s1" using run q by (simp add: compact_repo_def run_bind_simps storage_is)
    then show ?thesis using ls same by simp
  next
    case (Inr kps)
    obtain q2 s2 where q2: "analyze_packs b over shutdown (rp_chunk_index r) kps (compact_stats_default, []) s1 = (q2, s2)" by fastforce
    have an: "contents s2 = contents s \<and> (\<forall>st as. q2 = Inr (st, as) \<longrightarrow> (\<forall>a \<in> set as. sound_analysis lib (contents s) (rp_chunk_index r) a))"
      using analyze_run [OF q2 quiet listed_canonical [OF q [unfolded Inr] canon]] ls by simp
    show ?thesis
    proof (cases q2)
      case (Inl e)
      then have "s' = s2" using run q Inr q2 by (simp add: compact_repo_def run_bind_simps storage_is)
      then show ?thesis using an same by simp
    next
      case an2: (Inr sa)
      obtain st as where sa: "sa = (st, as)" by (cases sa)
      have so: "\<forall>a \<in> set (select_analyses_by_cap (by_dead_bytes as) cap). sound_analysis lib (contents s) (rp_chunk_index r) a"
        using an an2 sa selected_subset [of as cap] by auto
      show ?thesis
        by (rule compact_selected_run [where t = s2 and dry_run = dry_run and st = st and sn = sn and cap = cap and res = res
            and r' = r', OF _ sy wf fresh _ so quiet server])
           (use run q Inr q2 an2 sa an in \<open>simp_all add: compact_repo_def run_bind_simps storage_is Let_def split del: if_split\<close>)
    qed
  qed
qed

end

section \<open>Properties\<close>

text \<open>C21: Compaction through the client never loses a chunk.  However \<open>compact_repo\<close> ends - a failing
  upload, index write or deletion, a lost lock, a shutdown request, or success - the index in the
  storage still finds every chunk that it found before, with the same bytes.  The storage has no
  server-side repack, packs lie under the keys of their names, and no pack that a repack writes is in
  the storage already.\<close>

theorem compact_keeps_chunks:
  assumes "repo_machine b contents valid_key lib y" and "synced lib contents s r" and "hm_wf (rp_chunk_index r)"
    and "canonical_packs lib (contents s)" and "repacks_fresh lib (contents s) (rp_chunk_index r)"
    and "\<And>plan s. \<exists>msg s'. be_server_repack b plan s = (Inl (UnsupportedBackend msg), s') \<and> contents s' = contents s"
    and "\<And>s. contents (snd (shutdown s)) = contents s"
    and "compact_repo lib sn y over shutdown cap dry_run (s, r) = (res, (s', r'))"
  shows "\<exists>f. stored_index lib (contents s') = Some f
    \<and> (\<forall>c d. chunk_blob lib (contents s) (map_of (rp_chunk_index r)) c = Some d \<longrightarrow> chunk_blob lib (contents s') f c = Some d)"
  using repo_machine.compact_run [OF assms(1,8,2-5,7,6)] by (simp add: chunks_safe_def keeps_chunks_def)

text \<open>A pack of two blobs, of which the index knows the first.\<close>

definition wit_half_index :: chunk_index where
  "wit_half_index = [(wit_cid 1, \<lparr>ce_refcount = 1, ce_stored_size = 3, ce_pack_id = wit_pid 1, ce_pack_offset = 13\<rparr>)]"

definition wit_half_store :: memory_state where
  "wit_half_store = [(pack_storage_key lower_hex (wit_pid 1), pack_image [[1, 2, 3], [4, 5]]),
     (''index'', wit_index_object wit_half_index)]"

definition wit_half_repo :: repository where
  "wit_half_repo = wit_repository\<lparr>rp_chunk_index := wit_half_index\<rparr>"

definition wit_compact :: "compact_stats result \<times> memory_state \<times> repository" where
  "wit_compact = compact_repo wit_index_lib wit_snap_lib wit_system (\<lambda>_ _. True) (\<lambda>s. (False, s)) None False
     (wit_half_store, wit_half_repo)"

lemma mem_list_shards:
  "list_pack_shards lib memory_backend shards results [] s =
     (Inr (results @ concat (map (\<lambda>p. listed_packs lib (filter (\<lambda>k. starts_with k p \<and> \<not> ends_with k ''/'') (map fst s))) shards)), s)"
  by (induction shards arbitrary: results)
     (simp_all add: io_return_def io_bind_def io_try_def memory_backend_def mem_list_def)

lemma hex_digit_eq: "m < 16 \<Longrightarrow> n < 16 \<Longrightarrow> hex_digit m = hex_digit n \<longleftrightarrow> m = n"
  by (metis hex_value_digit option.inject)

lemma wit_half_keys: "map fst wit_half_store = [''packs/01/'' @ pack_id_to_hex lower_hex (wit_pid 1), ''index'']"
proof -
  have "pack_storage_key lower_hex (wit_pid 1) = ''packs/01/'' @ pack_id_to_hex lower_hex (wit_pid 1)" by code_simp
  then show ?thesis by (simp add: wit_half_store_def)
qed

lemma concat_only_one: "1 < N \<Longrightarrow> concat (map (\<lambda>n. if n = (1 :: nat) then xs else []) [0..<N]) = xs"
proof (induction N)
  case (Suc N)
  then show ?case by (cases "N = 1") auto
qed simp

lemma wit_list_run:
  "parallel_list_packs wit_index_lib memory_backend wit_half_store =
     (Inr [(pack_storage_key lower_hex (wit_pid 1), wit_pid 1)], wit_half_store)"
proof -
  let ?k = "''packs/01/'' @ pack_id_to_hex lower_hex (wit_pid 1)"
  let ?f = "\<lambda>n. listed_packs wit_index_lib (filter (\<lambda>k. starts_with k (''packs/'' @ [hex_digit (n div 16), hex_digit (n mod 16)] @ ''/'')
      \<and> \<not> ends_with k ''/'') (map fst wit_half_store))"
  have d: "hex_digit 0 = CHR ''0''" "hex_digit 1 = CHR ''1''" by code_simp+
  have sw: "starts_with ?k (''packs/'' @ [hex_digit (n div 16), hex_digit (n mod 16)] @ ''/'') \<longleftrightarrow> n = 1" if "n < 256" for n
  proof -
    have "hex_digit (n div 16) = hex_digit 0 \<and> hex_digit (n mod 16) = hex_digit 1 \<longleftrightarrow> n div 16 = 0 \<and> n mod 16 = 1"
      using that by (simp add: hex_digit_eq div_less_iff_less_mult)
    then show ?thesis using that unfolding d by (auto simp: starts_with_def)
  qed
  have e: "?f n = (if n = 1 then ?f 1 else [])" if "n < 256" for n
  proof (cases "n = 1")
    case False
    have "\<not> starts_with ''index'' (''packs/'' @ x)" for x by (simp add: starts_with_def)
    then have "filter (\<lambda>k. starts_with k (''packs/'' @ [hex_digit (n div 16), hex_digit (n mod 16)] @ ''/'')
        \<and> \<not> ends_with k ''/'') (map fst wit_half_store) = []"
      unfolding wit_half_keys using sw [OF that] False by (simp only: filter.simps simp_thms if_False)
    then show ?thesis using False by (simp only: listed_packs_def map_filter_simps if_False)
  qed simp
  have "concat (map ?f [0..<256]) = concat (map (\<lambda>n. if n = 1 then ?f 1 else []) [0..<256])"
    by (rule arg_cong [where f = concat], rule map_cong [OF refl], rule e) (simp only: set_upt atLeastLessThan_iff)
  also have "\<dots> = ?f 1" by (rule concat_only_one) simp
  also have "?f 1 = [(pack_storage_key lower_hex (wit_pid 1), wit_pid 1)]" unfolding wit_half_keys by code_simp
  finally show ?thesis
    unfolding parallel_list_packs_def mem_list_shards shard_prefixes_def map_map comp_def append_Nil by (simp only:)
qed

lemma wit_compact_after:
  "wit_compact = io_bind (on_store (analyze_packs memory_backend (\<lambda>_ _. True) (\<lambda>s. (False, s)) wit_half_index
       [(pack_storage_key lower_hex (wit_pid 1), wit_pid 1)] (compact_stats_default, []))) (\<lambda>(stats, analyses).
     io_bind (check_interrupted (\<lambda>s. (False, s))) (\<lambda>_.
       let selected = select_analyses_by_cap (by_dead_bytes analyses) None in
         io_bind (try_server_side_repack wit_index_lib wit_snap_lib wit_system selected stats) (\<lambda>on_server.
           case on_server of
             Some stats' \<Rightarrow> io_return stats'
           | None \<Rightarrow>
               io_bind (check_lock_fence wit_index_lib wit_system) (\<lambda>_.
               io_bind (repack_loop wit_index_lib wit_snap_lib wit_system (\<lambda>s. (False, s)) None selected 0 stats) (\<lambda>stats'.
               io_bind (if ct_packs_repacked stats' > 0 \<or> ct_packs_deleted_empty stats' > 0
                        then save_state wit_index_lib wit_snap_lib wit_system else io_return ()) (\<lambda>_.
                 io_return stats')))))) (wit_half_store, wit_half_repo)"
proof -
  have s: "sy_storage wit_system = memory_backend" by (simp add: wit_system_def)
  have l: "on_store (parallel_list_packs wit_index_lib memory_backend) (wit_half_store, wit_half_repo)
      = (Inr [(pack_storage_key lower_hex (wit_pid 1), wit_pid 1)], (wit_half_store, wit_half_repo))"
    by (simp add: on_store_def wit_list_run)
  have g: "get_ws (wit_half_store, wit_half_repo) = (Inr wit_half_repo, (wit_half_store, wit_half_repo))"
    by (simp add: get_ws_def)
  have i: "rp_chunk_index wit_half_repo = wit_half_index" by (simp add: wit_half_repo_def)
  show ?thesis
    unfolding wit_compact_def compact_repo_def s by (simp only: io_bind_def [of get_ws] io_bind_def [of "on_store (parallel_list_packs _ _)"] g l i prod.case sum.case if_False)
qed


lemma wit_compact_run:
  "(case wit_compact of (Inr stats, s', r') \<Rightarrow> ct_packs_repacked stats = 1
      \<and> map_of s' (pack_storage_key lower_hex (wit_pid 1)) = None | _ \<Rightarrow> False)"
  unfolding wit_compact_after by code_simp

lemma wit_half_lookup:
  "map_of wit_half_store k = (if k = pack_storage_key lower_hex (wit_pid 1) then Some (pack_image [[1, 2, 3], [4, 5]])
     else if k = ''index'' then Some (wit_index_object wit_half_index) else None)"
  by (simp add: wit_half_store_def)

lemma wit_half_stored:
  "decode_index_blob_full wit_index_lib (wit_index_object wit_half_index) = Inr \<lparr>ib_generation = 7, ib_chunks = wit_half_index\<rparr>"
  by code_simp

lemma wit_half_synced: "synced wit_index_lib map_of wit_half_store wit_half_repo"
proof -
  have "pack_storage_key lower_hex (wit_pid 1) \<noteq> ''index''" by code_simp
  then have "map_of wit_half_store ''index'' = Some (wit_index_object wit_half_index)"
    unfolding wit_half_lookup by (simp only: if_True if_False simp_thms eq_commute)
  then have "stored_index wit_index_lib (map_of wit_half_store) = Some (map_of wit_half_index)"
    by (simp add: stored_index_def wit_half_stored)
  then show ?thesis
    by (auto simp: synced_def wit_half_repo_def wit_repository_def fence_ok_def MAX_INDEX_ENTRIES_def wit_half_index_def
        wit_pid_def bc_get_def bc_new_def split: if_splits)
qed

lemma wit_half_canonical: "canonical_packs wit_index_lib (map_of wit_half_store)"
proof -
  have "pack_id_from_storage_key (rl_hex wit_index_lib) (pack_storage_key lower_hex (wit_pid 1)) = Inr (wit_pid 1)" by code_simp
  moreover have "\<not> starts_with ''index'' ''packs/''" by code_simp
  moreover have "rl_hex wit_index_lib = lower_hex" by (simp add: wit_index_lib_def wit_lib_def)
  ultimately show ?thesis unfolding canonical_packs_def wit_half_lookup by (auto split: if_splits)
qed

lemma wit_half_fresh: "repacks_fresh wit_index_lib (map_of wit_half_store) wit_half_index"
proof -
  have "live_of wit_half_index p = []" if "p \<noteq> wit_pid 1" for p
    using that by (simp add: live_of_def per_pack_lookup_def wit_half_index_def)
  then have "p = wit_pid 1" if "shrinks wit_index_lib (map_of wit_half_store) wit_half_index p" for p
    using that by (metis shrinks_def)
  moreover have "map_of wit_half_store (repack_key wit_index_lib (map_of wit_half_store) wit_half_index (wit_pid 1)) = None"
    by code_simp
  ultimately show ?thesis unfolding repacks_fresh_def by metis
qed

theorem compact_keeps_chunks_witness:
  "\<exists>stats s' r' f. compact_repo wit_index_lib wit_snap_lib wit_system (\<lambda>_ _. True) (\<lambda>s. (False, s)) None False
      (wit_half_store, wit_half_repo) = (Inr stats, (s', r'))
    \<and> ct_packs_repacked stats = 1 \<and> map_of s' (pack_storage_key lower_hex (wit_pid 1)) = None
    \<and> stored_index wit_index_lib (map_of s') = Some f \<and> chunk_blob wit_index_lib (map_of s') f (wit_cid 1) = Some [1, 2, 3]"
proof -
  obtain stats s' r' where c: "wit_compact = (Inr stats, (s', r'))" "ct_packs_repacked stats = 1"
      "map_of s' (pack_storage_key lower_hex (wit_pid 1)) = None"
    using wit_compact_run by (auto split: prod.splits sum.splits)
  have wf: "hm_wf (rp_chunk_index wit_half_repo)" by (simp add: wit_half_repo_def wit_half_index_def hm_wf_def)
  have i: "rp_chunk_index wit_half_repo = wit_half_index" by (simp add: wit_half_repo_def)
  have server: "\<exists>msg s'. be_server_repack memory_backend plan s = (Inl (UnsupportedBackend msg), s') \<and> map_of s' = map_of s" for plan s
    by (simp add: memory_backend_def default_server_repack_def io_fail_def)
  have blob: "chunk_blob wit_index_lib (map_of wit_half_store) (map_of (rp_chunk_index wit_half_repo)) (wit_cid 1) = Some [1, 2, 3]"
    by code_simp
  obtain f where "stored_index wit_index_lib (map_of s') = Some f" "chunk_blob wit_index_lib (map_of s') f (wit_cid 1) = Some [1, 2, 3]"
    using compact_keeps_chunks [OF mem_repo.repo_machine_axioms wit_half_synced wf wit_half_canonical wit_half_fresh [folded i] server
        _ c(1) [unfolded wit_compact_def]] blob by auto
  then show ?thesis using c unfolding wit_compact_def by blast
qed

end
