(* ===== verification/Http_Retry.thy ===== *)
theory Http_Retry
  imports Storage
begin

text \<open>
  The retry loop of the HTTP backends (\<open>vykar-storage/src/retry.rs\<close>) with its configuration
  (\<open>lib.rs\<close>).  The state \<open>'n\<close> is the network with everything behind it; random numbers and
  sleeping are operations on it.  A call is retried while its error is transient and attempts are
  left; the last error is the result.
\<close>

section \<open>Definitions\<close>

record retry_config =
  rc_max_retries :: nat
  rc_retry_delay_ms :: u64
  rc_retry_max_delay_ms :: u64

definition default_retry_config :: retry_config where
  "default_retry_config = \<lparr>rc_max_retries = 3, rc_retry_delay_ms = 1000, rc_retry_max_delay_ms = 60000\<rparr>"

datatype ureq_error = Timeout | ConnectionFailed | HostNotFound | UreqIo io_error | OtherUreq string

datatype http_retry_error =
    Transport string
  | RetryableStatus nat string
  | BodyIo io_error
  | Permanent string

definition is_retryable_io :: "io_error \<Rightarrow> bool" where
  "is_retryable_io e \<longleftrightarrow> io_kind e \<in> {ConnectionReset, ConnectionAborted, BrokenPipe, UnexpectedEof, TimedOut,
     io_error_kind.Interrupted}"

fun is_retryable_transport :: "ureq_error \<Rightarrow> bool" where
  "is_retryable_transport Timeout = True"
| "is_retryable_transport ConnectionFailed = True"
| "is_retryable_transport HostNotFound = True"
| "is_retryable_transport (UreqIo e) = is_retryable_io e"
| "is_retryable_transport (OtherUreq s) = False"

fun is_retryable :: "http_retry_error \<Rightarrow> bool" where
  "is_retryable (Transport s) = True"
| "is_retryable (RetryableStatus c s) = True"
| "is_retryable (BodyIo e) = is_retryable_io e"
| "is_retryable (Permanent s) = False"

definition classify_status :: "nat \<Rightarrow> string \<Rightarrow> http_retry_error + unit" where
  "classify_status code message =
     (if code < 400 then Inr ()
      else if code = 429 \<or> code \<ge> 500 then Inl (RetryableStatus code message)
      else Inl (Permanent message))"

record 'n http_env =
  he_random :: "'n \<Rightarrow> u64 \<times> 'n"
  he_sleep :: "u64 \<Rightarrow> 'n \<Rightarrow> 'n"
  he_show_ureq :: "ureq_error \<Rightarrow> string"
  he_show_io :: "io_error \<Rightarrow> string"

fun http_retry_error_display :: "(io_error \<Rightarrow> string) \<Rightarrow> http_retry_error \<Rightarrow> string" where
  "http_retry_error_display show_io (Transport msg) = ''transport error: '' @ msg"
| "http_retry_error_display show_io (RetryableStatus c msg) = msg"
| "http_retry_error_display show_io (BodyIo e) = ''body read error: '' @ show_io e"
| "http_retry_error_display show_io (Permanent msg) = msg"

definition backoff :: "('n, 'm) http_env_scheme \<Rightarrow> u64 \<Rightarrow> 'n \<Rightarrow> 'n" where
  "backoff env delay_ms n =
     (case he_random env n of (r, n') \<Rightarrow> he_sleep env (delay_ms + r mod max delay_ms 1) n')"

definition next_delay :: "retry_config \<Rightarrow> u64 \<Rightarrow> u64" where
  "next_delay config delay_ms = min (delay_ms * 2) (rc_retry_max_delay_ms config)"

definition http_attempt ::
  "('n, 'm) http_env_scheme \<Rightarrow> ('n, ureq_error, 'r) io \<Rightarrow> ('r \<Rightarrow> http_retry_error + 'a) \<Rightarrow> ('n, http_retry_error, 'a) io" where
  "http_attempt env f handle_response n =
     (case f n of
        (Inr response, n') \<Rightarrow> (handle_response response, n')
      | (Inl e, n') \<Rightarrow>
          (Inl (if is_retryable_transport e then Transport (he_show_ureq env e) else Permanent (he_show_ureq env e)), n'))"

text \<open>\<open>left\<close> attempts may follow this one.\<close>

primrec retry_loop ::
  "retry_config \<Rightarrow> ('n, 'm) http_env_scheme \<Rightarrow> ('n, http_retry_error, 'a) io \<Rightarrow> nat \<Rightarrow> u64 \<Rightarrow>
   ('n, http_retry_error, 'a) io" where
  "retry_loop config env attempt 0 delay_ms = attempt"
| "retry_loop config env attempt (Suc left) delay_ms = (\<lambda>n.
     case attempt n of
       (Inr a, n') \<Rightarrow> (Inr a, n')
     | (Inl e, n') \<Rightarrow>
         if is_retryable e
         then retry_loop config env attempt left (next_delay config delay_ms) (backoff env delay_ms n')
         else (Inl e, n'))"

definition retry_http ::
  "retry_config \<Rightarrow> ('n, 'm) http_env_scheme \<Rightarrow> ('n, ureq_error, 'r) io \<Rightarrow> ('r \<Rightarrow> http_retry_error + 'a) \<Rightarrow>
   ('n, http_retry_error, 'a) io" where
  "retry_http config env f handle_response =
     retry_loop config env (http_attempt env f handle_response) (rc_max_retries config) (rc_retry_delay_ms config)"

section \<open>Lemmas\<close>

text \<open>The result is that of some attempt, made in a state that earlier failed attempts led to.\<close>

lemma retry_loop_last:
  assumes "retry_loop config env attempt left d n = (r, n')" and "P n"
    and "\<And>n e n1. P n \<Longrightarrow> attempt n = (Inl e, n1) \<Longrightarrow> P n1" and "\<And>d n. P n \<Longrightarrow> P (backoff env d n)"
  shows "\<exists>n1. P n1 \<and> attempt n1 = (r, n')"
  using assms(1,2)
proof (induction left arbitrary: d n)
  case (Suc left)
  obtain r1 n1 where a: "attempt n = (r1, n1)" by fastforce
  show ?case
  proof (cases "\<exists>e. r1 = Inl e \<and> is_retryable e")
    case True
    then obtain e where e: "attempt n = (Inl e, n1)" "is_retryable e" using a by auto
    then have "retry_loop config env attempt left (next_delay config d) (backoff env d n1) = (r, n')"
      using Suc.prems(1) by simp
    from Suc.IH [OF this] show ?thesis using assms(3) [OF Suc.prems(2) e(1)] assms(4) by blast
  next
    case False
    then have "attempt n = (r, n')" using Suc.prems(1) a by (auto split: sum.splits if_splits)
    then show ?thesis using Suc.prems(2) by blast
  qed
qed auto

text \<open>\<open>k\<close> transient failures and then a success, with the waits between them.\<close>

primrec clears_after ::
  "retry_config \<Rightarrow> ('n, 'm) http_env_scheme \<Rightarrow> ('n, http_retry_error, 'a) io \<Rightarrow> nat \<Rightarrow> u64 \<Rightarrow> 'n \<Rightarrow> 'a \<Rightarrow> 'n \<Rightarrow> bool" where
  "clears_after config env attempt 0 d n a n' \<longleftrightarrow> attempt n = (Inr a, n')"
| "clears_after config env attempt (Suc k) d n a n' \<longleftrightarrow>
     (\<exists>e n1. attempt n = (Inl e, n1) \<and> is_retryable e \<and>
       clears_after config env attempt k (next_delay config d) (backoff env d n1) a n')"

lemma retry_loop_clears:
  "clears_after config env attempt k d n a n' \<Longrightarrow> k \<le> left \<Longrightarrow> retry_loop config env attempt left d n = (Inr a, n')"
proof (induction k arbitrary: left d n)
  case 0
  then show ?case by (cases left) simp_all
next
  case (Suc k)
  then obtain left' where "left = Suc left'" by (cases left) auto
  then show ?case using Suc by auto
qed

text \<open>The delays never exceed the configured maximum by more than the jitter.\<close>

lemma delays_bounded:
  "(next_delay config ^^ i) (rc_retry_delay_ms config) \<le> max (rc_retry_delay_ms config) (rc_retry_max_delay_ms config)"
  by (cases i) (auto simp: next_delay_def max_def min_def)

lemma backoff_delay_bound:
  assumes "unat (d :: u64) < 2 ^ 63"
  shows "unat (d + r mod max d 1) = unat d + unat (r mod max d 1)" and "unat (d + r mod max d 1) < max 1 (2 * unat d)"
proof -
  have r: "unat (r mod max d 1) < unat (max d 1)"
    by (metis mod_less_divisor unat_mod max.cobounded2 unat_gt_0 word_le_0_iff zero_neq_one)
  moreover have "unat (max d 1) = max (unat d) 1"
    by (auto simp: max_def word_le_nat_alt)
  ultimately have le: "unat d + unat (r mod max d 1) < 2 ^ 64" using assms by (auto simp: max_def split: if_splits)
  then show e: "unat (d + r mod max d 1) = unat d + unat (r mod max d 1)"
    by (simp add: unat_add_lem [symmetric])
  show "unat (d + r mod max d 1) < max 1 (2 * unat d)"
    unfolding e using r \<open>unat (max d 1) = max (unat d) 1\<close> by (auto simp: max_def split: if_splits)
qed

end
