(* ===== verification/Server_State.thy ===== *)
theory Server_State
  imports Protocol "HOL-Library.List_Lexorder" "HOL-Library.Char_ord"
begin

unbundle bit_operations_syntax

text \<open>
  The crate \<open>vykar-server\<close>: error values (\<open>error.rs\<close>), quota detection (\<open>quota.rs\<close>) and the
  shared state of the handlers (\<open>state.rs\<close>).

  The operating system is the record \<open>server_os\<close>: file operations on paths relative to the data
  directory (\<open>[]\<close> is the directory itself), the clock and the quota system calls.  What the
  handlers rely on is the locale \<open>fs_contract\<close>; a file system kept in memory satisfies it.  A
  buffered write reaches its file at once, and handlers run one after the other.
\<close>

section \<open>The operating system\<close>

type_synonym path = "string list"

record 's server_os =
  os_metadata :: "path \<Rightarrow> ('s, io_error, u64) io"
  os_exists :: "path \<Rightarrow> 's \<Rightarrow> bool"
  os_canonical_within :: "path \<Rightarrow> 's \<Rightarrow> bool"
  os_create_dir_all :: "path \<Rightarrow> ('s, io_error, unit) io"
  os_create :: "path \<Rightarrow> ('s, io_error, unit) io"
  os_write :: "path \<Rightarrow> bytes \<Rightarrow> ('s, io_error, unit) io"
  os_sync :: "path \<Rightarrow> ('s, io_error, unit) io"
  os_read :: "path \<Rightarrow> ('s, io_error, bytes) io"
  os_rename :: "path \<Rightarrow> path \<Rightarrow> ('s, io_error, unit) io"
  os_remove_file :: "path \<Rightarrow> ('s, io_error, unit) io"
  os_remove_dir :: "path \<Rightarrow> ('s, io_error, unit) io"
  os_read_dir :: "path \<Rightarrow> ('s, io_error, (io_error + string \<times> bool) list) io"
  os_now :: "'s \<Rightarrow> int \<times> 's"
  os_statvfs :: "'s \<Rightarrow> (u64 \<times> u64) option"
  os_open_data_dir :: "'s \<Rightarrow> bool"
  os_getuid :: "'s \<Rightarrow> u32"
  os_dir_uid :: "'s \<Rightarrow> u32 option"
  os_quotactl_fd :: "u32 \<Rightarrow> u32 \<Rightarrow> 's \<Rightarrow> u64 option"
  os_fsgetxattr :: "'s \<Rightarrow> u32 option"

text \<open>
  Libraries of the server: hashing, hex, the text of an I/O error, the name of the data directory
  and the JSON decoders of the request bodies.
\<close>

record server_lib =
  sl_b2 :: blake2_lib
  sl_hex :: hex_lib
  sl_show_io :: "io_error \<Rightarrow> string"
  sl_data_dir_name :: string
  sl_keys_from_json :: "bytes \<Rightarrow> string + string list"
  sl_repack_from_json :: "bytes \<Rightarrow> string + repack_plan_request"
  sl_verify_from_json :: "bytes \<Rightarrow> string + verify_packs_plan_request"

section \<open>Errors (error.rs)\<close>

datatype server_error =
    NotFoundError string
  | Forbidden string
  | PayloadTooLarge string
  | BadRequest string
  | Conflict string
  | Internal string

fun error_status :: "server_error \<Rightarrow> nat \<times> string" where
  "error_status (NotFoundError msg) = (404, msg)"
| "error_status (Forbidden msg) = (403, msg)"
| "error_status (PayloadTooLarge msg) = (413, msg)"
| "error_status (BadRequest msg) = (400, msg)"
| "error_status (Conflict msg) = (409, msg)"
| "error_status (Internal msg) = (500, msg)"

definition server_error_from_io :: "server_lib \<Rightarrow> io_error \<Rightarrow> server_error" where
  "server_error_from_io lib e =
     (if io_kind e = NotFound then NotFoundError (sl_show_io lib e) else Internal (sl_show_io lib e))"

section \<open>Quota (quota.rs)\<close>

definition FREE_SPACE_MARGIN :: u64 where "FREE_SPACE_MARGIN = 50 * 1024 * 1024"

datatype quota_source = Explicit | FsQuota | FreeSpace | Unlimited

fun quota_source_to_u8 :: "quota_source \<Rightarrow> u8" where
  "quota_source_to_u8 Explicit = 0"
| "quota_source_to_u8 FsQuota = 1"
| "quota_source_to_u8 FreeSpace = 2"
| "quota_source_to_u8 Unlimited = 3"

definition quota_source_from_u8 :: "u8 \<Rightarrow> quota_source" where
  "quota_source_from_u8 v =
     (if v = 0 then Explicit else if v = 1 then FsQuota else if v = 2 then FreeSpace else Unlimited)"

record quota_state =
  qs_source :: u8
  qs_effective_limit :: u64
  qs_explicit :: bool

definition quota_state_new :: "quota_source \<Rightarrow> u64 \<Rightarrow> bool \<Rightarrow> quota_state" where
  "quota_state_new source limit explicit =
     \<lparr>qs_source = quota_source_to_u8 source, qs_effective_limit = limit, qs_explicit = explicit\<rparr>"

definition USRQUOTA :: u32 where "USRQUOTA = 0"
definition PRJQUOTA :: u32 where "PRJQUOTA = 2"
definition Q_XGETQUOTA :: u32 where "Q_XGETQUOTA = 0x5803"

definition qcmd :: "u32 \<Rightarrow> u32 \<Rightarrow> u32" where
  "qcmd cmd quota_type = (push_bit 8 cmd OR quota_type)"

definition xfs_get_quota_fd :: "'s server_os \<Rightarrow> u32 \<Rightarrow> u32 \<Rightarrow> 's \<Rightarrow> u64 option" where
  "xfs_get_quota_fd os i quota_type s =
     (case os_quotactl_fd os (qcmd Q_XGETQUOTA quota_type) i s of
        None \<Rightarrow> None
      | Some hardlimit \<Rightarrow> if hardlimit = 0 then None else Some (hardlimit * 512))"

definition get_project_id :: "'s server_os \<Rightarrow> 's \<Rightarrow> u32 option" where
  "get_project_id os s = (if os_open_data_dir os s then os_fsgetxattr os s else None)"

definition detect_fs_quota :: "'s server_os \<Rightarrow> 's \<Rightarrow> u64 option" where
  "detect_fs_quota os s =
     (if \<not> os_open_data_dir os s then None
      else let uid = os_getuid os s in
        case xfs_get_quota_fd os uid USRQUOTA s of
          Some limit \<Rightarrow> Some limit
        | None \<Rightarrow>
            let owner = (case os_dir_uid os s of
                           None \<Rightarrow> None
                         | Some dir_uid \<Rightarrow>
                             if dir_uid \<noteq> uid then xfs_get_quota_fd os dir_uid USRQUOTA s else None)
            in case owner of
                 Some limit \<Rightarrow> Some limit
               | None \<Rightarrow>
                   (case get_project_id os s of
                      None \<Rightarrow> None
                    | Some proj_id \<Rightarrow>
                        if proj_id > 0 then xfs_get_quota_fd os proj_id PRJQUOTA s else None))"

definition available_free_space :: "'s server_os \<Rightarrow> 's \<Rightarrow> u64 option" where
  "available_free_space os s =
     (case os_statvfs os s of
        None \<Rightarrow> None
      | Some (bavail, frsize) \<Rightarrow>
          if unat bavail * unat frsize < 2 ^ 64
          then Some (sat_sub_u64 (bavail * frsize) FREE_SPACE_MARGIN) else None)"

definition detect_auto :: "'s server_os \<Rightarrow> u64 \<Rightarrow> 's \<Rightarrow> quota_source \<times> u64" where
  "detect_auto os current_usage s =
     (case detect_fs_quota os s of
        Some limit \<Rightarrow> (FsQuota, limit)
      | None \<Rightarrow>
          (case available_free_space os s of
             Some avail \<Rightarrow> (FreeSpace, sat_add_u64 current_usage avail)
           | None \<Rightarrow> (Unlimited, 0)))"

definition detect_quota :: "'s server_os \<Rightarrow> u64 option \<Rightarrow> u64 \<Rightarrow> 's \<Rightarrow> quota_source \<times> u64" where
  "detect_quota os explicit_override current_usage s =
     (case explicit_override of
        Some limit \<Rightarrow> if limit > 0 then (Explicit, limit) else detect_auto os current_usage s
      | None \<Rightarrow> detect_auto os current_usage s)"

definition quota_refresh :: "'s server_os \<Rightarrow> u64 \<Rightarrow> 's \<Rightarrow> quota_state \<Rightarrow> quota_state" where
  "quota_refresh os current_usage s q =
     (if qs_explicit q then q
      else case detect_auto os current_usage s of
             (new_source, new_limit) \<Rightarrow>
               q\<lparr>qs_effective_limit := new_limit, qs_source := quota_source_to_u8 new_source\<rparr>)"

section \<open>Shared state (state.rs)\<close>

text \<open>
  \<open>AppStateInner\<close>, with the two counters that name temporary files, which the handlers keep in
  global variables.
\<close>

record app_state =
  as_append_only :: bool
  as_token :: string
  as_quota_usage :: u64
  as_quota_state :: quota_state
  as_last_backup_at :: "int option"
  as_temp_counter :: u64
  as_repack_temp_counter :: u64

type_synonym ('s, 'a) srv_io = "('s \<times> app_state, server_error, 'a) io"

text \<open>\<open>file_name\<close> and \<open>with_file_name\<close>; the sibling of the data directory lies beside it.\<close>

definition file_name_of :: "server_lib \<Rightarrow> path \<Rightarrow> string" where
  "file_name_of lib p = (if p = [] then sl_data_dir_name lib else last p)"

definition with_file_name :: "path \<Rightarrow> string \<Rightarrow> path" where
  "with_file_name p n = (if p = [] then [''..'', n] else butlast p @ [n])"

definition is_safe_relative_path :: "string \<Rightarrow> bool" where
  "is_safe_relative_path key =
     (if CHR 0x00 \<in> set key \<or> CHR 0x5C \<in> set key then False
      else let trimmed = trim_matches_char (CHR ''/'') key in
        if trimmed = [] then True
        else \<not> list_ex (\<lambda>part. part = [] \<or> part = ''.'' \<or> part = ''..'') (split_on (CHR ''/'') trimmed))"

definition is_valid_packs_key :: "string list \<Rightarrow> bool" where
  "is_valid_packs_key parts =
     (case parts of
        [] \<Rightarrow> False
      | p0 # rest \<Rightarrow>
          if p0 \<noteq> ''packs'' then False
          else (case rest of
                  [] \<Rightarrow> True
                | shard # rest' \<Rightarrow>
                    if length shard \<noteq> 2 \<or> \<not> list_all is_ascii_hexdigit shard then False
                    else (case rest' of
                            [] \<Rightarrow> True
                          | [pack] \<Rightarrow> length pack = 64 \<and> list_all is_ascii_hexdigit pack
                          | _ \<Rightarrow> False)))"

definition is_valid_storage_key :: "string \<Rightarrow> bool" where
  "is_valid_storage_key key =
     (if CHR 0x00 \<in> set key \<or> CHR 0x5C \<in> set key then False
      else let trimmed = trim_matches_char (CHR ''/'') key in
        if trimmed = [] then True
        else let parts = split_on (CHR ''/'') trimmed in
          if list_ex (\<lambda>part. part = [] \<or> part = ''.'' \<or> part = ''..'') parts then False
          else if hd parts \<in> {''keys'', ''snapshots'', ''locks'', ''sessions'', ''pending_index''}
          then 1 \<le> length parts \<and> length parts \<le> 2
          else if hd parts = ''packs'' then is_valid_packs_key parts
          else if hd parts \<in> set KNOWN_ROOT_FILES then length parts = 1
          else False)"

text \<open>
  Above the data directory an existing ancestor canonicalizes to a path outside it, so the search
  ends there with \<open>False\<close>.
\<close>

fun existing_ancestor_within :: "'s server_os \<Rightarrow> 's \<Rightarrow> path \<Rightarrow> bool" where
  "existing_ancestor_within os s [] = (os_exists os [] s \<and> os_canonical_within os [] s)"
| "existing_ancestor_within os s (x # xs) =
     (if os_exists os (x # xs) s then os_canonical_within os (x # xs) s
      else existing_ancestor_within os s (butlast (x # xs)))"

text \<open>The path of a trimmed key below the data directory; it starts with that directory.\<close>

definition key_path :: "string \<Rightarrow> path" where
  "key_path key =
     (let trimmed = trim_matches_char (CHR ''/'') key in
      if trimmed = [] then [] else split_on (CHR ''/'') trimmed)"

definition file_path :: "'s server_os \<Rightarrow> 's \<Rightarrow> string \<Rightarrow> path option" where
  "file_path os s key =
     (if \<not> is_valid_storage_key key then None
      else if \<not> existing_ancestor_within os s (key_path key) then None
      else Some (key_path key))"

definition file_path_for_cleanup :: "'s server_os \<Rightarrow> 's \<Rightarrow> string \<Rightarrow> path option" where
  "file_path_for_cleanup os s key =
     (if \<not> is_safe_relative_path key then None
      else if trim_matches_char (CHR ''/'') key = [] then None
      else if \<not> existing_ancestor_within os s (key_path key) then None
      else Some (key_path key))"

definition quota_limit :: "app_state \<Rightarrow> u64" where
  "quota_limit st = qs_effective_limit (as_quota_state st)"

definition add_quota_usage :: "u64 \<Rightarrow> app_state \<Rightarrow> app_state" where
  "add_quota_usage n st = st\<lparr>as_quota_usage := as_quota_usage st + n\<rparr>"

definition sub_quota_usage :: "u64 \<Rightarrow> app_state \<Rightarrow> app_state" where
  "sub_quota_usage n st = st\<lparr>as_quota_usage := sat_sub_u64 (as_quota_usage st) n\<rparr>"

text \<open>The refresh that \<open>record_backup\<close> leaves to a background task runs at once.\<close>

definition record_backup :: "'s server_os \<Rightarrow> ('s, unit) srv_io" where
  "record_backup os = (\<lambda>(s, st).
     case os_now os s of
       (t, s') \<Rightarrow>
         (Inr (), (s', st\<lparr>as_last_backup_at := Some t,
           as_quota_state := quota_refresh os (as_quota_usage st) s' (as_quota_state st)\<rparr>)))"

text \<open>
  The recursion of every scan of a directory tree: \<open>visit\<close> is called on each entry that is no
  directory, unreadable directories and entries are skipped.  The first number bounds the depth;
  \<open>None\<close> stands for a scan that has not returned within it.
\<close>

fun walk :: "'s server_os \<Rightarrow> (path \<Rightarrow> 'a \<Rightarrow> 's \<Rightarrow> 'a \<times> 's) \<Rightarrow> nat \<Rightarrow> path \<Rightarrow> 'a \<Rightarrow> 's \<Rightarrow> ('a \<times> 's) option"
  and walk_entries ::
    "'s server_os \<Rightarrow> (path \<Rightarrow> 'a \<Rightarrow> 's \<Rightarrow> 'a \<times> 's) \<Rightarrow> nat \<Rightarrow> path \<Rightarrow> (io_error + string \<times> bool) list \<Rightarrow>
     'a \<Rightarrow> 's \<Rightarrow> ('a \<times> 's) option" where
  "walk os visit 0 dir acc s = None"
| "walk os visit (Suc n) dir acc s =
     (case os_read_dir os dir s of
        (Inl _, s') \<Rightarrow> Some (acc, s')
      | (Inr es, s') \<Rightarrow> walk_entries os visit n dir es acc s')"
| "walk_entries os visit n dir [] acc s = Some (acc, s)"
| "walk_entries os visit n dir (Inl _ # es) acc s = walk_entries os visit n dir es acc s"
| "walk_entries os visit n dir (Inr (name, is_dir) # es) acc s =
     (if is_dir
      then (case walk os visit n (dir @ [name]) acc s of
              None \<Rightarrow> None
            | Some (acc', s') \<Rightarrow> walk_entries os visit n dir es acc' s')
      else (case visit (dir @ [name]) acc s of
              (acc', s') \<Rightarrow> walk_entries os visit n dir es acc' s'))"

definition visit_size :: "'s server_os \<Rightarrow> path \<Rightarrow> u64 \<Rightarrow> 's \<Rightarrow> u64 \<times> 's" where
  "visit_size os p so_far s =
     (case os_metadata os p s of
        (Inl _, s') \<Rightarrow> (so_far, s')
      | (Inr len, s') \<Rightarrow> (so_far + len, s'))"

definition dir_size :: "'s server_os \<Rightarrow> nat \<Rightarrow> path \<Rightarrow> 's \<Rightarrow> (u64 \<times> 's) option" where
  "dir_size os depth p s = walk os (visit_size os) depth p 0 s"

definition unexpected_entries :: "'s server_os \<Rightarrow> 's \<Rightarrow> string list \<times> 's" where
  "unexpected_entries os s =
     (case os_read_dir os [] s of
        (Inl _, s') \<Rightarrow> ([], s')
      | (Inr es, s') \<Rightarrow>
          (sort (filter (\<lambda>name. \<not> (name \<in> set KNOWN_ROOT_FILES \<or> name \<in> set KNOWN_ROOT_DIRS
                                   \<or> is_temp_file name))
                  (concat (map (case_sum (\<lambda>_. []) (\<lambda>(name, _). [name])) es))), s'))"

datatype server_start = Exited "string list" | Started app_state

text \<open>\<open>AppState::new\<close>; \<open>None\<close> when the scan of the data directory does not return.\<close>

definition app_state_new ::
  "'s server_os \<Rightarrow> nat \<Rightarrow> bool \<Rightarrow> string \<Rightarrow> u64 option \<Rightarrow> 's \<Rightarrow> (server_start \<times> 's) option" where
  "app_state_new os depth append_only token explicit_quota s =
     (case unexpected_entries os s of
        (bad, s1) \<Rightarrow>
          if bad \<noteq> [] then Some (Exited bad, s1)
          else (case dir_size os depth [] s1 of
                  None \<Rightarrow> None
                | Some (usage, s2) \<Rightarrow>
                    (case detect_quota os explicit_quota usage s2 of
                       (source, limit) \<Rightarrow>
                         let is_explicit = (case explicit_quota of Some v \<Rightarrow> v > 0 | None \<Rightarrow> False) in
                         Some (Started \<lparr>as_append_only = append_only, as_token = token,
                                 as_quota_usage = usage,
                                 as_quota_state = quota_state_new source limit is_explicit,
                                 as_last_backup_at = None, as_temp_counter = 0,
                                 as_repack_temp_counter = 0\<rparr>, s2))))"

section \<open>What the handlers rely on\<close>

text \<open>
  \<open>files\<close> is the contents of the files, \<open>dirs\<close> the directories below the data directory.  Calls
  may fail at any time: a failed rename or removal changes nothing, a failed write damages at most
  the file it writes.
\<close>

locale fs_contract =
  fixes os :: "'s server_os"
    and files :: "'s \<Rightarrow> path \<rightharpoonup> bytes"
    and dirs :: "'s \<Rightarrow> path set"
  assumes metadata_frame: "os_metadata os p s = (r, s') \<Longrightarrow> files s' = files s \<and> dirs s' = dirs s"
    and metadata_ok: "os_metadata os p s = (Inr n, s') \<Longrightarrow> files s p = Some d \<Longrightarrow> n = of_nat (length d)"
    and metadata_missing: "os_metadata os p s = (Inl e, s') \<Longrightarrow> io_kind e = NotFound \<Longrightarrow> files s p = None"
    and metadata_exists: "os_metadata os p s = (Inr n, s') \<Longrightarrow> files s p \<noteq> None \<or> p \<in> dirs s"
    and create_dir_frame: "os_create_dir_all os p s = (r', s') \<Longrightarrow> files s' = files s \<and> dirs s \<subseteq> dirs s'"
    and create_ok: "os_create os p s = (Inr u, s') \<Longrightarrow> files s' = (files s)(p \<mapsto> [])"
    and create_err: "os_create os p s = (Inl e, s') \<Longrightarrow> files s' = files s"
    and create_dirs: "os_create os p s = (r', s') \<Longrightarrow> dirs s \<subseteq> dirs s'"
    and write_ok: "os_write os p d s = (Inr u, s') \<Longrightarrow> files s p = Some d0 \<Longrightarrow>
      files s' = (files s)(p \<mapsto> d0 @ d)"
    and write_frame: "os_write os p d s = (r', s') \<Longrightarrow> q \<noteq> p \<Longrightarrow> files s' q = files s q"
    and write_dirs: "os_write os p d s = (r', s') \<Longrightarrow> dirs s \<subseteq> dirs s'"
    and sync_frame: "os_sync os p s = (r', s') \<Longrightarrow> files s' = files s \<and> dirs s \<subseteq> dirs s'"
    and read_frame: "os_read os p s = (r'', s') \<Longrightarrow> files s' = files s"
    and read_ok: "os_read os p s = (Inr d, s') \<Longrightarrow> files s p = Some d"
    and read_missing: "os_read os p s = (Inl e, s') \<Longrightarrow> io_kind e = NotFound \<Longrightarrow> files s p = None"
    and rename_ok: "os_rename os p q s = (Inr u, s') \<Longrightarrow> files s' = (files s)(p := None, q := files s p)"
    and rename_target: "os_rename os p q s = (Inr u, s') \<Longrightarrow> q \<notin> dirs s"
    and rename_err: "os_rename os p q s = (Inl e, s') \<Longrightarrow> files s' = files s"
    and remove_ok: "os_remove_file os p s = (Inr u, s') \<Longrightarrow>
      files s' = (files s)(p := None) \<and> files s p \<noteq> None"
    and remove_err: "os_remove_file os p s = (Inl e, s') \<Longrightarrow> files s' = files s"
    and remove_missing: "os_remove_file os p s = (Inl e, s') \<Longrightarrow> io_kind e = NotFound \<Longrightarrow> files s p = None"
    and remove_dir_frame: "os_remove_dir os p s = (r', s') \<Longrightarrow> files s' = files s"
    and read_dir_frame: "os_read_dir os p s = (rd, s') \<Longrightarrow> files s' = files s \<and> dirs s' = dirs s"
    and read_dir_file: "os_read_dir os p s = (Inr es, s') \<Longrightarrow> Inr (n', False) \<in> set es \<Longrightarrow>
      files s (p @ [n']) \<noteq> None"
    and read_dir_dir: "os_read_dir os p s = (Inr es, s') \<Longrightarrow> Inr (n', True) \<in> set es \<Longrightarrow>
      p @ [n'] \<in> dirs s"
    and read_dir_distinct: "os_read_dir os p s = (Inr es, s') \<Longrightarrow> distinct es"
    and read_dir_complete: "os_read_dir os p s = (Inr es, s') \<Longrightarrow> (\<forall>x \<in> set es. \<not> isl x) \<Longrightarrow>
      files s (p @ n' # rest) \<noteq> None \<Longrightarrow> Inr (n', rest \<noteq> []) \<in> set es"
    and now_frame: "os_now os s = (t, s') \<Longrightarrow> files s' = files s"
    and dirs_finite: "finite (dirs s)"
    and files_finite: "finite (dom (files s))"

section \<open>A file system in memory\<close>

type_synonym mem_fs = "(path, bytes) hmap"

definition below :: "path \<Rightarrow> path \<Rightarrow> bool" where
  "below p q \<longleftrightarrow> length p < length q \<and> take (length p) q = p"

definition mem_is_dir :: "mem_fs \<Rightarrow> path \<Rightarrow> bool" where
  "mem_is_dir m p \<longleftrightarrow> p = [] \<or> list_ex (below p) (map fst m)"

definition no_entry :: io_error where "no_entry = IoError NotFound (Some 2)"
definition dir_in_the_way :: io_error where "dir_in_the_way = IoError (OtherIoKind 21) (Some 21)"

definition memfs_metadata :: "path \<Rightarrow> (mem_fs, io_error, u64) io" where
  "memfs_metadata p m =
     (case map_of m p of
        Some d \<Rightarrow> (Inr (of_nat (length d)), m)
      | None \<Rightarrow> (if mem_is_dir m p then Inr 4096 else Inl no_entry, m))"

definition memfs_create :: "path \<Rightarrow> (mem_fs, io_error, unit) io" where
  "memfs_create p m =
     (if mem_is_dir m p then (Inl dir_in_the_way, m) else (Inr (), hm_insert p [] m))"

definition memfs_write :: "path \<Rightarrow> bytes \<Rightarrow> (mem_fs, io_error, unit) io" where
  "memfs_write p d m =
     (case map_of m p of
        None \<Rightarrow> (Inl no_entry, m)
      | Some d0 \<Rightarrow> (Inr (), hm_insert p (d0 @ d) m))"

definition memfs_read :: "path \<Rightarrow> (mem_fs, io_error, bytes) io" where
  "memfs_read p m =
     (case map_of m p of
        None \<Rightarrow> (Inl (if mem_is_dir m p then dir_in_the_way else no_entry), m)
      | Some d \<Rightarrow> (Inr d, m))"

definition memfs_rename :: "path \<Rightarrow> path \<Rightarrow> (mem_fs, io_error, unit) io" where
  "memfs_rename p q m =
     (case map_of m p of
        None \<Rightarrow> (Inl no_entry, m)
      | Some d \<Rightarrow> if mem_is_dir m q then (Inl dir_in_the_way, m)
                 else (Inr (), hm_insert q d (hm_remove p m)))"

definition memfs_remove_file :: "path \<Rightarrow> (mem_fs, io_error, unit) io" where
  "memfs_remove_file p m =
     (case map_of m p of
        None \<Rightarrow> (Inl (if mem_is_dir m p then dir_in_the_way else no_entry), m)
      | Some _ \<Rightarrow> (Inr (), hm_remove p m))"

definition memfs_read_dir :: "path \<Rightarrow> (mem_fs, io_error, (io_error + string \<times> bool) list) io" where
  "memfs_read_dir p m =
     (if mem_is_dir m p
      then (Inr (remdups (map (\<lambda>q. Inr (q ! length p, Suc (length p) < length q))
              (filter (below p) (map fst m)))), m)
      else (Inl no_entry, m))"

definition memory_os :: "mem_fs server_os" where
  "memory_os =
     \<lparr>os_metadata = memfs_metadata,
      os_exists = (\<lambda>p m. map_of m p \<noteq> None \<or> mem_is_dir m p),
      os_canonical_within = (\<lambda>p m. True),
      os_create_dir_all = (\<lambda>p m. (Inr (), m)),
      os_create = memfs_create,
      os_write = memfs_write,
      os_sync = (\<lambda>p m. (Inr (), m)),
      os_read = memfs_read,
      os_rename = memfs_rename,
      os_remove_file = memfs_remove_file,
      os_remove_dir = (\<lambda>p m. (Inr (), m)),
      os_read_dir = memfs_read_dir,
      os_now = (\<lambda>m. (0, m)),
      os_statvfs = (\<lambda>m. None),
      os_open_data_dir = (\<lambda>m. False),
      os_getuid = (\<lambda>m. 0),
      os_dir_uid = (\<lambda>m. None),
      os_quotactl_fd = (\<lambda>c i m. None),
      os_fsgetxattr = (\<lambda>m. None)\<rparr>"

definition memfs_dirs :: "mem_fs \<Rightarrow> path set" where
  "memfs_dirs m = insert [] (\<Union>q \<in> fst ` set m. (\<lambda>k. take k q) ` {..< length q})"

lemma below_iff: "below p q \<longleftrightarrow> (\<exists>n rest. q = p @ n # rest)"
proof
  assume "below p q"
  then have "q = p @ drop (length p) q" and "drop (length p) q \<noteq> []"
    by (metis append_take_drop_id below_def, simp add: below_def)
  then show "\<exists>n rest. q = p @ n # rest" by (metis neq_Nil_conv)
qed (auto simp: below_def)

lemma memfs_read_dir_eq:
  assumes "memfs_read_dir p m = (Inr es, m')"
  shows "set es = (\<lambda>q. Inr (q ! length p, Suc (length p) < length q)) ` {q \<in> fst ` set m. below p q}"
    and "distinct es" and "m' = m"
proof -
  have es: "es = remdups (map (\<lambda>q. Inr (q ! length p, Suc (length p) < length q))
      (filter (below p) (map fst m)))" and "m' = m"
    using assms by (auto simp: memfs_read_dir_def split: if_splits)
  show "m' = m" by fact
  show "set es = (\<lambda>q. Inr (q ! length p, Suc (length p) < length q)) ` {q \<in> fst ` set m. below p q}"
    unfolding es set_remdups set_map set_filter by (rule refl)
  show "distinct es" unfolding es by (rule distinct_remdups)
qed

lemma memfs_read_dir_entry:
  assumes "memfs_read_dir p m = (Inr es, m')" and "Inr (n, d) \<in> set es"
  shows "\<exists>rest. p @ n # rest \<in> fst ` set m \<and> (d \<longleftrightarrow> rest \<noteq> [])"
proof -
  from assms(2) obtain q where q: "q \<in> fst ` set m" "below p q" "n = q ! length p"
    "d \<longleftrightarrow> Suc (length p) < length q"
    unfolding memfs_read_dir_eq(1) [OF assms(1)] by blast
  then obtain n' rest where "q = p @ n' # rest" by (auto simp: below_iff)
  with q show ?thesis by (auto simp: nth_append)
qed

lemma memfs_read_dir_complete:
  assumes "memfs_read_dir p m = (Inr es, m')" and "map_of m (p @ n # rest) \<noteq> None"
  shows "Inr (n, rest \<noteq> []) \<in> set es"
proof -
  let ?q = "p @ n # rest"
  have "?q \<in> {q \<in> fst ` set m. below p q}"
    using assms(2) by (simp add: below_iff map_of_eq_None_iff)
  then have "(\<lambda>q. Inr (q ! length p, Suc (length p) < length q)) ?q \<in> set es"
    unfolding memfs_read_dir_eq(1) [OF assms(1)] by (rule imageI)
  then show ?thesis by (simp add: nth_append)
qed

lemma mem_is_dir_iff: "mem_is_dir m p \<longleftrightarrow> p \<in> memfs_dirs m"
proof -
  have "below p q \<longleftrightarrow> (\<exists>k < length q. p = take k q)" for q
    unfolding below_def by (metis length_take less_imp_le min.absorb2 nat_less_le)
  then show ?thesis by (fastforce simp: mem_is_dir_def memfs_dirs_def list_ex_iff)
qed

lemma memfs_dirs_insert: "memfs_dirs m \<subseteq> memfs_dirs (hm_insert p d m)"
proof -
  have "fst ` set m \<subseteq> fst ` set (hm_insert p d m)"
    unfolding dom_map_of_conv_image_fst [symmetric] by (auto split: if_splits)
  then show ?thesis unfolding memfs_dirs_def by (intro insert_mono UN_mono) auto
qed

lemma memory_os_sel:
  "os_metadata memory_os = memfs_metadata" "os_create_dir_all memory_os = (\<lambda>p m. (Inr (), m))"
  "os_create memory_os = memfs_create" "os_write memory_os = memfs_write"
  "os_sync memory_os = (\<lambda>p m. (Inr (), m))" "os_read memory_os = memfs_read"
  "os_rename memory_os = memfs_rename" "os_remove_file memory_os = memfs_remove_file"
  "os_remove_dir memory_os = (\<lambda>p m. (Inr (), m))" "os_read_dir memory_os = memfs_read_dir"
  "os_now memory_os = (\<lambda>m. (0, m))"
  by (simp_all add: memory_os_def)

interpretation mem_fs: fs_contract memory_os map_of memfs_dirs
proof (unfold_locales, unfold memory_os_sel)
  fix p q :: path and s s' :: mem_fs and n d d0 e u n' es rest r rd
  show "map_of s' = map_of s \<and> memfs_dirs s' = memfs_dirs s" if "memfs_metadata p s = (r, s')"
    using that by (auto simp: memfs_metadata_def split: option.splits)
  show "n = of_nat (length d)" if "memfs_metadata p s = (Inr n, s')" and "map_of s p = Some d"
    using that by (auto simp: memfs_metadata_def)
  show "map_of s p = None" if "memfs_metadata p s = (Inl e, s')"
    using that by (auto simp: memfs_metadata_def split: option.splits)
  show "map_of s p \<noteq> None \<or> p \<in> memfs_dirs s" if "memfs_metadata p s = (Inr n, s')"
    using that by (auto simp: memfs_metadata_def mem_is_dir_iff split: option.splits if_splits)
  show "memfs_dirs s \<subseteq> memfs_dirs s'" if "memfs_create p s = (r, s')" for r
    using that by (auto simp: memfs_create_def subsetD [OF memfs_dirs_insert] split: if_splits)
  show "memfs_dirs s \<subseteq> memfs_dirs s'" if "memfs_write p d s = (r, s')" for r
    using that by (auto simp: memfs_write_def subsetD [OF memfs_dirs_insert] split: option.splits)
  show "q \<notin> memfs_dirs s" if "memfs_rename p q s = (Inr u, s')"
    using that by (auto simp: memfs_rename_def mem_is_dir_iff split: option.splits if_splits)
  show "map_of s' = (map_of s)(p \<mapsto> [])" if "memfs_create p s = (Inr u, s')"
    using that by (auto simp: memfs_create_def split: if_splits)
  show "map_of s' = map_of s" if "memfs_create p s = (Inl e, s')"
    using that by (auto simp: memfs_create_def split: if_splits)
  show "map_of s' = (map_of s)(p \<mapsto> d0 @ d)" if "memfs_write p d s = (Inr u, s')" and "map_of s p = Some d0"
    using that by (auto simp: memfs_write_def)
  show "map_of s' q = map_of s q" if "memfs_write p d s = (r, s')" and "q \<noteq> p" for r
    using that by (auto simp: memfs_write_def split: option.splits)
  show "map_of s' = map_of s" if "memfs_read p s = (r, s')" for r
    using that by (auto simp: memfs_read_def split: option.splits)
  show "map_of s p = Some d" if "memfs_read p s = (Inr d, s')"
    using that by (auto simp: memfs_read_def split: option.splits)
  show "map_of s p = None" if "memfs_read p s = (Inl e, s')"
    using that by (auto simp: memfs_read_def split: option.splits)
  show "map_of s' = (map_of s)(p := None, q := map_of s p)" if "memfs_rename p q s = (Inr u, s')"
    using that by (auto simp: memfs_rename_def split: option.splits if_splits)
  show "map_of s' = map_of s" if "memfs_rename p q s = (Inl e, s')"
    using that by (auto simp: memfs_rename_def split: option.splits if_splits)
  show "map_of s' = (map_of s)(p := None) \<and> map_of s p \<noteq> None" if "memfs_remove_file p s = (Inr u, s')"
    using that by (auto simp: memfs_remove_file_def split: option.splits)
  show "map_of s' = map_of s" if "memfs_remove_file p s = (Inl e, s')"
    using that by (auto simp: memfs_remove_file_def split: option.splits)
  show "map_of s p = None" if "memfs_remove_file p s = (Inl e, s')"
    using that by (auto simp: memfs_remove_file_def split: option.splits)
  show "map_of s' = map_of s \<and> memfs_dirs s' = memfs_dirs s" if "memfs_read_dir p s = (rd, s')"
    using that by (auto simp: memfs_read_dir_def split: if_splits)
  show "map_of s (p @ [n']) \<noteq> None"
    if "memfs_read_dir p s = (Inr es, s')" and "Inr (n', False) \<in> set es"
    using memfs_read_dir_entry [OF that] by (simp add: map_of_eq_None_iff)
  show "p @ [n'] \<in> memfs_dirs s"
    if "memfs_read_dir p s = (Inr es, s')" and "Inr (n', True) \<in> set es"
  proof -
    from memfs_read_dir_entry [OF that] obtain rest
      where "p @ n' # rest \<in> fst ` set s" and "rest \<noteq> []" by blast
    moreover from this have "Suc (length p) \<in> {..< length (p @ n' # rest)}" by (cases rest) auto
    ultimately have "take (Suc (length p)) (p @ n' # rest) \<in> memfs_dirs s"
      unfolding memfs_dirs_def by (blast intro: imageI)
    then show ?thesis by simp
  qed
  show "distinct es" if "memfs_read_dir p s = (Inr es, s')"
    using that by (rule memfs_read_dir_eq)
  show "Inr (n', rest \<noteq> []) \<in> set es"
    if "memfs_read_dir p s = (Inr es, s')" and "map_of s (p @ n' # rest) \<noteq> None"
    using that by (rule memfs_read_dir_complete)
  show "finite (memfs_dirs s)" by (simp add: memfs_dirs_def)
  show "finite (dom (map_of s))" by (rule finite_dom_map_of)
qed simp_all

section \<open>Scans of the data directory\<close>

text \<open>The bytes of the files below a directory.\<close>

definition stored_below :: "(path \<rightharpoonup> bytes) \<Rightarrow> path \<Rightarrow> nat" where
  "stored_below m p = (\<Sum>q | q \<in> dom m \<and> below p q. length (the (m q)))"

definition reads_succeed ::
  "'s server_os \<Rightarrow> ('s \<Rightarrow> path \<rightharpoonup> bytes) \<Rightarrow> ('s \<Rightarrow> path set) \<Rightarrow> bool" where
  "reads_succeed os files dirs \<longleftrightarrow>
     (\<forall>p s. files s p \<noteq> None \<longrightarrow> \<not> isl (fst (os_metadata os p s))) \<and>
     (\<forall>p s. p = [] \<or> p \<in> dirs s \<longrightarrow>
        (\<exists>es. fst (os_read_dir os p s) = Inr es \<and> (\<forall>x \<in> set es. \<not> isl x)))"

fun entry_files :: "(path \<rightharpoonup> bytes) \<Rightarrow> path \<Rightarrow> io_error + string \<times> bool \<Rightarrow> path set" where
  "entry_files m p (Inl e) = {}"
| "entry_files m p (Inr (n, True)) = {q \<in> dom m. below (p @ [n]) q}"
| "entry_files m p (Inr (n, False)) = {p @ [n]}"

lemma below_Cons_iff: "below (p @ [n]) q \<longleftrightarrow> (\<exists>n' rest. q = p @ n # n' # rest)"
  by (simp add: below_iff)

lemma entry_files_disjoint: "e \<noteq> e' \<Longrightarrow> entry_files m p e \<inter> entry_files m p e' = {}"
  by (cases "(m, p, e)" rule: entry_files.cases; cases "(m, p, e')" rule: entry_files.cases)
    (auto simp: below_Cons_iff)

context fs_contract
begin

lemma walk_entries_returns:
  assumes "\<And>x acc s. \<lbrakk>Inr (x, True) \<in> set es; \<forall>q \<in> dirs s. length q < length p + Suc n; p @ [x] \<in> dirs s\<rbrakk> \<Longrightarrow>
      \<exists>acc' s'. walk os visit n (p @ [x]) acc s = Some (acc', s') \<and> dirs s' = dirs s"
    and "\<And>p acc s acc' s'. visit p acc s = (acc', s') \<Longrightarrow> dirs s' = dirs s"
    and "\<forall>q \<in> dirs s. length q < length p + Suc n"
    and "\<forall>x. Inr (x, True) \<in> set es \<longrightarrow> p @ [x] \<in> dirs s"
  shows "\<exists>acc' s'. walk_entries os visit n p es acc s = Some (acc', s') \<and> dirs s' = dirs s"
  using assms(1,3,4)
proof (induction es arbitrary: acc s)
  case Nil
  then show ?case by simp
next
  case (Cons e es)
  show ?case
  proof (cases e)
    case (Inl a)
    then show ?thesis using Cons.IH [OF Cons.prems(1)] Cons.prems(2,3) by simp
  next
    case (Inr b)
    obtain x d where e: "e = Inr (x, d)" using Inr by (cases b) simp
    have "\<exists>acc1 s1. (if d then walk os visit n (p @ [x]) acc s else Some (visit (p @ [x]) acc s))
        = Some (acc1, s1) \<and> dirs s1 = dirs s"
    proof (cases d)
      case True
      then show ?thesis using Cons.prems e by auto
    next
      case False
      then show ?thesis using assms(2) by (cases "visit (p @ [x]) acc s") auto
    qed
    then obtain acc1 s1 where 1: "(if d then walk os visit n (p @ [x]) acc s
        else Some (visit (p @ [x]) acc s)) = Some (acc1, s1)" "dirs s1 = dirs s" by blast
    have "\<exists>acc' s'. walk_entries os visit n p es acc1 s1 = Some (acc', s') \<and> dirs s' = dirs s1"
      using Cons.IH [OF Cons.prems(1), of s1 acc1] Cons.prems(2,3) 1(2) by simp
    then show ?thesis using 1 e by (cases d) auto
  qed
qed

lemma walk_returns:
  assumes "\<And>p acc s acc' s'. visit p acc s = (acc', s') \<Longrightarrow> dirs s' = dirs s"
    and "0 < n" and "\<forall>q \<in> dirs s. length q < length p + n"
  shows "\<exists>acc' s'. walk os visit n p acc s = Some (acc', s') \<and> dirs s' = dirs s"
  using assms(2,3)
proof (induction n arbitrary: p acc s)
  case (Suc n)
  obtain r s1 where rd: "os_read_dir os p s = (r, s1)" by fastforce
  have d: "dirs s1 = dirs s" using read_dir_frame [OF rd] by simp
  show ?case
  proof (cases r)
    case (Inl e)
    then show ?thesis using rd d by simp
  next
    case (Inr es)
    have "\<exists>acc' s'. walk_entries os visit n p es acc s1 = Some (acc', s') \<and> dirs s' = dirs s1"
    proof (rule walk_entries_returns [OF _ assms(1)])
      fix x acc and s2 :: 's
      assume "\<forall>q \<in> dirs s2. length q < length p + Suc n" and "p @ [x] \<in> dirs s2"
      then show "\<exists>acc' s'. walk os visit n (p @ [x]) acc s2 = Some (acc', s') \<and> dirs s' = dirs s2"
        using Suc.IH [of s2 "p @ [x]"] by (cases n) fastforce+
    next
      show "\<forall>q \<in> dirs s1. length q < length p + Suc n" using Suc.prems(2) d by simp
    next
      show "\<forall>x. Inr (x, True) \<in> set es \<longrightarrow> p @ [x] \<in> dirs s1"
        using read_dir_dir [OF rd [unfolded Inr]] d by blast
    qed
    then show ?thesis using rd Inr d by simp
  qed
qed simp

end

definition entry_size :: "(path \<rightharpoonup> bytes) \<Rightarrow> path \<Rightarrow> io_error + string \<times> bool \<Rightarrow> nat" where
  "entry_size m p e = (\<Sum>q \<in> entry_files m p e. length (the (m q)))"

lemma entry_size_simps [simp]:
  "entry_size m p (Inl e) = 0"
  "entry_size m p (Inr (n, True)) = stored_below m (p @ [n])"
  "entry_size m p (Inr (n, False)) = length (the (m (p @ [n])))"
  by (simp_all add: entry_size_def stored_below_def)

context fs_contract
begin

lemma stored_below_split:
  assumes "os_read_dir os p s = (Inr es, s')" and "\<forall>x \<in> set es. \<not> isl x"
  shows "stored_below (files s) p = (\<Sum>e \<in> set es. entry_size (files s) p e)"
proof -
  have "{q. q \<in> dom (files s) \<and> below p q} = (\<Union>e \<in> set es. entry_files (files s) p e)"
  proof (intro set_eqI iffI)
    fix q
    assume q: "q \<in> {q. q \<in> dom (files s) \<and> below p q}"
    then obtain n rest where qe: "q = p @ n # rest" by (auto simp: below_iff)
    have "files s (p @ n # rest) \<noteq> None" using q qe by auto
    then have "Inr (n, rest \<noteq> []) \<in> set es" by (rule read_dir_complete [OF assms])
    moreover have "q \<in> entry_files (files s) p (Inr (n, rest \<noteq> []))"
      using q qe by (cases rest) (auto simp: below_Cons_iff)
    ultimately show "q \<in> (\<Union>e \<in> set es. entry_files (files s) p e)" by blast
  next
    fix q
    assume "q \<in> (\<Union>e \<in> set es. entry_files (files s) p e)"
    then obtain e where e: "e \<in> set es" "q \<in> entry_files (files s) p e" by blast
    then show "q \<in> {q. q \<in> dom (files s) \<and> below p q}"
      using read_dir_file [OF assms(1)]
      by (cases "(files s, p, e)" rule: entry_files.cases) (auto simp: below_iff domIff)
  qed
  moreover have "finite (entry_files (files s) p e)" for e
    using finite_subset [OF _ files_finite [of s]]
    by (cases "(files s, p, e)" rule: entry_files.cases) auto
  ultimately show ?thesis
    by (simp add: stored_below_def entry_size_def sum.UNION_disjoint entry_files_disjoint)
qed

lemma visit_size_file:
  assumes "reads_succeed os files dirs" and "files s p \<noteq> None" and "visit_size os p acc s = (acc', s')"
  shows "acc' = acc + of_nat (length (the (files s p))) \<and> files s' = files s \<and> dirs s' = dirs s"
proof -
  obtain r s1 where m: "os_metadata os p s = (r, s1)" by fastforce
  obtain len where r: "r = Inr len" using assms(1,2) m by (cases r) (force simp: reads_succeed_def)+
  obtain d where d: "files s p = Some d" using assms(2) by blast
  show ?thesis
    using assms(3) m r metadata_frame [OF m] metadata_ok [OF m [unfolded r] d] d by (simp add: visit_size_def)
qed

lemma walk_entries_size:
  assumes "\<And>x acc s acc' s'. \<lbrakk>Inr (x, True) \<in> set es; p @ [x] \<in> dirs s;
      walk os (visit_size os) n (p @ [x]) acc s = Some (acc', s')\<rbrakk> \<Longrightarrow>
      acc' = acc + of_nat (stored_below (files s) (p @ [x])) \<and> files s' = files s \<and> dirs s' = dirs s"
    and "reads_succeed os files dirs" and "distinct es"
    and "\<forall>x. Inr (x, True) \<in> set es \<longrightarrow> p @ [x] \<in> dirs s"
    and "\<forall>x. Inr (x, False) \<in> set es \<longrightarrow> files s (p @ [x]) \<noteq> None"
    and "walk_entries os (visit_size os) n p es acc s = Some (acc', s')"
  shows "acc' = acc + of_nat (\<Sum>e \<in> set es. entry_size (files s) p e) \<and> files s' = files s \<and> dirs s' = dirs s"
  using assms(1,3-6)
proof (induction es arbitrary: acc s)
  case Nil
  then show ?case by simp
next
  case (Cons e es)
  have rest: "acc' = acc1 + of_nat (\<Sum>e \<in> set es. entry_size (files s1) p e) \<and> files s' = files s1 \<and> dirs s' = dirs s1"
    if "walk_entries os (visit_size os) n p es acc1 s1 = Some (acc', s')"
      and "files s1 = files s" and "dirs s1 = dirs s" for acc1 s1
  proof (rule Cons.IH)
    show "\<forall>x. Inr (x, True) \<in> set es \<longrightarrow> p @ [x] \<in> dirs s1" using Cons.prems(3) that(3) by simp
    show "\<forall>x. Inr (x, False) \<in> set es \<longrightarrow> files s1 (p @ [x]) \<noteq> None" using Cons.prems(4) that(2) by simp
    show "distinct es" using Cons.prems(2) by simp
  qed (use Cons.prems(1) [OF list.set_intros(2)] that(1) in blast)+
  have sum: "(\<Sum>e \<in> set (e # es). entry_size (files s) p e)
      = entry_size (files s) p e + (\<Sum>e \<in> set es. entry_size (files s) p e)"
    using Cons.prems(2) by simp
  show ?case
  proof (cases e)
    case (Inl a)
    then show ?thesis using rest [of acc s] Cons.prems(5) unfolding sum by simp
  next
    case (Inr b)
    obtain x d where e: "e = Inr (x, d)" using Inr by (cases b) simp
    obtain acc1 s1 where step: "walk_entries os (visit_size os) n p es acc1 s1 = Some (acc', s')"
      and eff: "acc1 = acc + of_nat (entry_size (files s) p e) \<and> files s1 = files s \<and> dirs s1 = dirs s"
    proof (cases d)
      case True
      obtain acc1 s1 where 1: "walk os (visit_size os) n (p @ [x]) acc s = Some (acc1, s1)"
        and 2: "walk_entries os (visit_size os) n p es acc1 s1 = Some (acc', s')"
        using Cons.prems(5) e True by (auto split: option.splits)
      have "acc1 = acc + of_nat (stored_below (files s) (p @ [x])) \<and> files s1 = files s \<and> dirs s1 = dirs s"
        using Cons.prems(3) e True by (intro Cons.prems(1) [OF _ _ 1]) simp_all
      then show ?thesis using e True by (intro that [OF 2]) simp
    next
      case False
      obtain acc1 s1 where 1: "visit_size os (p @ [x]) acc s = (acc1, s1)" by fastforce
      have 2: "walk_entries os (visit_size os) n p es acc1 s1 = Some (acc', s')"
        using Cons.prems(5) e False 1 by simp
      have "files s (p @ [x]) \<noteq> None" using Cons.prems(4) e False by simp
      from visit_size_file [OF assms(2) this 1] show ?thesis
        using e False by (intro that [OF 2]) simp
    qed
    then show ?thesis using rest [OF step] unfolding sum by (simp add: add.assoc)
  qed
qed

lemma walk_size:
  assumes "reads_succeed os files dirs" and "p = [] \<or> p \<in> dirs s"
    and "walk os (visit_size os) n p acc s = Some (acc', s')"
  shows "acc' = acc + of_nat (stored_below (files s) p) \<and> files s' = files s \<and> dirs s' = dirs s"
  using assms(2,3)
proof (induction n arbitrary: p acc s acc' s')
  case (Suc n)
  obtain r s1 where rd: "os_read_dir os p s = (r, s1)" by fastforce
  have "\<exists>es. fst (os_read_dir os p s) = Inr es \<and> (\<forall>x \<in> set es. \<not> isl x)"
    using assms(1) Suc.prems(1) unfolding reads_succeed_def by blast
  then obtain es where es: "r = Inr es" "\<forall>x \<in> set es. \<not> isl x" unfolding rd by auto
  note rd' = rd [unfolded es(1)] and fr = read_dir_frame [OF rd]
  have "acc' = acc + of_nat (\<Sum>e \<in> set es. entry_size (files s1) p e) \<and> files s' = files s1 \<and> dirs s' = dirs s1"
  proof (rule walk_entries_size [OF _ assms(1)])
    fix x acc s2 acc2 s3
    assume "p @ [x] \<in> dirs s2" and "walk os (visit_size os) n (p @ [x]) acc s2 = Some (acc2, s3)"
    then show "acc2 = acc + of_nat (stored_below (files s2) (p @ [x])) \<and> files s3 = files s2 \<and> dirs s3 = dirs s2"
      using Suc.IH by blast
  next
    show "distinct es" by (rule read_dir_distinct [OF rd'])
    show "\<forall>x. Inr (x, True) \<in> set es \<longrightarrow> p @ [x] \<in> dirs s1" using read_dir_dir [OF rd'] fr by simp
    show "\<forall>x. Inr (x, False) \<in> set es \<longrightarrow> files s1 (p @ [x]) \<noteq> None"
      using read_dir_file [OF rd'] fr by simp
    show "walk_entries os (visit_size os) n p es acc s1 = Some (acc', s')"
      using Suc.prems(2) rd' by simp
  qed
  then show ?case using stored_below_split [OF rd' es(2)] fr by simp
qed simp

lemma walk_entries_frame:
  assumes "\<And>p acc s acc' s'. visit p acc s = (acc', s') \<Longrightarrow> files s' = files s"
    and "\<And>x acc s acc' s'. walk os visit n (dir @ [x]) acc s = Some (acc', s') \<Longrightarrow> files s' = files s"
  shows "walk_entries os visit n dir es acc s = Some (acc', s') \<Longrightarrow> files s' = files s"
proof (induction es arbitrary: acc s)
  case (Cons e es)
  show ?case
  proof (cases e)
    case (Inl x)
    then show ?thesis using Cons by simp
  next
    case (Inr x)
    obtain name is_dir where x: "x = (name, is_dir)" by fastforce
    obtain acc1 s1 where "files s1 = files s" "walk_entries os visit n dir es acc1 s1 = Some (acc', s')"
      using Cons.prems assms unfolding Inr x
      by (cases is_dir) (auto split: prod.splits option.splits, metis+)
    then show ?thesis using Cons.IH by metis
  qed
qed simp

lemma walk_frame:
  assumes "\<And>p acc s acc' s'. visit p acc s = (acc', s') \<Longrightarrow> files s' = files s"
  shows "walk os visit n dir acc s = Some (acc', s') \<Longrightarrow> files s' = files s"
proof (induction n arbitrary: dir acc s acc' s')
  case (Suc n)
  obtain r s1 where rd: "os_read_dir os dir s = (r, s1)" by fastforce
  note fr = read_dir_frame [OF rd]
  show ?case
  proof (cases r)
    case (Inl e)
    then show ?thesis using Suc.prems rd fr by simp
  next
    case (Inr es)
    then have "walk_entries os visit n dir es acc s1 = Some (acc', s')" using Suc.prems rd by simp
    from walk_entries_frame [OF assms Suc.IH this] show ?thesis using fr by simp
  qed
qed simp

lemma dir_size_returns:
  assumes "\<forall>q \<in> dirs s. length q < n" and "0 < n"
  shows "\<exists>usage s'. dir_size os n [] s = Some (usage, s') \<and> files s' = files s \<and>
    (reads_succeed os files dirs \<longrightarrow> usage = of_nat (stored_below (files s) []))"
proof -
  have "\<exists>acc' s'. walk os (visit_size os) n [] 0 s = Some (acc', s') \<and> dirs s' = dirs s"
    using assms
    by (intro walk_returns) (auto simp: visit_size_def dest: metadata_frame split: prod.splits sum.splits)
  then obtain usage s' where w: "walk os (visit_size os) n [] 0 s = Some (usage, s')" by blast
  have "files s' = files s"
    by (rule walk_frame [OF _ w]) (auto simp: visit_size_def dest: metadata_frame split: prod.splits sum.splits)
  with walk_size [OF _ _ w] w show ?thesis by (auto simp: dir_size_def)
qed

lemma unexpected_entries_frame:
  "unexpected_entries os s = (bad, s') \<Longrightarrow> files s' = files s \<and> dirs s' = dirs s"
  by (auto simp: unexpected_entries_def dest: read_dir_frame split: prod.splits sum.splits)

end

section \<open>Start-up\<close>

text \<open>C37: Start-up ends: on a data directory with no foreign entries the scan of the directory tree
  returns once the depth allowed to it exceeds that of the tree, whatever reads fail, the server
  starts without having changed a file, and when no read fails the usage it starts from is exactly
  the number of bytes stored.\<close>

theorem start_up_returns:
  assumes "fs_contract os files dirs" and "fst (unexpected_entries os s) = []"
    and "\<forall>q \<in> dirs s. length q < depth" and "0 < depth"
  shows "\<exists>st s'. app_state_new os depth append_only token explicit_quota s = Some (Started st, s') \<and>
    files s' = files s \<and> as_append_only st = append_only \<and> as_last_backup_at st = None \<and>
    (reads_succeed os files dirs \<longrightarrow> as_quota_usage st = of_nat (stored_below (files s) []))"
proof -
  obtain s1 where u: "unexpected_entries os s = ([], s1)" using assms(2) by (cases "unexpected_entries os s") auto
  have fr: "files s1 = files s" "dirs s1 = dirs s"
    using fs_contract.unexpected_entries_frame [OF assms(1) u] by simp_all
  then obtain usage s2 where "dir_size os depth [] s1 = Some (usage, s2)" "files s2 = files s"
    "reads_succeed os files dirs \<longrightarrow> usage = of_nat (stored_below (files s) [])"
    using fs_contract.dir_size_returns [OF assms(1), of s1 depth] assms(3,4) by auto
  then show ?thesis
    using u by (auto simp: app_state_new_def Let_def split: prod.splits)
qed

lemma memory_reads_succeed: "reads_succeed memory_os map_of memfs_dirs"
proof -
  have "mem_is_dir m p" if d: "p \<in> memfs_dirs m" for m p
  proof (cases "p = []")
    case False
    then obtain q k where "q \<in> fst ` set m" "k < length q" "p = take k q"
      using d by (auto simp: memfs_dirs_def)
    then have "below p q" by (simp add: below_def)
    with \<open>q \<in> fst ` set m\<close> show ?thesis by (auto simp: mem_is_dir_def list_ex_iff)
  qed (simp add: mem_is_dir_def)
  then show ?thesis
    by (auto simp: reads_succeed_def memory_os_def memfs_metadata_def memfs_read_dir_def mem_is_dir_def split: option.splits)
qed

definition wit_data_dir :: mem_fs where
  "wit_data_dir = [([''config''], [1, 2]), ([''packs'', ''00'', ''x''], [3])]"

theorem start_up_returns_witness:
  "\<exists>st s'. app_state_new memory_os 3 True ''secret'' None wit_data_dir = Some (Started st, s') \<and>
     map_of s' = map_of wit_data_dir \<and> as_quota_usage st = of_nat (stored_below (map_of wit_data_dir) [])"
proof -
  have "fst (unexpected_entries memory_os wit_data_dir) = []" by code_simp
  moreover have "\<forall>q \<in> memfs_dirs wit_data_dir. length q < 3"
    by (auto simp: memfs_dirs_def wit_data_dir_def)
  ultimately show ?thesis
    using start_up_returns [OF mem_fs.fs_contract_axioms, of wit_data_dir 3 True "''secret''" None]
      memory_reads_succeed by auto
qed

end
