(* ===== verification/Server_Objects.thy ===== *)
theory Server_Objects
  imports Server_State "HOL-Library.Code_Target_Nat"
begin

text \<open>
  The object handlers of the server (\<open>vykar-server/src/handlers/objects.rs\<close>): reading whole
  objects and ranges, listing, streaming uploads with quota, checksum and append-only checks, and
  deletion.  A request body is the list of pieces the connection delivers, each a read error or
  bytes; an empty piece is the end of the body.
\<close>

section \<open>Requests and responses\<close>

record put_headers =
  hd_content_length :: "string option"
  hd_blake2b :: "string option"

datatype resp_body =
    EmptyBody
  | TextBody string
  | FileBody bytes
  | KeysBody "string list"
  | RepackBody repack_result_response
  | VerifyBody verify_packs_response
  | StructureBody "string list" u64 u64 nat
  | StatsBody u64 u64 u64 "int option" u64 u64 quota_source

record response =
  rs_status :: nat
  rs_headers :: "(string \<times> string) list"
  rs_body :: resp_body

definition status_response :: "nat \<Rightarrow> response" where
  "status_response code = \<lparr>rs_status = code, rs_headers = [], rs_body = EmptyBody\<rparr>"

text \<open>\<open>str::parse::<u64>\<close>: an optional plus sign and decimal digits, refused on overflow.\<close>

definition decimal_value :: "string \<Rightarrow> nat" where
  "decimal_value ds = foldl (\<lambda>a c. 10 * a + ((of_char c :: nat) - 48)) 0 ds"

definition parse_u64 :: "string \<Rightarrow> u64 option" where
  "parse_u64 s =
     (let ds = (case s of [] \<Rightarrow> [] | c # cs \<Rightarrow> if c = CHR ''+'' then cs else s) in
      if ds = [] \<or> \<not> list_all is_ascii_digit ds then None
      else if decimal_value ds < 2 ^ 64 then Some (of_nat (decimal_value ds)) else None)"

definition content_length_of :: "put_headers \<Rightarrow> u64 option" where
  "content_length_of h = Option.bind (hd_content_length h) parse_u64"

section \<open>Effects of the handlers\<close>

definition on_os :: "server_lib \<Rightarrow> ('s, io_error, 'a) io \<Rightarrow> ('s, 'a) srv_io" where
  "on_os lib m = (\<lambda>(s, st).
     case m s of
       (Inl e, s') \<Rightarrow> (Inl (server_error_from_io lib e), (s', st))
     | (Inr a, s') \<Rightarrow> (Inr a, (s', st)))"

definition try_os :: "('s, io_error, 'a) io \<Rightarrow> ('s, io_error + 'a) srv_io" where
  "try_os m = (\<lambda>(s, st). case m s of (r, s') \<Rightarrow> (Inr r, (s', st)))"

definition get_app :: "('s, app_state) srv_io" where
  "get_app = (\<lambda>(s, st). (Inr st, (s, st)))"

definition modify_app :: "(app_state \<Rightarrow> app_state) \<Rightarrow> ('s, unit) srv_io" where
  "modify_app f = (\<lambda>(s, st). (Inr (), (s, f st)))"

definition require_path :: "'s server_os \<Rightarrow> string \<Rightarrow> ('s, path) srv_io" where
  "require_path os key = (\<lambda>(s, st).
     (ok_or (file_path os s key) (BadRequest ''invalid path''), (s, st)))"

section \<open>Reading\<close>

text \<open>
  Opening the file, its length and the streamed body are one read here: an error that the operating
  system reports while the body is being sent, after the status line, appears as an error response.
\<close>

definition stream_full_read :: "server_lib \<Rightarrow> 's server_os \<Rightarrow> path \<Rightarrow> string \<Rightarrow> ('s, response) srv_io" where
  "stream_full_read lib os p key =
     io_bind (try_os (os_read os p)) (\<lambda>r.
       case r of
         Inl e \<Rightarrow> io_fail (if io_kind e = NotFound then NotFoundError key else server_error_from_io lib e)
       | Inr d \<Rightarrow> io_return \<lparr>rs_status = 200,
                    rs_headers = [(''Content-Length'', show_nat (length d))], rs_body = FileBody d\<rparr>)"

text \<open>The start and the length of a \<open>bytes=start-end\<close> header.\<close>

definition parse_range :: "string \<Rightarrow> server_error + u64 \<times> u64" where
  "parse_range range_header =
     (case strip_prefix_str range_header ''bytes='' of
        None \<Rightarrow> Inl (BadRequest ''invalid Range header'')
      | Some range_str \<Rightarrow>
          (case split_on (CHR ''-'') range_str of
             [a, b] \<Rightarrow>
               (case parse_u64 a of
                  None \<Rightarrow> Inl (BadRequest ''invalid range start'')
                | Some start \<Rightarrow>
                    (case parse_u64 b of
                       None \<Rightarrow> Inl (BadRequest ''invalid range end'')
                     | Some end' \<Rightarrow>
                         if end' < start then Inl (BadRequest ''invalid Range header: end before start'')
                         else (case checked_add_u64 (end' - start) 1 of
                                 None \<Rightarrow> Inl (BadRequest ''invalid Range header'')
                               | Some len \<Rightarrow> Inr (start, len))))
           | _ \<Rightarrow> Inl (BadRequest ''invalid Range header'')))"

definition handle_range_read ::
  "server_lib \<Rightarrow> 's server_os \<Rightarrow> path \<Rightarrow> string \<Rightarrow> string \<Rightarrow> ('s, response) srv_io" where
  "handle_range_read lib os p range_header key =
     (case parse_range range_header of
        Inl e \<Rightarrow> io_fail e
      | Inr (start, len) \<Rightarrow>
          io_bind (try_os (os_read os p)) (\<lambda>r.
            case r of
              Inl e \<Rightarrow> io_fail (if io_kind e = NotFound then NotFoundError key else server_error_from_io lib e)
            | Inr d \<Rightarrow>
                let file_len = of_nat (length d) :: u64 in
                if file_len \<le> start then io_fail (Internal ''range start beyond file size'')
                else let to_read = min len (file_len - start);
                         actual_end = start + to_read - 1
                     in io_return \<lparr>rs_status = 206,
                          rs_headers = [(''Content-Range'', ''bytes '' @ show_nat (unat start) @ ''-''
                              @ show_nat (unat actual_end) @ ''/'' @ show_nat (unat file_len)),
                            (''Content-Length'', show_nat (unat to_read))],
                          rs_body = FileBody (take (unat to_read) (drop (unat start) d))\<rparr>))"

fun join_path :: "path \<Rightarrow> string" where
  "join_path [] = []"
| "join_path [n] = n"
| "join_path (n # ns) = n @ ''/'' @ join_path ns"

definition listed_key :: "string \<Rightarrow> path \<Rightarrow> string" where
  "listed_key pre rel =
     (if pre = [] then join_path rel else trim_end_char (CHR ''/'') pre @ ''/'' @ join_path rel)"

definition list_files_recursive ::
  "'s server_os \<Rightarrow> nat \<Rightarrow> path \<Rightarrow> string \<Rightarrow> 's \<Rightarrow> (string list \<times> 's) option" where
  "list_files_recursive os depth dir pre s =
     walk os (\<lambda>p keys s. (keys @ [listed_key pre (drop (length dir) p)], s)) depth dir [] s"

text \<open>\<open>None\<close>: the scan has not returned within the depth.\<close>

definition list_keys ::
  "'s server_os \<Rightarrow> nat \<Rightarrow> string \<Rightarrow> ('s, response option) srv_io" where
  "list_keys os depth pre =
     io_bind (require_path os pre) (\<lambda>dir (s, st).
       case list_files_recursive os depth dir pre s of
         None \<Rightarrow> (Inr None, (s, st))
       | Some (keys, s') \<Rightarrow>
           (Inr (Some \<lparr>rs_status = 200, rs_headers = [], rs_body = KeysBody keys\<rparr>), (s', st)))"

definition get_or_list ::
  "server_lib \<Rightarrow> 's server_os \<Rightarrow> nat \<Rightarrow> string \<Rightarrow> bool \<Rightarrow> string option \<Rightarrow> ('s, response option) srv_io" where
  "get_or_list lib os depth key listing range_hdr =
     (if listing then list_keys os depth key
      else io_bind (require_path os key) (\<lambda>p.
             io_bind (case range_hdr of
                        Some h \<Rightarrow> handle_range_read lib os p h key
                      | None \<Rightarrow> stream_full_read lib os p key) (\<lambda>resp. io_return (Some resp))))"

definition head_object :: "server_lib \<Rightarrow> 's server_os \<Rightarrow> string \<Rightarrow> ('s, response) srv_io" where
  "head_object lib os key =
     io_bind (require_path os key) (\<lambda>p.
       io_bind (try_os (os_metadata os p)) (\<lambda>r.
         case r of
           Inl e \<Rightarrow> if io_kind e = NotFound then io_return (status_response 404)
                    else io_fail (server_error_from_io lib e)
         | Inr len \<Rightarrow> io_return \<lparr>rs_status = 200,
                        rs_headers = [(''Content-Length'', show_nat (unat len))], rs_body = EmptyBody\<rparr>))"

section \<open>Writing\<close>

definition is_mutable_key :: "string \<Rightarrow> bool" where
  "is_mutable_key key \<longleftrightarrow> key = ''index'' \<or> key = ''index.gen'' \<or> key = ''manifest''
     \<or> starts_with key ''locks/'' \<or> starts_with key ''sessions/''"

definition existing_meta :: "server_lib \<Rightarrow> 's server_os \<Rightarrow> path \<Rightarrow> ('s, u64 option) srv_io" where
  "existing_meta lib os p =
     io_bind (try_os (os_metadata os p)) (\<lambda>r.
       case r of
         Inr len \<Rightarrow> io_return (Some len)
       | Inl e \<Rightarrow> if io_kind e = NotFound then io_return None else io_fail (server_error_from_io lib e))"

definition over_quota :: "u64 \<Rightarrow> u64 \<Rightarrow> u64 \<Rightarrow> u64 \<Rightarrow> bool" where
  "over_quota quota used old_size n \<longleftrightarrow> sat_sub_u64 used old_size + n > quota"

definition quota_precheck :: "put_headers \<Rightarrow> u64 \<Rightarrow> u64 \<Rightarrow> ('s, unit) srv_io" where
  "quota_precheck h quota old_size =
     io_bind get_app (\<lambda>st.
       case content_length_of h of
         Some n \<Rightarrow> if quota > 0 \<and> over_quota quota (as_quota_usage st) old_size n
                   then io_fail (PayloadTooLarge (''quota exceeded: used '' @ show_nat (unat (as_quota_usage st))
                     @ '', limit '' @ show_nat (unat quota) @ '', request '' @ show_nat (unat n)))
                   else io_return ()
       | None \<Rightarrow> io_return ())"

definition expected_checksum :: "string \<Rightarrow> put_headers \<Rightarrow> server_error + string option" where
  "expected_checksum key h =
     (case hd_blake2b h of
        Some hex \<Rightarrow> if length hex \<noteq> 64 \<or> \<not> list_all is_ascii_hexdigit hex
                   then Inl (BadRequest ''X-Content-BLAKE2b must be 64 hex characters'')
                   else Inr (Some (map to_ascii_lowercase hex))
      | None \<Rightarrow> if starts_with key ''packs/''
                then Inl (BadRequest ''X-Content-BLAKE2b header required for pack uploads'')
                else Inr None)"

text \<open>The read loop; the last argument is what the hasher was fed.\<close>

fun stream_body ::
  "server_lib \<Rightarrow> 's server_os \<Rightarrow> path \<Rightarrow> u64 \<Rightarrow> u64 \<Rightarrow> (io_error + bytes) list \<Rightarrow> u64 \<Rightarrow> bytes \<Rightarrow>
   ('s, u64 \<times> bytes) srv_io" where
  "stream_body lib os temp quota old_size [] data_len hashed = io_return (data_len, hashed)"
| "stream_body lib os temp quota old_size (Inl e # cs) data_len hashed = io_fail (server_error_from_io lib e)"
| "stream_body lib os temp quota old_size (Inr c # cs) data_len hashed =
     (if c = [] then io_return (data_len, hashed)
      else let data_len' = data_len + of_nat (length c) in
        io_bind get_app (\<lambda>st.
          if quota > 0 \<and> over_quota quota (as_quota_usage st) old_size data_len'
          then io_fail (PayloadTooLarge (''quota exceeded during upload: used ''
                 @ show_nat (unat (as_quota_usage st)) @ '', limit '' @ show_nat (unat quota)
                 @ '', written '' @ show_nat (unat data_len')))
          else io_bind (on_os lib (os_write os temp c)) (\<lambda>_.
                 stream_body lib os temp quota old_size cs data_len' (hashed @ c))))"

definition write_temp ::
  "server_lib \<Rightarrow> 's server_os \<Rightarrow> path \<Rightarrow> u64 \<Rightarrow> u64 \<Rightarrow> (io_error + bytes) list \<Rightarrow> ('s, u64 \<times> bytes) srv_io" where
  "write_temp lib os temp quota old_size body =
     io_bind (stream_body lib os temp quota old_size body 0 []) (\<lambda>r.
       io_bind (on_os lib (os_sync os temp)) (\<lambda>_. io_return r))"

text \<open>A step after which, when it fails, the temporary file is removed.\<close>

definition or_remove :: "'s server_os \<Rightarrow> path \<Rightarrow> ('s, 'a) srv_io \<Rightarrow> ('s, 'a) srv_io" where
  "or_remove os temp m =
     io_bind (io_try m) (\<lambda>r.
       case r of
         Inl e \<Rightarrow> io_bind (try_os (os_remove_file os temp)) (\<lambda>_. io_fail e)
       | Inr a \<Rightarrow> io_return a)"

definition check_length :: "put_headers \<Rightarrow> u64 \<Rightarrow> ('s, unit) srv_io" where
  "check_length h data_len =
     (case content_length_of h of
        Some n \<Rightarrow> if data_len \<noteq> n
                  then io_fail (BadRequest (''upload size mismatch: Content-Length '' @ show_nat (unat n)
                         @ '', received '' @ show_nat (unat data_len)))
                  else io_return ()
      | None \<Rightarrow> io_return ())"

definition check_checksum :: "server_lib \<Rightarrow> string option \<Rightarrow> bytes \<Rightarrow> ('s, unit) srv_io" where
  "check_checksum lib expected hashed =
     (case expected of
        None \<Rightarrow> io_return ()
      | Some ex \<Rightarrow>
          let actual_hex = hex_encode (sl_hex lib) (blake2b_256 (sl_b2 lib) hashed) in
          if actual_hex \<noteq> ex
          then io_fail (Conflict (''BLAKE2b checksum mismatch: expected '' @ ex @ '', got '' @ actual_hex))
          else io_return ())"

definition next_temp :: "server_lib \<Rightarrow> path \<Rightarrow> ('s, path) srv_io" where
  "next_temp lib p = (\<lambda>(s, st).
     (Inr (with_file_name p (''.tmp.'' @ file_name_of lib p @ ''.'' @ show_nat (unat (as_temp_counter st)))),
      (s, st\<lparr>as_temp_counter := as_temp_counter st + 1\<rparr>)))"

definition settle_quota :: "u64 \<Rightarrow> u64 \<Rightarrow> app_state \<Rightarrow> app_state" where
  "settle_quota old_size data_len =
     (if data_len > old_size then add_quota_usage (data_len - old_size)
      else sub_quota_usage (old_size - data_len))"

definition upload_to ::
  "server_lib \<Rightarrow> 's server_os \<Rightarrow> path \<Rightarrow> path \<Rightarrow> put_headers \<Rightarrow> (io_error + bytes) list \<Rightarrow> string option \<Rightarrow>
   u64 \<Rightarrow> u64 \<Rightarrow> ('s, u64) srv_io" where
  "upload_to lib os temp p h body expected quota old_size =
     io_bind (on_os lib (os_create os temp)) (\<lambda>_.
     io_bind (or_remove os temp (write_temp lib os temp quota old_size body)) (\<lambda>(data_len, hashed).
     io_bind (or_remove os temp (check_length h data_len)) (\<lambda>_.
     io_bind (or_remove os temp (check_checksum lib expected hashed)) (\<lambda>_.
     io_bind (or_remove os temp (on_os lib (os_rename os temp p))) (\<lambda>_.
       io_return data_len)))))"

definition upload_body ::
  "server_lib \<Rightarrow> 's server_os \<Rightarrow> path \<Rightarrow> put_headers \<Rightarrow> (io_error + bytes) list \<Rightarrow> string option \<Rightarrow>
   u64 \<Rightarrow> u64 \<Rightarrow> ('s, u64) srv_io" where
  "upload_body lib os p h body expected quota old_size =
     io_bind (if p = [] then io_return () else on_os lib (os_create_dir_all os (butlast p))) (\<lambda>_.
     io_bind (next_temp lib p) (\<lambda>temp. upload_to lib os temp p h body expected quota old_size))"

definition store_body ::
  "server_lib \<Rightarrow> 's server_os \<Rightarrow> string \<Rightarrow> path \<Rightarrow> put_headers \<Rightarrow> (io_error + bytes) list \<Rightarrow> u64 \<Rightarrow> u64 \<Rightarrow>
   ('s, response) srv_io" where
  "store_body lib os key p h body quota old_size =
     io_bind (quota_precheck h quota old_size) (\<lambda>_.
     case expected_checksum key h of
       Inl e \<Rightarrow> io_fail e
     | Inr expected \<Rightarrow>
         io_bind (upload_body lib os p h body expected quota old_size) (\<lambda>data_len.
         io_bind (modify_app (settle_quota old_size data_len)) (\<lambda>_.
         io_bind (if starts_with key ''snapshots/'' \<and> old_size = 0 \<or> key = ''manifest''
                  then record_backup os else io_return ()) (\<lambda>_.
           io_return (status_response (if old_size > 0 then 204 else 201))))))"

definition put_object ::
  "server_lib \<Rightarrow> 's server_os \<Rightarrow> string \<Rightarrow> put_headers \<Rightarrow> (io_error + bytes) list \<Rightarrow> ('s, response) srv_io" where
  "put_object lib os key h body =
     io_bind (require_path os key) (\<lambda>p.
     io_bind (existing_meta lib os p) (\<lambda>meta.
     io_bind get_app (\<lambda>st.
       if as_append_only st \<and> meta \<noteq> None \<and> \<not> is_mutable_key key
       then io_fail (Forbidden ''append-only: cannot overwrite immutable object'')
       else store_body lib os key p h body (quota_limit st) (case meta of None \<Rightarrow> 0 | Some n \<Rightarrow> n))))"

definition delete_path :: "server_lib \<Rightarrow> 's server_os \<Rightarrow> path \<Rightarrow> ('s, response) srv_io" where
  "delete_path lib os p =
     io_bind (existing_meta lib os p) (\<lambda>meta.
     case meta of
       None \<Rightarrow> io_return (status_response 404)
     | Some old_size \<Rightarrow>
         io_bind (try_os (os_remove_file os p)) (\<lambda>r.
           case r of
             Inr _ \<Rightarrow> io_bind (modify_app (sub_quota_usage old_size)) (\<lambda>_. io_return (status_response 204))
           | Inl e \<Rightarrow> if io_kind e = NotFound then io_return (status_response 404)
                      else io_fail (server_error_from_io lib e)))"

definition delete_object :: "server_lib \<Rightarrow> 's server_os \<Rightarrow> string \<Rightarrow> ('s, response) srv_io" where
  "delete_object lib os key =
     io_bind get_app (\<lambda>st.
       if as_append_only st \<and> \<not> starts_with key ''locks/'' \<and> \<not> starts_with key ''sessions/''
       then io_fail (Forbidden ''append-only: delete not allowed'')
       else io_bind (require_path os key) (delete_path lib os))"

definition post_object :: "server_lib \<Rightarrow> 's server_os \<Rightarrow> string \<Rightarrow> bool \<Rightarrow> ('s, response) srv_io" where
  "post_object lib os key mkdir =
     (if mkdir
      then io_bind (require_path os key) (\<lambda>p.
             io_bind (on_os lib (os_create_dir_all os p)) (\<lambda>_. io_return (status_response 201)))
      else io_return (status_response 400))"

section \<open>Lemmas\<close>

named_theorems srv_simps \<open>steps of the handlers on a state\<close>

lemma on_os_Inr_iff [srv_simps]:
  "on_os lib m (s, st) = (Inr a, (s', st')) \<longleftrightarrow> st' = st \<and> m s = (Inr a, s')"
  by (auto simp: on_os_def split: prod.splits sum.splits)

lemma on_os_Inl_iff [srv_simps]:
  "on_os lib m (s, st) = (Inl e, (s', st')) \<longleftrightarrow>
     st' = st \<and> (\<exists>e'. m s = (Inl e', s') \<and> e = server_error_from_io lib e')"
  by (auto simp: on_os_def split: prod.splits sum.splits)

lemma on_os_iff:
  "on_os lib m (s, st) = (r, (s', st')) \<longleftrightarrow> st' = st \<and>
     (\<exists>r'. m s = (r', s') \<and> r = (case r' of Inl e \<Rightarrow> Inl (server_error_from_io lib e) | Inr a \<Rightarrow> Inr a))"
  by (auto simp: on_os_def split: prod.splits sum.splits)

lemma try_os_iff [srv_simps]:
  "try_os m (s, st) = (r, (s', st')) \<longleftrightarrow> st' = st \<and> (\<exists>r'. m s = (r', s') \<and> r = Inr r')"
  by (auto simp: try_os_def split: prod.splits)

lemma get_app_iff [srv_simps]: "get_app (s, st) = (r, (s', st')) \<longleftrightarrow> s' = s \<and> st' = st \<and> r = Inr st"
  by (auto simp: get_app_def)

lemma modify_app_iff [srv_simps]:
  "modify_app f (s, st) = (r, (s', st')) \<longleftrightarrow> s' = s \<and> st' = f st \<and> r = Inr ()"
  by (auto simp: modify_app_def)

lemma require_path_iff [srv_simps]:
  "require_path os key (s, st) = (r, (s', st')) \<longleftrightarrow>
     s' = s \<and> st' = st \<and> r = ok_or (file_path os s key) (BadRequest ''invalid path'')"
  by (auto simp: require_path_def)

lemma srv_bind_simps [simp]:
  "io_bind get_app f (s, st) = f st (s, st)"
  "io_bind (modify_app g) f' (s, st) = f' () (s, g st)"
  "io_bind (require_path os key) f'' (s, st) =
     (case file_path os s key of None \<Rightarrow> (Inl (BadRequest ''invalid path''), (s, st)) | Some p \<Rightarrow> f'' p (s, st))"
  by (simp_all add: io_bind_def get_app_def modify_app_def require_path_def split: option.splits)

lemma srv_bind_cases:
  assumes "io_bind m f (s, st) = (r, (s'', st''))"
  obtains (fail) e where "m (s, st) = (Inl e, (s'', st''))" and "r = Inl e"
  | (ok) a s' st' where "m (s, st) = (Inr a, (s', st'))" and "f a (s', st') = (r, (s'', st''))"
  using assms by (auto elim!: io_bind_cases)

text \<open>The bytes of a request body that arrives without a read error.\<close>

fun body_bytes :: "(io_error + bytes) list \<Rightarrow> bytes option" where
  "body_bytes [] = Some []"
| "body_bytes (Inl e # cs) = None"
| "body_bytes (Inr c # cs) = (if c = [] then Some [] else map_option (\<lambda>d. c @ d) (body_bytes cs))"

definition temp_path :: "server_lib \<Rightarrow> path \<Rightarrow> app_state \<Rightarrow> path" where
  "temp_path lib p st =
     with_file_name p (''.tmp.'' @ file_name_of lib p @ ''.'' @ show_nat (unat (as_temp_counter st)))"

text \<open>The names of the temporary files of uploads and repacks.\<close>

definition temp_named :: "path \<Rightarrow> bool" where
  "temp_named p \<longleftrightarrow> p \<noteq> [] \<and> (starts_with (last p) ''.tmp.'' \<or> starts_with (last p) ''.repack_tmp.'')"

lemma last_temp_path: "last (temp_path lib p st) = ''.tmp.'' @ file_name_of lib p @ ''.'' @ show_nat (unat (as_temp_counter st))"
  and temp_path_not_Nil: "temp_path lib p st \<noteq> []"
  by (simp_all add: temp_path_def with_file_name_def)

lemma temp_named_temp_path [simp]: "temp_named (temp_path lib p st)"
  unfolding temp_named_def last_temp_path using temp_path_not_Nil starts_with_append by blast

lemma temp_path_neq [simp]: "temp_path lib p st \<noteq> p"
proof
  assume eq: "temp_path lib p st = p"
  then have "p \<noteq> []" using temp_path_not_Nil by metis
  then have "last p = ''.tmp.'' @ last p @ ''.'' @ show_nat (unat (as_temp_counter st))"
    using last_temp_path [of lib p st] eq by (simp add: file_name_of_def)
  then have "length (last p) = length (''.tmp.'' @ last p @ ''.'' @ show_nat (unat (as_temp_counter st)))"
    by simp
  then show False by simp
qed

context fs_contract
begin

lemma stream_body_run:
  assumes "stream_body lib os temp quota old cs n h (s, st) = (r, (s', st'))" and "files s temp = Some t0"
  shows "st' = st \<and> (\<forall>q. q \<noteq> temp \<longrightarrow> files s' q = files s q) \<and>
    (\<forall>n' h'. r = Inr (n', h') \<longrightarrow> (\<exists>d. body_bytes cs = Some d \<and> n' = n + of_nat (length d) \<and> h' = h @ d \<and>
       files s' temp = Some (t0 @ d) \<and>
       (quota > 0 \<and> d \<noteq> [] \<longrightarrow> \<not> over_quota quota (as_quota_usage st) old n')))"
  using assms
proof (induction cs arbitrary: n h s t0)
  case Nil
  then show ?case by (auto simp: io_return_def)
next
  case (Cons c cs)
  show ?case
  proof (cases c)
    case (Inl e)
    then show ?thesis using Cons.prems by (auto simp: io_fail_def)
  next
    case (Inr b)
    let ?n = "n + of_nat (length b) :: u64"
    consider (eof) "b = []" | (quota) "b \<noteq> []" "quota > 0 \<and> over_quota quota (as_quota_usage st) old ?n"
      | (fail) e s1 where "b \<noteq> []" "os_write os temp b s = (Inl e, s1)" "isl r" "s' = s1" "st' = st"
      | (next_piece) s1 where "b \<noteq> []" "\<not> (quota > 0 \<and> over_quota quota (as_quota_usage st) old ?n)"
          "os_write os temp b s = (Inr (), s1)"
          "stream_body lib os temp quota old cs ?n (h @ b) (s1, st) = (r, (s', st'))"
      using Cons.prems(1) Inr
      by (auto simp: Let_def io_bind_def get_app_def on_os_def io_fail_def
          split: if_splits prod.splits sum.splits)
    then show ?thesis
    proof cases
      case eof
      then show ?thesis using Cons.prems Inr by (auto simp: io_return_def)
    next
      case quota
      then show ?thesis using Cons.prems Inr
        by (auto simp: Let_def io_bind_def get_app_def io_fail_def split: if_splits)
    next
      case fail
      then show ?thesis using write_frame [OF fail(2)] Cons.prems(2) by (cases r) auto
    next
      case next_piece
      have f1: "files s1 = (files s)(temp \<mapsto> t0 @ b)" by (rule write_ok [OF next_piece(3) Cons.prems(2)])
      have ih: "st' = st \<and> (\<forall>q. q \<noteq> temp \<longrightarrow> files s' q = files s1 q) \<and>
        (\<forall>n' h'. r = Inr (n', h') \<longrightarrow> (\<exists>d. body_bytes cs = Some d \<and> n' = ?n + of_nat (length d) \<and>
           h' = (h @ b) @ d \<and> files s' temp = Some ((t0 @ b) @ d) \<and>
           (quota > 0 \<and> d \<noteq> [] \<longrightarrow> \<not> over_quota quota (as_quota_usage st) old n')))"
        by (rule Cons.IH [OF next_piece(4)]) (simp add: f1)
      show ?thesis
      proof (intro conjI allI impI)
        show "st' = st" using ih by simp
        show "files s' q = files s q" if "q \<noteq> temp" for q using ih f1 that by simp
        fix n' h'
        assume "r = Inr (n', h')"
        with ih obtain d where d: "body_bytes cs = Some d" "n' = ?n + of_nat (length d)" "h' = (h @ b) @ d"
          "files s' temp = Some ((t0 @ b) @ d)"
          "quota > 0 \<and> d \<noteq> [] \<longrightarrow> \<not> over_quota quota (as_quota_usage st) old n'" by blast
        show "\<exists>d. body_bytes (c # cs) = Some d \<and> n' = n + of_nat (length d) \<and> h' = h @ d \<and>
          files s' temp = Some (t0 @ d) \<and>
          (quota > 0 \<and> d \<noteq> [] \<longrightarrow> \<not> over_quota quota (as_quota_usage st) old n')"
          using d next_piece(1,2) Inr by (intro exI [of _ "b @ d"]) (cases "d = []"; auto simp: add.assoc)
      qed
    qed
  qed
qed

end

text \<open>Failing runs that move the state only along a relation.\<close>

definition fail_rel :: "('s \<Rightarrow> 's \<Rightarrow> bool) \<Rightarrow> ('s, 'e, 'a) io \<Rightarrow> bool" where
  "fail_rel R m \<longleftrightarrow> (\<forall>s e s'. m s = (Inl e, s') \<longrightarrow> R s s')"

lemma fail_relD: "fail_rel R m \<Longrightarrow> m s = (Inl e, s') \<Longrightarrow> R s s'"
  by (simp add: fail_rel_def)

lemma io_rel_fail_rel: "io_rel R m \<Longrightarrow> fail_rel R m"
  by (auto simp: io_rel_def fail_rel_def)

lemma fail_rel_bind:
  "transp R \<Longrightarrow> io_rel R m \<Longrightarrow> (\<And>a. fail_rel R (f a)) \<Longrightarrow> fail_rel R (io_bind m f)"
  unfolding fail_rel_def io_rel_def io_bind_Inl_iff by (blast dest: transpD)

lemma fail_rel_then:
  "fail_rel R m \<Longrightarrow> (\<And>a s e s'. f a s \<noteq> (Inl e, s')) \<Longrightarrow> fail_rel R (io_bind m f)"
  unfolding fail_rel_def io_bind_Inl_iff by blast

text \<open>
  The relation of requests that store nothing: objects other than temporary files are untouched,
  and so is everything but the counter of temporary files.
\<close>

definition same_objects :: "('s \<Rightarrow> path \<rightharpoonup> bytes) \<Rightarrow> 's \<times> app_state \<Rightarrow> 's \<times> app_state \<Rightarrow> bool" where
  "same_objects files x y \<longleftrightarrow>
     (\<forall>q. \<not> temp_named q \<longrightarrow> files (fst y) q = files (fst x) q) \<and>
     as_quota_usage (snd y) = as_quota_usage (snd x) \<and> as_append_only (snd y) = as_append_only (snd x) \<and>
     as_quota_state (snd y) = as_quota_state (snd x) \<and> as_token (snd y) = as_token (snd x)"

lemma same_objects_refl [simp, intro]: "reflp (same_objects files)"
  and same_objects_trans [simp, intro]: "transp (same_objects files)"
  by (auto simp: same_objects_def intro!: reflpI transpI)

lemma get_app_rel [io_rel_intros]: "io_rel (same_objects files) get_app"
  by (auto simp: io_rel_def get_app_def same_objects_def)

lemma require_path_rel [io_rel_intros]: "io_rel (same_objects files) (require_path os key)"
  by (auto simp: io_rel_def require_path_def same_objects_def)

lemma next_temp_run:
  "next_temp lib p (s, st) = (Inr (temp_path lib p st), (s, st\<lparr>as_temp_counter := as_temp_counter st + 1\<rparr>))"
  by (simp add: next_temp_def temp_path_def)

lemma on_os_rel:
  "(\<And>s r s'. m s = (r, s') \<Longrightarrow> \<forall>q. \<not> temp_named q \<longrightarrow> files s' q = files s q) \<Longrightarrow>
   io_rel (same_objects files) (on_os lib m)"
  by (fastforce simp: io_rel_def same_objects_def on_os_iff)

lemma try_os_rel:
  "(\<And>s r s'. m s = (r, s') \<Longrightarrow> \<forall>q. \<not> temp_named q \<longrightarrow> files s' q = files s q) \<Longrightarrow>
   io_rel (same_objects files) (try_os m)"
  by (fastforce simp: io_rel_def same_objects_def try_os_iff)

lemma quota_precheck_rel [io_rel_intros]: "io_rel (same_objects files) (quota_precheck h quota old)"
  unfolding quota_precheck_def by (intro io_rel_intros) auto

lemma check_length_rel [io_rel_intros]: "io_rel (same_objects files) (check_length h n)"
  unfolding check_length_def by (intro io_rel_intros) auto

lemma check_checksum_rel [io_rel_intros]: "io_rel (same_objects files) (check_checksum lib ex d)"
  unfolding check_checksum_def Let_def by (intro io_rel_intros) auto

context fs_contract
begin

lemma existing_meta_rel [io_rel_intros]: "io_rel (same_objects files) (existing_meta lib os p)"
  unfolding existing_meta_def
  by (intro io_rel_intros try_os_rel) (auto dest: metadata_frame)

lemma create_frame: "os_create os p s = (r, s') \<Longrightarrow> q \<noteq> p \<Longrightarrow> files s' q = files s q"
  using create_ok [of p s] create_err [of p s] by (cases r) auto

lemma remove_frame: "os_remove_file os p s = (r, s') \<Longrightarrow> q \<noteq> p \<Longrightarrow> files s' q = files s q"
  using remove_ok [of p s] remove_err [of p s] by (cases r) auto

lemma stream_body_rel: "temp_named temp \<Longrightarrow> io_rel (same_objects files) (stream_body lib os temp quota old cs n h)"
proof (induction cs arbitrary: n h)
  case Nil
  then show ?case by (auto intro: io_rel_intros)
next
  case (Cons c cs)
  then show ?case
    by (cases c) (auto simp: Let_def intro!: io_rel_intros on_os_rel, (metis write_frame)+)
qed

lemma or_remove_rel:
  "temp_named temp \<Longrightarrow> io_rel (same_objects files) m \<Longrightarrow> io_rel (same_objects files) (or_remove os temp m)"
  unfolding or_remove_def by (intro io_rel_intros try_os_rel) (auto dest: remove_frame)

lemma write_temp_rel: "temp_named temp \<Longrightarrow> io_rel (same_objects files) (write_temp lib os temp quota old body)"
  unfolding write_temp_def
  by (intro io_rel_intros stream_body_rel on_os_rel) (auto dest: sync_frame)

lemma or_remove_cases:
  assumes "or_remove os temp m x = (r, y)"
  obtains (ok) a where "m x = (Inr a, y)" and "r = Inr a"
  | (fail) e x1 r' where "m x = (Inl e, x1)" and "try_os (os_remove_file os temp) x1 = (r', y)" and "r = Inl e"
  using assms
  by (auto simp: or_remove_def io_bind_def io_try_def io_return_def io_fail_def try_os_def
      split: prod.splits sum.splits)

lemma or_remove_Inr_iff: "or_remove os temp m x = (Inr a, y) \<longleftrightarrow> m x = (Inr a, y)"
  by (auto simp: or_remove_def io_bind_def io_try_def io_return_def io_fail_def try_os_def
      split: prod.splits sum.splits)

lemma rename_fail:
  assumes "temp_named temp"
  shows "fail_rel (same_objects files) (or_remove os temp (on_os lib (os_rename os temp p)))"
  unfolding fail_rel_def
proof (intro allI impI)
  fix x e y
  assume "or_remove os temp (on_os lib (os_rename os temp p)) x = (Inl e, y)"
  then show "same_objects files x y"
  proof (cases rule: or_remove_cases)
    case (fail e' x1 r')
    obtain s st s1 st1 s2 st2 where eqs: "x = (s, st)" "x1 = (s1, st1)" "y = (s2, st2)" by fastforce
    obtain e1 where "os_rename os temp p s = (Inl e1, s1)" "st1 = st"
      using fail(1) eqs by (auto simp: on_os_Inl_iff)
    moreover obtain r1 where "os_remove_file os temp s1 = (r1, s2)" "st2 = st1"
      using fail(2) eqs by (auto simp: try_os_iff)
    ultimately show ?thesis
      using rename_err remove_frame assms unfolding same_objects_def eqs by (metis fst_conv snd_conv)
  qed simp
qed

lemma upload_to_fail:
  assumes temp: "temp_named temp"
  shows "fail_rel (same_objects files) (upload_to lib os temp p h body ex quota old)"
proof -
  have last: "fail_rel (same_objects files)
     (io_bind (or_remove os temp (on_os lib (os_rename os temp p))) (\<lambda>_. io_return n))" for n :: u64
    by (rule fail_rel_then [OF rename_fail [OF temp]]) (simp add: io_return_def)
  have checks: "fail_rel (same_objects files) (case a of (data_len, hashed) \<Rightarrow>
       io_bind (or_remove os temp (check_length h data_len)) (\<lambda>_.
       io_bind (or_remove os temp (check_checksum lib ex hashed)) (\<lambda>_.
       io_bind (or_remove os temp (on_os lib (os_rename os temp p))) (\<lambda>_. io_return data_len))))" for a
    by (cases a) (auto intro!: fail_rel_bind or_remove_rel temp io_rel_intros last)
  have "io_rel (same_objects files) (on_os lib (os_create os temp))"
    using temp by (intro on_os_rel) (auto dest: create_frame)
  then show ?thesis
    unfolding upload_to_def
    by (intro fail_rel_bind same_objects_trans or_remove_rel write_temp_rel temp checks)
qed

lemma upload_fail: "fail_rel (same_objects files) (upload_body lib os p h body ex quota old)"
  unfolding upload_body_def
proof (rule fail_rel_bind [OF same_objects_trans])
  show "io_rel (same_objects files) (if p = [] then io_return () else on_os lib (os_create_dir_all os (butlast p)))"
    by (intro io_rel_intros on_os_rel) (auto dest: create_dir_frame)
  show "fail_rel (same_objects files)
     (io_bind (next_temp lib p) (\<lambda>temp. upload_to lib os temp p h body ex quota old))"
    unfolding fail_rel_def
  proof (intro allI impI)
    fix x e y
    assume run: "io_bind (next_temp lib p) (\<lambda>temp. upload_to lib os temp p h body ex quota old) x = (Inl e, y)"
    obtain s st where x: "x = (s, st)" by fastforce
    let ?x1 = "(s, st\<lparr>as_temp_counter := as_temp_counter st + 1\<rparr>)"
    have "same_objects files ?x1 y"
      by (rule fail_relD [OF upload_to_fail [OF temp_named_temp_path [of lib p st]]])
        (use run in \<open>simp add: x io_bind_def next_temp_run\<close>)
    then show "same_objects files x y" by (simp add: same_objects_def x)
  qed
qed

end

text \<open>What an upload that succeeds has done.\<close>

definition uploaded ::
  "('s \<Rightarrow> path \<rightharpoonup> bytes) \<Rightarrow> ('s \<Rightarrow> path set) \<Rightarrow> server_lib \<Rightarrow> path \<Rightarrow> path \<Rightarrow>
   put_headers \<Rightarrow> string option \<Rightarrow> u64 \<Rightarrow> u64 \<Rightarrow> u64 \<Rightarrow> bytes \<Rightarrow> 's \<Rightarrow> 's \<Rightarrow> bool" where
  "uploaded files dirs lib temp p h ex quota used old d s s' \<longleftrightarrow>
     p \<notin> dirs s \<and> (\<forall>q. q \<noteq> temp \<longrightarrow> files s' q = ((files s)(p \<mapsto> d)) q) \<and>
     (\<forall>n. content_length_of h = Some n \<longrightarrow> n = of_nat (length d)) \<and>
     (\<forall>x. ex = Some x \<longrightarrow> x = hex_encode (sl_hex lib) (blake2b_256 (sl_b2 lib) d)) \<and>
     (quota > 0 \<and> d \<noteq> [] \<longrightarrow> \<not> over_quota quota used old (of_nat (length d)))"

lemma uploaded_files:
  "uploaded files dirs lib temp p h ex quota used old d s s' \<Longrightarrow> q \<noteq> temp \<Longrightarrow> files s' q = ((files s)(p \<mapsto> d)) q"
  unfolding uploaded_def by blast

context fs_contract
begin

lemma stream_body_dirs:
  "stream_body lib os temp quota old cs n h (s, st) = (r, (s', st')) \<Longrightarrow> dirs s \<subseteq> dirs s'"
proof (induction cs arbitrary: n h s)
  case Nil
  then show ?case by (simp add: io_return_def)
next
  case (Cons c cs)
  show ?case
  proof (cases c)
    case (Inl e)
    then show ?thesis using Cons.prems by (simp add: io_fail_def)
  next
    case (Inr b)
    then show ?thesis
      using Cons.prems Cons.IH
      by (auto simp: Let_def io_bind_def get_app_def on_os_def io_fail_def io_return_def
          split: if_splits prod.splits sum.splits dest!: write_dirs) blast+
  qed
qed

lemma upload_to_ok:
  assumes "upload_to lib os temp p h body ex quota old (s, st) = (Inr n, (s', st'))" and "temp \<noteq> p"
  shows "st' = st \<and> (\<exists>d. body_bytes body = Some d \<and> n = of_nat (length d) \<and>
    uploaded files dirs lib temp p h ex quota (as_quota_usage st) old d s s')"
proof -
  obtain s1 n1 d1 s2 s3 st2 where
    create: "os_create os temp s = (Inr (), s1)"
    and strm: "stream_body lib os temp quota old body 0 [] (s1, st) = (Inr (n1, d1), (s2, st2))"
    and sync: "os_sync os temp s2 = (Inr (), s3)"
    and len: "check_length h n1 (s3, st2) = (Inr (), (s3, st2))"
    and sum: "check_checksum lib ex d1 (s3, st2) = (Inr (), (s3, st2))"
    and rename: "os_rename os temp p s3 = (Inr (), s')" and eqs: "n = n1" "st' = st2"
    using assms(1)
    by (fastforce simp: upload_to_def write_temp_def io_bind_Inr_iff or_remove_Inr_iff on_os_Inr_iff io_return_def
        check_length_def check_checksum_def Let_def io_fail_def split: option.splits if_splits)
  note s1 = create_ok [OF create]
  from stream_body_run [OF strm, of "[]"] s1 obtain d where
    d: "body_bytes body = Some d" "n1 = of_nat (length d)" "d1 = d" "files s2 temp = Some d"
      "quota > 0 \<and> d \<noteq> [] \<longrightarrow> \<not> over_quota quota (as_quota_usage st) old n1"
    and st2: "st2 = st" and fr: "\<forall>q. q \<noteq> temp \<longrightarrow> files s2 q = files s1 q" by auto
  have "files s' = (files s3)(temp := None, p := files s3 temp)" by (rule rename_ok [OF rename])
  then have "\<forall>q. q \<noteq> temp \<longrightarrow> files s' q = ((files s)(p \<mapsto> d)) q"
    using sync_frame [OF sync] fr s1 d(4) assms(2) by simp
  moreover have "p \<notin> dirs s"
    using create_dirs [OF create] stream_body_dirs [OF strm] sync_frame [OF sync] rename_target [OF rename] by blast
  moreover have "\<forall>n. content_length_of h = Some n \<longrightarrow> n = of_nat (length d)"
    using len d(2) by (auto simp: check_length_def io_fail_def split: if_splits)
  moreover have "\<forall>x. ex = Some x \<longrightarrow> x = hex_encode (sl_hex lib) (blake2b_256 (sl_b2 lib) d)"
    using sum d(3) by (auto simp: check_checksum_def Let_def io_fail_def split: if_splits)
  ultimately show ?thesis using d st2 eqs by (auto simp: uploaded_def)
qed

lemma existing_meta_Inr:
  assumes "existing_meta lib os p (s, st) = (Inr meta, (s', st'))"
  shows "st' = st \<and> files s' = files s \<and> dirs s' = dirs s \<and>
    (p \<notin> dirs s \<longrightarrow> meta = map_option (\<lambda>d. of_nat (length d)) (files s p)) \<and>
    (\<forall>d. files s p = Some d \<longrightarrow> meta = Some (of_nat (length d)))"
proof -
  obtain r where m: "os_metadata os p s = (r, s')" and "st' = st"
    and r: "case r of Inr n \<Rightarrow> meta = Some n | Inl e \<Rightarrow> io_kind e = NotFound \<and> meta = None"
    using assms
    by (fastforce simp: existing_meta_def io_bind_Inr_iff try_os_iff io_return_def io_fail_def
        split: sum.splits if_splits)
  show ?thesis
  proof (cases r)
    case (Inl e)
    then show ?thesis using metadata_frame [OF m] metadata_missing m r \<open>st' = st\<close> by auto
  next
    case (Inr n)
    then show ?thesis
      using metadata_frame [OF m] metadata_exists metadata_ok m r \<open>st' = st\<close> by fastforce
  qed
qed

lemma quota_precheck_Inr: "quota_precheck h quota old (s, st) = (Inr u, (s', st')) \<Longrightarrow> s' = s \<and> st' = st"
  by (auto simp: quota_precheck_def io_bind_Inr_iff get_app_iff io_return_def io_fail_def
      split: option.splits if_splits)

lemma record_backup_run:
  "record_backup os (s, st) = (r, (s', st')) \<Longrightarrow> r = Inr () \<and> files s' = files s \<and>
     as_append_only st' = as_append_only st \<and> as_quota_usage st' = as_quota_usage st"
  using now_frame [of s] by (auto simp: record_backup_def split: prod.splits)

lemma settle_quota_append_only [simp]: "as_append_only (settle_quota a b st) = as_append_only st"
  by (simp add: settle_quota_def add_quota_usage_def sub_quota_usage_def)

lemma store_body_steps:
  assumes "store_body lib os key p h body quota old (s, st) = (Inr resp, (s', st'))"
  obtains ex n s2 st2 where "expected_checksum key h = Inr ex"
    and "upload_body lib os p h body ex quota old (s, st) = (Inr n, (s2, st2))"
    and "files s' = files s2" and "as_append_only st' = as_append_only st2"
    and "as_quota_usage st' = as_quota_usage (settle_quota old n st2)"
proof -
  obtain ex where ex: "expected_checksum key h = Inr ex"
    and 1: "io_bind (upload_body lib os p h body ex quota old) (\<lambda>data_len.
         io_bind (modify_app (settle_quota old data_len)) (\<lambda>_.
         io_bind (if starts_with key ''snapshots/'' \<and> old = 0 \<or> key = ''manifest''
                  then record_backup os else io_return ()) (\<lambda>_.
           io_return (status_response (if old > 0 then 204 else 201))))) (s, st) = (Inr resp, (s', st'))"
    using assms unfolding store_body_def io_bind_Inr_iff [of "quota_precheck h quota old"]
    by (cases "expected_checksum key h") (auto simp: io_fail_def dest!: quota_precheck_Inr)
  then obtain n s2 st2 where up: "upload_body lib os p h body ex quota old (s, st) = (Inr n, (s2, st2))"
    and 2: "io_bind (if starts_with key ''snapshots/'' \<and> old = 0 \<or> key = ''manifest''
                  then record_backup os else io_return ()) (\<lambda>_.
           io_return (status_response (if old > 0 then 204 else 201))) (s2, settle_quota old n st2)
        = (Inr resp, (s', st'))"
    unfolding io_bind_Inr_iff [of "upload_body lib os p h body ex quota old"] io_bind_Inr_iff [of "modify_app _"]
    by (auto simp: modify_app_iff)
  have "files s' = files s2 \<and> as_append_only st' = as_append_only st2 \<and>
      as_quota_usage st' = as_quota_usage (settle_quota old n st2)"
    using 2 record_backup_run [of s2 "settle_quota old n st2"]
    by (auto simp: io_bind_Inr_iff io_return_def split: if_splits)
  then show ?thesis using that [OF ex up] by blast
qed

lemma put_object_steps:
  assumes "put_object lib os key h body (s, st) = (Inr resp, (s', st'))"
  obtains meta sm ex n s2 st2 where "file_path os s key = Some (key_path key)"
    and "existing_meta lib os (key_path key) (s, st) = (Inr meta, (sm, st))"
    and "as_append_only st \<and> meta \<noteq> None \<longrightarrow> is_mutable_key key" and "expected_checksum key h = Inr ex"
    and "upload_body lib os (key_path key) h body ex (quota_limit st) (case meta of None \<Rightarrow> 0 | Some n \<Rightarrow> n) (sm, st)
      = (Inr n, (s2, st2))"
    and "files s' = files s2" and "as_append_only st' = as_append_only st2"
    and "as_quota_usage st' = as_quota_usage (settle_quota (case meta of None \<Rightarrow> 0 | Some n \<Rightarrow> n) n st2)"
proof -
  obtain p where fp: "file_path os s key = Some p"
    and 1: "io_bind (existing_meta lib os p) (\<lambda>meta. io_bind get_app (\<lambda>st.
       if as_append_only st \<and> meta \<noteq> None \<and> \<not> is_mutable_key key
       then io_fail (Forbidden ''append-only: cannot overwrite immutable object'')
       else store_body lib os key p h body (quota_limit st) (case meta of None \<Rightarrow> 0 | Some n \<Rightarrow> n))) (s, st)
       = (Inr resp, (s', st'))"
    using assms unfolding put_object_def io_bind_Inr_iff [of "require_path os key"]
    by (auto simp: require_path_iff ok_or_def split: option.splits)
  have p: "p = key_path key" using fp by (simp add: file_path_def split: if_splits)
  from 1 obtain meta sm stm where em: "existing_meta lib os p (s, st) = (Inr meta, (sm, stm))"
    and 2: "io_bind get_app (\<lambda>st.
       if as_append_only st \<and> meta \<noteq> None \<and> \<not> is_mutable_key key
       then io_fail (Forbidden ''append-only: cannot overwrite immutable object'')
       else store_body lib os key p h body (quota_limit st) (case meta of None \<Rightarrow> 0 | Some n \<Rightarrow> n)) (sm, stm)
       = (Inr resp, (s', st'))"
    unfolding io_bind_Inr_iff [of "existing_meta lib os p"] by auto
  have stm: "stm = st" using existing_meta_Inr [OF em] by simp
  let ?old = "case meta of None \<Rightarrow> 0 | Some n \<Rightarrow> n"
  from 2 have ao: "as_append_only st \<and> meta \<noteq> None \<longrightarrow> is_mutable_key key"
    and 3: "store_body lib os key p h body (quota_limit st) ?old (sm, st) = (Inr resp, (s', st'))"
    by (auto simp: stm io_bind_Inr_iff get_app_iff io_fail_def split: if_splits)
  obtain ex n s2 st2 where "expected_checksum key h = Inr ex"
    and "upload_body lib os p h body ex (quota_limit st) ?old (sm, st) = (Inr n, (s2, st2))"
    and "files s' = files s2" and "as_append_only st' = as_append_only st2"
    and "as_quota_usage st' = as_quota_usage (settle_quota ?old n st2)"
    by (rule store_body_steps [OF 3])
  then show ?thesis unfolding p by (rule that [OF fp [unfolded p] em [unfolded p stm] ao])
qed

lemma put_object_ok:
  assumes "put_object lib os key h body (s, st) = (Inr resp, (s', st'))"
  obtains d s1 meta ex where "file_path os s key = Some (key_path key)" and "body_bytes body = Some d"
    and "expected_checksum key h = Inr ex"
    and "meta = map_option (\<lambda>d. of_nat (length d)) (files s (key_path key))"
    and "as_append_only st \<Longrightarrow> meta \<noteq> None \<Longrightarrow> is_mutable_key key" and "files s1 = files s"
    and "uploaded files dirs lib (temp_path lib (key_path key) st) (key_path key) h ex (quota_limit st)
      (as_quota_usage st) (case meta of None \<Rightarrow> 0 | Some n \<Rightarrow> n) d s1 s'"
    and "as_append_only st' = as_append_only st"
    and "as_quota_usage st' =
      as_quota_usage (settle_quota (case meta of None \<Rightarrow> 0 | Some n \<Rightarrow> n) (of_nat (length d)) st)"
proof -
  let ?p = "key_path key"
  obtain meta sm ex n s2 st2 where fp: "file_path os s key = Some ?p"
    and em: "existing_meta lib os ?p (s, st) = (Inr meta, (sm, st))"
    and ao: "as_append_only st \<and> meta \<noteq> None \<longrightarrow> is_mutable_key key" and ex: "expected_checksum key h = Inr ex"
    and up: "upload_body lib os ?p h body ex (quota_limit st) (case meta of None \<Rightarrow> 0 | Some n \<Rightarrow> n) (sm, st)
      = (Inr n, (s2, st2))"
    and rest: "files s' = files s2" "as_append_only st' = as_append_only st2"
      "as_quota_usage st' = as_quota_usage (settle_quota (case meta of None \<Rightarrow> 0 | Some n \<Rightarrow> n) n st2)"
    by (rule put_object_steps [OF assms])
  obtain s1 where up': "upload_to lib os (temp_path lib ?p st) ?p h body ex (quota_limit st)
      (case meta of None \<Rightarrow> 0 | Some n \<Rightarrow> n) (s1, st\<lparr>as_temp_counter := as_temp_counter st + 1\<rparr>) = (Inr n, (s2, st2))"
    and s1: "files s1 = files sm" "dirs sm \<subseteq> dirs s1"
    using up create_dir_frame
    by (fastforce simp: upload_body_def io_bind_Inr_iff next_temp_run on_os_Inr_iff io_return_def split: if_splits)
  note m = existing_meta_Inr [OF em]
  from upload_to_ok [OF up' temp_path_neq] obtain d where d: "body_bytes body = Some d" "n = of_nat (length d)"
    and st2: "st2 = st\<lparr>as_temp_counter := as_temp_counter st + 1\<rparr>"
    and u: "uploaded files dirs lib (temp_path lib ?p st) ?p h ex (quota_limit st) (as_quota_usage st)
      (case meta of None \<Rightarrow> 0 | Some n \<Rightarrow> n) d s1 s2" by auto
  have "?p \<notin> dirs s" using u s1(2) m by (auto simp: uploaded_def)
  show ?thesis
  proof (rule that [OF fp d(1) ex])
    show "meta = map_option (\<lambda>d. of_nat (length d)) (files s ?p)" using m \<open>?p \<notin> dirs s\<close> by blast
    show "uploaded files dirs lib (temp_path lib ?p st) ?p h ex (quota_limit st) (as_quota_usage st)
      (case meta of None \<Rightarrow> 0 | Some n \<Rightarrow> n) d s1 s'" using u rest(1) by (simp add: uploaded_def)
    show "as_quota_usage st' = as_quota_usage (settle_quota (case meta of None \<Rightarrow> 0 | Some n \<Rightarrow> n) (of_nat (length d)) st)"
      using rest(3) d(2) st2 by (simp add: settle_quota_def add_quota_usage_def sub_quota_usage_def)
  qed (use ao s1(1) m rest(2) st2 in auto)
qed

lemma store_body_fail: "fail_rel (same_objects files) (store_body lib os key p h body quota old)"
proof -
  have "fail_rel (same_objects files) (case expected_checksum key h of
       Inl e \<Rightarrow> io_fail e
     | Inr expected \<Rightarrow>
         io_bind (upload_body lib os p h body expected quota old) (\<lambda>data_len.
         io_bind (modify_app (settle_quota old data_len)) (\<lambda>_.
         io_bind (if starts_with key ''snapshots/'' \<and> old = 0 \<or> key = ''manifest''
                  then record_backup os else io_return ()) (\<lambda>_.
           io_return (status_response (if old > 0 then 204 else 201))))))"
  proof (cases "expected_checksum key h")
    case (Inl e)
    then show ?thesis by (simp add: fail_rel_def io_fail_def same_objects_def)
  next
    case (Inr ex)
    have never: "io_bind (modify_app f) (\<lambda>_. io_bind (if b then record_backup os else io_return ())
        (\<lambda>_. io_return v)) x \<noteq> (Inl e, y)" for f b x e y and v :: response
      by (cases x) (auto simp: io_bind_def modify_app_def record_backup_def io_return_def split: prod.splits)
    show ?thesis unfolding Inr sum.case by (rule fail_rel_then [OF upload_fail never])
  qed
  then show ?thesis
    unfolding store_body_def by (intro fail_rel_bind same_objects_trans quota_precheck_rel)
qed

lemma put_object_fail: "fail_rel (same_objects files) (put_object lib os key h body)"
proof -
  have "fail_rel (same_objects files) (if c then io_fail e else store_body lib os key p h body quota old)"
    for c e p quota old
    using store_body_fail by (simp add: fail_rel_def io_fail_def same_objects_def)
  then show ?thesis
    unfolding put_object_def
    by (intro fail_rel_bind same_objects_trans require_path_rel existing_meta_rel get_app_rel)
qed

text \<open>A deletion removes one file and its size, or stores nothing.\<close>

lemma delete_path_run:
  assumes "delete_path lib os p (s, st) = (r, (s', st'))"
  obtains (frame) "same_objects files (s, st) (s', st')"
  | (removed) d where "files s p = Some d" and "files s' = (files s)(p := None)"
      and "st' = sub_quota_usage (of_nat (length d)) st"
  using assms unfolding delete_path_def
proof (cases rule: srv_bind_cases)
  case (fail e)
  show ?thesis by (rule frame) (rule io_relD [OF existing_meta_rel fail(1)])
next
  case (ok meta s1 st1)
  note m = existing_meta_Inr [OF ok(1)]
  show ?thesis
  proof (cases meta)
    case None
    then show ?thesis using ok(2) m by (intro frame) (simp add: io_return_def same_objects_def)
  next
    case (Some old)
    obtain rr s2 where rm: "os_remove_file os p s1 = (rr, s2)" by fastforce
    show ?thesis
    proof (cases rr)
      case (Inl e)
      then have "(s', st') = (s2, st1)"
        using ok(2) Some rm by (auto simp: io_bind_def try_os_def io_return_def io_fail_def split: if_splits)
      then show ?thesis using remove_err [OF rm [unfolded Inl]] m by (intro frame) (simp add: same_objects_def)
    next
      case (Inr u)
      note ro = remove_ok [OF rm [unfolded Inr]]
      have eqs: "s' = s2" "st' = sub_quota_usage old st1"
        using ok(2) Some rm Inr by (auto simp: io_bind_def try_os_def io_return_def modify_app_def)
      obtain d where d: "files s p = Some d" using ro m by auto
      have "old = of_nat (length d)"
        using m d Some by auto
      then show ?thesis using removed [OF d] ro m eqs by simp
    qed
  qed
qed

lemma delete_object_run:
  assumes "delete_object lib os key (s, st) = (r, (s', st'))"
  obtains (frame) "same_objects files (s, st) (s', st')"
  | (removed) d where "file_path os s key = Some (key_path key)" and "files s (key_path key) = Some d"
      and "files s' = (files s)(key_path key := None)" and "st' = sub_quota_usage (of_nat (length d)) st"
      and "as_append_only st \<longrightarrow> starts_with key ''locks/'' \<or> starts_with key ''sessions/''"
proof (cases "(as_append_only st \<longrightarrow> starts_with key ''locks/'' \<or> starts_with key ''sessions/'') \<and>
    file_path os s key \<noteq> None")
  case False
  then have "(s', st') = (s, st)"
    using assms by (auto simp: delete_object_def io_fail_def split: option.splits if_splits)
  then show ?thesis by (intro frame) (simp add: same_objects_def)
next
  case True
  then have fp: "file_path os s key = Some (key_path key)" by (auto simp: file_path_def split: if_splits)
  have "delete_path lib os (key_path key) (s, st) = (r, (s', st'))"
    using assms True fp by (auto simp: delete_object_def split: if_splits)
  then show ?thesis
    by (cases rule: delete_path_run) (use True fp in \<open>auto intro: frame removed\<close>)
qed

end

section \<open>Quota accounting\<close>

text \<open>The bytes of the objects: temporary files are not counted.\<close>

definition stored_objects :: "(path \<rightharpoonup> bytes) \<Rightarrow> nat" where
  "stored_objects m = (\<Sum>q | q \<in> dom m \<and> \<not> temp_named q. length (the (m q)))"

definition object_size :: "(path \<rightharpoonup> bytes) \<Rightarrow> path \<Rightarrow> nat" where
  "object_size m p = (case m p of None \<Rightarrow> 0 | Some d \<Rightarrow> length d)"

lemma stored_objects_cong:
  assumes "\<And>q. \<not> temp_named q \<Longrightarrow> m' q = m q"
  shows "stored_objects m' = stored_objects m"
  unfolding stored_objects_def using assms by (intro sum.cong) (auto simp: dom_def)

lemma stored_objects_split:
  assumes "finite (dom m)" and "\<not> temp_named p"
  shows "stored_objects m = object_size m p + stored_objects (m(p := None))"
proof (cases "m p")
  case None
  then have "m(p := None) = m" by auto
  then show ?thesis using None by (simp add: object_size_def)
next
  case (Some d)
  have "{q. q \<in> dom m \<and> \<not> temp_named q} = insert p {q. q \<in> dom (m(p := None)) \<and> \<not> temp_named q}"
    using Some assms(2) by auto
  moreover have "finite {q. q \<in> dom (m(p := None)) \<and> \<not> temp_named q}" using assms(1) by simp
  moreover have "(\<Sum>q | q \<in> dom (m(p := None)) \<and> \<not> temp_named q. length (the (m q)))
      = stored_objects (m(p := None))"
    unfolding stored_objects_def by (intro sum.cong) auto
  ultimately show ?thesis using Some by (simp add: stored_objects_def object_size_def)
qed

lemma stored_objects_upd:
  assumes "finite (dom m)" and "\<not> temp_named p"
  shows "stored_objects (m(p \<mapsto> d)) + object_size m p = stored_objects m + length d"
proof -
  have "stored_objects (m(p \<mapsto> d)) = length d + stored_objects (m(p := None))"
    using stored_objects_split [of "m(p \<mapsto> d)" p] assms by (simp add: object_size_def)
  then show ?thesis using stored_objects_split [OF assms] by simp
qed

lemma unat_u64_less: "unat (x :: u64) < 2 ^ 64"
  using unsigned_less [of x] by simp

lemma unat_sat_sub: "unat (sat_sub_u64 a b) = unat a - unat b"
  by (simp add: sat_sub_u64_def unat_sub word_le_nat_alt)

lemma settle_quota_exact:
  assumes "old = of_nat a" and "a \<le> unat (as_quota_usage st)" and "unat (as_quota_usage st) - a + n < 2 ^ 64"
  shows "unat (as_quota_usage (settle_quota old (of_nat n) st)) = unat (as_quota_usage st) - a + n"
proof -
  have a: "a < 2 ^ 64" using assms(2) unat_u64_less [of "as_quota_usage st"] by linarith
  have n: "n < 2 ^ 64" using assms(3) by simp
  show ?thesis
  proof (cases "(of_nat n :: u64) > old")
    case True
    then have "n > a" using a n by (simp add: assms(1) word_less_nat_alt)
    moreover have "unat (of_nat n - old) = n - a" using True a n by (simp add: assms(1) unat_sub word_less_nat_alt word_le_nat_alt)
    ultimately show ?thesis
      using True assms(2,3) by (simp add: settle_quota_def add_quota_usage_def unat_word_ariths)
  next
    case False
    then have "n \<le> a" using a n by (simp add: assms(1) word_less_nat_alt)
    moreover have "unat (old - of_nat n) = a - n"
      using False a n by (simp add: assms(1) unat_sub word_less_nat_alt word_le_nat_alt)
    ultimately show ?thesis
      using False assms(2) by (simp add: settle_quota_def sub_quota_usage_def unat_sat_sub)
  qed
qed

context fs_contract
begin

lemma put_accounted:
  assumes run: "put_object lib os key h body (s, st) = (r, (s', st'))" and p: "\<not> temp_named (key_path key)"
    and acc: "unat (as_quota_usage st) = stored_objects (files s)" and bound: "stored_objects (files s') < 2 ^ 64"
  shows "unat (as_quota_usage st') = stored_objects (files s') \<and>
    (quota_limit st > 0 \<longrightarrow> unat (as_quota_usage st') \<le> max (unat (as_quota_usage st)) (unat (quota_limit st)))"
proof (cases r)
  case (Inl e)
  then have so: "same_objects files (s, st) (s', st')" using fail_relD [OF put_object_fail] run by blast
  then have "stored_objects (files s') = stored_objects (files s)"
    by (intro stored_objects_cong) (simp add: same_objects_def)
  then show ?thesis using so acc by (simp add: same_objects_def)
next
  case (Inr resp)
  let ?p = "key_path key"
  from run Inr have "put_object lib os key h body (s, st) = (Inr resp, (s', st'))" by simp
  then obtain d s1 meta ex where m: "meta = map_option (\<lambda>d. of_nat (length d)) (files s ?p)"
    and s1: "files s1 = files s"
    and u: "uploaded files dirs lib (temp_path lib ?p st) ?p h ex (quota_limit st) (as_quota_usage st)
      (case meta of None \<Rightarrow> 0 | Some n \<Rightarrow> n) d s1 s'"
    and use: "as_quota_usage st' = as_quota_usage (settle_quota (case meta of None \<Rightarrow> 0 | Some n \<Rightarrow> n) (of_nat (length d)) st)"
    by (rule put_object_ok)
  let ?old = "(case meta of None \<Rightarrow> 0 | Some n \<Rightarrow> n) :: u64"
  have old: "?old = of_nat (object_size (files s) ?p)" by (simp add: m object_size_def split: option.splits)
  have "stored_objects (files s') = stored_objects ((files s)(?p \<mapsto> d))"
    using uploaded_files [OF u] s1 temp_named_temp_path by (intro stored_objects_cong) metis
  then have sum: "stored_objects (files s') + object_size (files s) ?p = stored_objects (files s) + length d"
    using stored_objects_upd [OF files_finite p] by simp
  have le: "object_size (files s) ?p \<le> unat (as_quota_usage st)"
    using acc stored_objects_split [OF files_finite p] by simp
  have fits: "unat (as_quota_usage st) - object_size (files s) ?p + length d < 2 ^ 64"
    using sum le acc bound by linarith
  have used: "unat (as_quota_usage st') = stored_objects (files s')"
    using settle_quota_exact [OF old le fits] use sum le acc by simp
  have osz: "object_size (files s) ?p < 2 ^ 64" using le unat_u64_less [of "as_quota_usage st"] by linarith
  have "unat (as_quota_usage st') \<le> max (unat (as_quota_usage st)) (unat (quota_limit st))" if "quota_limit st > 0"
  proof (cases "d = []")
    case True
    then show ?thesis using used sum acc by simp
  next
    case False
    then have "sat_sub_u64 (as_quota_usage st) ?old + of_nat (length d) \<le> quota_limit st"
      using u that by (auto simp: uploaded_def over_quota_def)
    then have "unat (as_quota_usage st) - object_size (files s) ?p + length d \<le> unat (quota_limit st)"
      using fits osz by (simp add: word_le_nat_alt unat_word_ariths unat_sat_sub old)
    then show ?thesis using used sum acc le by simp
  qed
  then show ?thesis using used by blast
qed

lemma delete_accounted:
  assumes run: "delete_object lib os key (s, st) = (r, (s', st'))" and p: "\<not> temp_named (key_path key)"
    and acc: "unat (as_quota_usage st) = stored_objects (files s)"
  shows "unat (as_quota_usage st') = stored_objects (files s') \<and> stored_objects (files s') \<le> stored_objects (files s)"
  using run
proof (cases rule: delete_object_run)
  case frame
  then have "stored_objects (files s') = stored_objects (files s)"
    by (intro stored_objects_cong) (simp add: same_objects_def)
  then show ?thesis using frame acc by (simp add: same_objects_def)
next
  case (removed d)
  have "stored_objects (files s) = length d + stored_objects (files s')"
    using stored_objects_split [OF files_finite p, of s] removed by (simp add: object_size_def)
  moreover have "unat (as_quota_usage st) < 2 ^ 64" by (rule unat_u64_less)
  ultimately show ?thesis using removed(4) acc by (simp add: sub_quota_usage_def unat_sat_sub)
qed

end

text \<open>C36: Quota accounting is exact and enforced: on every outcome of an upload or a deletion,
  failures at any point included, the usage counter equals the bytes of the stored objects when it
  did before, and under a limit an upload never takes it above the larger of the limit and the old
  usage.\<close>

theorem quota_accounting:
  assumes "fs_contract os files dirs" and "\<not> temp_named (key_path key)"
    and "unat (as_quota_usage st) = stored_objects (files s)" and "stored_objects (files s') < 2 ^ 64"
    and "put_object lib os key h body (s, st) = (r, (s', st')) \<or> delete_object lib os key (s, st) = (r, (s', st'))"
  shows "unat (as_quota_usage st') = stored_objects (files s') \<and>
    (quota_limit st > 0 \<longrightarrow> unat (as_quota_usage st') \<le> max (unat (as_quota_usage st)) (unat (quota_limit st)))"
  using assms(5)
proof
  assume "put_object lib os key h body (s, st) = (r, (s', st'))"
  from fs_contract.put_accounted [OF assms(1) this assms(2-4)] show ?thesis .
next
  assume "delete_object lib os key (s, st) = (r, (s', st'))"
  from fs_contract.delete_accounted [OF assms(1) this assms(2,3)] show ?thesis using assms(3) by (simp add: le_max_iff_disj)
qed

definition wit_server_lib :: server_lib where
  "wit_server_lib =
     \<lparr>sl_b2 = \<lparr>blake2b_256 = (\<lambda>d. take 32 (d @ replicate 32 0)), blake2b_mac_256 = (\<lambda>k d. take 32 (d @ replicate 32 0))\<rparr>,
      sl_hex = lower_hex, sl_show_io = (\<lambda>e. ''io''), sl_data_dir_name = ''data'',
      sl_keys_from_json = (\<lambda>b. Inr [map (\<lambda>c. char_of (unat c)) b]),
      sl_repack_from_json = (\<lambda>b. Inl ''json''), sl_verify_from_json = (\<lambda>b. Inl ''json'')\<rparr>"

definition wit_app_state :: app_state where
  "wit_app_state = \<lparr>as_append_only = True, as_token = ''secret'', as_quota_usage = 2,
     as_quota_state = quota_state_new Explicit 10 True, as_last_backup_at = None,
     as_temp_counter = 0, as_repack_temp_counter = 0\<rparr>"

definition wit_fs :: mem_fs where
  "wit_fs = [([''config''], [1, 2])]"

definition wit_put_headers :: put_headers where
  "wit_put_headers = \<lparr>hd_content_length = Some ''3'', hd_blake2b = None\<rparr>"

lemma stored_objects_map_of:
  "distinct (map fst m) \<Longrightarrow>
   stored_objects (map_of m) = sum_list (map (\<lambda>(p, d). if temp_named p then 0 else length d) m)"
proof (induction m)
  case Nil
  then show ?case by (simp add: stored_objects_def)
next
  case (Cons x m)
  obtain p d where x: "x = (p, d)" by fastforce
  have "map_of m p = None" using Cons.prems x by (simp add: map_of_eq_None_iff)
  then have "stored_objects ((map_of m)(p \<mapsto> d)) = stored_objects (map_of m) + (if temp_named p then 0 else length d)"
    using stored_objects_upd [OF finite_dom_map_of, of p m d]
    by (cases "temp_named p") (auto simp: object_size_def intro: stored_objects_cong)
  then show ?case using Cons x by (simp del: fun_upd_apply)
qed

definition wit_fs_after :: mem_fs where
  "wit_fs_after = [([''config''], [1, 2]), ([''snapshots'', ''a''], [7, 8, 9])]"

definition wit_app_after :: app_state where
  "wit_app_after = wit_app_state\<lparr>as_quota_usage := 5, as_last_backup_at := Some 0, as_temp_counter := 1\<rparr>"

lemma wit_put_run:
  "put_object wit_server_lib memory_os ''snapshots/a'' wit_put_headers [Inr [7, 8], Inr [9]] (wit_fs, wit_app_state)
   = (Inr (status_response 201), (wit_fs_after, wit_app_after))"
  by code_simp

lemma wit_stored:
  "stored_objects (map_of wit_fs) = 2" "stored_objects (map_of wit_fs_after) = 5"
  by (subst stored_objects_map_of; code_simp)+

theorem quota_accounting_witness:
  "unat (as_quota_usage wit_app_after) = stored_objects (map_of wit_fs_after) \<and>
   unat (as_quota_usage wit_app_after) \<le> 10"
proof -
  have "\<not> temp_named (key_path ''snapshots/a'')" by code_simp
  from quota_accounting [OF mem_fs.fs_contract_axioms this _ _ disjI1 [OF wit_put_run]]
  show ?thesis
    by (simp add: wit_stored wit_app_state_def quota_limit_def quota_state_new_def)
qed

section \<open>Uploading and reading\<close>

lemma show_nat_not_Nil [simp]: "show_nat n \<noteq> []"
  by (subst show_nat.simps) simp

lemma digit_char:
  assumes "n < 10"
  shows "is_ascii_digit (char_of (48 + n))" and "(of_char (char_of (48 + n) :: char) :: nat) = 48 + n"
  using assms by (simp_all add: is_ascii_digit_def)

lemma show_nat_digits: "list_all is_ascii_digit (show_nat n)"
proof (induction n rule: show_nat.induct)
  case (1 n)
  then show ?case
    by (subst show_nat.simps) (auto simp: digit_char)
qed

lemma decimal_value_show_nat: "decimal_value (show_nat n) = n"
proof (induction n rule: show_nat.induct)
  case (1 n)
  then show ?case
    by (subst show_nat.simps) (auto simp: decimal_value_def digit_char)
qed

lemma parse_u64_show_nat: "n < 2 ^ 64 \<Longrightarrow> parse_u64 (show_nat n) = Some (of_nat n)"
proof -
  assume n: "n < 2 ^ 64"
  obtain c cs where s: "show_nat n = c # cs" by (cases "show_nat n") auto
  have "is_ascii_digit c" using show_nat_digits [of n] s by simp
  then have "c \<noteq> CHR ''+''" by (auto simp: is_ascii_digit_def)
  then show ?thesis
    using s n show_nat_digits [of n] decimal_value_show_nat [of n] by (simp add: parse_u64_def)
qed

lemma dash_not_in_show_nat: "CHR ''-'' \<notin> set (show_nat n)"
  using show_nat_digits [of n] by (auto simp: list_all_iff is_ascii_digit_def)

definition range_header :: "nat \<Rightarrow> nat \<Rightarrow> string" where
  "range_header a b = ''bytes='' @ show_nat a @ ''-'' @ show_nat b"

lemma split_range: "split_on (CHR ''-'') (show_nat a @ CHR ''-'' # show_nat b) = [show_nat a, show_nat b]"
  by (simp add: split_on_append_sep split_on_no_sep dash_not_in_show_nat)

lemma range_words:
  assumes "a \<le> b" and "b < n" and "n < 2 ^ 64"
  shows "\<not> (of_nat b :: u64) < of_nat a" and "\<not> (of_nat n :: u64) \<le> of_nat a"
    and "checked_add_u64 (of_nat b - of_nat a) 1 = Some (of_nat (Suc b - a))"
    and "unat (min (of_nat (Suc b - a)) (of_nat n - of_nat a :: u64)) = Suc b - a"
proof -
  have ab: "a < 2 ^ 64" "b < 2 ^ 64" using assms by linarith+
  have u: "unat (of_nat a :: u64) = a" "unat (of_nat b :: u64) = b" "unat (of_nat n :: u64) = n"
    using ab assms by simp_all
  have l: "unat (of_nat (Suc b - a) :: u64) = Suc b - a" "unat (of_nat (n - a) :: u64) = n - a"
    "unat (of_nat (b - a) :: u64) = b - a"
    by (rule unat_of_nat_u64, use assms in linarith)+
  show "\<not> (of_nat b :: u64) < of_nat a" "\<not> (of_nat n :: u64) \<le> of_nat a"
    using assms by (simp_all add: word_less_nat_alt word_le_nat_alt u)
  have d: "of_nat b - of_nat a = (of_nat (b - a) :: u64)" "of_nat n - of_nat a = (of_nat (n - a) :: u64)"
    using assms by (simp_all add: of_nat_diff)
  have "of_nat (b - a) + 1 = (of_nat (Suc b - a) :: u64)"
    unfolding Suc_diff_le [OF assms(1)] of_nat_Suc by (rule add.commute)
  moreover have "b - a + 1 < 2 ^ 64" using assms by linarith
  ultimately show "checked_add_u64 (of_nat b - of_nat a) 1 = Some (of_nat (Suc b - a))"
    unfolding checked_add_u64_def d(1) l(3) unat_1 by (simp only: if_True)
  have "(of_nat (Suc b - a) :: u64) \<le> of_nat (n - a)"
    unfolding word_le_nat_alt l using assms by simp
  then show "unat (min (of_nat (Suc b - a)) (of_nat n - of_nat a :: u64)) = Suc b - a"
    by (simp only: d min_absorb1 l)
qed

context fs_contract
begin

lemma full_read_ok:
  assumes "stream_full_read lib os p key (s, st) = (Inr resp, (s', st'))"
  shows "\<exists>d. files s p = Some d \<and> rs_status resp = 200 \<and> rs_body resp = FileBody d"
  using assms
  by (auto simp: stream_full_read_def io_bind_def try_os_def io_return_def io_fail_def
      split: prod.splits sum.splits if_splits dest!: read_ok)

lemma range_read_ok:
  assumes "handle_range_read lib os p (range_header a b) key (s, st) = (Inr resp, (s', st'))"
    and "a \<le> b" and "files s p = Some d" and "b < length d" and "length d < 2 ^ 64"
  shows "rs_status resp = 206 \<and> rs_body resp = FileBody (take (Suc b - a) (drop a d))"
proof -
  have ab: "a < 2 ^ 64" "b < 2 ^ 64" using assms(2,4,5) by linarith+
  note w = range_words [OF assms(2,4,5)]
  have pr: "parse_range (range_header a b) = Inr (of_nat a, of_nat (Suc b - a))"
    unfolding parse_range_def range_header_def strip_prefix_append
    using w(1,3) by (simp add: split_range parse_u64_show_nat [OF ab(1)] parse_u64_show_nat [OF ab(2)])
  obtain r s1 where rd: "os_read os p s = (r, s1)" by fastforce
  obtain d' where r: "r = Inr d'"
    using assms(1) rd by (cases r) (auto simp: handle_range_read_def pr io_bind_def try_os_def io_fail_def)
  then have d': "d' = d" using read_ok rd assms(3) by fastforce
  show ?thesis
    using assms(1) w(2) rd r d' ab
    unfolding handle_range_read_def pr
    by (auto simp: io_bind_def try_os_def io_return_def Let_def w(4))
qed

end

lemma get_object_steps:
  assumes "get_or_list lib os depth key False range_hdr (s, st) = (Inr (Some g), (s', st'))"
  shows "(case range_hdr of
       Some h \<Rightarrow> handle_range_read lib os (key_path key) h key
     | None \<Rightarrow> stream_full_read lib os (key_path key) key) (s, st) = (Inr g, (s', st'))"
proof -
  obtain p where p: "file_path os s key = Some p"
    using assms by (cases "file_path os s key") (simp_all add: get_or_list_def)
  then have "p = key_path key" by (simp add: file_path_def split: if_splits)
  with assms p show ?thesis by (auto simp: get_or_list_def io_bind_Inr_iff io_return_def)
qed

text \<open>C38: What was uploaded is what is read: after a successful upload a full read returns the
  body that arrived, and a range request returns the requested bytes of it.\<close>

theorem put_get_roundtrip:
  assumes "fs_contract os files dirs" and "put_object lib os key h body (s, st) = (Inr resp, (s1, st1))"
    and "get_or_list lib os depth key False range_hdr (s1, st1) = (Inr (Some g), (s2, st2))"
    and "range_hdr = Some (range_header a b) \<Longrightarrow>
      a \<le> b \<and> (\<forall>d. body_bytes body = Some d \<longrightarrow> b < length d \<and> length d < 2 ^ 64)"
    and "range_hdr = None \<or> range_hdr = Some (range_header a b)"
  shows "\<exists>d. body_bytes body = Some d \<and>
    rs_body g = FileBody (if range_hdr = None then d else take (Suc b - a) (drop a d))"
proof -
  obtain d s0 meta ex where d: "body_bytes body = Some d"
    and u: "uploaded files dirs lib (temp_path lib (key_path key) st) (key_path key) h ex (quota_limit st)
      (as_quota_usage st) (case meta of None \<Rightarrow> 0 | Some n \<Rightarrow> n) d s0 s1"
    by (rule fs_contract.put_object_ok [OF assms(1,2)])
  have file1: "files s1 (key_path key) = Some d"
    using uploaded_files [OF u, of "key_path key"] temp_path_neq [of lib "key_path key" st] by simp
  obtain resp' where rd: "(case range_hdr of
       Some h \<Rightarrow> handle_range_read lib os (key_path key) h key
     | None \<Rightarrow> stream_full_read lib os (key_path key) key) (s1, st1) = (Inr resp', (s2, st2))"
    and "g = resp'"
    using get_object_steps [OF assms(3)] by blast
  show ?thesis
  proof (cases range_hdr)
    case None
    with rd have "stream_full_read lib os (key_path key) key (s1, st1) = (Inr resp', (s2, st2))" by simp
    from fs_contract.full_read_ok [OF assms(1) this] show ?thesis
      using file1 d \<open>g = resp'\<close> None by auto
  next
    case (Some h)
    then have h: "h = range_header a b" and b: "a \<le> b" "b < length d" "length d < 2 ^ 64"
      using assms(4,5) d by auto
    from rd Some h have "handle_range_read lib os (key_path key) (range_header a b) key (s1, st1)
      = (Inr resp', (s2, st2))" by simp
    from fs_contract.range_read_ok [OF assms(1) this b(1) file1 b(2,3)] show ?thesis
      using d \<open>g = resp'\<close> Some by simp
  qed
qed

theorem put_get_roundtrip_witness:
  "\<exists>d. body_bytes [Inr [7, 8], Inr [9]] = Some d \<and> FileBody [8, 9] = FileBody (take 2 (drop 1 d))"
proof -
  let ?r = "\<lparr>rs_status = 206, rs_headers = [(''Content-Range'', ''bytes 1-2/3''), (''Content-Length'', ''2'')],
         rs_body = FileBody [8, 9]\<rparr>"
  have get: "get_or_list wit_server_lib memory_os 0 ''snapshots/a'' False (Some (range_header 1 2)) (wit_fs_after, wit_app_after)
    = (Inr (Some ?r), (wit_fs_after, wit_app_after))" by code_simp
  from put_get_roundtrip [OF mem_fs.fs_contract_axioms wit_put_run get, of 1 2]
  show ?thesis by simp
qed

end
