(* ===== verification/Server_Admin.thy ===== *)
theory Server_Admin
  imports Server_Objects Pack
begin

text \<open>
  The repository endpoints of the server (\<open>vykar-server/src/handlers/admin.rs\<close>) and the router
  with its token check (\<open>handlers/mod.rs\<close>): initialisation, batch deletion, repacking on the
  server, streaming verification of packs, structure checks and statistics.  File lengths and
  positions in a file are natural numbers; they stay far below \<open>2 ^ 64\<close>.
\<close>

definition MAX_REPACK_OPS :: nat where "MAX_REPACK_OPS = 10000"
definition MAX_KEEP_BLOBS_PER_OP :: nat where "MAX_KEEP_BLOBS_PER_OP = 200000"
definition MAX_VERIFY_PACKS :: nat where "MAX_VERIFY_PACKS = 100"
definition MAX_VERIFY_BYTES :: u64 where "MAX_VERIFY_BYTES = 2 * 1024 * 1024 * 1024"

definition on_validated :: "string + unit \<Rightarrow> ('s, unit) srv_io" where
  "on_validated r = (case r of Inl e \<Rightarrow> io_fail (BadRequest e) | Inr _ \<Rightarrow> io_return ())"

section \<open>Initialisation and deletion\<close>

fun join_with :: "string \<Rightarrow> string list \<Rightarrow> string" where
  "join_with sep [] = []"
| "join_with sep [x] = x"
| "join_with sep (x # xs) = x @ sep @ join_with sep xs"

definition shard_names :: "string list" where
  "shard_names = map (\<lambda>i. lower_hex_encode [of_nat i]) [0 ..< 256]"

definition repo_init :: "server_lib \<Rightarrow> 's server_os \<Rightarrow> ('s, response) srv_io" where
  "repo_init lib os = (\<lambda>(s, st).
     case unexpected_entries os s of
       (bad, s1) \<Rightarrow>
         if bad \<noteq> [] then (Inl (Conflict (''data directory contains unexpected entries: ''
                              @ join_with '', '' bad)), (s1, st))
         else io_bind (existing_meta lib os [''config'']) (\<lambda>meta.
                if meta \<noteq> None then io_fail (Conflict ''repo already initialized'')
                else io_bind (io_for ([[], [''keys''], [''snapshots''], [''locks'']]
                                @ map (\<lambda>n. [''packs'', n]) shard_names)
                       (\<lambda>d. on_os lib (os_create_dir_all os d))) (\<lambda>_.
                     io_return (status_response 201))) (s1, st))"

definition batch_delete_key :: "server_lib \<Rightarrow> 's server_os \<Rightarrow> string \<Rightarrow> ('s, unit) srv_io" where
  "batch_delete_key lib os key = (\<lambda>(s, st).
     case file_path_for_cleanup os s key of
       None \<Rightarrow> (Inr (), (s, st))
     | Some p \<Rightarrow>
         io_bind (existing_meta lib os p) (\<lambda>meta.
         io_bind (try_os (os_remove_file os p)) (\<lambda>r.
           case r of
             Inl e \<Rightarrow> if io_kind e \<noteq> NotFound then io_fail (server_error_from_io lib e) else io_return ()
           | Inr _ \<Rightarrow> modify_app (sub_quota_usage (case meta of None \<Rightarrow> 0 | Some n \<Rightarrow> n)))) (s, st))"

fun parents :: "path \<Rightarrow> path list" where
  "parents [] = []"
| "parents (x # xs) = (let p = butlast (x # xs) in if p = [] then [] else p # parents p)"

definition cleanup_dirs_of :: "'s server_os \<Rightarrow> 's \<Rightarrow> string list \<Rightarrow> path list" where
  "cleanup_dirs_of os s keys =
     sort_key (\<lambda>d. - int (length d))
       (sort (remdups (concat (map (\<lambda>key. case file_path_for_cleanup os s key of
                                             None \<Rightarrow> [] | Some p \<Rightarrow> parents p) keys))))"

definition cleanup_dirs :: "'s server_os \<Rightarrow> string list \<Rightarrow> ('s, unit) srv_io" where
  "cleanup_dirs os keys = (\<lambda>(s, st).
     io_for (cleanup_dirs_of os s keys @ [[]])
       (\<lambda>d. io_bind (try_os (os_remove_dir os d)) (\<lambda>_. io_return ())) (s, st))"

definition batch_delete :: "server_lib \<Rightarrow> 's server_os \<Rightarrow> bytes \<Rightarrow> bool \<Rightarrow> ('s, response) srv_io" where
  "batch_delete lib os body cleanup =
     io_bind get_app (\<lambda>st.
       if as_append_only st then io_fail (Forbidden ''append-only: batch-delete not allowed'')
       else (case sl_keys_from_json lib body of
               Inl e \<Rightarrow> io_fail (BadRequest (''invalid JSON: '' @ e))
             | Inr keys \<Rightarrow>
                 io_bind (io_for keys (batch_delete_key lib os)) (\<lambda>_.
                 io_bind (if cleanup then cleanup_dirs os keys else io_return ()) (\<lambda>_.
                   io_return (status_response 204)))))"

section \<open>Repack\<close>

fun validate_keep_blobs :: "nat \<Rightarrow> nat \<Rightarrow> repack_blob_ref list \<Rightarrow> string + unit" where
  "validate_keep_blobs i j [] = Inr ()"
| "validate_keep_blobs i j (b # bs) =
     rbind (validate_blob_ref (rb_offset b) (rb_length b)
              (''operation '' @ show_nat i @ '' blob '' @ show_nat j)) (\<lambda>_.
       validate_keep_blobs i (j + 1) bs)"

fun validate_repack_ops :: "nat \<Rightarrow> repack_operation_request list \<Rightarrow> string + unit" where
  "validate_repack_ops i [] = Inr ()"
| "validate_repack_ops i (op # ops) =
     (if \<not> is_valid_pack_key (ro_source_pack op)
      then Inl (''invalid source_pack at operation '' @ show_nat i @ '': '' @ ro_source_pack op)
      else if length (ro_keep_blobs op) > MAX_KEEP_BLOBS_PER_OP
      then Inl (''too many keep_blobs at operation '' @ show_nat i @ '': ''
                @ show_nat (length (ro_keep_blobs op)) @ '' (max '' @ show_nat MAX_KEEP_BLOBS_PER_OP @ '')'')
      else rbind (validate_keep_blobs i 0 (ro_keep_blobs op)) (\<lambda>_. validate_repack_ops (i + 1) ops))"

definition validate_repack_plan :: "repack_plan_request \<Rightarrow> string + unit" where
  "validate_repack_plan plan =
     rbind (check_protocol_version (rp_protocol_version plan)) (\<lambda>_.
       if length (rp_operations plan) > MAX_REPACK_OPS
       then Inl (''too many repack operations: '' @ show_nat (length (rp_operations plan))
                 @ '' (max '' @ show_nat MAX_REPACK_OPS @ '')'')
       else validate_repack_ops 0 (rp_operations plan))"

definition internal_os :: "server_lib \<Rightarrow> string \<Rightarrow> ('s, io_error, 'a) io \<Rightarrow> ('s, 'a) srv_io" where
  "internal_os lib what m =
     io_bind (try_os m) (\<lambda>r. case r of Inl e \<Rightarrow> io_fail (Internal (what @ '': '' @ sl_show_io lib e))
                                     | Inr a \<Rightarrow> io_return a)"

definition read_keep_blob :: "bytes \<Rightarrow> repack_blob_ref \<Rightarrow> server_error + bytes" where
  "read_keep_blob source b =
     (if rb_length b = 0 then Inl (Internal ''repack blob length must be > 0'')
      else case checked_add_u64 (rb_offset b) (rb_length b) of
        None \<Rightarrow> Inl (Internal ''repack blob range overflow'')
      | Some end' \<Rightarrow>
          if unat end' > length source
          then Inl (Internal (''repack blob range out of bounds: offset='' @ show_nat (unat (rb_offset b))
                 @ '' length='' @ show_nat (unat (rb_length b)) @ '' file_size='' @ show_nat (length source)))
          else (case checked_sub_u64 (rb_offset b) 4 of
                  None \<Rightarrow> Inl (Internal (''repack blob at offset '' @ show_nat (unat (rb_offset b))
                            @ '' has no room for length prefix''))
                | Some prefix_offset \<Rightarrow>
                    let on_disk_len = u32_from_le_bytes (take 4 (drop (unat prefix_offset) source)) in
                    if (ucast on_disk_len :: u64) \<noteq> rb_length b
                    then Inl (Internal (''repack blob at offset '' @ show_nat (unat (rb_offset b))
                           @ '': on-disk length prefix ('' @ show_nat (unat on_disk_len)
                           @ '') does not match requested length ('' @ show_nat (unat (rb_length b)) @ '')''))
                    else Inr (take (unat (rb_length b)) (drop (unat (rb_offset b)) source))))"

text \<open>\<open>write_and_hash\<close>: the bytes written are the bytes hashed.\<close>

definition write_and_hash :: "server_lib \<Rightarrow> 's server_os \<Rightarrow> string \<Rightarrow> path \<Rightarrow> bytes \<Rightarrow> bytes \<Rightarrow> ('s, bytes) srv_io" where
  "write_and_hash lib os what temp hashed d =
     io_bind (internal_os lib what (os_write os temp d)) (\<lambda>_. io_return (hashed @ d))"

fun copy_blobs ::
  "server_lib \<Rightarrow> 's server_os \<Rightarrow> path \<Rightarrow> bytes \<Rightarrow> repack_blob_ref list \<Rightarrow> u64 \<Rightarrow> u64 list \<Rightarrow> bytes \<Rightarrow>
   ('s, u64 \<times> u64 list \<times> bytes) srv_io" where
  "copy_blobs lib os temp source [] pack_offset new_offsets hashed = io_return (pack_offset, new_offsets, hashed)"
| "copy_blobs lib os temp source (b # bs) pack_offset new_offsets hashed =
     (case read_keep_blob source b of
        Inl e \<Rightarrow> io_fail e
      | Inr scratch \<Rightarrow>
          io_bind (write_and_hash lib os ''write len'' temp hashed (u32_to_le_bytes (ucast (rb_length b)))) (\<lambda>h1.
          io_bind (write_and_hash lib os ''write blob'' temp h1 scratch) (\<lambda>h2.
            copy_blobs lib os temp source bs (pack_offset + (4 + rb_length b))
              (new_offsets @ [pack_offset + 4]) h2)))"

definition write_new_pack ::
  "server_lib \<Rightarrow> 's server_os \<Rightarrow> path \<Rightarrow> bytes \<Rightarrow> repack_blob_ref list \<Rightarrow> ('s, u64 \<times> u64 list \<times> bytes) srv_io" where
  "write_new_pack lib os temp source keep =
     io_bind (write_and_hash lib os ''write header'' temp [] PACK_MAGIC) (\<lambda>h1.
     io_bind (write_and_hash lib os ''write version'' temp h1 [PACK_VERSION_CURRENT]) (\<lambda>h2.
       copy_blobs lib os temp source keep (of_nat PACK_HEADER_SIZE) [] h2))"

definition repacked_key :: "server_lib \<Rightarrow> bytes \<Rightarrow> string" where
  "repacked_key lib hashed =
     (let pack_id_hex = hex_encode (sl_hex lib) (blake2b_256 (sl_b2 lib) hashed)
      in ''packs/'' @ take 2 pack_id_hex @ ''/'' @ pack_id_hex)"

definition next_repack_temp :: "path \<Rightarrow> ('s, path) srv_io" where
  "next_repack_temp p = (\<lambda>(s, st).
     (Inr (with_file_name p (''.repack_tmp.'' @ show_nat (unat (as_repack_temp_counter st)))),
      (s, st\<lparr>as_repack_temp_counter := as_repack_temp_counter st + 1\<rparr>)))"

definition delete_source :: "'s server_os \<Rightarrow> path \<Rightarrow> ('s, unit) srv_io" where
  "delete_source os p =
     io_bind (try_os (os_metadata os p)) (\<lambda>m.
     io_bind (try_os (os_remove_file os p)) (\<lambda>_.
       modify_app (sub_quota_usage (case m of Inl _ \<Rightarrow> 0 | Inr n \<Rightarrow> n))))"

definition place_new_pack ::
  "server_lib \<Rightarrow> 's server_os \<Rightarrow> path \<Rightarrow> bytes \<Rightarrow> ('s, string) srv_io" where
  "place_new_pack lib os temp hashed =
     (let key = repacked_key lib hashed in
      io_bind (or_remove os temp (\<lambda>(s, st).
                 (ok_or (file_path os s key) (Internal ''invalid new pack path''), (s, st)))) (\<lambda>p.
      io_bind (or_remove os temp (internal_os lib ''mkdir'' (os_create_dir_all os (butlast p)))) (\<lambda>_.
      io_bind (or_remove os temp (internal_os lib ''rename new pack'' (os_rename os temp p))) (\<lambda>_.
        io_return key))))"

definition write_repacked ::
  "server_lib \<Rightarrow> 's server_os \<Rightarrow> path \<Rightarrow> bytes \<Rightarrow> repack_blob_ref list \<Rightarrow> ('s, string \<times> u64 list \<times> u64) srv_io" where
  "write_repacked lib os temp source keep =
     io_bind (internal_os lib ''create temp'' (os_create os temp)) (\<lambda>_.
     io_bind (or_remove os temp (write_new_pack lib os temp source keep)) (\<lambda>(pack_offset, new_offsets, hashed).
     io_bind (place_new_pack lib os temp hashed) (\<lambda>key. io_return (key, new_offsets, pack_offset))))"

text \<open>
  The source is read once, when it is opened: an error of a later read of it, after which the code
  removes the temporary file, appears here before that file is created.
\<close>

definition repack_keep ::
  "server_lib \<Rightarrow> 's server_os \<Rightarrow> path \<Rightarrow> repack_operation_request \<Rightarrow> ('s, string \<times> u64 list \<times> u64) srv_io" where
  "repack_keep lib os source_path op =
     io_bind (internal_os lib (''open '' @ ro_source_pack op) (os_read os source_path)) (\<lambda>source.
     io_bind (next_repack_temp source_path) (\<lambda>temp.
       write_repacked lib os temp source (ro_keep_blobs op)))"

definition repack_op ::
  "server_lib \<Rightarrow> 's server_os \<Rightarrow> repack_operation_request \<Rightarrow> ('s, repack_operation_result) srv_io" where
  "repack_op lib os op =
     io_bind (\<lambda>(s, st). (ok_or (file_path os s (ro_source_pack op)) (Internal ''invalid pack path''), (s, st))) (\<lambda>source_path.
     if ro_keep_blobs op = []
     then io_bind (if ro_delete_after op then delete_source os source_path else io_return ()) (\<lambda>_.
            io_return \<lparr>rr_source_pack = ro_source_pack op, rr_new_pack = None, rr_new_offsets = [],
              rr_deleted = ro_delete_after op\<rparr>)
     else
       io_bind (repack_keep lib os source_path op) (\<lambda>(new_pack_key, new_offsets, pack_offset).
       io_bind (modify_app (add_quota_usage pack_offset)) (\<lambda>_.
       io_bind (if ro_delete_after op then delete_source os source_path else io_return ()) (\<lambda>_.
         io_return \<lparr>rr_source_pack = ro_source_pack op, rr_new_pack = Some new_pack_key,
           rr_new_offsets = new_offsets, rr_deleted = ro_delete_after op\<rparr>))))"

fun execute_repack ::
  "server_lib \<Rightarrow> 's server_os \<Rightarrow> repack_operation_request list \<Rightarrow> ('s, repack_operation_result list) srv_io" where
  "execute_repack lib os [] = io_return []"
| "execute_repack lib os (op # ops) =
     io_bind (repack_op lib os op) (\<lambda>r. io_bind (execute_repack lib os ops) (\<lambda>rs. io_return (r # rs)))"

definition repack :: "server_lib \<Rightarrow> 's server_os \<Rightarrow> bytes \<Rightarrow> ('s, response) srv_io" where
  "repack lib os body =
     (case sl_repack_from_json lib body of
        Inl e \<Rightarrow> io_fail (BadRequest (''invalid repack plan: '' @ e))
      | Inr plan \<Rightarrow>
          io_bind (on_validated (validate_repack_plan plan)) (\<lambda>_.
          io_bind get_app (\<lambda>st.
            if as_append_only st \<and> list_ex ro_delete_after (rp_operations plan)
            then io_fail (Forbidden ''append-only: repack with delete not allowed'')
            else io_bind (execute_repack lib os (rp_operations plan)) (\<lambda>rs.
                   io_return \<lparr>rs_status = 200, rs_headers = [], rs_body = RepackBody \<lparr>rr_completed = rs\<rparr>\<rparr>))))"

section \<open>Verification of packs\<close>

text \<open>
  A buffered reader: the bytes of the buffer that are not consumed yet and the pieces the source
  will deliver.  An empty piece is the end of the file as one read sees it.
\<close>

type_synonym reader = "bytes \<times> (io_error + bytes) list"

function read_exact_hashed :: "nat \<Rightarrow> bytes \<Rightarrow> (io_error + bytes) list \<Rightarrow> io_error + bytes \<times> reader" where
  "read_exact_hashed n b cs =
     (if n = 0 then Inr ([], (b, cs))
      else if b \<noteq> [] then
        (if n \<le> length b then Inr (take n b, (drop n b, cs))
         else rbind (read_exact_hashed (n - length b) [] cs) (\<lambda>(d, rd). Inr (b @ d, rd)))
      else (case cs of
              [] \<Rightarrow> Inr ([], ([], []))
            | Inl e # cs' \<Rightarrow> Inl e
            | Inr c # cs' \<Rightarrow> if c = [] then Inr ([], ([], cs')) else read_exact_hashed n c cs'))"
  by pat_completeness auto
termination
  by (relation "measures [\<lambda>(n, b, cs). n, \<lambda>(n, b, cs). length cs]") auto

declare read_exact_hashed.simps [simp del]

text \<open>The inner loop over the data of a blob, in pieces of 8192 bytes; the flag says that all came.\<close>

function skip_blob :: "nat \<Rightarrow> reader \<Rightarrow> bytes \<Rightarrow> io_error + bool \<times> reader \<times> bytes" where
  "skip_blob blob_remaining rd hashed =
     (if blob_remaining = 0 then Inr (True, rd, hashed)
      else case read_exact_hashed (min blob_remaining 8192) (fst rd) (snd rd) of
             Inl e \<Rightarrow> Inl e
           | Inr (d, rd') \<Rightarrow>
               if d = [] then Inr (False, rd', hashed)
               else skip_blob (blob_remaining - length d) rd' (hashed @ d))"
  by pat_completeness auto
termination
  by (relation "measure (\<lambda>(n, _). n)") auto

declare skip_blob.simps [simp del]

text \<open>The scan of the blob boundaries: their validity, the expected blobs not seen, what was hashed.\<close>

function verify_scan ::
  "nat \<Rightarrow> nat \<Rightarrow> (nat \<times> nat) list \<Rightarrow> reader \<Rightarrow> bytes \<Rightarrow> io_error + bool \<times> (nat \<times> nat) list \<times> reader \<times> bytes" where
  "verify_scan file_len pos remaining rd hashed =
     (if pos + 4 > file_len then Inr (pos = file_len, remaining, rd, hashed)
      else case read_exact_hashed 4 (fst rd) (snd rd) of
             Inl e \<Rightarrow> Inl e
           | Inr (len_buf, rd1) \<Rightarrow>
               if length len_buf \<noteq> 4 then Inr (False, remaining, rd1, hashed @ len_buf)
               else let blob_len = unat (u32_from_le_bytes len_buf) in
                 if pos + 4 + blob_len > file_len then Inr (False, remaining, rd1, hashed @ len_buf)
                 else let remaining' = removeAll (pos + 4, blob_len) remaining in
                   (case skip_blob blob_len rd1 (hashed @ len_buf) of
                      Inl e \<Rightarrow> Inl e
                    | Inr (ok, rd2, hashed') \<Rightarrow>
                        if \<not> ok then Inr (False, remaining', rd2, hashed')
                        else verify_scan file_len (pos + 4 + blob_len) remaining' rd2 hashed'))"
  by pat_completeness auto
termination
  by (relation "measure (\<lambda>(file_len, pos, _). file_len - pos)") auto

declare verify_scan.simps [simp del]

text \<open>The rest of the file: what was hashed, and the error that stopped it.\<close>

fun drain :: "bytes \<Rightarrow> (io_error + bytes) list \<Rightarrow> bytes \<times> io_error option" where
  "drain b [] = (b, None)"
| "drain b (Inl e # cs) = (b, Some e)"
| "drain b (Inr c # cs) = (if c = [] then (b, None) else (case drain c cs of (d, e) \<Rightarrow> (b @ d, e)))"

definition read_failure :: "string \<Rightarrow> string \<Rightarrow> verify_pack_result" where
  "read_failure key msg = \<lparr>vr_pack_key = key, vr_hash_valid = False, vr_header_valid = False,
     vr_blobs_valid = False, vr_error = Some msg\<rparr>"

definition last_segment :: "string \<Rightarrow> string" where
  "last_segment key = (case rev (split_on (CHR ''/'') key) of [] \<Rightarrow> [] | p # _ \<Rightarrow> p)"

definition verify_pack_from_reader ::
  "server_lib \<Rightarrow> (io_error + bytes) list \<Rightarrow> nat \<Rightarrow> verify_pack_request \<Rightarrow> verify_pack_result" where
  "verify_pack_from_reader lib source file_len entry =
     (let key = vp_pack_key entry;
          expected_hash = last_segment key;
          expected = remdups (map (\<lambda>b. (unat (vb_offset b), unat (vb_length b))) (vp_expected_blobs entry));
          failed = (\<lambda>e. read_failure key (''read error: '' @ sl_show_io lib e))
      in case read_exact_hashed 9 [] source of
           Inl e \<Rightarrow> failed e
         | Inr (header, rd) \<Rightarrow>
             let header_valid = (length header = 9 \<and> take 8 header = PACK_MAGIC
                   \<and> PACK_VERSION_MIN \<le> header ! 8 \<and> header ! 8 \<le> PACK_VERSION_MAX)
             in case (if header_valid
                      then rbind (verify_scan file_len PACK_HEADER_SIZE expected rd header)
                             (\<lambda>(ok, remaining, rd', hashed). Inr (ok \<and> remaining = [], rd', hashed))
                      else Inr (False, rd, header)) of
                  Inl e \<Rightarrow> failed e
                | Inr (scanned, rd', hashed) \<Rightarrow>
                    (case drain (fst rd') (snd rd') of
                       (extra, drain_err) \<Rightarrow>
                         let blobs_valid = (scanned \<and> \<not> (header_valid \<and> extra \<noteq> []));
                             actual_hash = hex_encode (sl_hex lib) (blake2b_256 (sl_b2 lib) (hashed @ extra));
                             hash_valid = (actual_hash = expected_hash)
                         in \<lparr>vr_pack_key = key, vr_hash_valid = hash_valid, vr_header_valid = header_valid,
                             vr_blobs_valid = blobs_valid,
                             vr_error = (case drain_err of
                                Some e \<Rightarrow> Some (''read error: '' @ sl_show_io lib e)
                              | None \<Rightarrow>
                                  if \<not> hash_valid
                                  then Some (''hash mismatch: expected '' @ expected_hash @ '', got '' @ actual_hash)
                                  else if \<not> header_valid then Some ''invalid pack header''
                                  else if \<not> blobs_valid then Some ''blob boundary mismatch'' else None)\<rparr>))"

text \<open>
  The pieces in which the operating system delivers a file of these contents are a parameter;
  \<open>os_read\<close> has opened the file and read its length.
\<close>

definition verify_single_pack ::
  "server_lib \<Rightarrow> (bytes \<Rightarrow> (io_error + bytes) list) \<Rightarrow> 's server_os \<Rightarrow> path \<Rightarrow> verify_pack_request \<Rightarrow>
   ('s, verify_pack_result) srv_io" where
  "verify_single_pack lib pieces os p entry =
     io_bind (try_os (os_read os p)) (\<lambda>r.
       io_return (case r of
         Inl e \<Rightarrow> read_failure (vp_pack_key entry) (''read failed: '' @ sl_show_io lib e)
       | Inr d \<Rightarrow> verify_pack_from_reader lib (pieces d) (length d) entry))"

fun execute_verify_packs ::
  "server_lib \<Rightarrow> (bytes \<Rightarrow> (io_error + bytes) list) \<Rightarrow> 's server_os \<Rightarrow> verify_pack_request list \<Rightarrow>
   verify_pack_result list \<Rightarrow> u64 \<Rightarrow> ('s, verify_packs_response) srv_io" where
  "execute_verify_packs lib pieces os [] results bytes_read =
     io_return \<lparr>vr_results = results, vr_truncated = False\<rparr>"
| "execute_verify_packs lib pieces os (entry # packs) results bytes_read =
     (\<lambda>(s, st).
        case file_path os s (vp_pack_key entry) of
          None \<Rightarrow> execute_verify_packs lib pieces os packs
                    (results @ [read_failure (vp_pack_key entry) ''invalid pack path'']) bytes_read (s, st)
        | Some p \<Rightarrow>
            io_bind (try_os (os_metadata os p)) (\<lambda>m.
              case m of
                Inl e \<Rightarrow> execute_verify_packs lib pieces os packs
                   (results @ [read_failure (vp_pack_key entry) (''stat failed: '' @ sl_show_io lib e)]) bytes_read
              | Inr file_size \<Rightarrow>
                  if sat_add_u64 bytes_read file_size > MAX_VERIFY_BYTES
                  then io_return \<lparr>vr_results = results, vr_truncated = True\<rparr>
                  else io_bind (verify_single_pack lib pieces os p entry) (\<lambda>r.
                         execute_verify_packs lib pieces os packs (results @ [r]) (bytes_read + file_size)))
              (s, st))"

fun validate_verify_blobs :: "nat \<Rightarrow> nat \<Rightarrow> verify_blob_ref list \<Rightarrow> string + unit" where
  "validate_verify_blobs i j [] = Inr ()"
| "validate_verify_blobs i j (b # bs) =
     rbind (validate_blob_ref (vb_offset b) (vb_length b)
              (''pack '' @ show_nat i @ '' blob '' @ show_nat j)) (\<lambda>_. validate_verify_blobs i (j + 1) bs)"

fun validate_verify_entries :: "nat \<Rightarrow> verify_pack_request list \<Rightarrow> u64 \<Rightarrow> string + u64" where
  "validate_verify_entries i [] total_bytes = Inr total_bytes"
| "validate_verify_entries i (entry # packs) total_bytes =
     (if \<not> is_valid_pack_key (vp_pack_key entry)
      then Inl (''invalid pack_key at pack '' @ show_nat i @ '': '' @ vp_pack_key entry)
      else if vp_expected_size entry = 0 then Inl (''expected_size must be > 0 at pack '' @ show_nat i)
      else rbind (validate_verify_blobs i 0 (vp_expected_blobs entry)) (\<lambda>_.
             validate_verify_entries (i + 1) packs (sat_add_u64 total_bytes (vp_expected_size entry))))"

definition validate_verify_packs_plan :: "verify_packs_plan_request \<Rightarrow> string + unit" where
  "validate_verify_packs_plan plan =
     rbind (check_protocol_version (vpp_protocol_version plan)) (\<lambda>_.
       if length (vpp_packs plan) > MAX_VERIFY_PACKS
       then Inl (''too many packs to verify: '' @ show_nat (length (vpp_packs plan))
                 @ '' (max '' @ show_nat MAX_VERIFY_PACKS @ '')'')
       else rbind (validate_verify_entries 0 (vpp_packs plan) 0) (\<lambda>total_bytes.
         if total_bytes > MAX_VERIFY_BYTES
         then Inl (''estimated verify I/O too large: '' @ show_nat (unat total_bytes) @ '' bytes (max ''
                   @ show_nat (unat MAX_VERIFY_BYTES) @ '')'')
         else Inr ()))"

definition verify_packs ::
  "server_lib \<Rightarrow> (bytes \<Rightarrow> (io_error + bytes) list) \<Rightarrow> 's server_os \<Rightarrow> bytes \<Rightarrow> ('s, response) srv_io" where
  "verify_packs lib pieces os body =
     (case sl_verify_from_json lib body of
        Inl e \<Rightarrow> io_fail (BadRequest (''invalid verify-packs plan: '' @ e))
      | Inr plan \<Rightarrow>
          io_bind (on_validated (validate_verify_packs_plan plan)) (\<lambda>_.
          io_bind (execute_verify_packs lib pieces os (vpp_packs plan) [] 0) (\<lambda>resp.
            io_return \<lparr>rs_status = 200, rs_headers = [], rs_body = VerifyBody resp\<rparr>)))"

section \<open>Structure check and statistics\<close>

definition is_shard_name :: "string \<Rightarrow> bool" where
  "is_shard_name n \<longleftrightarrow> length n = 2 \<and> list_all is_ascii_hexdigit n"

definition check_pack_header :: "server_lib \<Rightarrow> string \<Rightarrow> io_error + bytes \<Rightarrow> string list" where
  "check_pack_header lib name r =
     (case r of
        Inl e \<Rightarrow> [''read error for packs/'' @ name @ '': '' @ sl_show_io lib e]
      | Inr d \<Rightarrow>
          if take 8 d \<noteq> PACK_MAGIC then [''invalid pack magic: packs/'' @ name]
          else if \<not> (PACK_VERSION_MIN \<le> d ! 8 \<and> d ! 8 \<le> PACK_VERSION_MAX)
          then [''unsupported pack version '' @ show_nat (unat (d ! 8)) @ '': packs/'' @ name]
          else [])"

fun check_pack_entries ::
  "server_lib \<Rightarrow> 's server_os \<Rightarrow> string \<Rightarrow> (io_error + string \<times> bool) list \<Rightarrow> string list \<times> u64 \<times> u64 \<Rightarrow> 's \<Rightarrow>
   (string list \<times> u64 \<times> u64) \<times> 's" where
  "check_pack_entries lib os shard [] acc s = (acc, s)"
| "check_pack_entries lib os shard (Inl _ # es) acc s = check_pack_entries lib os shard es acc s"
| "check_pack_entries lib os shard (Inr (pack, _) # es) (errors, packs, bytes) s =
     (let name = shard @ ''/'' @ pack;
          errors1 = errors @ (if length pack \<noteq> 64 \<or> \<not> list_all is_ascii_hexdigit pack
                              then [''invalid pack name: packs/'' @ name] else [])
      in case os_metadata os [''packs'', shard, pack] s of
           (Inl _, s1) \<Rightarrow> check_pack_entries lib os shard es (errors1, packs + 1, bytes) s1
         | (Inr n, s1) \<Rightarrow>
             if n < 9
             then check_pack_entries lib os shard es
                    (errors1 @ [''pack too small ('' @ show_nat (unat n) @ '' bytes): packs/'' @ name],
                     packs + 1, bytes + n) s1
             else (case os_read os [''packs'', shard, pack] s1 of
                     (r, s2) \<Rightarrow> check_pack_entries lib os shard es
                                 (errors1 @ check_pack_header lib name r, packs + 1, bytes + n) s2))"

fun check_shards ::
  "server_lib \<Rightarrow> 's server_os \<Rightarrow> (io_error + string \<times> bool) list \<Rightarrow> string list \<times> u64 \<times> u64 \<Rightarrow> 's \<Rightarrow>
   (string list \<times> u64 \<times> u64) \<times> 's" where
  "check_shards lib os [] acc s = (acc, s)"
| "check_shards lib os (Inl _ # es) acc s = check_shards lib os es acc s"
| "check_shards lib os (Inr (shard, _) # es) (errors, packs, bytes) s =
     (if \<not> is_shard_name shard
      then check_shards lib os es (errors @ [''invalid shard directory: packs/'' @ shard], packs, bytes) s
      else (case os_read_dir os [''packs'', shard] s of
              (Inl _, s1) \<Rightarrow> check_shards lib os es (errors, packs, bytes) s1
            | (Inr ps, s1) \<Rightarrow>
                (case check_pack_entries lib os shard ps (errors, packs, bytes) s1 of
                   (acc, s2) \<Rightarrow> check_shards lib os es acc s2)))"

definition count_locks :: "'s server_os \<Rightarrow> 's \<Rightarrow> nat \<times> 's" where
  "count_locks os s =
     (if os_exists os [''locks''] s
      then (case os_read_dir os [''locks''] s of
              (Inl _, s') \<Rightarrow> (0, s')
            | (Inr es, s') \<Rightarrow> (length (filter (\<lambda>e. \<not> isl e) es), s'))
      else (0, s))"

definition check_structure :: "server_lib \<Rightarrow> 's server_os \<Rightarrow> 's \<Rightarrow> resp_body \<times> 's" where
  "check_structure lib os s =
     (let missing = map (\<lambda>(n, p). ''missing required file: '' @ n)
            (filter (\<lambda>(n, p). \<not> os_exists os p s)
               [(''config'', [''config'']), (''index'', [''index'']), (''keys/repokey'', [''keys'', ''repokey''])])
      in case (if os_exists os [''packs''] s
               then (case os_read_dir os [''packs''] s of
                       (Inl _, s1) \<Rightarrow> ((missing, 0, 0), s1)
                     | (Inr shards, s1) \<Rightarrow> check_shards lib os shards (missing, 0, 0) s1)
               else ((missing, 0, 0), s)) of
           ((errors, packs, bytes), s1) \<Rightarrow>
             (case count_locks os s1 of
                (stale_locks, s2) \<Rightarrow> (StructureBody errors packs bytes stale_locks, s2)))"

definition count_repo_stats :: "'s server_os \<Rightarrow> nat \<Rightarrow> 's \<Rightarrow> ((u64 \<times> u64 \<times> u64) \<times> 's) option" where
  "count_repo_stats os depth s =
     (case walk os (\<lambda>p (bytes, objects) s. case os_metadata os p s of
                       (Inl _, s') \<Rightarrow> ((bytes, objects), s')
                     | (Inr n, s') \<Rightarrow> ((bytes + n, objects + 1), s')) depth [] (0, 0) s of
        None \<Rightarrow> None
      | Some ((bytes, objects), s1) \<Rightarrow>
          if os_exists os [''packs''] s1
          then (case walk os (\<lambda>p count s. (count + 1, s)) depth [''packs''] 0 s1 of
                  None \<Rightarrow> None
                | Some (packs, s2) \<Rightarrow> Some ((bytes, objects, packs), s2))
          else Some ((bytes, objects, 0), s1))"

definition repo_stats :: "'s server_os \<Rightarrow> nat \<Rightarrow> ('s, response option) srv_io" where
  "repo_stats os depth = (\<lambda>(s, st).
     case count_repo_stats os depth s of
       None \<Rightarrow> (Inr None, (s, st))
     | Some ((bytes, objects, packs), s1) \<Rightarrow>
         let st1 = st\<lparr>as_quota_state := quota_refresh os (as_quota_usage st) s1 (as_quota_state st)\<rparr> in
         (Inr (Some \<lparr>rs_status = 200, rs_headers = [],
            rs_body = StatsBody bytes objects packs (as_last_backup_at st1) (quota_limit st1) (as_quota_usage st1)
              (quota_source_from_u8 (qs_source (as_quota_state st1)))\<rparr>), (s1, st1)))"

text \<open>Here an unreadable directory or entry is an error.\<close>

fun list_all_recursive :: "'s server_os \<Rightarrow> nat \<Rightarrow> path \<Rightarrow> string list \<Rightarrow> 's \<Rightarrow> ((io_error + string list) \<times> 's) option"
  and list_all_entries ::
    "'s server_os \<Rightarrow> nat \<Rightarrow> path \<Rightarrow> (io_error + string \<times> bool) list \<Rightarrow> string list \<Rightarrow> 's \<Rightarrow>
     ((io_error + string list) \<times> 's) option" where
  "list_all_recursive os 0 dir out s = None"
| "list_all_recursive os (Suc n) dir out s =
     (case os_read_dir os dir s of
        (Inl e, s') \<Rightarrow> Some (Inl e, s')
      | (Inr es, s') \<Rightarrow> list_all_entries os n dir es out s')"
| "list_all_entries os n dir [] out s = Some (Inr out, s)"
| "list_all_entries os n dir (Inl e # es) out s = Some (Inl e, s)"
| "list_all_entries os n dir (Inr (name, is_dir) # es) out s =
     (if is_dir
      then (case list_all_recursive os n (dir @ [name]) out s of
              None \<Rightarrow> None
            | Some (Inl e, s') \<Rightarrow> Some (Inl e, s')
            | Some (Inr out', s') \<Rightarrow> list_all_entries os n dir es out' s')
      else list_all_entries os n dir es (out @ [join_path (dir @ [name])]) s)"

definition repo_list_all :: "server_lib \<Rightarrow> 's server_os \<Rightarrow> nat \<Rightarrow> ('s, response option) srv_io" where
  "repo_list_all lib os depth = (\<lambda>(s, st).
     case list_all_recursive os depth [] [] s of
       None \<Rightarrow> (Inr None, (s, st))
     | Some (Inl e, s') \<Rightarrow> (Inl (server_error_from_io lib e), (s', st))
     | Some (Inr keys, s') \<Rightarrow>
         (Inr (Some \<lparr>rs_status = 200, rs_headers = [], rs_body = KeysBody (sort keys)\<rparr>), (s', st)))"

section \<open>Routing (handlers/mod.rs)\<close>

record repo_query =
  rq_stats :: bool
  rq_verify_structure :: bool
  rq_init :: bool
  rq_batch_delete :: bool
  rq_cleanup_dirs :: bool
  rq_repack :: bool
  rq_verify_packs :: bool
  rq_list :: bool

datatype server_request =
    GetObject string bool "string option"
  | HeadObject string
  | PutObject string put_headers "(io_error + bytes) list"
  | DeleteObject string
  | PostObject string bool
  | GetRepo repo_query
  | PostRepo repo_query bytes

definition some_response :: "('s, response) srv_io \<Rightarrow> ('s, response option) srv_io" where
  "some_response m = io_bind m (\<lambda>r. io_return (Some r))"

definition repo_dispatch :: "server_lib \<Rightarrow> 's server_os \<Rightarrow> nat \<Rightarrow> repo_query \<Rightarrow> ('s, response option) srv_io" where
  "repo_dispatch lib os depth q =
     (if rq_stats q then repo_stats os depth
      else if rq_verify_structure q
      then (\<lambda>(s, st). case check_structure lib os s of
              (b, s') \<Rightarrow> (Inr (Some \<lparr>rs_status = 200, rs_headers = [], rs_body = b\<rparr>), (s', st)))
      else if rq_list q then repo_list_all lib os depth
      else io_fail (BadRequest ''missing query parameter (stats, verify-structure, list)''))"

definition repo_action_dispatch ::
  "server_lib \<Rightarrow> (bytes \<Rightarrow> (io_error + bytes) list) \<Rightarrow> 's server_os \<Rightarrow> repo_query \<Rightarrow> bytes \<Rightarrow> ('s, response) srv_io" where
  "repo_action_dispatch lib pieces os q body =
     (if rq_init q then repo_init lib os
      else if rq_batch_delete q then batch_delete lib os body (rq_cleanup_dirs q)
      else if rq_repack q then repack lib os body
      else if rq_verify_packs q then verify_packs lib pieces os body
      else io_fail (BadRequest ''missing query parameter (init, batch-delete, repack, verify-packs)''))"

fun dispatch ::
  "server_lib \<Rightarrow> (bytes \<Rightarrow> (io_error + bytes) list) \<Rightarrow> 's server_os \<Rightarrow> nat \<Rightarrow> server_request \<Rightarrow>
   ('s, response option) srv_io" where
  "dispatch lib pieces os depth (GetObject key listing range_hdr) = get_or_list lib os depth key listing range_hdr"
| "dispatch lib pieces os depth (HeadObject key) = some_response (head_object lib os key)"
| "dispatch lib pieces os depth (PutObject key h body) = some_response (put_object lib os key h body)"
| "dispatch lib pieces os depth (DeleteObject key) = some_response (delete_object lib os key)"
| "dispatch lib pieces os depth (PostObject key mkdir) = some_response (post_object lib os key mkdir)"
| "dispatch lib pieces os depth (GetRepo q) = repo_dispatch lib os depth q"
| "dispatch lib pieces os depth (PostRepo q body) = some_response (repo_action_dispatch lib pieces os q body)"

text \<open>The router behind the token check, with errors turned into responses.\<close>

definition serve ::
  "server_lib \<Rightarrow> (bytes \<Rightarrow> (io_error + bytes) list) \<Rightarrow> 's server_os \<Rightarrow> nat \<Rightarrow> string option \<Rightarrow> server_request \<Rightarrow>
   's \<times> app_state \<Rightarrow> response option \<times> ('s \<times> app_state)" where
  "serve lib pieces os depth auth req x =
     (let provided = (case Option.bind auth (\<lambda>v. strip_prefix_str v ''Bearer '') of None \<Rightarrow> [] | Some t \<Rightarrow> t) in
      if provided = as_token (snd x)
      then (case dispatch lib pieces os depth req x of
              (Inr resp, y) \<Rightarrow> (resp, y)
            | (Inl e, y) \<Rightarrow>
                (case error_status e of
                   (code, msg) \<Rightarrow> (Some \<lparr>rs_status = code, rs_headers = [], rs_body = TextBody msg\<rparr>, y)))
      else (Some \<lparr>rs_status = 401, rs_headers = [(''Connection'', ''close''), (''WWW-Authenticate'', ''Bearer'')],
                  rs_body = TextBody ''invalid or missing token''\<rparr>, x))"

fun serve_all ::
  "server_lib \<Rightarrow> (bytes \<Rightarrow> (io_error + bytes) list) \<Rightarrow> 's server_os \<Rightarrow> nat \<Rightarrow>
   (string option \<times> server_request) list \<Rightarrow> 's \<times> app_state \<Rightarrow> response option list \<times> ('s \<times> app_state)" where
  "serve_all lib pieces os depth [] x = ([], x)"
| "serve_all lib pieces os depth ((auth, req) # reqs) x =
     (case serve lib pieces os depth auth req x of
        (resp, y) \<Rightarrow> (case serve_all lib pieces os depth reqs y of (resps, z) \<Rightarrow> (resp # resps, z)))"

section \<open>Streaming verification against the pack scanner\<close>

text \<open>The pieces of a file: every read before the end delivers something.\<close>

definition file_pieces :: "(io_error + bytes) list \<Rightarrow> bytes \<Rightarrow> bool" where
  "file_pieces cs d \<longleftrightarrow> (\<exists>bs. cs = map Inr bs \<and> [] \<notin> set bs \<and> concat bs = d)"

definition rd_rest :: "reader \<Rightarrow> bytes \<Rightarrow> bool" where
  "rd_rest rd d \<longleftrightarrow> (\<exists>d'. file_pieces (snd rd) d' \<and> fst rd @ d' = d)"

lemma file_pieces_Nil [simp]: "file_pieces [] d \<longleftrightarrow> d = []"
  by (auto simp: file_pieces_def)

lemma file_pieces_Cons:
  "file_pieces (c # cs) d \<longleftrightarrow> (\<exists>b d'. c = Inr b \<and> b \<noteq> [] \<and> file_pieces cs d' \<and> d = b @ d')"
proof
  assume "file_pieces (c # cs) d"
  then obtain b bs where "c = Inr b" "cs = map Inr bs" "[] \<notin> set (b # bs)" "d = b @ concat bs"
    by (auto simp: file_pieces_def Cons_eq_map_conv)
  then show "\<exists>b d'. c = Inr b \<and> b \<noteq> [] \<and> file_pieces cs d' \<and> d = b @ d'"
    by (auto simp: file_pieces_def)
next
  assume "\<exists>b d'. c = Inr b \<and> b \<noteq> [] \<and> file_pieces cs d' \<and> d = b @ d'"
  then obtain b bs where "c = Inr b" "b \<noteq> []" "cs = map Inr bs" "[] \<notin> set bs" "d = b @ concat bs"
    by (auto simp: file_pieces_def)
  then show "file_pieces (c # cs) d" unfolding file_pieces_def by (intro exI [of _ "b # bs"]) auto
qed

lemma read_exact_spec:
  "file_pieces cs d \<Longrightarrow> \<exists>rd. read_exact_hashed n b cs = Inr (take n (b @ d), rd) \<and> rd_rest rd (drop n (b @ d))"
proof (induction n b cs arbitrary: d rule: read_exact_hashed.induct)
  case (1 n b cs)
  show ?case
  proof (cases "n = 0 \<or> b \<noteq> [] \<and> n \<le> length b")
    case True
    then show ?thesis
      using "1.prems" by (subst read_exact_hashed.simps) (auto simp: rd_rest_def)
  next
    case False
    show ?thesis
    proof (cases "b = []")
      case bF: False
      then have "n > length b" using False by simp
      have "\<exists>rd. read_exact_hashed (n - length b) [] cs = Inr (take (n - length b) ([] @ d), rd)
          \<and> rd_rest rd (drop (n - length b) ([] @ d))"
        using False bF "1.prems" by (intro "1.IH") auto
      then obtain rd where "read_exact_hashed (n - length b) [] cs = Inr (take (n - length b) d, rd)"
        "rd_rest rd (drop (n - length b) d)" by auto
      then show ?thesis using False bF by (subst read_exact_hashed.simps) auto
    next
      case bT: True
      show ?thesis
      proof (cases cs)
        case Nil
        then show ?thesis using bT "1.prems" by (subst read_exact_hashed.simps) (auto simp: rd_rest_def)
      next
        case (Cons c cs')
        then obtain x d' where c: "c = Inr x" "x \<noteq> []" "file_pieces cs' d'" "d = x @ d'"
          using "1.prems" by (auto simp: file_pieces_Cons)
        have "\<exists>rd. read_exact_hashed n x cs' = Inr (take n (x @ d'), rd) \<and> rd_rest rd (drop n (x @ d'))"
          using False bT Cons c by (intro "1.IH"(2)) auto
        then show ?thesis using False bT Cons c by (subst read_exact_hashed.simps) auto
      qed
    qed
  qed
qed

lemma read_exact_rest:
  assumes "rd_rest rd d"
  obtains rd' where "read_exact_hashed n (fst rd) (snd rd) = Inr (take n d, rd')" and "rd_rest rd' (drop n d)"
  using assms read_exact_spec by (metis rd_rest_def)

lemma skip_blob_spec:
  "rd_rest rd d \<Longrightarrow> \<exists>rd'. skip_blob n rd h = Inr (n \<le> length d, rd', h @ take n d) \<and> rd_rest rd' (drop n d)"
proof (induction n rd h arbitrary: d rule: skip_blob.induct)
  case (1 n rd h)
  show ?case
  proof (cases "n = 0")
    case True
    then show ?thesis using "1.prems" by (subst skip_blob.simps) auto
  next
    case False
    let ?k = "min n 8192"
    obtain rd' where rd': "read_exact_hashed ?k (fst rd) (snd rd) = Inr (take ?k d, rd')"
      "rd_rest rd' (drop ?k d)" by (rule read_exact_rest [OF "1.prems"])
    show ?thesis
    proof (cases "d = []")
      case True
      then show ?thesis using False rd' by (subst skip_blob.simps) auto
    next
      case dF: False
      then have ne: "take ?k d \<noteq> []" using False by simp
      let ?n = "n - length (take ?k d)"
      have "\<exists>rd''. skip_blob ?n rd' (h @ take ?k d) = Inr (?n \<le> length (drop ?k d), rd'', (h @ take ?k d) @ take ?n (drop ?k d))
          \<and> rd_rest rd'' (drop ?n (drop ?k d))"
        by (rule "1.IH" [OF False rd'(1) refl ne rd'(2)])
      moreover have "(?n \<le> length (drop ?k d)) = (n \<le> length d)" by auto
      moreover have "take ?k d @ take ?n (drop ?k d) = take n d"
        by (cases "?k \<le> length d") (auto simp: min_def take_add [symmetric] split: if_splits)
      moreover have "drop ?n (drop ?k d) = drop n d"
        by (cases "?k \<le> length d") auto
      ultimately show ?thesis using False ne rd'(1) by (subst skip_blob.simps) auto
    qed
  qed
qed

lemma drain_spec: "file_pieces cs d \<Longrightarrow> drain b cs = (b @ d, None)"
  by (induction b cs arbitrary: d rule: drain.induct) (auto simp: file_pieces_Cons)

text \<open>The blobs of a scan, as positions in the file.\<close>

definition blob_positions :: "(u64 \<times> u32) list \<Rightarrow> (nat \<times> nat) set" where
  "blob_positions blobs = (\<lambda>(off, len). (unat off, unat len)) ` set blobs"

lemma removeAll_filter: "filter (\<lambda>x. x \<notin> A) (removeAll a xs) = filter (\<lambda>x. x \<notin> insert a A) xs"
  by (induction xs) auto

lemma verify_scan_spec:
  fixes d :: bytes
  assumes "length d < 2 ^ 64" and "rd_rest rd (drop pos d)" and "pos \<le> length d"
    and "scan_loop d pos = (blobs, pos')"
  shows "\<exists>rem' rd' h' r. verify_scan (length d) pos rem rd h = Inr (pos' = length d, rem', rd', h') \<and>
    (pos' = length d \<longrightarrow> rem' = filter (\<lambda>x. x \<notin> blob_positions blobs) rem \<and> r = []) \<and>
    rd_rest rd' r \<and> h' @ r = h @ drop pos d"
  using assms(2-4)
proof (induction "length d - pos" arbitrary: pos rem rd h blobs pos' rule: less_induct)
  case less
  note prems = less.prems
  show ?case
  proof (cases "pos + 4 \<le> length d")
    case False
    then have "blobs = []" "pos' = pos" using prems(3) by (subst (asm) scan_loop.simps, simp)+
    then show ?thesis
      using False prems(1,2) by (subst verify_scan.simps) (auto simp: blob_positions_def)
  next
    case True
    let ?buf = "take 4 (drop pos d)" and ?len = "unat (u32_from_le_bytes (take 4 (drop pos d)))"
    obtain rd1 where rd1: "read_exact_hashed 4 (fst rd) (snd rd) = Inr (?buf, rd1)"
      "rd_rest rd1 (drop (pos + 4) d)"
      by (rule read_exact_rest [OF prems(1), of 4]) (simp add: add.commute)
    have buf: "length ?buf = 4" using True by simp
    have split_back: "?buf @ drop (pos + 4) d = drop pos d"
      using append_take_drop_id [of 4 "drop pos d"] by (simp add: add.commute)
    show ?thesis
    proof (cases "pos + 4 + ?len > length d")
      case big: True
      then have "blobs = []" "pos' = pos" using prems(3) True by (subst (asm) scan_loop.simps, simp add: Let_def)+
      then show ?thesis
        using True big rd1 buf split_back by (subst verify_scan.simps) (auto simp: Let_def)
    next
      case fits: False
      let ?pos = "pos + (4 + ?len)"
      obtain blobs1 where sl: "scan_loop d ?pos = (blobs1, pos')"
        and blobs: "blobs = (of_nat (pos + 4), u32_from_le_bytes ?buf) # blobs1"
        using prems(3) True fits by (subst (asm) scan_loop.simps) (auto simp: Let_def split: prod.splits)
      obtain rd2 where rd2: "skip_blob ?len rd1 (h @ ?buf)
          = Inr (?len \<le> length (drop (pos + 4) d), rd2, (h @ ?buf) @ take ?len (drop (pos + 4) d))"
        "rd_rest rd2 (drop ?len (drop (pos + 4) d))"
        using skip_blob_spec [OF rd1(2)] by blast
      have ok: "?len \<le> length (drop (pos + 4) d)" using fits by simp
      have rest: "drop ?len (drop (pos + 4) d) = drop ?pos d" by (simp add: ac_simps)
      let ?h = "(h @ ?buf) @ take ?len (drop (pos + 4) d)" and ?rem = "removeAll (pos + 4, ?len) rem"
      have "\<exists>rem' rd' h' r. verify_scan (length d) ?pos ?rem rd2 ?h = Inr (pos' = length d, rem', rd', h') \<and>
        (pos' = length d \<longrightarrow> rem' = filter (\<lambda>x. x \<notin> blob_positions blobs1) ?rem \<and> r = []) \<and>
        rd_rest rd' r \<and> h' @ r = ?h @ drop ?pos d"
        using True fits rd2(2) rest sl by (intro less.hyps) auto
      moreover have "?h @ drop ?pos d = h @ drop pos d"
        unfolding rest [symmetric] append.assoc append_take_drop_id split_back by (rule refl)
      moreover have "verify_scan (length d) pos rem rd h = verify_scan (length d) ?pos ?rem rd2 ?h"
        using True fits rd1(1) buf rd2(1) ok by (subst verify_scan.simps) (simp add: Let_def add.assoc)
      moreover have "filter (\<lambda>x. x \<notin> blob_positions blobs1) ?rem = filter (\<lambda>x. x \<notin> blob_positions blobs) rem"
      proof -
        have "unat (of_nat (pos + 4) :: u64) = pos + 4" using True assms(1) by (intro unat_of_nat_u64) simp
        then have "blob_positions blobs = insert (pos + 4, ?len) (blob_positions blobs1)"
          by (simp only: blobs blob_positions_def list.set image_insert prod.case)
        then show ?thesis unfolding removeAll_filter by simp
      qed
      ultimately show ?thesis by simp
    qed
  qed
qed

definition header_ok :: "bytes \<Rightarrow> bool" where
  "header_ok d \<longleftrightarrow> 9 \<le> length d \<and> take 8 d = PACK_MAGIC \<and> PACK_VERSION_MIN \<le> d ! 8 \<and> d ! 8 \<le> PACK_VERSION_MAX"

definition expected_positions :: "verify_pack_request \<Rightarrow> (nat \<times> nat) set" where
  "expected_positions entry = (\<lambda>b. (unat (vb_offset b), unat (vb_length b))) ` set (vp_expected_blobs entry)"

lemma scan_accepts_header:
  "scan_pack_blobs_bytes d = Inr blobs \<longleftrightarrow> header_ok d \<and> scan_loop d PACK_HEADER_SIZE = (blobs, length d)"
  by (auto simp: scan_pack_blobs_bytes_def header_ok_def PACK_HEADER_SIZE_def not_less
      split: if_splits prod.splits)

lemma filter_empty_iff: "filter (\<lambda>x. x \<notin> A) (remdups xs) = [] \<longleftrightarrow> set xs \<subseteq> A"
  by (auto simp: filter_empty_conv)

text \<open>C39: Streaming verification agrees with the scanner of the client: however the file is cut
  into reads, the server reports the hash as valid exactly when the name of the pack is the hash of
  its bytes, the header as valid exactly when the client accepts it, and the blobs as valid exactly
  when the scanner accepts the pack and finds every expected blob.\<close>

theorem verify_stream_matches_scan:
  assumes "file_pieces cs d" and "length d < 2 ^ 64" and r: "verify_pack_from_reader lib cs (length d) entry = r"
  shows "(vr_hash_valid r \<longleftrightarrow> hex_encode (sl_hex lib) (blake2b_256 (sl_b2 lib) d) = last_segment (vp_pack_key entry)) \<and>
    (vr_header_valid r \<longleftrightarrow> header_ok d) \<and>
    (vr_blobs_valid r \<longleftrightarrow> (\<exists>blobs. scan_pack_blobs_bytes d = Inr blobs \<and>
       expected_positions entry \<subseteq> blob_positions blobs)) \<and>
    (vr_error r = None \<longleftrightarrow> vr_hash_valid r \<and> vr_blobs_valid r)"
proof -
  let ?exp = "remdups (map (\<lambda>b. (unat (vb_offset b), unat (vb_length b))) (vp_expected_blobs entry))"
  obtain rd where rd: "read_exact_hashed 9 [] cs = Inr (take 9 d, rd)" "rd_rest rd (drop 9 d)"
    using read_exact_spec [OF assms(1), of 9 "[]"] by auto
  have hv: "(length (take 9 d) = 9 \<and> take 8 (take 9 d) = PACK_MAGIC \<and> PACK_VERSION_MIN \<le> take 9 d ! 8
      \<and> take 9 d ! 8 \<le> PACK_VERSION_MAX) \<longleftrightarrow> header_ok d"
    by (auto simp: header_ok_def min_def split: if_splits)
  show ?thesis
  proof (cases "header_ok d")
    case False
    obtain d' where d': "file_pieces (snd rd) d'" "fst rd @ d' = drop 9 d" using rd(2) by (auto simp: rd_rest_def)
    have "vr_hash_valid r \<longleftrightarrow> hex_encode (sl_hex lib) (blake2b_256 (sl_b2 lib) d) = last_segment (vp_pack_key entry)"
      and "\<not> vr_header_valid r" and "\<not> vr_blobs_valid r" and "vr_error r \<noteq> None"
      unfolding r [symmetric] verify_pack_from_reader_def Let_def rd(1) sum.case prod.case hv
      using False d' by (simp_all add: drain_spec)
    then show ?thesis using False by (simp add: scan_accepts_header)
  next
    case True
    then have len: "9 \<le> length d" by (simp add: header_ok_def)
    obtain blobs pos' where sl: "scan_loop d PACK_HEADER_SIZE = (blobs, pos')" by fastforce
    obtain rem' rd' h' ex where sc: "verify_scan (length d) PACK_HEADER_SIZE ?exp rd (take 9 d)
        = Inr (pos' = length d, rem', rd', h')"
      and sc2: "pos' = length d \<longrightarrow> rem' = filter (\<lambda>x. x \<notin> blob_positions blobs) ?exp \<and> ex = []"
        "rd_rest rd' ex" "h' @ ex = take 9 d @ drop 9 d"
      using verify_scan_spec [OF assms(2), of rd PACK_HEADER_SIZE blobs pos' ?exp "take 9 d"] rd(2) len sl
      by (auto simp: PACK_HEADER_SIZE_def)
    obtain d' where d': "file_pieces (snd rd') d'" "fst rd' @ d' = ex" using sc2(2) by (auto simp: rd_rest_def)
    let ?bv = "pos' = length d \<and> rem' = []"
    have dr: "drain (fst rd') (snd rd') = (ex, None)" using drain_spec [OF d'(1)] d'(2) by simp
    have all: "h' @ ex = d" using sc2(3) by simp
    have exn: "pos' = length d \<longrightarrow> ex = []" using sc2(1) by blast
    have "vr_hash_valid r \<longleftrightarrow> hex_encode (sl_hex lib) (blake2b_256 (sl_b2 lib) d) = last_segment (vp_pack_key entry)"
      and "vr_header_valid r" and "vr_blobs_valid r \<longleftrightarrow> ?bv"
      and "vr_error r = None \<longleftrightarrow> vr_hash_valid r \<and> vr_blobs_valid r"
      unfolding r [symmetric] verify_pack_from_reader_def Let_def rd(1) sum.case prod.case hv if_P [OF True] sc
        rbind_simps eqTrueI [OF True]
      using exn by (simp_all add: dr all) auto
    moreover have "?bv \<longleftrightarrow> (\<exists>blobs. scan_pack_blobs_bytes d = Inr blobs \<and> expected_positions entry \<subseteq> blob_positions blobs)"
    proof -
      have e: "filter (\<lambda>x. x \<notin> blob_positions blobs) ?exp = [] \<longleftrightarrow> expected_positions entry \<subseteq> blob_positions blobs"
        unfolding filter_empty_iff by (simp add: expected_positions_def)
      have "rem' = [] \<longleftrightarrow> expected_positions entry \<subseteq> blob_positions blobs" if "pos' = length d"
        unfolding e [symmetric] conjunct1 [OF mp [OF sc2(1) that]] by (rule refl)
      then have "?bv \<longleftrightarrow> pos' = length d \<and> expected_positions entry \<subseteq> blob_positions blobs" by blast
      then show ?thesis using True sl by (simp add: scan_accepts_header conj_commute)
    qed
    ultimately show ?thesis using True by simp
  qed
qed

definition wit_pack_bytes :: bytes where
  "wit_pack_bytes = PACK_MAGIC @ [PACK_VERSION_CURRENT, 2, 0, 0, 0, 7, 8]"

definition wit_verify_entry :: verify_pack_request where
  "wit_verify_entry = \<lparr>vp_pack_key = ''packs/56/00'', vp_expected_size = 15,
     vp_expected_blobs = [\<lparr>vb_offset = 13, vb_length = 2\<rparr>]\<rparr>"

theorem verify_stream_matches_scan_witness:
  "\<exists>blobs. scan_pack_blobs_bytes wit_pack_bytes = Inr blobs \<and>
     expected_positions wit_verify_entry \<subseteq> blob_positions blobs"
proof -
  let ?cs = "[Inr (take 11 wit_pack_bytes), Inr (drop 11 wit_pack_bytes)]"
  have "file_pieces ?cs wit_pack_bytes"
    unfolding file_pieces_def
    by (rule exI [of _ "[take 11 wit_pack_bytes, drop 11 wit_pack_bytes]"])
      (simp add: wit_pack_bytes_def PACK_MAGIC_def)
  moreover have "length wit_pack_bytes < 2 ^ 64" by (simp add: wit_pack_bytes_def)
  moreover have "vr_blobs_valid (verify_pack_from_reader wit_server_lib ?cs (length wit_pack_bytes) wit_verify_entry)"
    by code_simp
  ultimately show ?thesis using verify_stream_matches_scan [OF _ _ refl] by blast
qed

section \<open>Repacking keeps the blobs\<close>

lemma internal_os_Inr:
  "internal_os lib what m (s, st) = (Inr a, (s', st')) \<longleftrightarrow> st' = st \<and> m s = (Inr a, s')"
  by (auto simp: internal_os_def io_bind_def try_os_def io_return_def io_fail_def split: prod.splits sum.splits)

lemma internal_os_run:
  "internal_os lib what m (s, st) = (r, (s', st')) \<Longrightarrow> st' = st \<and> (\<exists>q. m s = (q, s'))"
  by (auto simp: internal_os_def io_bind_def try_os_def io_return_def io_fail_def split: prod.splits sum.splits)

lemma unat_ucast_u32: "unat (ucast (w :: u32) :: u64) = unat w"
  using unsigned_less [of w, where 'a = nat] by (simp add: unsigned_ucast_eq take_bit_eq_mod)

lemma read_keep_blob_Inr:
  assumes "read_keep_blob source b = Inr x"
  shows "x = take (unat (rb_length b)) (drop (unat (rb_offset b)) source)"
    and "length x = unat (rb_length b)" and "unat (rb_length b) < 2 ^ 32"
proof -
  obtain end' p where e: "checked_add_u64 (rb_offset b) (rb_length b) = Some end'" "unat end' \<le> length source"
    and len: "ucast (u32_from_le_bytes (take 4 (drop p source))) = rb_length b"
    and x: "x = take (unat (rb_length b)) (drop (unat (rb_offset b)) source)"
    using assms that unfolding read_keep_blob_def Let_def
    by (simp split: if_splits option.splits)
  show "x = take (unat (rb_length b)) (drop (unat (rb_offset b)) source)" by (rule x)
  have "unat (rb_offset b) + unat (rb_length b) \<le> length source"
    using e by (auto simp: checked_add_u64_def unat_word_ariths split: if_splits)
  then show "length x = unat (rb_length b)" by (simp add: x)
  show "unat (rb_length b) < 2 ^ 32"
    unfolding len [symmetric] unat_ucast_u32 using unsigned_less [of "u32_from_le_bytes (take 4 (drop p source))"]
    by simp
qed

lemma ucast_u32_of_nat: "ucast (of_nat n :: u64) = (of_nat n :: u32)"
  by (simp add: unsigned_of_nat word_of_nat_eq_iff)

context fs_contract
begin

lemma write_and_hash_Inr:
  assumes "write_and_hash lib os what temp h d (s, st) = (Inr h', (s', st'))" and "files s temp = Some h"
  shows "h' = h @ d \<and> st' = st \<and> files s' = (files s)(temp \<mapsto> h')"
  using assms write_ok
  by (auto simp: write_and_hash_def io_bind_Inr_iff internal_os_Inr io_return_def)

lemma copy_blobs_Inr:
  assumes "copy_blobs lib os temp source keep (of_nat k) offs h (s, st) = (Inr (off', offs', h'), (s', st'))"
    and "files s temp = Some h"
  shows "\<exists>blobs. map (read_keep_blob source) keep = map Inr blobs \<and> st' = st \<and>
    h' = h @ concat (map blob_frame blobs) \<and> offs' = offs @ map fst (blob_locs k blobs) \<and>
    off' = of_nat (k + length (concat (map blob_frame blobs))) \<and> files s' = (files s)(temp \<mapsto> h')"
  using assms
proof (induction keep arbitrary: k offs h s)
  case Nil
  then show ?case by (auto simp: io_return_def)
next
  case (Cons b keep)
  obtain x where x: "read_keep_blob source b = Inr x"
    using Cons.prems(1) by (cases "read_keep_blob source b") (auto simp: io_fail_def)
  note rk = read_keep_blob_Inr [OF x]
  obtain h1 s1 st1 h2 s2 st2 where
    w1: "write_and_hash lib os ''write len'' temp h (u32_to_le_bytes (ucast (rb_length b))) (s, st) = (Inr h1, (s1, st1))"
    and w2: "write_and_hash lib os ''write blob'' temp h1 x (s1, st1) = (Inr h2, (s2, st2))"
    and rest: "copy_blobs lib os temp source keep (of_nat k + (4 + rb_length b)) (offs @ [of_nat k + 4]) h2 (s2, st2)
      = (Inr (off', offs', h'), (s', st'))"
    using Cons.prems(1) x by (fastforce simp: io_bind_Inr_iff)
  note f1 = write_and_hash_Inr [OF w1 Cons.prems(2)]
  have f2: "h2 = h1 @ x \<and> st2 = st1 \<and> files s2 = (files s1)(temp \<mapsto> h2)"
    using write_and_hash_Inr [OF w2] f1 by simp
  have len: "rb_length b = of_nat (length x)" by (simp add: rk(2))
  have frame: "u32_to_le_bytes (ucast (rb_length b)) @ x = blob_frame x"
    by (simp add: blob_frame_def len ucast_u32_of_nat)
  have "of_nat k + (4 + rb_length b) = (of_nat (k + (4 + length x)) :: u64)" by (simp add: len)
  moreover have st2: "st2 = st" using f1 f2 by simp
  ultimately have rest': "copy_blobs lib os temp source keep (of_nat (k + (4 + length x))) (offs @ [of_nat k + 4]) h2 (s2, st)
      = (Inr (off', offs', h'), (s', st'))" using rest by simp
  have "files s2 temp = Some h2" using f2 by simp
  from Cons.IH [OF rest' this] obtain blobs where
    ih: "map (read_keep_blob source) keep = map Inr blobs" "st' = st" "h' = h2 @ concat (map blob_frame blobs)"
      "offs' = (offs @ [of_nat k + 4]) @ map fst (blob_locs (k + (4 + length x)) blobs)"
      "off' = of_nat (k + (4 + length x) + length (concat (map blob_frame blobs)))"
      "files s' = (files s2)(temp \<mapsto> h')" by blast
  show ?case
    by (rule exI [of _ "x # blobs"]) (use ih f1 f2 x frame in \<open>simp add: add.assoc\<close>)
qed

lemma write_new_pack_Inr:
  assumes "write_new_pack lib os temp source keep (s, st) = (Inr (off', offs', h'), (s', st'))"
    and "files s temp = Some []"
  shows "\<exists>blobs. map (read_keep_blob source) keep = map Inr blobs \<and> st' = st \<and> h' = pack_image blobs \<and>
    offs' = map fst (blob_locs PACK_HEADER_SIZE blobs) \<and> off' = of_nat (length (pack_image blobs)) \<and>
    files s' = (files s)(temp \<mapsto> h')"
proof -
  obtain h1 s1 st1 h2 s2 st2 where
    w1: "write_and_hash lib os ''write header'' temp [] PACK_MAGIC (s, st) = (Inr h1, (s1, st1))"
    and w2: "write_and_hash lib os ''write version'' temp h1 [PACK_VERSION_CURRENT] (s1, st1) = (Inr h2, (s2, st2))"
    and rest: "copy_blobs lib os temp source keep (of_nat PACK_HEADER_SIZE) [] h2 (s2, st2)
      = (Inr (off', offs', h'), (s', st'))"
    using assms(1) by (fastforce simp: write_new_pack_def io_bind_Inr_iff)
  note f1 = write_and_hash_Inr [OF w1 assms(2)]
  have f2: "h2 = h1 @ [PACK_VERSION_CURRENT] \<and> st2 = st1 \<and> files s2 = (files s1)(temp \<mapsto> h2)"
    using write_and_hash_Inr [OF w2] f1 by simp
  from copy_blobs_Inr [OF rest] f1 f2 show ?thesis
    by (auto simp: pack_image_def PACK_HEADER_SIZE_def)
qed

end

context fs_contract
begin

lemma delete_source_run:
  assumes "delete_source os p (s, st) = (r, (s', st'))"
  shows "r = Inr () \<and> (\<forall>q. q \<noteq> p \<longrightarrow> files s' q = files s q) \<and> as_append_only st' = as_append_only st"
proof -
  obtain m s1 where m: "os_metadata os p s = (m, s1)" by fastforce
  obtain q s2 where q: "os_remove_file os p s1 = (q, s2)" by fastforce
  show ?thesis
    using assms m q metadata_frame [OF m] remove_frame [OF q]
    by (auto simp: delete_source_def io_bind_def try_os_def modify_app_def sub_quota_usage_def)
qed

lemma place_new_pack_Inr:
  assumes "place_new_pack lib os temp h (s, st) = (Inr key, (s', st'))"
  shows "key = repacked_key lib h \<and> st' = st \<and> files s' = (files s)(temp := None, key_path key := files s temp)"
proof -
  obtain p s1 where fp: "file_path os s (repacked_key lib h) = Some p"
    and mk: "os_create_dir_all os (butlast p) s = (Inr (), s1)"
    and rn: "os_rename os temp p s1 = (Inr (), s')" and key: "key = repacked_key lib h" and st: "st' = st"
    using assms unfolding place_new_pack_def Let_def
    by (fastforce simp: io_bind_Inr_iff or_remove_Inr_iff internal_os_Inr io_return_def ok_or_def
        split: option.splits)
  have "p = key_path key" using fp key by (simp add: file_path_def split: if_splits)
  then show ?thesis using key st create_dir_frame [OF mk] rename_ok [OF rn] by simp
qed

lemma write_repacked_Inr:
  assumes "write_repacked lib os temp source keep (s, st) = (Inr (key, offs, n), (s', st'))"
  shows "\<exists>blobs. map (read_keep_blob source) keep = map Inr blobs \<and> key = repacked_key lib (pack_image blobs) \<and>
    offs = map fst (blob_locs PACK_HEADER_SIZE blobs) \<and> n = of_nat (length (pack_image blobs)) \<and> st' = st \<and>
    files s' = (files s)(temp := None, key_path key \<mapsto> pack_image blobs)"
proof -
  obtain s1 h s2 st2 where cr: "os_create os temp s = (Inr (), s1)"
    and wr: "write_new_pack lib os temp source keep (s1, st) = (Inr (n, offs, h), (s2, st2))"
    and pl: "place_new_pack lib os temp h (s2, st2) = (Inr key, (s', st'))"
    using assms
    by (fastforce simp: write_repacked_def io_bind_Inr_iff or_remove_Inr_iff internal_os_Inr io_return_def)
  have "files s1 temp = Some []" using create_ok [OF cr] by simp
  from write_new_pack_Inr [OF wr this] place_new_pack_Inr [OF pl] create_ok [OF cr]
  show ?thesis by auto
qed

lemma repack_keep_Inr:
  assumes "repack_keep lib os p op (s, st) = (Inr (key, offs, n), (s', st'))"
  shows "\<exists>source blobs temp. files s p = Some source \<and>
    map (read_keep_blob source) (ro_keep_blobs op) = map Inr blobs \<and> key = repacked_key lib (pack_image blobs) \<and>
    offs = map fst (blob_locs PACK_HEADER_SIZE blobs) \<and> n = of_nat (length (pack_image blobs)) \<and>
    as_append_only st' = as_append_only st \<and> temp_named temp \<and>
    files s' = (files s)(temp := None, key_path key \<mapsto> pack_image blobs)"
proof -
  let ?temp = "with_file_name p (''.repack_tmp.'' @ show_nat (unat (as_repack_temp_counter st)))"
  obtain source s1 where rd: "os_read os p s = (Inr source, s1)"
    and wr: "write_repacked lib os ?temp source (ro_keep_blobs op)
      (s1, st\<lparr>as_repack_temp_counter := as_repack_temp_counter st + 1\<rparr>) = (Inr (key, offs, n), (s', st'))"
    using assms by (auto simp: repack_keep_def io_bind_Inr_iff internal_os_Inr next_repack_temp_def)
  have "temp_named ?temp" by (auto simp: temp_named_def with_file_name_def starts_with_def)
  with write_repacked_Inr [OF wr] read_ok [OF rd] read_frame [OF rd] show ?thesis by fastforce
qed

lemma repack_op_Inr:
  assumes "repack_op lib os op (s, st) = (Inr res, (s', st'))" and "ro_keep_blobs op \<noteq> []"
  obtains source blobs temp where "files s (key_path (ro_source_pack op)) = Some source"
    and "map (read_keep_blob source) (ro_keep_blobs op) = map Inr blobs"
    and "rr_new_pack res = Some (repacked_key lib (pack_image blobs))"
    and "rr_new_offsets res = map fst (blob_locs PACK_HEADER_SIZE blobs)" and "temp_named temp"
    and "\<forall>q. \<not> (ro_delete_after op \<and> q = key_path (ro_source_pack op)) \<longrightarrow> files s' q =
      ((files s)(temp := None, key_path (repacked_key lib (pack_image blobs)) \<mapsto> pack_image blobs)) q"
    and "as_append_only st' = as_append_only st"
proof -
  let ?p = "key_path (ro_source_pack op)"
  have fp: "file_path os s (ro_source_pack op) = Some ?p"
    using assms(1) by (cases "file_path os s (ro_source_pack op)")
      (auto simp: repack_op_def io_bind_def file_path_def split: if_splits)
  obtain key offs n s1 st1 where kp: "repack_keep lib os ?p op (s, st) = (Inr (key, offs, n), (s1, st1))"
    and dl: "(if ro_delete_after op then delete_source os ?p else io_return ()) (s1, add_quota_usage n st1)
      = (Inr (), (s', st'))"
    and res: "rr_new_pack res = Some key" "rr_new_offsets res = offs"
    using assms fp
    by (fastforce simp: repack_op_def io_bind_Inr_iff modify_app_iff io_return_def)
  from repack_keep_Inr [OF kp] obtain source blobs temp where k: "files s ?p = Some source"
    "map (read_keep_blob source) (ro_keep_blobs op) = map Inr blobs" "key = repacked_key lib (pack_image blobs)"
    "offs = map fst (blob_locs PACK_HEADER_SIZE blobs)" "as_append_only st1 = as_append_only st" "temp_named temp"
    "files s1 = (files s)(temp := None, key_path key \<mapsto> pack_image blobs)" by blast
  have "as_append_only st' = as_append_only st \<and> (if ro_delete_after op
      then \<forall>q. q \<noteq> ?p \<longrightarrow> files s' q = files s1 q else files s' = files s1)"
    using dl delete_source_run [of ?p s1 "add_quota_usage n st1"] k(5)
    by (auto simp: io_return_def add_quota_usage_def split: if_splits)
  then have "\<forall>q. \<not> (ro_delete_after op \<and> q = ?p) \<longrightarrow> files s' q = files s1 q" "as_append_only st' = as_append_only st"
    by (auto split: if_splits)
  then show ?thesis using that [OF k(1,2) _ _ k(6)] k res by simp
qed

end

lemma length_pack_image: "length (pack_image bs) = 9 + sum_list (map (\<lambda>b. 4 + length b) bs)"
  by (simp add: pack_image_def length_concat comp_def)

lemma kept_blobs:
  assumes "map (read_keep_blob source) keep = map Inr blobs" and "length keep \<le> MAX_KEEP_BLOBS_PER_OP"
  shows "scan_pack_blobs_bytes (pack_image blobs) = Inr (blob_locs PACK_HEADER_SIZE blobs)"
    and "list_all2 (\<lambda>b off. take (unat (rb_length b)) (drop (unat off) (pack_image blobs))
        = take (unat (rb_length b)) (drop (unat (rb_offset b)) source))
      keep (map fst (blob_locs PACK_HEADER_SIZE blobs))"
proof -
  have all: "list_all2 (\<lambda>b x. read_keep_blob source b = Inr x) keep blobs"
    using assms(1) by (simp add: list_all2_conv_all_nth list_eq_iff_nth_eq)
  then have small: "length x < 2 ^ 32" if x: "x \<in> set blobs" for x
  proof -
    obtain i where i: "i < length blobs" "x = blobs ! i" using x by (auto simp: in_set_conv_nth)
    then have "read_keep_blob source (keep ! i) = Inr x"
      using all by (simp add: list_all2_conv_all_nth)
    then show ?thesis using read_keep_blob_Inr(2,3) by simp
  qed
  then show "scan_pack_blobs_bytes (pack_image blobs) = Inr (blob_locs PACK_HEADER_SIZE blobs)"
    by (intro scan_pack_image) blast
  have "sum_list (map (\<lambda>b. 4 + length b) blobs) \<le> length blobs * (4 + 2 ^ 32)"
    using small by (induction blobs) (auto simp: less_imp_le add_mono)
  also have "\<dots> \<le> 200000 * (4 + 2 ^ 32)"
    using assms(2) list_all2_lengthD [OF all] by (simp add: MAX_KEEP_BLOBS_PER_OP_def)
  finally have "length (pack_image blobs) < 2 ^ 64" by (simp add: length_pack_image)
  then have locs: "list_all2 (\<lambda>(off, len) c. unat off + unat len \<le> length (pack_image blobs) \<and>
        take (unat len) (drop (unat off) (pack_image blobs)) = c) (blob_locs PACK_HEADER_SIZE blobs) blobs"
    using blob_locs_read [of blobs "PACK_MAGIC @ [PACK_VERSION_CURRENT]"] small
    by (simp add: pack_image_def PACK_HEADER_SIZE_def)
  show "list_all2 (\<lambda>b off. take (unat (rb_length b)) (drop (unat off) (pack_image blobs))
        = take (unat (rb_length b)) (drop (unat (rb_offset b)) source))
      keep (map fst (blob_locs PACK_HEADER_SIZE blobs))"
  proof (rule list_all2_all_nthI)
    show "length keep = length (map fst (blob_locs PACK_HEADER_SIZE blobs))"
      using list_all2_lengthD [OF all] by simp
    fix i
    assume i: "i < length keep"
    obtain off len where loc: "blob_locs PACK_HEADER_SIZE blobs ! i = (off, len)" by fastforce
    have i': "i < length (blob_locs PACK_HEADER_SIZE blobs)" using i list_all2_lengthD [OF all] by simp
    note rk = read_keep_blob_Inr [OF list_all2_nthD [OF all i]]
    have bound: "unat off + unat len \<le> length (pack_image blobs)"
      and tk: "take (unat len) (drop (unat off) (pack_image blobs)) = blobs ! i"
      using list_all2_nthD [OF locs i'] by (simp_all add: loc)
    have "length (take (unat len) (drop (unat off) (pack_image blobs))) = unat len" using bound by simp
    then have "unat len = length (blobs ! i)" unfolding tk by (rule sym)
    then show "take (unat (rb_length (keep ! i))) (drop (unat (map fst (blob_locs PACK_HEADER_SIZE blobs) ! i)) (pack_image blobs))
        = take (unat (rb_length (keep ! i))) (drop (unat (rb_offset (keep ! i))) source)"
      using tk rk i' loc by simp
  qed
qed

text \<open>C40: Repacking on the server keeps what it was told to keep: when an operation with blobs to
  keep succeeds, and its source is not the very pack it writes, the new pack is stored under the hash
  of its contents, the scanner accepts it, every kept blob is found at the offset the response gives,
  byte for byte, and no object but the source and the new pack has changed.\<close>

theorem repack_keeps_blobs:
  assumes "fs_contract os files dirs" and "repack_op lib os op (s, st) = (Inr res, (s', st'))"
    and "ro_keep_blobs op \<noteq> []" and "length (ro_keep_blobs op) \<le> MAX_KEEP_BLOBS_PER_OP"
    and "ro_delete_after op \<longrightarrow> key_path (the (rr_new_pack res)) \<noteq> key_path (ro_source_pack op)"
  shows "\<exists>source new. files s (key_path (ro_source_pack op)) = Some source \<and>
    rr_new_pack res = Some (repacked_key lib new) \<and> files s' (key_path (repacked_key lib new)) = Some new \<and>
    (\<exists>blobs. scan_pack_blobs_bytes new = Inr blobs \<and> map fst blobs = rr_new_offsets res) \<and>
    list_all2 (\<lambda>b off. take (unat (rb_length b)) (drop (unat off) new)
        = take (unat (rb_length b)) (drop (unat (rb_offset b)) source))
      (ro_keep_blobs op) (rr_new_offsets res) \<and>
    (\<forall>q. \<not> temp_named q \<and> q \<noteq> key_path (ro_source_pack op) \<and> q \<noteq> key_path (repacked_key lib new) \<longrightarrow>
       files s' q = files s q)"
proof -
  obtain source blobs temp where r: "files s (key_path (ro_source_pack op)) = Some source"
    "map (read_keep_blob source) (ro_keep_blobs op) = map Inr blobs"
    "rr_new_pack res = Some (repacked_key lib (pack_image blobs))"
    "rr_new_offsets res = map fst (blob_locs PACK_HEADER_SIZE blobs)" "temp_named temp"
    and after: "\<forall>q. \<not> (ro_delete_after op \<and> q = key_path (ro_source_pack op)) \<longrightarrow> files s' q =
      ((files s)(temp := None, key_path (repacked_key lib (pack_image blobs)) \<mapsto> pack_image blobs)) q"
    by (rule fs_contract.repack_op_Inr [OF assms(1-3)])
  note kept = kept_blobs [OF r(2) assms(4)]
  have "files s' q = ((files s)(temp := None, key_path (repacked_key lib (pack_image blobs)) \<mapsto> pack_image blobs)) q"
    if "q \<noteq> key_path (ro_source_pack op) \<or> q = key_path (repacked_key lib (pack_image blobs))" for q
    using after that assms(5) r(3) by auto
  then have "files s' (key_path (repacked_key lib (pack_image blobs))) = Some (pack_image blobs)"
    and "\<forall>q. \<not> temp_named q \<and> q \<noteq> key_path (ro_source_pack op) \<and> q \<noteq> key_path (repacked_key lib (pack_image blobs)) \<longrightarrow>
       files s' q = files s q"
    using r(5) by auto
  moreover have "\<exists>bl. scan_pack_blobs_bytes (pack_image blobs) = Inr bl \<and> map fst bl = rr_new_offsets res"
    using kept(1) r(4) by simp
  ultimately show ?thesis using r(1,3) kept(2) unfolding r(4) by blast
qed

definition wit_source_pack :: bytes where
  "wit_source_pack = pack_image [[5, 6], [7]]"

definition wit_repack_fs :: mem_fs where
  "wit_repack_fs = [(key_path (repacked_key wit_server_lib wit_source_pack), wit_source_pack)]"

definition wit_repack_op :: repack_operation_request where
  "wit_repack_op = \<lparr>ro_source_pack = repacked_key wit_server_lib wit_source_pack,
     ro_keep_blobs = [\<lparr>rb_offset = 19, rb_length = 1\<rparr>], ro_delete_after = True\<rparr>"

lemma wit_repack_run:
  "repack_op wit_server_lib memory_os wit_repack_op (wit_repack_fs, wit_app_state) =
     (Inr \<lparr>rr_source_pack = repacked_key wit_server_lib wit_source_pack,
        rr_new_pack = Some (repacked_key wit_server_lib (pack_image [[7]])), rr_new_offsets = [13], rr_deleted = True\<rparr>,
      ([(key_path (repacked_key wit_server_lib (pack_image [[7]])), pack_image [[7]])],
       wit_app_state\<lparr>as_quota_usage := 0, as_repack_temp_counter := 1\<rparr>))"
  by code_simp

theorem repack_keeps_blobs_witness:
  "\<exists>source. map_of wit_repack_fs (key_path (ro_source_pack wit_repack_op)) = Some source \<and>
     take 1 (drop 13 (pack_image [[7]])) = take 1 (drop 19 source)"
proof -
  have "ro_keep_blobs wit_repack_op \<noteq> []" "length (ro_keep_blobs wit_repack_op) \<le> MAX_KEEP_BLOBS_PER_OP"
    by (simp_all add: wit_repack_op_def MAX_KEEP_BLOBS_PER_OP_def)
  moreover have "key_path (repacked_key wit_server_lib (pack_image [[7]])) \<noteq> key_path (ro_source_pack wit_repack_op)"
    by code_simp
  ultimately show ?thesis
    using repack_keeps_blobs [OF mem_fs.fs_contract_axioms wit_repack_run]
    by (auto simp: wit_repack_op_def)
qed

end
