(* ===== verification/Server_Safety.thy ===== *)
theory Server_Safety
  imports Server_Admin
begin

text \<open>
  The append-only guarantee of the storage server, over whole sequences of requests: the objects
  the mode protects, the relation every handler keeps between the state before and after it, and
  the theorem on \<^verbatim>\<open>serve_all\<close>.
\<close>

section \<open>Append-only mode\<close>

text \<open>The objects that append-only mode protects.\<close>

definition protected_path :: "path \<Rightarrow> bool" where
  "protected_path p \<longleftrightarrow> \<not> temp_named p \<and> p \<notin> {[''index''], [''index.gen''], [''manifest'']} \<and>
     (p = [] \<or> hd p \<noteq> ''locks'' \<and> hd p \<noteq> ''sessions'')"

definition keeps_objects ::
  "server_lib \<Rightarrow> ('s \<Rightarrow> path \<rightharpoonup> bytes) \<Rightarrow> 's \<times> app_state \<Rightarrow> 's \<times> app_state \<Rightarrow> bool" where
  "keeps_objects lib files x y \<longleftrightarrow> (as_append_only (snd x) \<longrightarrow> as_append_only (snd y) \<and>
     (\<forall>p d. protected_path p \<and> files (fst x) p = Some d \<longrightarrow>
        (\<exists>d'. files (fst y) p = Some d' \<and> (d' = d \<or> p = key_path (repacked_key lib d')))))"

lemma keeps_objects_refl [simp, intro]: "reflp (keeps_objects lib files)"
  by (auto simp: keeps_objects_def intro!: reflpI)

lemma keeps_objects_trans [simp, intro]: "transp (keeps_objects lib files)"
proof (rule transpI)
  fix x y z
  assume xy: "keeps_objects lib files x y" and yz: "keeps_objects lib files y z"
  show "keeps_objects lib files x z"
    unfolding keeps_objects_def
  proof (intro impI conjI allI)
    assume ao: "as_append_only (snd x)"
    with xy yz show "as_append_only (snd z)" by (simp add: keeps_objects_def)
    have aoy: "as_append_only (snd y)" using ao xy by (simp add: keeps_objects_def)
    fix p d
    assume p: "protected_path p \<and> files (fst x) p = Some d"
    then obtain d1 where d1: "files (fst y) p = Some d1" "d1 = d \<or> p = key_path (repacked_key lib d1)"
      using xy ao unfolding keeps_objects_def by blast
    then obtain d2 where "files (fst z) p = Some d2" "d2 = d1 \<or> p = key_path (repacked_key lib d2)"
      using yz aoy p unfolding keeps_objects_def by blast
    then show "\<exists>d'. files (fst z) p = Some d' \<and> (d' = d \<or> p = key_path (repacked_key lib d'))"
      using d1 by blast
  qed
qed

lemma same_objects_keeps: "same_objects files x y \<Longrightarrow> keeps_objects lib files x y"
  by (simp add: same_objects_def keeps_objects_def protected_path_def)

lemma io_rel_keeps: "io_rel (same_objects files) m \<Longrightarrow> io_rel (keeps_objects lib files) m"
  unfolding io_rel_def by (blast intro: same_objects_keeps)

lemma trim_end_prefix: "\<exists>t. s = trim_end_char c s @ t \<and> set t \<subseteq> {c}"
proof (intro exI conjI)
  show "s = trim_end_char c s @ rev (takeWhile (\<lambda>x. x = c) (rev s))"
    unfolding trim_end_char_def rev_append [symmetric] takeWhile_dropWhile_id rev_rev_ident ..
  show "set (rev (takeWhile (\<lambda>x. x = c) (rev s))) \<subseteq> {c}"
    by (auto dest: set_takeWhileD)
qed

lemma trim_end_slash:
  assumes "CHR ''/'' \<notin> set a"
  shows "\<exists>r. trim_end_char (CHR ''/'') (a @ CHR ''/'' # r') = a \<or>
    trim_end_char (CHR ''/'') (a @ CHR ''/'' # r') = a @ CHR ''/'' # r"
proof -
  let ?t = "trim_end_char (CHR ''/'') (a @ CHR ''/'' # r')"
  obtain t where t: "a @ CHR ''/'' # r' = ?t @ t" "set t \<subseteq> {CHR ''/''}" using trim_end_prefix by blast
  then obtain us where "a = ?t @ us \<and> us @ CHR ''/'' # r' = t \<or> a @ us = ?t \<and> CHR ''/'' # r' = us @ t"
    by (auto simp: append_eq_append_conv2)
  then show ?thesis
  proof
    assume u: "a = ?t @ us \<and> us @ CHR ''/'' # r' = t"
    then have "set us \<subseteq> {CHR ''/''}" using t(2) by auto
    moreover have "set a = set ?t \<union> set us" using u set_append by metis
    ultimately have "us = []" using assms by (cases us) auto
    then have "?t = a" using conjunct1 [OF u] by (simp only: append_Nil2)
    then show ?thesis by blast
  next
    assume u: "a @ us = ?t \<and> CHR ''/'' # r' = us @ t"
    have t: "?t = a @ us" by (rule sym [OF conjunct1 [OF u]])
    consider "us = []" | r where "us = CHR ''/'' # r" using u by (cases us) auto
    then show ?thesis using t by cases (simp_all only: append_Nil2, blast+)
  qed
qed

lemma key_path_under:
  assumes "starts_with key (a @ ''/'')" and "CHR ''/'' \<notin> set a" and "a \<noteq> []"
  shows "key_path key \<noteq> [] \<and> hd (key_path key) = a"
proof -
  obtain r' where key: "key = a @ CHR ''/'' # r'" using assms(1) by (auto simp: starts_with_iff)
  have "trim_start_char (CHR ''/'') key = key"
    using assms(2,3) by (cases a) (auto simp: key trim_start_char_def)
  then obtain r where "trim_matches_char (CHR ''/'') key = a \<or> trim_matches_char (CHR ''/'') key = a @ CHR ''/'' # r"
    using trim_end_slash [OF assms(2), of r'] by (auto simp: trim_matches_char_def key)
  then show ?thesis
    using assms(2,3) by (auto simp: key_path_def Let_def split_on_no_sep split_on_append_sep)
qed

lemma mutable_not_protected:
  assumes "is_mutable_key key" shows "\<not> protected_path (key_path key)"
proof -
  consider "key \<in> {''index'', ''index.gen'', ''manifest''}" | "starts_with key (''locks'' @ ''/'')"
    | "starts_with key (''sessions'' @ ''/'')"
    using assms by (auto simp: is_mutable_key_def)
  then show ?thesis
  proof cases
    case 1
    moreover have "key_path ''index'' = [''index'']" "key_path ''index.gen'' = [''index.gen'']"
      "key_path ''manifest'' = [''manifest'']"
      by code_simp+
    ultimately show ?thesis by (auto simp: protected_path_def)
  next
    case 2
    then show ?thesis using key_path_under [of key "''locks''"] by (simp add: protected_path_def)
  next
    case 3
    then show ?thesis using key_path_under [of key "''sessions''"] by (simp add: protected_path_def)
  qed
qed

context fs_contract
begin

text \<open>Requests that only read.\<close>

lemma list_all_entries_frame:
  assumes "\<And>x out s r s'. list_all_recursive os n (dir @ [x]) out s = Some (r, s') \<Longrightarrow> files s' = files s"
  shows "list_all_entries os n dir es out s = Some (r, s') \<Longrightarrow> files s' = files s"
proof (induction es arbitrary: out s)
  case (Cons e es)
  show ?case
  proof (cases e)
    case (Inl x)
    then show ?thesis using Cons by simp
  next
    case (Inr x)
    obtain name is_dir where x: "x = (name, is_dir)" by fastforce
    consider "files s' = files s" | out1 s1 where "files s1 = files s" "list_all_entries os n dir es out1 s1 = Some (r, s')"
      using Cons.prems assms unfolding Inr x
      by (cases is_dir) (auto split: prod.splits option.splits sum.splits, metis+)
    then show ?thesis using Cons.IH by cases metis+
  qed
qed simp

lemma list_all_frame: "list_all_recursive os n dir out s = Some (r, s') \<Longrightarrow> files s' = files s"
proof (induction n arbitrary: dir out s r s')
  case (Suc n)
  obtain rr s1 where rd: "os_read_dir os dir s = (rr, s1)" by fastforce
  note fr = read_dir_frame [OF rd]
  show ?case
  proof (cases rr)
    case (Inl e)
    then show ?thesis using Suc.prems rd fr by simp
  next
    case (Inr es)
    then have "list_all_entries os n dir es out s1 = Some (r, s')" using Suc.prems rd by simp
    from list_all_entries_frame [OF Suc.IH this] show ?thesis using fr by simp
  qed
qed simp

lemma frame_rel:
  "(\<And>s st r s' st'. m (s, st) = (r, (s', st')) \<Longrightarrow> files s' = files s \<and> st' = st) \<Longrightarrow> io_rel (same_objects files) m"
  by (force simp: io_rel_def same_objects_def)

lemma reader_rel:
  "(\<And>r. io_rel (same_objects files) (f r)) \<Longrightarrow> io_rel (same_objects files) (io_bind (try_os (os_read os p)) f)"
  by (intro io_rel_intros try_os_rel) (auto dest: read_frame)

lemma get_or_list_rel: "io_rel (same_objects files) (get_or_list lib os depth key listing range_hdr)"
proof -
  have "io_rel (same_objects files) (\<lambda>(s, st). case list_files_recursive os depth dir key s of
       None \<Rightarrow> (Inr None, (s, st))
     | Some (keys, s') \<Rightarrow> (Inr (Some \<lparr>rs_status = 200, rs_headers = [], rs_body = KeysBody keys\<rparr>), (s', st)))" for dir
    by (rule frame_rel) (auto simp: list_files_recursive_def dest!: walk_frame [rotated] split: option.splits)
  then have "io_rel (same_objects files) (list_keys os depth key)"
    unfolding list_keys_def by (intro io_rel_intros) auto
  moreover have "io_rel (same_objects files) (handle_range_read lib os p h key)" for p h
    unfolding handle_range_read_def Let_def
    by (intro io_rel_intros reader_rel) (auto intro!: io_rel_intros reader_rel split: prod.splits)
  moreover have "io_rel (same_objects files) (stream_full_read lib os p key)" for p
    unfolding stream_full_read_def by (intro io_rel_intros reader_rel) auto
  ultimately show ?thesis
    unfolding get_or_list_def by (intro io_rel_intros) auto
qed

lemma head_object_rel: "io_rel (same_objects files) (head_object lib os key)"
  unfolding head_object_def by (intro io_rel_intros try_os_rel) (auto dest: metadata_frame)

lemma post_object_rel: "io_rel (same_objects files) (post_object lib os key mkdir)"
  unfolding post_object_def by (intro io_rel_intros on_os_rel) (auto dest: create_dir_frame)

lemma repo_init_rel: "io_rel (same_objects files) (repo_init lib os)"
proof (rule io_relI)
  fix x r y
  assume run: "repo_init lib os x = (r, y)"
  obtain s st where x: "x = (s, st)" by fastforce
  obtain bad s1 where u: "unexpected_entries os s = (bad, s1)" by fastforce
  have f1: "files s1 = files s"
    using u by (auto simp: unexpected_entries_def dest: read_dir_frame split: prod.splits sum.splits)
  let ?rest = "io_bind (existing_meta lib os [''config'']) (\<lambda>meta.
     if meta \<noteq> None then io_fail (Conflict ''repo already initialized'')
     else io_bind (io_for ([[], [''keys''], [''snapshots''], [''locks'']] @ map (\<lambda>n. [''packs'', n]) shard_names)
            (\<lambda>d. on_os lib (os_create_dir_all os d))) (\<lambda>_. io_return (status_response 201)))"
  have rest: "io_rel (same_objects files) ?rest"
    by (intro io_rel_intros on_os_rel) (auto dest: create_dir_frame)
  show "same_objects files x y"
  proof (cases "bad = []")
    case True
    then have "?rest (s1, st) = (r, y)" using run u unfolding repo_init_def x by simp
    from io_relD [OF rest this] show ?thesis using f1 by (simp add: same_objects_def x)
  next
    case False
    then show ?thesis using run u f1 unfolding repo_init_def x by (auto simp: same_objects_def)
  qed
qed

lemma check_pack_entries_frame:
  "check_pack_entries lib os shard es acc s = (acc', s') \<Longrightarrow> files s' = files s"
proof (induction es arbitrary: acc s)
  case (Cons e es)
  obtain errors packs bytes where acc: "acc = (errors, packs, bytes)" by (cases acc)
  show ?case
  proof (cases e)
    case (Inl x)
    then show ?thesis using Cons by simp
  next
    case (Inr x)
    obtain pack d where x: "x = (pack, d)" by fastforce
    obtain m s1 where md: "os_metadata os [''packs'', shard, pack] s = (m, s1)" by fastforce
    obtain rr s2 where rd: "os_read os [''packs'', shard, pack] s1 = (rr, s2)" by fastforce
    have "files s2 = files s" "files s1 = files s" using metadata_frame [OF md] read_frame [OF rd] by auto
    then show ?thesis
      using Cons.prems md rd unfolding acc Inr x
      by (auto simp: Let_def dest!: Cons.IH split: sum.splits if_splits)
  qed
qed simp

lemma check_shards_frame: "check_shards lib os es acc s = (acc', s') \<Longrightarrow> files s' = files s"
proof (induction es arbitrary: acc s)
  case (Cons e es)
  obtain errors packs bytes where acc: "acc = (errors, packs, bytes)" by (cases acc)
  show ?case
  proof (cases e)
    case (Inl x)
    then show ?thesis using Cons by simp
  next
    case (Inr x)
    obtain shard d where x: "x = (shard, d)" by fastforce
    obtain m s1 where rd: "os_read_dir os [''packs'', shard] s = (m, s1)" by fastforce
    show ?thesis
      using Cons.prems rd read_dir_frame [OF rd] unfolding acc Inr x
      by (auto dest!: Cons.IH check_pack_entries_frame split: sum.splits if_splits prod.splits)
  qed
qed simp

lemma check_structure_frame: "check_structure lib os s = (b, s') \<Longrightarrow> files s' = files s"
  unfolding check_structure_def count_locks_def Let_def
  by (auto dest!: read_dir_frame check_shards_frame split: prod.splits sum.splits if_splits)

lemma count_repo_stats_frame: "count_repo_stats os depth s = Some (x, s') \<Longrightarrow> files s' = files s"
  unfolding count_repo_stats_def
  by (auto dest!: walk_frame [rotated] dest: metadata_frame split: option.splits if_splits prod.splits sum.splits)

lemma repo_stats_keeps: "io_rel (keeps_objects lib files) (repo_stats os depth)"
proof (rule io_relI)
  fix x r y
  assume run: "repo_stats os depth x = (r, y)"
  then have "files (fst y) = files (fst x)" "as_append_only (snd y) = as_append_only (snd x)"
    unfolding repo_stats_def Let_def
    by (auto dest!: count_repo_stats_frame split: prod.splits option.splits)
  then show "keeps_objects lib files x y" by (simp add: keeps_objects_def)
qed

lemma repo_dispatch_keeps: "io_rel (keeps_objects lib files) (repo_dispatch lib' os depth q)"
proof -
  have "io_rel (same_objects files) (\<lambda>(s, st). case check_structure lib' os s of
       (b, s') \<Rightarrow> (Inr (Some \<lparr>rs_status = 200, rs_headers = [], rs_body = b\<rparr>), (s', st)))"
    by (rule frame_rel) (auto dest!: check_structure_frame split: prod.splits)
  moreover have "io_rel (same_objects files) (repo_list_all lib' os depth)"
    by (rule frame_rel) (auto simp: repo_list_all_def dest!: list_all_frame split: option.splits sum.splits prod.splits)
  ultimately show ?thesis
    unfolding repo_dispatch_def
    by (intro io_rel_intros repo_stats_keeps io_rel_keeps) auto
qed

lemma verify_single_pack_rel: "io_rel (same_objects files) (verify_single_pack lib pieces os p entry)"
  unfolding verify_single_pack_def by (intro reader_rel io_rel_intros) auto

lemma execute_verify_packs_rel:
  "io_rel (same_objects files) (execute_verify_packs lib pieces os packs results n)"
proof (induction packs arbitrary: results n)
  case Nil
  show ?case by (auto intro: io_rel_intros)
next
  case (Cons entry packs)
  have step: "io_rel (same_objects files) (io_bind (try_os (os_metadata os p)) (\<lambda>m.
      case m of
        Inl e \<Rightarrow> execute_verify_packs lib pieces os packs
           (results @ [read_failure (vp_pack_key entry) (''stat failed: '' @ sl_show_io lib e)]) n
      | Inr file_size \<Rightarrow>
          if sat_add_u64 n file_size > MAX_VERIFY_BYTES
          then io_return \<lparr>vr_results = results, vr_truncated = True\<rparr>
          else io_bind (verify_single_pack lib pieces os p entry) (\<lambda>r.
                 execute_verify_packs lib pieces os packs (results @ [r]) (n + file_size))))" for p
    by (intro io_rel_intros try_os_rel Cons.IH verify_single_pack_rel) (auto dest: metadata_frame)
  show ?case
  proof (rule io_relI)
    fix x r y
    assume run: "execute_verify_packs lib pieces os (entry # packs) results n x = (r, y)"
    obtain s st where x: "x = (s, st)" by fastforce
    show "same_objects files x y"
    proof (cases "file_path os s (vp_pack_key entry)")
      case None
      then show ?thesis using run io_relD [OF Cons.IH] by (simp add: x)
    next
      case (Some p)
      show ?thesis
        by (rule io_relD [OF step [of p]]) (use run Some in \<open>simp only: x execute_verify_packs.simps prod.case option.case\<close>)
    qed
  qed
qed

lemma verify_packs_rel: "io_rel (same_objects files) (verify_packs lib pieces os body)"
  unfolding verify_packs_def on_validated_def
  by (intro io_rel_intros execute_verify_packs_rel) auto

text \<open>Requests that write: the mode refuses what would lose a protected object.\<close>

lemma put_object_keeps: "io_rel (keeps_objects lib' files) (put_object lib os key h body)"
proof (rule io_relI)
  fix x r y
  assume run: "put_object lib os key h body x = (r, y)"
  obtain s st s' st' where xy: "x = (s, st)" "y = (s', st')" by fastforce
  show "keeps_objects lib' files x y"
  proof (cases r)
    case (Inl e)
    show ?thesis
      by (rule same_objects_keeps, rule fail_relD [OF put_object_fail]) (use run Inl in simp)
  next
    case (Inr resp)
    obtain d s1 meta ex where meta: "meta = map_option (\<lambda>d. of_nat (length d)) (files s (key_path key))"
      and ao: "as_append_only st \<longrightarrow> meta \<noteq> None \<longrightarrow> is_mutable_key key" and s1: "files s1 = files s"
      and up: "uploaded files dirs lib (temp_path lib (key_path key) st) (key_path key) h ex (quota_limit st)
        (as_quota_usage st) (case meta of None \<Rightarrow> 0 | Some n \<Rightarrow> n) d s1 s'"
      and ao': "as_append_only st' = as_append_only st"
      by (rule put_object_ok [OF run [unfolded xy Inr]]) (rule that, assumption, blast, assumption+)
    show ?thesis
      unfolding keeps_objects_def xy fst_conv snd_conv
    proof (intro impI conjI allI)
      assume st: "as_append_only st"
      then show "as_append_only st'" by (simp add: ao')
      fix p d0
      assume p: "protected_path p \<and> files s p = Some d0"
      then have "p \<noteq> key_path key"
        using ao st meta mutable_not_protected by auto
      moreover have "p \<noteq> temp_path lib (key_path key) st" using p unfolding protected_path_def by (metis temp_named_temp_path)
      ultimately have "files s' p = Some d0" using uploaded_files [OF up] p s1 by auto
      then show "\<exists>d'. files s' p = Some d' \<and> (d' = d0 \<or> p = key_path (repacked_key lib' d'))" by blast
    qed
  qed
qed

lemma delete_object_keeps: "io_rel (keeps_objects lib' files) (delete_object lib os key)"
proof (rule io_relI)
  fix x r y
  assume run: "delete_object lib os key x = (r, y)"
  obtain s st s' st' where xy: "x = (s, st)" "y = (s', st')" by fastforce
  show "keeps_objects lib' files x y"
    using run unfolding xy
  proof (cases rule: delete_object_run)
    case frame
    then show "keeps_objects lib' files (s, st) (s', st')" by (rule same_objects_keeps)
  next
    case (removed d)
    have "\<not> protected_path (key_path key)" if "as_append_only st"
      using that removed(5) by (intro mutable_not_protected) (auto simp: is_mutable_key_def)
    then show "keeps_objects lib' files (s, st) (s', st')"
      using removed(3,4) by (auto simp: keeps_objects_def sub_quota_usage_def)
  qed
qed

lemma batch_delete_keeps: "io_rel (keeps_objects lib' files) (batch_delete lib os body cleanup)"
proof (rule io_relI)
  fix x r y
  assume run: "batch_delete lib os body cleanup x = (r, y)"
  obtain s st where x: "x = (s, st)" by fastforce
  show "keeps_objects lib' files x y"
  proof (cases "as_append_only st")
    case True
    then have "y = x" using run by (simp add: batch_delete_def x io_fail_def)
    then show ?thesis using keeps_objects_refl by (simp add: reflpD)
  next
    case False
    then show ?thesis by (simp add: keeps_objects_def x)
  qed
qed

lemma internal_os_rel:
  "(\<And>s r s'. m s = (r, s') \<Longrightarrow> \<forall>q. \<not> temp_named q \<longrightarrow> files s' q = files s q) \<Longrightarrow>
   io_rel (same_objects files) (internal_os lib what m)"
  unfolding internal_os_def by (intro io_rel_intros try_os_rel) auto

lemma internal_os_fail:
  assumes "\<And>s e s'. m s = (Inl e, s') \<Longrightarrow> files s' = files s"
  shows "fail_rel (same_objects files) (internal_os lib what m)"
  using assms
  by (force simp: fail_rel_def internal_os_def io_bind_def try_os_def io_fail_def io_return_def same_objects_def
      split: prod.splits sum.splits)

lemma or_remove_fail:
  assumes "temp_named temp" and "fail_rel (same_objects files) m"
  shows "fail_rel (same_objects files) (or_remove os temp m)"
  unfolding fail_rel_def
proof (intro allI impI)
  fix x e y
  assume "or_remove os temp m x = (Inl e, y)"
  then show "same_objects files x y"
  proof (cases rule: or_remove_cases)
    case (fail e' x1 r')
    have "io_rel (same_objects files) (try_os (os_remove_file os temp))"
      using assms(1) by (intro try_os_rel) (auto dest: remove_frame)
    from io_relD [OF this fail(2)] fail_relD [OF assms(2) fail(1)] show ?thesis
      using same_objects_trans by (blast dest: transpD)
  qed simp
qed

lemma write_and_hash_rel:
  "temp_named temp \<Longrightarrow> io_rel (same_objects files) (write_and_hash lib os what temp hashed d)"
  unfolding write_and_hash_def by (intro io_rel_intros internal_os_rel) (auto, metis write_frame)

lemma copy_blobs_rel:
  "temp_named temp \<Longrightarrow> io_rel (same_objects files) (copy_blobs lib os temp source bs n offs hashed)"
  by (induction bs arbitrary: n offs hashed) (auto intro!: io_rel_intros write_and_hash_rel)

lemma write_new_pack_rel:
  "temp_named temp \<Longrightarrow> io_rel (same_objects files) (write_new_pack lib os temp source keep)"
  unfolding write_new_pack_def by (intro io_rel_intros write_and_hash_rel copy_blobs_rel) auto

lemma place_new_pack_fail:
  assumes "temp_named temp" shows "fail_rel (same_objects files) (place_new_pack lib os temp hashed)"
proof -
  have 1: "fail_rel (same_objects files) (io_bind (or_remove os temp (internal_os lib what (os_rename os temp p)))
      (\<lambda>_. io_return key))" for what p and key :: string
    by (rule fail_rel_then [OF or_remove_fail [OF assms internal_os_fail]])
      (auto simp: io_return_def dest: rename_err)
  have 2: "io_rel (same_objects files) (\<lambda>(s, st). (ok_or (file_path os s key) e, (s, st)))" for key e
    by (rule frame_rel) auto
  have 3: "io_rel (same_objects files) (internal_os lib what (os_create_dir_all os p))" for what p
    by (rule internal_os_rel) (auto dest: create_dir_frame)
  show ?thesis
    unfolding place_new_pack_def Let_def
    by (rule fail_rel_bind [OF same_objects_trans or_remove_rel [OF assms 2]],
        rule fail_rel_bind [OF same_objects_trans or_remove_rel [OF assms 3]], rule 1)
qed

lemma write_repacked_fail:
  assumes "temp_named temp" shows "fail_rel (same_objects files) (write_repacked lib os temp source keep)"
proof -
  have "fail_rel (same_objects files) (case a of (n, offs, hashed) \<Rightarrow>
      io_bind (place_new_pack lib os temp hashed) (\<lambda>key. io_return (key, offs, n)))" for a :: "u64 \<times> u64 list \<times> bytes"
    by (cases a) (auto simp: io_return_def intro!: fail_rel_then place_new_pack_fail assms)
  then show ?thesis
    unfolding write_repacked_def
    by (intro fail_rel_bind same_objects_trans or_remove_rel internal_os_rel write_new_pack_rel assms)
      (metis assms create_frame)
qed

lemma repack_keep_fail: "fail_rel (same_objects files) (repack_keep lib os p op)"
  unfolding repack_keep_def
proof (rule fail_rel_bind [OF same_objects_trans])
  show "io_rel (same_objects files) (internal_os lib (''open '' @ ro_source_pack op) (os_read os p))"
    by (rule internal_os_rel) (auto dest: read_frame)
  fix source
  show "fail_rel (same_objects files)
     (io_bind (next_repack_temp p) (\<lambda>temp. write_repacked lib os temp source (ro_keep_blobs op)))"
    unfolding fail_rel_def
  proof (intro allI impI)
    fix x e y
    assume run: "io_bind (next_repack_temp p) (\<lambda>temp. write_repacked lib os temp source (ro_keep_blobs op)) x
      = (Inl e, y)"
    obtain s st where x: "x = (s, st)" by fastforce
    let ?temp = "with_file_name p (''.repack_tmp.'' @ show_nat (unat (as_repack_temp_counter st)))"
    let ?x1 = "(s, st\<lparr>as_repack_temp_counter := as_repack_temp_counter st + 1\<rparr>)"
    have "temp_named ?temp" by (auto simp: temp_named_def with_file_name_def starts_with_def)
    from fail_relD [OF write_repacked_fail [OF this]] have "same_objects files ?x1 y"
      using run by (simp add: x io_bind_def next_repack_temp_def)
    then show "same_objects files x y" by (simp add: same_objects_def x)
  qed
qed

lemma repack_op_fail:
  assumes "\<not> ro_delete_after op" shows "fail_rel (same_objects files) (repack_op lib os op)"
proof -
  have "fail_rel (same_objects files) (io_bind (repack_keep lib os p op) (\<lambda>(key, offs, n).
      io_bind (modify_app (add_quota_usage n)) (\<lambda>_.
      io_bind (if ro_delete_after op then delete_source os p else io_return ()) (\<lambda>_.
        io_return \<lparr>rr_source_pack = ro_source_pack op, rr_new_pack = Some key, rr_new_offsets = offs,
          rr_deleted = ro_delete_after op\<rparr>))))" for p
    by (rule fail_rel_then [OF repack_keep_fail])
      (auto simp: assms io_bind_def modify_app_def io_return_def split: prod.splits)
  moreover have "fail_rel (same_objects files) (io_bind (if ro_delete_after op then delete_source os p else io_return ())
      (\<lambda>_. io_return v))" for p and v :: repack_operation_result
    by (simp add: assms fail_rel_def io_bind_def io_return_def)
  moreover have "io_rel (same_objects files)
      (\<lambda>(s, st). (ok_or (file_path os s (ro_source_pack op)) e, (s, st)))" for e
    by (rule frame_rel) auto
  ultimately show ?thesis
    unfolding repack_op_def by (intro fail_rel_bind same_objects_trans) auto
qed

lemma repack_op_keeps:
  assumes "\<not> ro_delete_after op" shows "io_rel (keeps_objects lib files) (repack_op lib os op)"
proof (rule io_relI)
  fix x r y
  assume run: "repack_op lib os op x = (r, y)"
  obtain s st s' st' where xy: "x = (s, st)" "y = (s', st')" by fastforce
  show "keeps_objects lib files x y"
  proof (cases r)
    case (Inl e)
    then show ?thesis
      using same_objects_keeps [OF fail_relD [OF repack_op_fail [OF assms]]] run by simp
  next
    case (Inr res)
    show ?thesis
    proof (cases "ro_keep_blobs op = []")
      case True
      then have "y = x"
        using run assms Inr by (auto simp: repack_op_def xy io_bind_def io_return_def split: prod.splits sum.splits)
      then show ?thesis using keeps_objects_refl by (simp add: reflpD)
    next
      case False
      obtain source blobs temp where t: "temp_named temp" and ao: "as_append_only st' = as_append_only st"
        and f: "\<forall>q. \<not> (ro_delete_after op \<and> q = key_path (ro_source_pack op)) \<longrightarrow> files s' q =
          ((files s)(temp := None, key_path (repacked_key lib (pack_image blobs)) \<mapsto> pack_image blobs)) q"
        by (rule repack_op_Inr [OF run [unfolded xy Inr] False])
      have "p \<noteq> temp" if "protected_path p" for p using that t by (auto simp: protected_path_def)
      then show ?thesis using f ao assms by (auto simp: keeps_objects_def xy)
    qed
  qed
qed

lemma execute_repack_keeps:
  "\<not> list_ex ro_delete_after ops \<Longrightarrow> io_rel (keeps_objects lib files) (execute_repack lib os ops)"
  by (induction ops) (auto intro!: io_rel_intros repack_op_keeps)

lemma repack_keeps: "io_rel (keeps_objects lib files) (repack lib os body)"
proof (rule io_relI)
  fix x r y
  assume run: "repack lib os body x = (r, y)"
  obtain s st where x: "x = (s, st)" by fastforce
  show "keeps_objects lib files x y"
  proof (cases "as_append_only st")
    case False
    then show ?thesis by (simp add: keeps_objects_def x)
  next
    case True
    have keeps: "io_rel (keeps_objects lib files) (if list_ex ro_delete_after ops then io_fail e
        else io_bind (execute_repack lib os ops) f)"
      if "\<And>rs. io_rel (keeps_objects lib files) (f rs)" for ops e
        and f :: "repack_operation_result list \<Rightarrow> ('s, response) srv_io"
      by (intro io_rel_intros execute_repack_keeps that) auto
    show ?thesis
    proof (cases "sl_repack_from_json lib body")
      case (Inl e)
      then have "y = x" using run by (simp add: repack_def io_fail_def)
      then show ?thesis using keeps_objects_refl by (simp add: reflpD)
    next
      case (Inr plan)
      show ?thesis
      proof (cases "validate_repack_plan plan")
        case (Inl e)
        then have "y = x" using run Inr by (simp add: repack_def on_validated_def io_bind_def io_fail_def)
        then show ?thesis using keeps_objects_refl by (simp add: reflpD)
      next
        case v: (Inr u)
        have "(if list_ex ro_delete_after (rp_operations plan)
            then io_fail (Forbidden ''append-only: repack with delete not allowed'')
            else io_bind (execute_repack lib os (rp_operations plan)) (\<lambda>rs. io_return
              \<lparr>rs_status = 200, rs_headers = [], rs_body = RepackBody \<lparr>rr_completed = rs\<rparr>\<rparr>)) (s, st) = (r, y)"
          using run unfolding x repack_def Inr sum.case on_validated_def v io_bind_return srv_bind_simps
          by (simp add: True)
        from io_relD [OF keeps this] show ?thesis unfolding x by (auto intro: io_rel_intros)
      qed
    qed
  qed
qed

text \<open>The router, one request and a sequence of requests.\<close>

lemma dispatch_keeps: "io_rel (keeps_objects lib files) (dispatch lib pieces os depth req)"
proof -
  have some: "io_rel (keeps_objects lib files) (some_response m)"
    if "io_rel (keeps_objects lib files) m" for m :: "('s, response) srv_io"
    unfolding some_response_def using that by (auto intro!: io_rel_intros)
  have "io_rel (keeps_objects lib files) (repo_action_dispatch lib pieces os q body)" for q body
    unfolding repo_action_dispatch_def
    by (intro io_rel_intros batch_delete_keeps repack_keeps io_rel_keeps repo_init_rel verify_packs_rel) auto
  then show ?thesis
    by (cases req) (simp_all add: some put_object_keeps delete_object_keeps repo_dispatch_keeps
        get_or_list_rel [THEN io_rel_keeps] head_object_rel [THEN io_rel_keeps] post_object_rel [THEN io_rel_keeps])
qed

lemma serve_keeps:
  assumes "serve lib pieces os depth auth req x = (resp, y)" shows "keeps_objects lib files x y"
proof -
  have "y = x \<or> (\<exists>r. dispatch lib pieces os depth req x = (r, y))"
    using assms unfolding serve_def Let_def by (auto split: if_splits prod.splits sum.splits)
  then show ?thesis
  proof (elim disjE exE)
    assume "y = x"
    then show ?thesis using reflpD [OF keeps_objects_refl] by simp
  qed (rule io_relD [OF dispatch_keeps])
qed

lemma serve_all_keeps:
  "serve_all lib pieces os depth reqs x = (resps, y) \<Longrightarrow> keeps_objects lib files x y"
proof (induction reqs arbitrary: x resps)
  case Nil
  then show ?case using reflpD [OF keeps_objects_refl] by simp
next
  case (Cons req reqs)
  obtain auth rq where req: "req = (auth, rq)" by fastforce
  obtain resp y1 where 1: "serve lib pieces os depth auth rq x = (resp, y1)"
    by (cases "serve lib pieces os depth auth rq x")
  obtain resps1 where 2: "serve_all lib pieces os depth reqs y1 = (resps1, y)"
    using Cons.prems 1 by (auto simp: req split: prod.splits)
  show ?case using serve_keeps [OF 1] Cons.IH [OF 2] keeps_objects_trans by (blast dest: transpD)
qed

end

text \<open>C3: A server in append-only mode never loses an object: after any sequence of requests, with
  any tokens, bodies and failures of the file system on the way, every object that was stored is
  still there with its contents.  Exempt are the names the mode leaves mutable (the index, the
  manifest, locks and sessions) and temporary files; a pack may have been written again by a
  repack, but only under the name that is the hash of what it now holds.\<close>

theorem append_only_keeps_objects:
  assumes "fs_contract os files dirs" and "serve_all lib pieces os depth reqs (s, st) = (resps, (s', st'))"
    and "as_append_only st" and "protected_path p" and "files s p = Some d"
  shows "as_append_only st' \<and> (\<exists>d'. files s' p = Some d' \<and> (d' = d \<or> p = key_path (repacked_key lib d')))"
  using fs_contract.serve_all_keeps [OF assms(1,2)] assms(3-5) by (simp add: keeps_objects_def)

definition wit_server_requests :: "(string option \<times> server_request) list" where
  "wit_server_requests =
     [(Some ''Bearer secret'', DeleteObject ''config''),
      (Some ''Bearer secret'', PutObject ''config'' wit_put_headers [Inr [7, 8, 9]]),
      (Some ''Bearer secret'', PutObject ''snapshots/a'' wit_put_headers [Inr [7, 8], Inr [9]]),
      (None, GetObject ''config'' False None)]"

lemma wit_serve:
  "serve wit_server_lib (\<lambda>d. [Inr d]) memory_os 5 (Some ''Bearer secret'') (DeleteObject ''config'') (wit_fs, wit_app_state) =
     (Some \<lparr>rs_status = 403, rs_headers = [], rs_body = TextBody ''append-only: delete not allowed''\<rparr>,
      (wit_fs, wit_app_state))"
  "serve wit_server_lib (\<lambda>d. [Inr d]) memory_os 5 (Some ''Bearer secret'')
       (PutObject ''config'' wit_put_headers [Inr [7, 8, 9]]) (wit_fs, wit_app_state) =
     (Some \<lparr>rs_status = 403, rs_headers = [], rs_body = TextBody ''append-only: cannot overwrite immutable object''\<rparr>,
      (wit_fs, wit_app_state))"
  "serve wit_server_lib (\<lambda>d. [Inr d]) memory_os 5 None (GetObject ''config'' False None) (wit_fs_after, wit_app_after) =
     (Some \<lparr>rs_status = 401, rs_headers = [(''Connection'', ''close''), (''WWW-Authenticate'', ''Bearer'')],
        rs_body = TextBody ''invalid or missing token''\<rparr>, (wit_fs_after, wit_app_after))"
  by code_simp+

lemma wit_serve_put:
  "serve wit_server_lib (\<lambda>d. [Inr d]) memory_os 5 (Some ''Bearer secret'')
       (PutObject ''snapshots/a'' wit_put_headers [Inr [7, 8], Inr [9]]) (wit_fs, wit_app_state) =
     (Some (status_response 201), (wit_fs_after, wit_app_after))"
proof -
  have "strip_prefix_str ''Bearer secret'' ''Bearer '' = Some (as_token wit_app_state)" by code_simp
  then show ?thesis by (simp add: serve_def some_response_def io_bind_def wit_put_run io_return_def)
qed

lemma wit_server_requests_run:
  "serve_all wit_server_lib (\<lambda>d. [Inr d]) memory_os 5 wit_server_requests (wit_fs, wit_app_state) =
     ([Some \<lparr>rs_status = 403, rs_headers = [], rs_body = TextBody ''append-only: delete not allowed''\<rparr>,
       Some \<lparr>rs_status = 403, rs_headers = [], rs_body = TextBody ''append-only: cannot overwrite immutable object''\<rparr>,
       Some (status_response 201),
       Some \<lparr>rs_status = 401, rs_headers = [(''Connection'', ''close''), (''WWW-Authenticate'', ''Bearer'')],
         rs_body = TextBody ''invalid or missing token''\<rparr>],
      (wit_fs_after, wit_app_after))"
  unfolding wit_server_requests_def serve_all.simps wit_serve wit_serve_put prod.case ..

theorem append_only_keeps_objects_witness:
  "\<exists>d'. map_of wit_fs_after [''config''] = Some d' \<and>
     (d' = [1, 2] \<or> [''config''] = key_path (repacked_key wit_server_lib d'))"
proof -
  have "as_append_only wit_app_state" "protected_path [''config'']" "map_of wit_fs [''config''] = Some [1, 2]"
    by code_simp+
  from append_only_keeps_objects [OF mem_fs.fs_contract_axioms, OF wit_server_requests_run this]
  show ?thesis by (rule conjunct2)
qed

end
