(* ===== verification/Rest_Backend.thy ===== *)
theory Rest_Backend
  imports Http_Retry Server_Safety
begin

text \<open>
  The REST client (\<open>vykar-storage/src/rest_backend.rs\<close>, \<open>http_util.rs\<close>) and its composition with
  the server.  The HTTP agent is a parameter: sending a request is an operation on the network
  state that yields a response or a transport error; reading a body may fail.  The locale
  \<open>rest_network\<close> states what the agent promises: a response is the server's answer to this request,
  and a failed exchange was handled by the server at most once.  \<open>lossy_send\<close> is a network that
  loses chosen requests and answers, and satisfies it.
\<close>

section \<open>Requests and the agent\<close>

datatype http_method = MGet | MHead | MPut | MDelete | MPost

record http_request =
  hq_method :: http_method
  hq_url :: string
  hq_authorization :: "string option"
  hq_range :: "string option"
  hq_blake2b :: "string option"
  hq_body :: bytes

record http_response =
  hp_status :: nat
  hp_headers :: "(string \<times> string) list"
  hp_body :: "io_error + bytes"

record rest_json =
  rj_keys :: "string list \<Rightarrow> bytes"
  rj_repack :: "repack_plan_request \<Rightarrow> bytes"
  rj_verify :: "verify_packs_plan_request \<Rightarrow> bytes"
  rj_keys_from :: "bytes \<Rightarrow> string + string list"
  rj_repack_from :: "bytes \<Rightarrow> string + repack_result_response"
  rj_verify_from :: "bytes \<Rightarrow> string + verify_packs_response"

record 'n http_agent = "'n http_env" +
  ha_send :: "http_request \<Rightarrow> ('n, ureq_error, http_response) io"

record rest_backend =
  rt_base_url :: string
  rt_token :: "string option"
  rt_retry :: retry_config
  rt_b2 :: blake2_lib
  rt_hex :: hex_lib
  rt_json :: rest_json

definition rest_new ::
  "string \<Rightarrow> string option \<Rightarrow> retry_config \<Rightarrow> blake2_lib \<Rightarrow> hex_lib \<Rightarrow> rest_json \<Rightarrow> rest_backend" where
  "rest_new base_url token retry b2 hex json =
     \<lparr>rt_base_url = trim_end_char (CHR ''/'') base_url, rt_token = token, rt_retry = retry, rt_b2 = b2,
      rt_hex = hex, rt_json = json\<rparr>"

definition rest_url :: "rest_backend \<Rightarrow> string \<Rightarrow> string" where
  "rest_url be key = rt_base_url be @ ''/'' @ trim_start_char (CHR ''/'') key"

text \<open>A request as the backend builds it: the token, when there is one, and nothing else yet.\<close>

definition rest_request :: "rest_backend \<Rightarrow> http_method \<Rightarrow> string \<Rightarrow> bytes \<Rightarrow> http_request" where
  "rest_request be m url body =
     \<lparr>hq_method = m, hq_url = url, hq_authorization = map_option (\<lambda>t. ''Bearer '' @ t) (rt_token be),
      hq_range = None, hq_blake2b = None, hq_body = body\<rparr>"

definition status_message :: "string \<Rightarrow> nat \<Rightarrow> string" where
  "status_message what status = what @ '': HTTP '' @ show_nat status"

text \<open>The response handlers: what a status means, then the body.\<close>

definition reject_errors :: "string \<Rightarrow> http_response \<Rightarrow> http_retry_error + unit" where
  "reject_errors what resp =
     (if hp_status resp \<ge> 400 then classify_status (hp_status resp) (status_message what (hp_status resp)) else Inr ())"

definition read_body :: "http_response \<Rightarrow> http_retry_error + bytes" where
  "read_body resp = (case hp_body resp of Inl e \<Rightarrow> Inl (BodyIo e) | Inr d \<Rightarrow> Inr d)"

definition retry_call ::
  "rest_backend \<Rightarrow> 'n http_agent \<Rightarrow> string \<Rightarrow> http_request \<Rightarrow> (http_response \<Rightarrow> http_retry_error + 'a) \<Rightarrow>
   ('n, vykar_error, 'a) io" where
  "retry_call be agent what q handle_response n =
     (case retry_http (rt_retry be) agent (ha_send agent q) handle_response n of
        (Inr a, n') \<Rightarrow> (Inr a, n')
      | (Inl e, n') \<Rightarrow> (Inl (Other (what @ '': '' @ http_retry_error_display (he_show_io agent) e)), n'))"

section \<open>The operations\<close>

definition rest_get :: "rest_backend \<Rightarrow> 'n http_agent \<Rightarrow> string \<Rightarrow> ('n, vykar_error, bytes option) io" where
  "rest_get be agent key =
     (let what = ''REST GET '' @ key in
      retry_call be agent what (rest_request be MGet (rest_url be key) []) (\<lambda>resp.
        if hp_status resp = 404 then Inr None
        else rbind (reject_errors what resp) (\<lambda>_. map_sum id Some (read_body resp))))"

definition try_extract_pack_hex :: "string \<Rightarrow> string option" where
  "try_extract_pack_hex key =
     (case strip_prefix_str key ''packs/'' of
        None \<Rightarrow> None
      | Some rest \<Rightarrow>
          if length rest < 3 then None
          else let hex = drop 3 rest in
            if length hex = 64 \<and> list_all is_ascii_hexdigit hex then Some hex else None)"

definition compute_blake2b_256_hex :: "rest_backend \<Rightarrow> bytes \<Rightarrow> string" where
  "compute_blake2b_256_hex be d = hex_encode (rt_hex be) (blake2b_256 (rt_b2 be) d)"

definition put_request :: "rest_backend \<Rightarrow> string \<Rightarrow> bytes \<Rightarrow> http_request" where
  "put_request be key data =
     (rest_request be MPut (rest_url be key) data)
       \<lparr>hq_blake2b := Some (case try_extract_pack_hex key of
                             Some h \<Rightarrow> h | None \<Rightarrow> compute_blake2b_256_hex be data)\<rparr>"

definition put_bytes :: "rest_backend \<Rightarrow> 'n http_agent \<Rightarrow> string \<Rightarrow> bytes \<Rightarrow> ('n, vykar_error, unit) io" where
  "put_bytes be agent key data =
     (let what = ''REST PUT '' @ key in retry_call be agent what (put_request be key data) (reject_errors what))"

definition rest_delete :: "rest_backend \<Rightarrow> 'n http_agent \<Rightarrow> string \<Rightarrow> ('n, vykar_error, unit) io" where
  "rest_delete be agent key =
     (let what = ''REST DELETE '' @ key in
      retry_call be agent what (rest_request be MDelete (rest_url be key) []) (\<lambda>resp.
        if hp_status resp = 404 then Inr () else reject_errors what resp))"

definition rest_exists :: "rest_backend \<Rightarrow> 'n http_agent \<Rightarrow> string \<Rightarrow> ('n, vykar_error, bool) io" where
  "rest_exists be agent key =
     (let what = ''REST HEAD '' @ key in
      retry_call be agent what (rest_request be MHead (rest_url be key) []) (\<lambda>resp.
        if hp_status resp = 404 then Inr False else rbind (reject_errors what resp) (\<lambda>_. Inr True)))"

definition extract_content_length :: "(string \<times> string) list \<Rightarrow> string \<Rightarrow> string + u64" where
  "extract_content_length headers ctx =
     (case map_of headers ''Content-Length'' of
        None \<Rightarrow> Inl (ctx @ '': response missing Content-Length header'')
      | Some val \<Rightarrow>
          (case parse_u64 val of
             None \<Rightarrow> Inl (ctx @ '': invalid Content-Length header: '' @ val)
           | Some n \<Rightarrow> Inr n))"

definition rest_size :: "rest_backend \<Rightarrow> 'n http_agent \<Rightarrow> string \<Rightarrow> ('n, vykar_error, u64 option) io" where
  "rest_size be agent key =
     (let what = ''REST HEAD '' @ key in
      retry_call be agent what (rest_request be MHead (rest_url be key) []) (\<lambda>resp.
        if hp_status resp = 404 then Inr None
        else rbind (reject_errors what resp) (\<lambda>_.
               case extract_content_length (hp_headers resp) what of
                 Inl e \<Rightarrow> Inl (Permanent e) | Inr n \<Rightarrow> Inr (Some n))))"

definition parsed :: "string \<Rightarrow> (bytes \<Rightarrow> string + 'a) \<Rightarrow> bytes \<Rightarrow> ('n, vykar_error, 'a) io" where
  "parsed what from_json body =
     (case from_json body of Inl e \<Rightarrow> io_fail (Other (what @ '' parse: '' @ e)) | Inr v \<Rightarrow> io_return v)"

definition rest_list :: "rest_backend \<Rightarrow> 'n http_agent \<Rightarrow> string \<Rightarrow> ('n, vykar_error, string list) io" where
  "rest_list be agent pre =
     (let pre' = trim_start_char (CHR ''/'') pre;
          what = ''REST LIST '' @ pre';
          url = (if pre' = [] then rt_base_url be @ ''?list'' else rest_url be pre' @ ''?list'')
      in io_bind (retry_call be agent what (rest_request be MGet url []) (\<lambda>resp.
             rbind (reject_errors what resp) (\<lambda>_. read_body resp)))
           (parsed ''REST LIST'' (rj_keys_from (rt_json be))))"

definition split_once :: "char \<Rightarrow> string \<Rightarrow> (string \<times> string) option" where
  "split_once c s =
     (case dropWhile (\<lambda>x. x \<noteq> c) s of [] \<Rightarrow> None | _ # r \<Rightarrow> Some (takeWhile (\<lambda>x. x \<noteq> c) s, r))"

definition validate_content_range :: "string \<Rightarrow> u64 \<Rightarrow> u64 \<Rightarrow> string \<Rightarrow> string + unit" where
  "validate_content_range header expected_offset expected_length key =
     (let ctx = ''REST GET_RANGE '' @ key;
          malformed = Inl (ctx @ '': malformed Content-Range header: '' @ header)
      in case strip_prefix_str header ''bytes '' of
           None \<Rightarrow> malformed
         | Some rest \<Rightarrow>
             (case split_once (CHR ''/'') rest of
                None \<Rightarrow> malformed
              | Some (range_part, all) \<Rightarrow>
                  (case split_once (CHR ''-'') range_part of
                     None \<Rightarrow> malformed
                   | Some (start_str, end_str) \<Rightarrow>
                       (case parse_u64 start_str of
                          None \<Rightarrow> Inl (ctx @ '': malformed Content-Range start: '' @ header)
                        | Some start \<Rightarrow>
                            (case parse_u64 end_str of
                               None \<Rightarrow> Inl (ctx @ '': malformed Content-Range end: '' @ header)
                             | Some end' \<Rightarrow>
                                 (case Option.bind (checked_sub_u64 end' start) (\<lambda>d. checked_add_u64 d 1) of
                                    None \<Rightarrow> Inl (ctx @ '': Content-Range overflow or end < start: '' @ header)
                                  | Some range_len \<Rightarrow>
                                      if start \<noteq> expected_offset \<or> range_len \<noteq> expected_length
                                      then Inl (ctx @ '': Content-Range mismatch: got '' @ header @ '', expected bytes ''
                                                @ show_nat (unat expected_offset) @ ''-''
                                                @ show_nat (unat (expected_offset + expected_length - 1)) @ ''/'' @ all)
                                      else Inr ()))))))"

definition range_response :: "string \<Rightarrow> u64 \<Rightarrow> u64 \<Rightarrow> http_response \<Rightarrow> http_retry_error + bytes option" where
  "range_response key off len resp =
     (let what = ''REST GET_RANGE '' @ key; status = hp_status resp in
      if status = 404 then Inr None
      else rbind (reject_errors what resp) (\<lambda>_.
        if status = 200
        then Inl (Permanent (what @ '': server returned 200 instead of 206 (Range header ignored)''))
        else if status \<noteq> 206 then Inl (Permanent (what @ '': unexpected status '' @ show_nat status))
        else case map_of (hp_headers resp) ''Content-Range'' of
               None \<Rightarrow> Inl (Permanent (what @ '': server returned 206 without Content-Range header''))
             | Some content_range \<Rightarrow>
                 (case validate_content_range content_range off len key of
                    Inl e \<Rightarrow> Inl (Permanent e)
                  | Inr _ \<Rightarrow>
                      rbind (read_body resp) (\<lambda>d.
                        let buf = take (unat len) d in
                        if length buf \<noteq> unat len then Inl (BodyIo (IoError UnexpectedEof None))
                        else Inr (Some buf)))))"

definition rest_get_range ::
  "rest_backend \<Rightarrow> 'n http_agent \<Rightarrow> string \<Rightarrow> u64 \<Rightarrow> u64 \<Rightarrow> ('n, vykar_error, bytes option) io" where
  "rest_get_range be agent key off len =
     (let what = ''REST GET_RANGE '' @ key in
      if len = 0 then io_fail (Other (what @ '': zero-length read requested''))
      else case Option.bind (checked_add_u64 off len) (\<lambda>n. checked_sub_u64 n 1) of
        None \<Rightarrow> io_fail (Other (what @ '': offset '' @ show_nat (unat off) @ '' + length ''
                                @ show_nat (unat len) @ '' overflows u64''))
      | Some end' \<Rightarrow>
          retry_call be agent what
            ((rest_request be MGet (rest_url be key) [])
               \<lparr>hq_range := Some (''bytes='' @ show_nat (unat off) @ ''-'' @ show_nat (unat end'))\<rparr>)
            (range_response key off len))"

definition rest_create_dir :: "rest_backend \<Rightarrow> 'n http_agent \<Rightarrow> string \<Rightarrow> ('n, vykar_error, unit) io" where
  "rest_create_dir be agent key =
     (let key' = trim_start_char (CHR ''/'') key; what = ''REST MKDIR '' @ key' in
      retry_call be agent what (rest_request be MPost (rest_url be key' @ ''?mkdir'') []) (reject_errors what))"

definition post_json ::
  "rest_backend \<Rightarrow> 'n http_agent \<Rightarrow> string \<Rightarrow> string \<Rightarrow> bytes \<Rightarrow> ('n, vykar_error, bytes) io" where
  "post_json be agent what query body =
     retry_call be agent what (rest_request be MPost (rt_base_url be @ query) body) (\<lambda>resp.
       rbind (reject_errors (what @ '' failed'') resp) (\<lambda>_. read_body resp))"

definition rest_repack ::
  "rest_backend \<Rightarrow> 'n http_agent \<Rightarrow> repack_plan_request \<Rightarrow> ('n, vykar_error, repack_result_response) io" where
  "rest_repack be agent plan =
     io_bind (post_json be agent ''REST repack'' ''?repack'' (rj_repack (rt_json be) plan))
       (parsed ''REST repack'' (rj_repack_from (rt_json be)))"

definition rest_verify_packs ::
  "rest_backend \<Rightarrow> 'n http_agent \<Rightarrow> verify_packs_plan_request \<Rightarrow> ('n, vykar_error, verify_packs_response) io" where
  "rest_verify_packs be agent plan =
     io_bind (post_json be agent ''REST verify-packs'' ''?verify-packs'' (rj_verify (rt_json be) plan))
       (parsed ''REST verify-packs'' (rj_verify_from (rt_json be)))"

definition rest_batch_delete ::
  "rest_backend \<Rightarrow> 'n http_agent \<Rightarrow> string list \<Rightarrow> bool \<Rightarrow> ('n, vykar_error, unit) io" where
  "rest_batch_delete be agent keys cleanup =
     (let url = rt_base_url be @ (if cleanup then ''?batch-delete&cleanup-dirs'' else ''?batch-delete'') in
      retry_call be agent ''REST batch-delete'' (rest_request be MPost url (rj_keys (rt_json be) keys)) (\<lambda>resp.
        classify_status (hp_status resp) (status_message ''REST batch-delete failed'' (hp_status resp))))"

definition rest_stats ::
  "rest_backend \<Rightarrow> 'n http_agent \<Rightarrow> (bytes \<Rightarrow> string + 'v) \<Rightarrow> ('n, vykar_error, 'v) io" where
  "rest_stats be agent from_json =
     io_bind (retry_call be agent ''REST stats'' (rest_request be MGet (rt_base_url be @ ''?stats'') []) (\<lambda>resp.
       rbind (reject_errors ''REST stats'' resp) (\<lambda>_. read_body resp)))
       (parsed ''REST stats'' from_json)"

definition rest_server_init :: "rest_backend \<Rightarrow> 'n http_agent \<Rightarrow> ('n, vykar_error, unit) io" where
  "rest_server_init be agent =
     retry_call be agent ''REST INIT'' (rest_request be MPost (rt_base_url be @ ''?init'') []) (reject_errors ''REST INIT'')"

definition rest_storage_backend :: "rest_backend \<Rightarrow> 'n http_agent \<Rightarrow> 'n storage_backend" where
  "rest_storage_backend be agent =
     \<lparr>be_get = rest_get be agent, be_put = put_bytes be agent, be_delete = rest_delete be agent,
      be_exists = rest_exists be agent, be_list = rest_list be agent, be_get_range = rest_get_range be agent,
      be_create_dir = rest_create_dir be agent, be_put_owned = put_bytes be agent, be_size = rest_size be agent,
      be_server_repack = rest_repack be agent, be_batch_delete_keys = (\<lambda>keys. rest_batch_delete be agent keys True),
      be_server_verify_packs = rest_verify_packs be agent, be_server_init = rest_server_init be agent\<rparr>"

section \<open>The server behind the network\<close>

text \<open>
  The routes of \<open>router\<close>: the repository at the root, objects below it, flags in the query.  The pieces
  in which a body arrives are a function \<open>arrival\<close> of the body.  An upload that is cut off appears as
  a request that is lost: the server drops what arrived of it with its temporary file.
\<close>

definition query_of :: "string list \<Rightarrow> repo_query" where
  "query_of flags = \<lparr>rq_stats = ''stats'' \<in> set flags, rq_verify_structure = ''verify-structure'' \<in> set flags,
     rq_init = ''init'' \<in> set flags, rq_batch_delete = ''batch-delete'' \<in> set flags,
     rq_cleanup_dirs = ''cleanup-dirs'' \<in> set flags, rq_repack = ''repack'' \<in> set flags,
     rq_verify_packs = ''verify-packs'' \<in> set flags, rq_list = ''list'' \<in> set flags\<rparr>"

definition route :: "string \<Rightarrow> (bytes \<Rightarrow> (io_error + bytes) list) \<Rightarrow> http_request \<Rightarrow> server_request option" where
  "route base arrival q =
     (case strip_prefix_str (hq_url q) base of
        None \<Rightarrow> None
      | Some target \<Rightarrow>
          (case (case split_once (CHR ''?'') target of
                   None \<Rightarrow> (target, []) | Some (p, r) \<Rightarrow> (p, split_on (CHR ''&'') r)) of
             (p, flags) \<Rightarrow>
               if p = [] \<or> p = ''/''
               then (case hq_method q of
                       MGet \<Rightarrow> Some (GetRepo (query_of flags))
                     | MPost \<Rightarrow> Some (PostRepo (query_of flags) (hq_body q))
                     | _ \<Rightarrow> None)
               else let key = drop 1 p in
                 Some (case hq_method q of
                         MGet \<Rightarrow> GetObject key (''list'' \<in> set flags) (hq_range q)
                       | MHead \<Rightarrow> HeadObject key
                       | MPut \<Rightarrow> PutObject key \<lparr>hd_content_length = Some (show_nat (length (hq_body q))),
                                               hd_blake2b = hq_blake2b q\<rparr> (arrival (hq_body q))
                       | MDelete \<Rightarrow> DeleteObject key
                       | MPost \<Rightarrow> PostObject key (''mkdir'' \<in> set flags))))"

fun wire_body :: "(resp_body \<Rightarrow> bytes) \<Rightarrow> resp_body \<Rightarrow> bytes" where
  "wire_body json EmptyBody = []"
| "wire_body json (TextBody t) = map (\<lambda>c. of_nat (of_char c)) t"
| "wire_body json (FileBody d) = d"
| "wire_body json b = json b"

definition wire_response :: "(resp_body \<Rightarrow> bytes) \<Rightarrow> response \<Rightarrow> http_response" where
  "wire_response json r =
     \<lparr>hp_status = rs_status r, hp_headers = rs_headers r, hp_body = Inr (wire_body json (rs_body r))\<rparr>"

text \<open>The answer to a request; \<open>None\<close> when a scan of the server has not ended within its depth.\<close>

definition server_exchange ::
  "string \<Rightarrow> (bytes \<Rightarrow> (io_error + bytes) list) \<Rightarrow> (resp_body \<Rightarrow> bytes) \<Rightarrow> server_lib \<Rightarrow>
   (bytes \<Rightarrow> (io_error + bytes) list) \<Rightarrow> 's server_os \<Rightarrow> nat \<Rightarrow> http_request \<Rightarrow> 's \<times> app_state \<Rightarrow>
   http_response option \<times> ('s \<times> app_state)" where
  "server_exchange base arrival json lib pieces os depth q x =
     (case route base arrival q of
        None \<Rightarrow> (Some \<lparr>hp_status = 405, hp_headers = [], hp_body = Inr []\<rparr>, x)
      | Some req \<Rightarrow>
          (case serve lib pieces os depth (hq_authorization q) req x of
             (r, y) \<Rightarrow> (map_option (wire_response json) r, y)))"

text \<open>What the client relies on: the network adds no answers of its own and repeats no request.\<close>

locale rest_network =
  fixes agent :: "'n http_agent"
    and server_of :: "'n \<Rightarrow> 'x"
    and exchange :: "http_request \<Rightarrow> 'x \<Rightarrow> http_response option \<times> 'x"
  assumes answered: "ha_send agent q n = (Inr resp, n') \<Longrightarrow>
      \<exists>resp0. exchange q (server_of n) = (Some resp0, server_of n') \<and> hp_status resp = hp_status resp0 \<and>
        hp_headers resp = hp_headers resp0 \<and> (\<forall>d. hp_body resp = Inr d \<longrightarrow> hp_body resp0 = Inr d)"
    and not_answered: "ha_send agent q n = (Inl e, n') \<Longrightarrow>
      server_of n' = server_of n \<or> server_of n' = snd (exchange q (server_of n))"
    and waits: "server_of (he_sleep agent d n) = server_of n"
    and draws: "he_random agent n = (r, n') \<Longrightarrow> server_of n' = server_of n"
begin

lemma backoff_server [simp]: "server_of (backoff agent d n) = server_of n"
  by (auto simp: backoff_def waits draws split: prod.splits)

lemma attempt_server:
  assumes "http_attempt agent (ha_send agent q) h n = (r, n')"
  shows "server_of n' = server_of n \<or> server_of n' = snd (exchange q (server_of n))"
proof -
  obtain r1 where s: "ha_send agent q n = (r1, n')"
    using assms by (auto simp: http_attempt_def split: prod.splits sum.splits)
  show ?thesis
  proof (cases r1)
    case (Inl e)
    then show ?thesis using not_answered s by blast
  next
    case (Inr resp)
    then show ?thesis using answered s by fastforce
  qed
qed

text \<open>What every exchange of a call keeps holds throughout it, and an answer the caller gets is one of the server.\<close>

lemma retry_call_server:
  assumes "retry_call be agent what q h n = (r, n')" and "P (server_of n)"
    and "\<And>x. P x \<Longrightarrow> P (snd (exchange q x))"
  shows "P (server_of n') \<and> (\<forall>a. r = Inr a \<longrightarrow>
    (\<exists>x resp resp0. P x \<and> exchange q x = (Some resp0, server_of n') \<and> h resp = Inr a \<and>
       hp_status resp = hp_status resp0 \<and> hp_headers resp = hp_headers resp0 \<and>
       (\<forall>d. hp_body resp = Inr d \<longrightarrow> hp_body resp0 = Inr d)))"
proof -
  let ?att = "http_attempt agent (ha_send agent q) h"
  obtain r1 where l: "retry_loop (rt_retry be) agent ?att (rc_max_retries (rt_retry be))
      (rc_retry_delay_ms (rt_retry be)) n = (r1, n')" and r1: "\<forall>a. r = Inr a \<longrightarrow> r1 = Inr a"
    using assms(1) by (auto simp: retry_call_def retry_http_def split: prod.splits sum.splits)
  have step: "P (server_of n1)" if "P (server_of m)" "?att m = (r', n1)" for m r' n1
    using attempt_server [OF that(2)] that(1) assms(3) by metis
  have "\<exists>n1. P (server_of n1) \<and> ?att n1 = (r1, n')"
    by (rule retry_loop_last [OF l]) (use assms(2) step in auto)
  then obtain n1 where n1: "P (server_of n1)" "?att n1 = (r1, n')" by blast
  have "\<exists>x resp resp0. P x \<and> exchange q x = (Some resp0, server_of n') \<and> h resp = Inr a \<and>
       hp_status resp = hp_status resp0 \<and> hp_headers resp = hp_headers resp0 \<and>
       (\<forall>d. hp_body resp = Inr d \<longrightarrow> hp_body resp0 = Inr d)" if "r = Inr a" for a
  proof -
    have "r1 = Inr a" using r1 that by simp
    then obtain resp where "ha_send agent q n1 = (Inr resp, n')" "h resp = Inr a"
      using n1(2) by (auto simp: http_attempt_def split: prod.splits sum.splits)
    then show ?thesis using answered n1(1) by blast
  qed
  then show ?thesis using step [OF n1] by blast
qed

end

section \<open>A network that loses messages\<close>

datatype fault = RequestLost ureq_error | AnswerLost ureq_error | BodyCut io_error | Delivered

definition deliver ::
  "(http_request \<Rightarrow> 'x \<Rightarrow> http_response option \<times> 'x) \<Rightarrow> http_request \<Rightarrow> 'x \<Rightarrow> (ureq_error + http_response) \<times> 'x" where
  "deliver exchange q x =
     (case exchange q x of (Some resp, y) \<Rightarrow> (Inr resp, y) | (None, y) \<Rightarrow> (Inl Timeout, y))"

fun lossy_send ::
  "(http_request \<Rightarrow> 'x \<Rightarrow> http_response option \<times> 'x) \<Rightarrow> http_request \<Rightarrow>
   ('x \<times> fault list, ureq_error, http_response) io" where
  "lossy_send exchange q (x, RequestLost e # fs) = (Inl e, (x, fs))"
| "lossy_send exchange q (x, AnswerLost e # fs) = (Inl e, (snd (exchange q x), fs))"
| "lossy_send exchange q (x, BodyCut e # fs) =
     (case deliver exchange q x of (r, y) \<Rightarrow> (map_sum id (\<lambda>resp. resp\<lparr>hp_body := Inl e\<rparr>) r, (y, fs)))"
| "lossy_send exchange q (x, Delivered # fs) = (case deliver exchange q x of (r, y) \<Rightarrow> (r, (y, fs)))"
| "lossy_send exchange q (x, []) = (case deliver exchange q x of (r, y) \<Rightarrow> (r, (y, [])))"

definition lossy_agent :: "(http_request \<Rightarrow> 'x \<Rightarrow> http_response option \<times> 'x) \<Rightarrow> ('x \<times> fault list) http_agent" where
  "lossy_agent exchange =
     \<lparr>he_random = (\<lambda>n. (0, n)), he_sleep = (\<lambda>d n. n), he_show_ureq = (\<lambda>e. ''transport''),
      he_show_io = (\<lambda>e. ''io''), ha_send = lossy_send exchange\<rparr>"

lemma lossy_answered:
  assumes "lossy_send exchange q n = (Inr resp, n')"
  shows "\<exists>resp0. exchange q (fst n) = (Some resp0, fst n') \<and> hp_status resp = hp_status resp0 \<and>
    hp_headers resp = hp_headers resp0 \<and> (\<forall>d. hp_body resp = Inr d \<longrightarrow> hp_body resp0 = Inr d)"
  using assms
  by (cases "(exchange, q, n)" rule: lossy_send.cases) (auto simp: deliver_def split: prod.splits option.splits)

lemma lossy_not_answered:
  assumes "lossy_send exchange q n = (Inl e, n')"
  shows "fst n' = fst n \<or> fst n' = snd (exchange q (fst n))"
  using assms
  by (cases "(exchange, q, n)" rule: lossy_send.cases) (auto simp: deliver_def split: prod.splits option.splits)

interpretation lossy: rest_network "lossy_agent (server_exchange base arrival json lib pieces os depth)" fst
    "server_exchange base arrival json lib pieces os depth" for base arrival json lib pieces os depth
  by unfold_locales (auto simp: lossy_agent_def dest: lossy_answered lossy_not_answered)

section \<open>Storing and reading over the network\<close>

text \<open>Keys that need no escaping in a URL.\<close>

definition wire_key :: "string \<Rightarrow> bool" where
  "wire_key key \<longleftrightarrow> key \<noteq> [] \<and> hd key \<noteq> CHR ''/'' \<and> list_all (\<lambda>c. c \<notin> set ''?#% '') key"

lemma split_once_None: "c \<notin> set s \<Longrightarrow> split_once c s = None"
  unfolding split_once_def by (subst dropWhile_eq_Nil_conv [THEN iffD2]) auto

lemma route_key:
  assumes "wire_key key" and "hq_url q = rest_url be key"
  shows "route (rt_base_url be) arrival q = Some (case hq_method q of
      MGet \<Rightarrow> GetObject key False (hq_range q)
    | MHead \<Rightarrow> HeadObject key
    | MPut \<Rightarrow> PutObject key \<lparr>hd_content_length = Some (show_nat (length (hq_body q))), hd_blake2b = hq_blake2b q\<rparr>
        (arrival (hq_body q))
    | MDelete \<Rightarrow> DeleteObject key
    | MPost \<Rightarrow> PostObject key False)"
proof -
  have "trim_start_char (CHR ''/'') key = key"
    using assms(1) by (cases key) (auto simp: wire_key_def trim_start_char_def)
  moreover have "split_once (CHR ''?'') (CHR ''/'' # key) = None"
    using assms(1) by (intro split_once_None) (auto simp: wire_key_def list_all_iff)
  ultimately show ?thesis
    using assms by (cases "hq_method q") (auto simp: route_def rest_url_def wire_key_def)
qed

lemma error_status_ge: "400 \<le> fst (error_status e)"
  by (cases e) simp_all

lemma serve_some_cases:
  assumes "serve lib pieces os depth auth req x = (r, y)" and "dispatch lib pieces os depth req = some_response m"
  obtains (refused) resp where "y = x" and "r = Some resp" and "rs_status resp = 401"
  | (failed) e resp where "m x = (Inl e, y)" and "r = Some resp" and "rs_status resp = fst (error_status e)"
  | (ok) resp where "m x = (Inr resp, y)" and "r = Some resp"
  using assms
  by (auto simp: serve_def Let_def some_response_def io_bind_def io_return_def split: if_splits prod.splits sum.splits)

context fs_contract
begin

lemma exchange_put:
  assumes "wire_key key" and "\<not> temp_named (key_path key)" and "\<forall>d. body_bytes (arrival d) = Some d"
    and "server_exchange (rt_base_url be) arrival json lib pieces os depth (put_request be key data) x = (r, y)"
  shows "(\<forall>p. \<not> temp_named p \<and> p \<noteq> key_path key \<longrightarrow> files (fst y) p = files (fst x) p) \<and>
    (files (fst y) (key_path key) = files (fst x) (key_path key) \<or> files (fst y) (key_path key) = Some data) \<and>
    (\<forall>resp. r = Some resp \<and> hp_status resp < 400 \<longrightarrow> files (fst y) (key_path key) = Some data)"
proof -
  let ?h = "\<lparr>hd_content_length = Some (show_nat (length data)), hd_blake2b = hq_blake2b (put_request be key data)\<rparr>"
  have rt: "route (rt_base_url be) arrival (put_request be key data) = Some (PutObject key ?h (arrival data))"
    by (subst route_key [OF assms(1)]) (simp_all add: put_request_def rest_request_def)
  obtain r0 where sv: "serve lib pieces os depth (hq_authorization (put_request be key data))
      (PutObject key ?h (arrival data)) x = (r0, y)" and r: "r = map_option (wire_response json) r0"
    using assms(4) unfolding server_exchange_def rt by (auto split: prod.splits)
  have d: "dispatch lib pieces os depth (PutObject key ?h (arrival data)) =
    some_response (put_object lib os key ?h (arrival data))" by simp
  obtain s st s' st' where xy: "x = (s, st)" "y = (s', st')" by fastforce
  from sv d show ?thesis
  proof (cases rule: serve_some_cases)
    case (refused resp)
    then show ?thesis using r by (simp add: wire_response_def)
  next
    case (failed e resp)
    have "same_objects files x y" by (rule fail_relD [OF put_object_fail failed(1)])
    then show ?thesis
      using assms(2) r failed(2,3) error_status_ge [of e] by (simp add: same_objects_def wire_response_def)
  next
    case (ok resp)
    obtain d s1 meta ex where d: "body_bytes (arrival data) = Some d" and s1: "files s1 = files s"
      and up: "uploaded files dirs lib (temp_path lib (key_path key) st) (key_path key) ?h ex (quota_limit st)
        (as_quota_usage st) (case meta of None \<Rightarrow> 0 | Some n \<Rightarrow> n) d s1 s'"
      by (rule put_object_ok [OF ok(1) [unfolded xy]])
    have "files s' q = ((files s)(key_path key \<mapsto> data)) q" if q: "\<not> temp_named q" for q
    proof -
      have "q \<noteq> temp_path lib (key_path key) st" using q temp_named_temp_path by metis
      then show ?thesis using uploaded_files [OF up, of q] s1 d assms(3) by simp
    qed
    then show ?thesis using assms(2) unfolding xy by simp
  qed
qed

lemma exchange_get:
  assumes "wire_key key"
    and "server_exchange (rt_base_url be) arrival json lib pieces os depth
      (rest_request be MGet (rest_url be key) []) x = (r, y)"
  shows "(\<forall>p. \<not> temp_named p \<longrightarrow> files (fst y) p = files (fst x) p) \<and>
    (\<forall>resp. r = Some resp \<and> hp_status resp = 404 \<longrightarrow> files (fst x) (key_path key) = None) \<and>
    (\<forall>resp d. r = Some resp \<and> hp_status resp < 400 \<and> hp_body resp = Inr d \<longrightarrow> files (fst x) (key_path key) = Some d)"
proof -
  let ?q = "rest_request be MGet (rest_url be key) []"
  have rt: "route (rt_base_url be) arrival ?q = Some (GetObject key False None)"
    by (subst route_key [OF assms(1)]) (simp_all add: rest_request_def)
  obtain r0 where sv: "serve lib pieces os depth (hq_authorization ?q) (GetObject key False None) x = (r0, y)"
    and r: "r = map_option (wire_response json) r0"
    using assms(2) unfolding server_exchange_def rt by (auto split: prod.splits)
  have d: "dispatch lib pieces os depth (GetObject key False None) =
    some_response (io_bind (require_path os key) (\<lambda>p. stream_full_read lib os p key))"
    by (auto simp: get_or_list_def some_response_def io_bind_def fun_eq_iff split: prod.splits sum.splits)
  obtain s st s' st' where xy: "x = (s, st)" "y = (s', st')" by fastforce
  have fr: "io_rel (same_objects files) (io_bind (require_path os key) (\<lambda>p. stream_full_read lib os p key))"
    unfolding stream_full_read_def by (intro io_rel_intros reader_rel) auto
  have read: "(\<exists>e s1. os_read os (key_path key) s = (Inl e, s1) \<and>
        m = Inl (if io_kind e = NotFound then NotFoundError key else server_error_from_io lib e)) \<or>
      (\<exists>d s1. os_read os (key_path key) s = (Inr d, s1) \<and>
        m = Inr \<lparr>rs_status = 200, rs_headers = [(''Content-Length'', show_nat (length d))], rs_body = FileBody d\<rparr>)"
    if run: "io_bind (require_path os key) (\<lambda>p. stream_full_read lib os p key) x = (m, y)" and ne: "m \<noteq> Inl (BadRequest ''invalid path'')"
    for m
  proof -
    obtain p where p: "file_path os s key = Some p"
      using run ne by (cases "file_path os s key") (auto simp: xy)
    then have "p = key_path key" by (simp add: file_path_def split: if_splits)
    then have full: "stream_full_read lib os (key_path key) key (s, st) = (m, y)" using run p by (simp add: xy)
    obtain rr s1 where rd: "os_read os (key_path key) s = (rr, s1)" by fastforce
    show ?thesis
      by (cases rr) (use full rd in \<open>auto simp: stream_full_read_def io_bind_def try_os_def io_fail_def io_return_def\<close>)
  qed
  from sv d show ?thesis
  proof (cases rule: serve_some_cases)
    case (refused resp)
    then show ?thesis using r by (simp add: wire_response_def)
  next
    case (failed e resp)
    have "files s (key_path key) = None" if e: "fst (error_status e) = 404"
    proof -
      have "Inl e \<noteq> Inl (BadRequest ''invalid path'')" using e by auto
      from read [OF failed(1) this] obtain e' s1 where "os_read os (key_path key) s = (Inl e', s1)"
        "e = (if io_kind e' = NotFound then NotFoundError key else server_error_from_io lib e')"
        by blast
      then show ?thesis using read_missing e by (auto simp: server_error_from_io_def split: if_splits)
    qed
    then show ?thesis
      using io_relD [OF fr failed(1)] r failed(2,3) error_status_ge [of e]
      by (simp add: same_objects_def wire_response_def xy)
  next
    case (ok resp)
    from read [OF ok(1)] obtain d s1 where "os_read os (key_path key) s = (Inr d, s1)"
      "resp = \<lparr>rs_status = 200, rs_headers = [(''Content-Length'', show_nat (length d))], rs_body = FileBody d\<rparr>"
      by blast
    then show ?thesis
      using io_relD [OF fr ok(1)] r ok(2) read_ok by (auto simp: same_objects_def wire_response_def xy)
  qed
qed

end

lemma rest_get_stored:
  assumes "rest_network agent server_of (server_exchange (rt_base_url be) arrival json lib pieces os depth)"
    and "fs_contract os files dirs" and "wire_key key" and "\<not> temp_named (key_path key)"
    and "rest_get be agent key n = (Inr v, n')" and "files (fst (server_of n)) (key_path key) = Some data"
  shows "v = Some data"
proof -
  let ?ex = "server_exchange (rt_base_url be) arrival json lib pieces os depth"
  let ?q = "rest_request be MGet (rest_url be key) []"
  let ?h = "\<lambda>resp. if hp_status resp = 404 then Inr None
    else rbind (reject_errors (''REST GET '' @ key) resp) (\<lambda>_. map_sum id Some (read_body resp))"
  define P where "P x \<longleftrightarrow> files (fst x) (key_path key) = Some data" for x :: "_ \<times> app_state"
  note eg = fs_contract.exchange_get [OF assms(2,3)]
  have run: "retry_call be agent (''REST GET '' @ key) ?q ?h n = (Inr v, n')"
    using assms(5) unfolding rest_get_def Let_def .
  have step: "P (snd (?ex ?q x))" if "P x" for x
    using eg [of be arrival json lib pieces depth x] that assms(4) unfolding P_def by (metis prod.collapse)
  have "\<exists>x resp resp0. P x \<and> ?ex ?q x = (Some resp0, server_of n') \<and> ?h resp = Inr v \<and>
      hp_status resp = hp_status resp0 \<and> hp_headers resp = hp_headers resp0 \<and>
      (\<forall>d. hp_body resp = Inr d \<longrightarrow> hp_body resp0 = Inr d)"
    using rest_network.retry_call_server [OF assms(1) run, of P] step assms(6) by (auto simp: P_def)
  then obtain x resp resp0 where x: "P x" "?ex ?q x = (Some resp0, server_of n')" "?h resp = Inr v"
    "hp_status resp = hp_status resp0" "\<forall>d. hp_body resp = Inr d \<longrightarrow> hp_body resp0 = Inr d" by blast
  note g = eg [OF x(2)]
  have "hp_status resp0 \<noteq> 404" using g x(1) unfolding P_def by auto
  then obtain d where "hp_status resp < 400" "hp_body resp = Inr d" "v = Some d"
    using x(3,4) by (auto simp: rbind_def reject_errors_def classify_status_def read_body_def split: if_splits sum.splits)
  then show ?thesis using g x(1,4,5) unfolding P_def by auto
qed

text \<open>C6: Storing over the network: whatever requests and answers are lost and retried on the way, a
  put changes no other object and leaves the object as it was or with the new contents, when it
  reports success the new contents are stored, and a read that then reports success returns them.\<close>

theorem rest_put_get:
  assumes "rest_network agent server_of (server_exchange (rt_base_url be) arrival json lib pieces os depth)"
    and "fs_contract os files dirs" and "\<forall>d. body_bytes (arrival d) = Some d"
    and "wire_key key" and "\<not> temp_named (key_path key)"
    and "put_bytes be agent key data n = (r, n1)"
  shows "(\<forall>p. \<not> temp_named p \<and> p \<noteq> key_path key \<longrightarrow> files (fst (server_of n1)) p = files (fst (server_of n)) p) \<and>
    files (fst (server_of n1)) (key_path key) \<in> {files (fst (server_of n)) (key_path key), Some data} \<and>
    (r = Inr () \<longrightarrow> files (fst (server_of n1)) (key_path key) = Some data \<and>
       (\<forall>v n2. rest_get be agent key n1 = (Inr v, n2) \<longrightarrow> v = Some data))"
proof -
  let ?ex = "server_exchange (rt_base_url be) arrival json lib pieces os depth"
  note ep = fs_contract.exchange_put [OF assms(2,4,5,3)]
  define P where "P x \<longleftrightarrow>
    (\<forall>p. \<not> temp_named p \<and> p \<noteq> key_path key \<longrightarrow> files (fst x) p = files (fst (server_of n)) p) \<and>
    files (fst x) (key_path key) \<in> {files (fst (server_of n)) (key_path key), Some data}" for x :: "_ \<times> app_state"
  have step: "P (snd (?ex (put_request be key data) x))" if "P x" for x
    using ep [of be json lib pieces depth data x] that unfolding P_def by (metis insert_iff prod.collapse singletonD)
  from assms(6) have run: "retry_call be agent (''REST PUT '' @ key) (put_request be key data)
      (reject_errors (''REST PUT '' @ key)) n = (r, n1)" unfolding put_bytes_def Let_def .
  have P: "P (server_of n1)" "\<forall>a. r = Inr a \<longrightarrow> (\<exists>x resp resp0. P x \<and>
      ?ex (put_request be key data) x = (Some resp0, server_of n1) \<and> reject_errors (''REST PUT '' @ key) resp = Inr a \<and>
      hp_status resp = hp_status resp0 \<and> hp_headers resp = hp_headers resp0 \<and>
      (\<forall>d. hp_body resp = Inr d \<longrightarrow> hp_body resp0 = Inr d))"
    using rest_network.retry_call_server [OF assms(1) run, of P] step by (auto simp: P_def)
  have stored: "files (fst (server_of n1)) (key_path key) = Some data" if "r = Inr ()"
  proof -
    from P(2) that obtain x resp resp0 where "?ex (put_request be key data) x = (Some resp0, server_of n1)"
      "reject_errors (''REST PUT '' @ key) resp = Inr ()" "hp_status resp = hp_status resp0" by blast
    then show ?thesis
      using ep [of be json lib pieces depth data x "Some resp0" "server_of n1"]
      by (auto simp: reject_errors_def classify_status_def split: if_splits)
  qed
  have "v = Some data" if r: "r = Inr ()" and g: "rest_get be agent key n1 = (Inr v, n2)" for v n2
    by (rule rest_get_stored [OF assms(1,2,4,5) g stored [OF r]])
  then show ?thesis using P(1) stored unfolding P_def by blast
qed

definition wit_json :: rest_json where
  "wit_json = \<lparr>rj_keys = (\<lambda>ks. []), rj_repack = (\<lambda>p. []), rj_verify = (\<lambda>p. []), rj_keys_from = (\<lambda>b. Inr []),
     rj_repack_from = (\<lambda>b. Inl ''json''), rj_verify_from = (\<lambda>b. Inl ''json'')\<rparr>"

definition wit_rest :: rest_backend where
  "wit_rest = rest_new ''https://host/'' (Some ''secret'') \<lparr>rc_max_retries = 2, rc_retry_delay_ms = 10, rc_retry_max_delay_ms = 60\<rparr>
     (sl_b2 wit_server_lib) (sl_hex wit_server_lib) wit_json"

abbreviation wit_exchange :: "http_request \<Rightarrow> mem_fs \<times> app_state \<Rightarrow> http_response option \<times> (mem_fs \<times> app_state)" where
  "wit_exchange \<equiv> server_exchange (rt_base_url wit_rest) (\<lambda>d. [Inr d]) (\<lambda>b. []) wit_server_lib (\<lambda>d. [Inr d]) memory_os 5"

definition wit_open_state :: app_state where
  "wit_open_state = wit_app_state\<lparr>as_append_only := False\<rparr>"

lemma wit_rest_put:
  "put_bytes wit_rest (lossy_agent wit_exchange) ''snapshots/a'' [7, 8, 9]
     ((wit_fs, wit_open_state), [RequestLost ConnectionFailed, AnswerLost Timeout]) =
   (Inr (), ((wit_fs_after, wit_open_state\<lparr>as_quota_usage := 5, as_last_backup_at := Some 0, as_temp_counter := 2\<rparr>), []))"
  by code_simp

lemma wit_arrival: "\<forall>d. body_bytes [Inr d] = Some d"
  by simp

theorem rest_put_get_witness:
  "map_of (fst (fst ((wit_fs_after, wit_open_state\<lparr>as_quota_usage := 5, as_last_backup_at := Some 0,
      as_temp_counter := 2\<rparr>), [] :: fault list))) (key_path ''snapshots/a'') = Some [7, 8, 9]"
proof -
  have "wire_key ''snapshots/a''" "\<not> temp_named (key_path ''snapshots/a'')" by code_simp+
  from rest_put_get [OF lossy.rest_network_axioms mem_fs.fs_contract_axioms wit_arrival this wit_rest_put]
  show ?thesis by blast
qed

section \<open>Outages\<close>

lemma lossy_send_eq: "ha_send (lossy_agent ex) = lossy_send ex"
  by (simp add: lossy_agent_def)

lemma lossy_request_lost:
  assumes "list_all is_retryable_transport es" and "http_attempt (lossy_agent ex) (lossy_send ex q) h (x, []) = (Inr a, (y, []))"
  shows "clears_after config (lossy_agent ex) (http_attempt (lossy_agent ex) (lossy_send ex q) h) (length es) d
    (x, map RequestLost es) a (y, [])"
  using assms(1)
proof (induction es arbitrary: d)
  case Nil
  then show ?case using assms(2) by simp
next
  case (Cons e es)
  have "backoff (lossy_agent ex) d n = n" for d n by (simp add: backoff_def lossy_agent_def)
  then show ?case using Cons by (auto simp: http_attempt_def)
qed

text \<open>C7: An outage that ends in time is survived: when at most as many attempts as the configuration
  allows to repeat are lost on the way to the server, each with a transient transport error, and the
  server then accepts the object, the put reports success with the object stored exactly once.\<close>

theorem put_survives_outage:
  assumes "list_all is_retryable_transport es" and "length es \<le> rc_max_retries (rt_retry be)"
    and "server_exchange (rt_base_url be) arrival json lib pieces os depth (put_request be key data) x = (Some resp, y)"
    and "hp_status resp < 400"
  shows "put_bytes be (lossy_agent (server_exchange (rt_base_url be) arrival json lib pieces os depth)) key data
      (x, map RequestLost es) = (Inr (), (y, []))"
proof -
  let ?ex = "server_exchange (rt_base_url be) arrival json lib pieces os depth"
  let ?att = "http_attempt (lossy_agent ?ex) (lossy_send ?ex (put_request be key data)) (reject_errors (''REST PUT '' @ key))"
  have "?att (x, []) = (Inr (), (y, []))"
    using assms(3,4) by (simp add: http_attempt_def deliver_def reject_errors_def)
  from retry_loop_clears [OF lossy_request_lost [OF assms(1) this] assms(2)]
  show ?thesis
    unfolding put_bytes_def Let_def retry_call_def retry_http_def lossy_send_eq by simp
qed

theorem put_survives_outage_witness:
  "put_bytes wit_rest (lossy_agent wit_exchange) ''snapshots/a'' [7, 8, 9]
     ((wit_fs, wit_app_state), map RequestLost [Timeout, HostNotFound]) = (Inr (), ((wit_fs_after, wit_app_after), []))"
proof -
  have "list_all is_retryable_transport [Timeout, HostNotFound]"
    "length [Timeout, HostNotFound] \<le> rc_max_retries (rt_retry wit_rest)"
    by code_simp+
  moreover have "wit_exchange (put_request wit_rest ''snapshots/a'' [7, 8, 9]) (wit_fs, wit_app_state) =
    (Some \<lparr>hp_status = 201, hp_headers = [], hp_body = Inr []\<rparr>, (wit_fs_after, wit_app_after))"
    by code_simp
  ultimately show ?thesis by (rule put_survives_outage) simp
qed

text \<open>
  The limit of this: in append-only mode a put whose answer is lost is refused when it is repeated,
  so the client reports a failure although the object is stored.
\<close>

lemma append_only_retry_refused:
  "put_bytes wit_rest (lossy_agent wit_exchange) ''snapshots/a'' [7, 8, 9] ((wit_fs, wit_app_state), [AnswerLost Timeout]) =
   (Inl (Other ''REST PUT snapshots/a: REST PUT snapshots/a: HTTP 403''), ((wit_fs_after, wit_app_after), []))"
  by code_simp

end
