(* ===== verification/Spec2Isabelle.thy ===== *)
theory Spec2Isabelle
  imports Object_Format Compress Dedup_Cache Repo_Lock Retention Reading Durability Compact_Safety Rest_Backend
begin

text \<open>
  A verification library for \<^emph>\<open>vykar\<close>, a deduplicating, encrypting backup tool.

  \<^bold>\<open>The program.\<close>  A repository is a set of keys in a storage backend (\<open>vykar-storage\<close>).  A client
  (\<open>vykar-core\<close>) cuts files into chunks, names each chunk by a keyed hash, compresses and encrypts
  it (\<open>vykar-crypto\<close>), appends it to a pack and uploads packs in the background; a chunk index maps
  chunks to packs and counts references.  Commits run under an advisory lock that is itself a set
  of keys.  A server (\<open>vykar-server\<close>) may hold the storage and speaks the protocol of
  \<open>vykar-protocol\<close>.

  \<^bold>\<open>Conventions.\<close>  Theory \<open>Prelude\<close> holds them.  \<open>u8\<close>, \<open>u32\<close> and \<open>u64\<close> are words that wrap as
  in a release build; \<open>usize\<close> is \<open>nat\<close>.  A \<open>HashMap\<close> is an association list with distinct keys
  (\<open>hmap\<close>), an error a value of \<open>vykar_error\<close>, a panic the error \<open>Panicked\<close>.  An operation with
  effects is a function from the state of the machine to a result and a new state (\<open>io\<close>); state
  of the repository handle or the write session travels beside it (\<open>repo_io\<close>, \<open>ws_io\<close>).  Clocks,
  random bytes, thread states, codecs, AEAD, Argon2, BLAKE2 and MessagePack are parameters
  (\<open>system\<close>, \<open>repo_lib\<close> and the records they are made of); what the proofs need of them is a named
  hypothesis or the assumption of a locale, and every such locale is interpreted on a definition of
  the development.

  \<^bold>\<open>Theories and the code they model.\<close>
  \<^item> \<open>Types\<close>: \<open>vykar-types\<close>, identifiers, storage keys, errors.
  \<^item> \<open>Protocol\<close>: \<open>vykar-protocol/src/lib.rs\<close>, key grammar and request validation.  The key a client
    derives for a pack is the key the server accepts.
  \<^item> \<open>Storage\<close>: the trait \<open>StorageBackend\<close> as the record \<open>storage_backend\<close>, its default methods, the
    memory backend of \<open>testutil.rs\<close>, and the locale \<open>storage_contract\<close> that says what clients rely on.
  \<^item> \<open>Crypto\<close>, \<open>Object_Format\<close>, \<open>Compress\<close>: the engines and the wrapped master key, the typed and
    context-bound envelope of \<open>repo/format.rs\<close>, the tagged payloads of \<open>compress/mod.rs\<close>.  The
    lemmas are round trips, separation of contexts and bounds on decompression.
  \<^item> \<open>Chunk_Index\<close>: \<open>index/mod.rs\<close>.  A delta that is reconciled and applied adds to every chunk
    exactly the references the delta recorded; rollback undoes.
  \<^item> \<open>Dedup_Cache\<close>: \<open>index/dedup_cache.rs\<close>, the binary caches on disk, the sorted merge and the
    tiered index.  A cache file answers as the index it was written from.
  \<^item> \<open>Pack\<close>: \<open>repo/pack.rs\<close>, the writer, the on-disk layout and the scanner.
  \<^item> \<open>Repo_Lock\<close>: \<open>repo/lock.rs\<close>, locks, sessions, fences and stale cleanup over any backend that
    satisfies the contract (\<open>client_storage\<close>).  The lock excludes, the fence outlasts the cleanup, and
    the session cleanup removes exactly the markers that are not live and the journals without one.
  \<^item> \<open>Retention\<close>: \<open>repo/manifest.rs\<close>, \<open>prune.rs\<close> and the retention section of the configuration.
    What a policy keeps lies between two readings of its bucket rules, which agree for a single rule.
  \<^item> \<open>Write_Session\<close>, \<open>Repository\<close>: \<open>repo/write_session.rs\<close> and \<open>repo/mod.rs\<close>, storing, flushing,
    checkpoints, loading and persisting the index, reading.  \<open>store_session\<close> runs a whole session:
    begin, recovery, any sequence of stores, flush.
  \<^item> \<open>Reading\<close>, \<open>Recovery\<close>, \<open>Durability\<close>: the properties of those operations that need longer
    arguments: coalesced reads against chunk-by-chunk reads, what recovery may resurrect, that a journal
    which was written is taken over by the next session, and that a flushed session leaves every pack
    it names in the storage.
  \<^item> \<open>File_Cache\<close>: \<open>snapshot/item.rs\<close> and \<open>repo/file_cache.rs\<close>, the records of a snapshot, the cache of
    unchanged files and the index of a parent snapshot.  A file is reused only with the chunks that were
    recorded for the same path and metadata.
  \<^item> \<open>Commit\<close>: \<open>repo/snapshot_cache.rs\<close> and, of \<open>repo/mod.rs\<close>, \<open>save_state\<close>, the local caches and the
    commit of a concurrent session.  Cache files are read and written through \<open>sy_cache_read\<close> and
    \<open>sy_cache_write\<close> of the machine, which need not keep what they were given.
  \<^item> \<open>Persistence\<close>: what these operations leave in the storage however they end, in the locale
    \<open>repo_machine\<close>; \<open>stored_index\<close> is the index another client would load.
  \<^item> \<open>Maintenance\<close>: \<open>commands/list.rs\<close>, \<open>snapshot_ops.rs\<close>, \<open>delete.rs\<close>, \<open>prune.rs\<close> and the lock of
    \<open>util.rs\<close>.  Deleting a snapshot takes exactly its references off the index and never before its
    object is gone.
  \<^item> \<open>Compact\<close>: \<open>commands/compact.rs\<close>, analysis, selection and the two ways to repack.
    \<open>Compact_Safety\<close>: however the client's repack ends, the index in the storage finds every chunk it
    found before.
  \<^item> \<open>Server_State\<close>, \<open>Server_Objects\<close>, \<open>Server_Admin\<close>, \<open>Server_Safety\<close>: \<open>vykar-server\<close>, the state with
    its quota, the object endpoints, the repository endpoints with the server-side repack and the pack
    verification, and the router.  The file system is a record of operations (\<open>fs_contract\<close>).
    Append-only mode keeps objects, the quota counts what is stored, a repack keeps the blobs.
  \<^item> \<open>Http_Retry\<close>, \<open>Rest_Backend\<close>: \<open>retry.rs\<close>, \<open>http_util.rs\<close> and \<open>rest_backend.rs\<close>, the REST client and
    its retry loop, composed with the modelled server over a network that loses requests or answers
    (\<open>rest_network\<close>).

  \<^bold>\<open>Loops.\<close>  Loops over data are structural recursion or \<open>function\<close> with a termination proof, so
  no fuel is used; the retry loop of the lock takes the list of waiting readings it consumes, and
  the retry loop of the REST client counts its attempts down from the configured maximum.  The walk over
  a directory tree of the server takes the depth of the tree as its bound, which \<open>start_up_returns\<close>
  shows to be enough.

  \<^bold>\<open>Not modelled.\<close>  The local, S3 and SFTP backends (they are the parameter of the storage
  contract), threads (an upload runs when it is joined; the order is arbitrary), the FastCDC
  chunker, floating-point pack sizing, opening and creating a repository, the walk over the files of a
  backup, the check and restore commands, YAML decoding, hooks, FUSE and WebDAV mounts, the command
  line and the graphical interface.  They are input and output around the operations above or code
  of other packages.
\<close>

end
